(* ===== verification/Prelude.thy ===== *)
theory Prelude
  imports Main "HOL-Library.Word" "HOL-Library.Monad_Syntax"
begin

text \<open>
  Shared vocabulary of the development: the machine types of the sources (\<open>u_int32_t\<close>,
  \<open>u_int64_t\<close>, \<open>int64_t\<close>), the C shift operators with their undefined cases, the counting
  \<open>for\<close> loop, \<open>(int)log2((double)x)\<close>, and the generic list and word lemmas that the component
  theories use. Undefined behaviour of the C++ code (a shift by 32 or more, an array access
  out of range, a cast of minus infinity) is the value \<^term>\<open>None\<close>.
\<close>

section \<open>Machine types\<close>

type_synonym u32 = "32 word"
type_synonym u64 = "64 word"

text \<open>The character that ends a C string, and the one that ends a line\<close>

abbreviation NUL :: char where "NUL \<equiv> CHR 0x00"
abbreviation newline :: char where "newline \<equiv> CHR 0x0A"

named_theorems wf_simps \<open>rewrite rules that evaluate an operation on a well-formed state\<close>
named_theorems inv_intros \<open>introduction rules for the component invariants\<close>

section \<open>C shift operators on 32-bit unsigned operands\<close>

definition shl32 :: "u32 \<Rightarrow> nat \<Rightarrow> u32 option" where
  "shl32 x n = (if n < 32 then Some (push_bit n x) else None)"

definition shr32 :: "u32 \<Rightarrow> nat \<Rightarrow> u32 option" where
  "shr32 x n = (if n < 32 then Some (drop_bit n x) else None)"

section \<open>The integer part of the binary logarithm\<close>

fun ilog2 :: "nat \<Rightarrow> nat" where
  "ilog2 n = (if n \<le> 1 then 0 else Suc (ilog2 (n div 2)))"

declare ilog2.simps [simp del]

definition log2_int :: "u32 \<Rightarrow> nat option" where
  "log2_int x = (if x = 0 then None else Some (ilog2 (unat x)))"

lemma ilog2_bounds: "0 < n \<Longrightarrow> 2 ^ ilog2 n \<le> n \<and> n < 2 ^ Suc (ilog2 n)"
proof (induction n rule: ilog2.induct)
  case (1 n)
  show ?case
  proof (cases "n \<le> 1")
    case True
    with "1.prems" show ?thesis by (simp add: ilog2.simps)
  next
    case False
    with "1.IH" have "2 ^ ilog2 (n div 2) \<le> n div 2" "n div 2 < 2 ^ Suc (ilog2 (n div 2))"
      by simp_all
    with False show ?thesis by (auto simp: ilog2.simps [of n])
  qed
qed

lemma ilog2_power [simp]: "ilog2 (2 ^ k) = k"
proof (induction k)
  case 0
  show ?case by (simp add: ilog2.simps)
next
  case (Suc k)
  have "(1::nat) < 2 ^ Suc k" by (rule one_less_power) simp_all
  then have "\<not> (2::nat) ^ Suc k \<le> 1" by (simp only: not_le)
  then show ?case using Suc by (subst ilog2.simps) simp
qed

lemma ilog2_less: "0 < n \<Longrightarrow> n < 2 ^ k \<Longrightarrow> ilog2 n < k"
  using ilog2_bounds [of n] by (meson le_less_trans nat_power_less_imp_less zero_less_numeral)

lemma ilog2_u32: "x \<noteq> 0 \<Longrightarrow> ilog2 (unat (x :: u32)) < 32"
  using ilog2_less [of "unat x" 32] unsigned_less [of x]
  by (simp add: unat_gt_0)

section \<open>Counting loops\<close>

text \<open>\<open>for(int i = 0; i < n; ++i) body\<close> on a state that the body updates.\<close>

definition for_loop :: "nat \<Rightarrow> (nat \<Rightarrow> 's \<Rightarrow> 's) \<Rightarrow> 's \<Rightarrow> 's" where
  "for_loop n body s = fold body [0..<n] s"

lemma for_loop_0 [simp]: "for_loop 0 f s = s"
  by (simp add: for_loop_def)

lemma for_loop_Suc [simp]: "for_loop (Suc n) f s = f n (for_loop n f s)"
  by (simp add: for_loop_def)

lemma for_loop_induct [consumes 0, case_names init step]:
  assumes "P 0 s" and "\<And>i t. i < n \<Longrightarrow> P i t \<Longrightarrow> P (Suc i) (f i t)"
  shows "P n (for_loop n f s)"
proof -
  have "m \<le> n \<Longrightarrow> P m (for_loop m f s)" for m
    by (induction m) (auto simp: assms)
  then show ?thesis by blast
qed

lemma map_upt_update: "m < n \<Longrightarrow> (map f [0..<n])[m := x] = map (f(m := x)) [0..<n]"
  by (rule nth_equalityI) (auto simp: nth_list_update)

text \<open>A loop whose body rewrites only the element it stands at is a pointwise map.\<close>

lemma for_loop_pointwise:
  assumes "n \<le> length xs"
  shows "length (for_loop n (\<lambda>i ys. ys[i := g i (ys ! i)]) xs) = length xs \<and>
    (\<forall>j < length xs. for_loop n (\<lambda>i ys. ys[i := g i (ys ! i)]) xs ! j =
       (if j < n then g j (xs ! j) else xs ! j))"
  using assms
proof (induction n)
  case 0
  show ?case by simp
next
  case (Suc n)
  then show ?case by (auto simp: nth_list_update less_Suc_eq)
qed

text \<open>\<open>for(int i = 0; i < n; ++i) if(p(i)) \<dots> break;\<close> finds the first index that satisfies \<open>p\<close>.\<close>

fun find_from :: "(nat \<Rightarrow> bool) \<Rightarrow> nat \<Rightarrow> nat \<Rightarrow> nat option" where
  "find_from p i 0 = None"
| "find_from p i (Suc k) = (if p i then Some i else find_from p (Suc i) k)"

definition find_first :: "(nat \<Rightarrow> bool) \<Rightarrow> nat \<Rightarrow> nat option" where
  "find_first p n = find_from p 0 n"

lemma find_from_None: "find_from p i k = None \<longleftrightarrow> (\<forall>j. i \<le> j \<longrightarrow> j < i + k \<longrightarrow> \<not> p j)"
proof (induction k arbitrary: i)
  case 0
  show ?case by auto
next
  case (Suc k)
  have "(\<forall>j. i \<le> j \<longrightarrow> j < i + Suc k \<longrightarrow> \<not> p j) \<longleftrightarrow>
      \<not> p i \<and> (\<forall>j. Suc i \<le> j \<longrightarrow> j < Suc i + k \<longrightarrow> \<not> p j)"
    by (auto simp: Suc_le_eq) (metis le_neq_implies_less)
  with Suc show ?case by simp
qed

lemma find_from_Some:
  "find_from p i k = Some j \<Longrightarrow> i \<le> j \<and> j < i + k \<and> p j \<and> (\<forall>m. i \<le> m \<longrightarrow> m < j \<longrightarrow> \<not> p m)"
proof (induction k arbitrary: i)
  case 0
  then show ?case by simp
next
  case (Suc k)
  show ?case
  proof (cases "p i")
    case True
    with Suc.prems show ?thesis by auto
  next
    case False
    with Suc.prems have "find_from p (Suc i) k = Some j" by simp
    from Suc.IH [OF this] False show ?thesis
      by (auto simp: Suc_le_eq) (metis le_neq_implies_less)
  qed
qed

lemma find_first_None: "find_first p n = None \<longleftrightarrow> (\<forall>j < n. \<not> p j)"
  by (auto simp: find_first_def find_from_None)

lemma find_first_SomeD: "find_first p n = Some j \<Longrightarrow> j < n \<and> p j \<and> (\<forall>m < j. \<not> p m)"
  by (auto simp: find_first_def dest: find_from_Some)

lemma find_first_ex:
  assumes "i < n" and "p i"
  obtains j where "find_first p n = Some j" "j < n" "p j" "\<And>m. m < j \<Longrightarrow> \<not> p m"
proof (cases "find_first p n")
  case None
  with assms show ?thesis by (auto simp: find_first_None)
next
  case (Some j)
  with that show ?thesis by (auto dest: find_first_SomeD)
qed

lemma find_first_cong: "(\<And>j. j < n \<Longrightarrow> p j = q j) \<Longrightarrow> find_first p n = find_first q n"
proof -
  assume eq: "\<And>j. j < n \<Longrightarrow> p j = q j"
  have "i + k \<le> n \<Longrightarrow> find_from p i k = find_from q i k" for i k
    by (induction k arbitrary: i) (auto simp: eq)
  then show ?thesis by (simp add: find_first_def)
qed

section \<open>Conversions between 32 and 64 bits\<close>

lemma unat_ucast_up: "unat (ucast (w :: u32) :: u64) = unat w"
proof -
  have "unat w < 2 ^ 64" using unsigned_less [of w, where 'a = nat] by simp
  then show ?thesis by (simp add: unsigned_ucast_eq take_bit_nat_eq_self)
qed

lemma unat_ucast_down: "unat (ucast (x :: u64) :: u32) = unat x mod 2 ^ 32"
  by (simp add: unsigned_ucast_eq take_bit_eq_mod)

lemma unat_of_nat_small: "n < 2 ^ LENGTH('l) \<Longrightarrow> unat (of_nat n :: 'l :: len word) = n"
  by (simp add: unat_of_nat)

lemma unat_pow2: "k < LENGTH('l) \<Longrightarrow> unat (2 ^ k :: 'l :: len word) = 2 ^ k"
  using unat_of_nat_small [of "2 ^ k", where 'l = 'l] by simp

lemma unat_drop_bit_div: "unat (drop_bit k w) = unat w div 2 ^ k"
  by (metis drop_bit_eq_div unsigned_drop_bit_eq unsigned_take_bit_eq take_bit_length_eq)

end
