(* ===== verification/MathxModel.thy ===== *)
theory MathxModel
  imports Prelude "HOL-Library.Multiset"
begin

text \<open>
  The statistics of the profiler (\<open>src/cse220/Micro-Bench/code/Profiler/Mathx.h\<close>). The template
  parameters are type variables: the items of a container are mapped by a selector to values of a
  linearly ordered type. Floating-point arithmetic is a parameter (\<open>fp\<close>), because rounding is
  not modelled. \<open>std::sort\<close> and \<open>std::nth_element\<close> order the items by the selected values; the
  value found at a position after either of them is the value at that position of the sorted
  list. \<^term>\<open>None\<close> is undefined behaviour or a failed assertion.
\<close>

section \<open>Operations\<close>

record 'd fp =
  fp_int :: "int \<Rightarrow> 'd"
  fp_add :: "'d \<Rightarrow> 'd \<Rightarrow> 'd"
  fp_mult :: "'d \<Rightarrow> 'd \<Rightarrow> 'd"
  fp_div :: "'d \<Rightarrow> 'd \<Rightarrow> 'd"
  fp_trunc :: "'d \<Rightarrow> int"
  fp_show :: "'d \<Rightarrow> string"

definition Mean :: "'d fp \<Rightarrow> 'a list \<Rightarrow> ('a \<Rightarrow> 'd) \<Rightarrow> 'd" where
  "Mean F container sel =
     (let (v, count) = foldl (\<lambda>(v, n) x. (fp_add F v (sel x), n + 1)) (fp_int F 0, 0 :: nat) container
      in fp_div F v (fp_int F (int count)))"

text \<open>The selected value at position \<open>n\<close> of the ordered container.\<close>

definition nth_value :: "'a list \<Rightarrow> ('a \<Rightarrow> 'v :: linorder) \<Rightarrow> nat \<Rightarrow> 'v option" where
  "nth_value xs sel n = (if n < length xs then Some (sel (sort_key sel xs ! n)) else None)"

definition Median :: "'v :: linorder \<Rightarrow> 'a list \<Rightarrow> ('a \<Rightarrow> 'v) \<Rightarrow> 'v option" where
  "Median zero container sel =
     (if container = [] then Some zero else nth_value container sel (length container div 2))"

definition Minimum :: "'a list \<Rightarrow> ('a \<Rightarrow> 'v :: linorder) \<Rightarrow> 'v option" where
  "Minimum container sel = nth_value container sel 0"

definition Maximum :: "'a list \<Rightarrow> ('a \<Rightarrow> 'v :: linorder) \<Rightarrow> 'v option" where
  "Maximum container sel = (if container = [] then None else nth_value container sel (length container - 1))"

text \<open>\<open>percentile * container2.size() / 100\<close> is computed in the 32-bit \<open>size_type\<close>.\<close>

definition percentile_index :: "int \<Rightarrow> nat \<Rightarrow> nat" where
  "percentile_index percentile n = unat ((of_int percentile :: u32) * of_nat n div 100)"

definition Percentile :: "'v :: linorder \<Rightarrow> 'a list \<Rightarrow> ('a \<Rightarrow> 'v) \<Rightarrow> int \<Rightarrow> 'v option" where
  "Percentile zero container sel percentile =
     (if \<not> (percentile \<le> 100 \<and> percentile \<ge> 0) then None
      else if percentile = 100 then Maximum container sel
      else if percentile = 0 then Minimum container sel
      else if percentile = 50 then Median zero container sel
      else if container = [] then Some zero
      else nth_value container sel (percentile_index percentile (length container)))"

section \<open>Order statistics\<close>

lemma map_sort_key: "map sel (sort_key sel xs) = sort (map sel xs)"
proof (rule sym, rule properties_for_sort)
  show "mset (map sel (sort_key sel xs)) = mset (map sel xs)" by simp
  show "sorted (map sel (sort_key sel xs))" by simp
qed

lemma nth_value_eq: "n < length xs \<Longrightarrow> nth_value xs sel n = Some (sort (map sel xs) ! n)"
  by (simp add: nth_value_def flip: map_sort_key)

text \<open>How many values are below and above the \<open>n\<close>-th value.\<close>

lemma count_below:
  assumes "sorted ys" "n < length ys"
  shows "length (filter (\<lambda>v. v < ys ! n) ys) \<le> n" "length (filter (\<lambda>v. ys ! n < v) ys) \<le> length ys - Suc n"
proof -
  have s: "ys = take n ys @ drop n ys" by simp
  have hi: "\<forall>v \<in> set (drop n ys). \<not> v < ys ! n"
  proof
    fix v assume "v \<in> set (drop n ys)"
    then obtain k where "k < length ys - n" "v = ys ! (n + k)" by (auto simp: in_set_conv_nth)
    then show "\<not> v < ys ! n" using sorted_nth_mono [OF assms(1), of n "n + k"] by (simp add: not_less)
  qed
  have "length (filter (\<lambda>v. v < ys ! n) ys) =
      length (filter (\<lambda>v. v < ys ! n) (take n ys)) + length (filter (\<lambda>v. v < ys ! n) (drop n ys))"
    by (metis s filter_append length_append)
  also have "filter (\<lambda>v. v < ys ! n) (drop n ys) = []" using hi by (simp add: filter_empty_conv)
  finally show "length (filter (\<lambda>v. v < ys ! n) ys) \<le> n"
    using length_filter_le [of "\<lambda>v. v < ys ! n" "take n ys"] assms(2) by simp
  have lo: "\<forall>v \<in> set (take (Suc n) ys). \<not> ys ! n < v"
  proof
    fix v assume "v \<in> set (take (Suc n) ys)"
    then obtain k where "k < Suc n" "v = ys ! k" using assms(2) by (auto simp: in_set_conv_nth)
    then show "\<not> ys ! n < v" using sorted_nth_mono [OF assms(1), of k n] assms(2) by auto
  qed
  have s': "ys = take (Suc n) ys @ drop (Suc n) ys" by simp
  have "length (filter (\<lambda>v. ys ! n < v) ys) =
      length (filter (\<lambda>v. ys ! n < v) (take (Suc n) ys)) + length (filter (\<lambda>v. ys ! n < v) (drop (Suc n) ys))"
    by (metis s' filter_append length_append)
  also have "filter (\<lambda>v. ys ! n < v) (take (Suc n) ys) = []" using lo by (simp add: filter_empty_conv)
  finally show "length (filter (\<lambda>v. ys ! n < v) ys) \<le> length ys - Suc n"
    using length_filter_le [of "\<lambda>v. ys ! n < v" "drop (Suc n) ys"] by simp
qed

lemma filter_sort_length: "length (filter p (sort xs)) = length (filter p xs)"
  by (simp add: filter_sort)

lemma nth_value_rank:
  assumes "nth_value xs sel n = Some v"
  shows "v \<in> sel ` set xs" "length (filter (\<lambda>x. sel x < v) xs) \<le> n"
    "length (filter (\<lambda>x. v < sel x) xs) \<le> length xs - Suc n"
proof -
  have n: "n < length xs" using assms by (auto simp: nth_value_def split: if_splits)
  then have v: "v = sort (map sel xs) ! n" using assms by (simp add: nth_value_eq)
  have "v \<in> set (sort (map sel xs))" unfolding v using n by (intro nth_mem) simp
  then show "v \<in> sel ` set xs" by simp
  note c = count_below [of "sort (map sel xs)" n]
  have "length (filter (\<lambda>x. x < v) (sort (map sel xs))) \<le> n" using c(1) n by (simp add: v)
  then show "length (filter (\<lambda>x. sel x < v) xs) \<le> n"
    by (simp add: filter_sort_length filter_map o_def)
  have "length (filter (\<lambda>x. v < x) (sort (map sel xs))) \<le> length xs - Suc n" using c(2) n by (simp add: v)
  then show "length (filter (\<lambda>x. v < sel x) xs) \<le> length xs - Suc n"
    by (simp add: filter_sort_length filter_map o_def)
qed

lemma percentile_index_eq:
  assumes "0 \<le> p" "p < 100" "0 < n" "n < 2 ^ 25"
  shows "percentile_index p n = nat p * n div 100" "percentile_index p n < n"
proof -
  obtain k where p: "p = int k" "k < 100" using assms(1,2) by (metis nonneg_int_cases of_nat_less_numeral_iff)
  have "k * n < 100 * 2 ^ 25" using p(2) assms(4) by (intro mult_strict_mono') auto
  then have "k * n < 2 ^ 32" by simp
  then have "unat (of_nat k * of_nat n :: u32) = k * n"
    by (simp add: unat_word_ariths unat_of_nat mod_mult_eq)
  then show eq: "percentile_index p n = nat p * n div 100"
    by (simp add: percentile_index_def p(1) unat_div_distrib)
  have "k * n < 100 * n" using p(2) assms(3) by simp
  then show "percentile_index p n < n" unfolding eq using p by (simp add: less_mult_imp_div_less mult.commute)
qed

lemma sort_nth_0:
  assumes "xs \<noteq> []"
  shows "sort xs ! 0 = Min (set xs)"
proof (rule Min_eqI [symmetric])
  fix y assume "y \<in> set xs"
  then have "y \<in> set (sort xs)" by simp
  then obtain i where "i < length (sort xs)" "y = sort xs ! i" by (metis in_set_conv_nth)
  then show "sort xs ! 0 \<le> y" by (simp add: sorted_nth_mono)
next
  have "sort xs ! 0 \<in> set (sort xs)" using assms by (intro nth_mem) simp
  then show "sort xs ! 0 \<in> set xs" by simp
qed simp

lemma sort_nth_last:
  assumes "xs \<noteq> []"
  shows "sort xs ! (length xs - 1) = Max (set xs)"
proof (rule Max_eqI [symmetric])
  fix y assume "y \<in> set xs"
  then have "y \<in> set (sort xs)" by simp
  then obtain i where "i < length (sort xs)" "y = sort xs ! i" by (metis in_set_conv_nth)
  then show "y \<le> sort xs ! (length xs - 1)" by (simp add: sorted_nth_mono)
next
  have "sort xs ! (length xs - 1) \<in> set (sort xs)" using assms by (intro nth_mem) simp
  then show "sort xs ! (length xs - 1) \<in> set xs" by simp
qed simp

lemma Minimum_eq: "xs \<noteq> [] \<Longrightarrow> Minimum xs sel = Some (Min (set (map sel xs)))"
  using sort_nth_0 [of "map sel xs"] by (simp add: Minimum_def nth_value_eq)

lemma Maximum_eq: "xs \<noteq> [] \<Longrightarrow> Maximum xs sel = Some (Max (set (map sel xs)))"
  using sort_nth_last [of "map sel xs"] by (simp add: Maximum_def nth_value_eq)

lemma Median_eq: "xs \<noteq> [] \<Longrightarrow> Median z xs sel = Some (sort (map sel xs) ! (length xs div 2))"
  by (simp add: Median_def nth_value_eq)

section \<open>Percentiles\<close>

text \<open>Every percentile is the value at a position close to its share of the container.\<close>

lemma Percentile_position:
  assumes "xs \<noteq> []" "length xs < 2 ^ 25" "0 \<le> p" "p \<le> 100"
  shows "\<exists>k < length xs. Percentile z xs sel p = nth_value xs sel k \<and> 100 * k \<le> nat p * length xs \<and> nat p * length xs \<le> 100 * Suc k"
proof -
  let ?n = "length xs"
  have n: "0 < ?n" using assms(1) by simp
  consider "p = 100" | "p = 0" | "p = 50" | "p \<noteq> 100" "p \<noteq> 0" "p \<noteq> 50" by blast
  then show ?thesis
  proof cases
    case 1
    then show ?thesis using n assms(1) by (intro exI [of _ "?n - 1"]) (simp add: Percentile_def Maximum_def)
  next
    case 2
    then show ?thesis using n by (intro exI [of _ 0]) (simp add: Percentile_def Minimum_def)
  next
    case 3
    then show ?thesis using n assms(1) by (intro exI [of _ "?n div 2"]) (simp add: Percentile_def Median_def)
  next
    case 4
    then have p: "p < 100" using assms(4) by simp
    note i = percentile_index_eq [OF assms(3) p n assms(2)]
    have "100 * (nat p * ?n div 100) \<le> nat p * ?n" by simp
    moreover have "a \<le> 100 * Suc (a div 100)" for a :: nat
      using div_mult_mod_eq [of a 100] mod_less_divisor [of 100 a] by simp
    ultimately show ?thesis using 4 i assms(1,3,4)
      by (intro exI [of _ "percentile_index p ?n"]) (simp add: Percentile_def)
  qed
qed

text \<open>
  C39: \<open>Mathx::Percentile\<close> is a percentile. For a container of fewer than \<open>2 ^ 25\<close> items, for which the
  32-bit index arithmetic does not wrap around, and every percentile from 0 to 100 the function
  returns the value of an item such that at most \<open>p\<close> per cent of the items have a smaller and at
  most \<open>100 - p\<close> per cent a larger value; this includes the minimum, the median and the maximum,
  to which it delegates.
\<close>

theorem percentile_rank:
  assumes "xs \<noteq> []" "length xs < 2 ^ 25" "0 \<le> p" "p \<le> 100"
  shows "\<exists>v. Percentile z xs sel p = Some v \<and> v \<in> sel ` set xs \<and>
    100 * length (filter (\<lambda>x. sel x < v) xs) \<le> nat p * length xs \<and>
    100 * length (filter (\<lambda>x. v < sel x) xs) \<le> nat (100 - p) * length xs"
proof -
  obtain k where k: "k < length xs" "Percentile z xs sel p = nth_value xs sel k"
    "100 * k \<le> nat p * length xs" "nat p * length xs \<le> 100 * Suc k"
    using Percentile_position [OF assms] by blast
  obtain v where v: "nth_value xs sel k = Some v" using k(1) by (simp add: nth_value_def)
  note r = nth_value_rank [OF v]
  have "nat (100 - p) * length xs = 100 * length xs - nat p * length xs"
    using assms(3,4) by (simp add: nat_diff_distrib diff_mult_distrib)
  moreover have "100 * length (filter (\<lambda>x. v < sel x) xs) \<le> 100 * length xs - 100 * Suc k" 
    using mult_le_mono2 [OF r(3), of 100] by (simp only: diff_mult_distrib2)
  ultimately have "100 * length (filter (\<lambda>x. v < sel x) xs) \<le> nat (100 - p) * length xs"
    using diff_le_mono2 [OF k(4), of "100 * length xs"] by linarith
  moreover have "100 * length (filter (\<lambda>x. sel x < v) xs) \<le> nat p * length xs"
    using order_trans [OF mult_le_mono2 [OF r(2), of 100] k(3)] .
  ultimately show ?thesis using k(2) v r(1) by auto
qed

theorem percentile_rank_witness:
  "\<exists>v. Percentile 0 [5, 1, 4, 2, 3 :: int] (\<lambda>x. x) 90 = Some v \<and> v \<in> (\<lambda>x. x) ` set [5, 1, 4, 2, 3] \<and>
    100 * length (filter (\<lambda>x. x < v) [5, 1, 4, 2, 3]) \<le> nat 90 * length [5, 1, 4, 2, 3 :: int] \<and>
    100 * length (filter (\<lambda>x. v < x) [5, 1, 4, 2, 3]) \<le> nat (100 - 90) * length [5, 1, 4, 2, 3 :: int]"
  by (rule percentile_rank) simp_all

end
