(* ===== verification/Stopwatch.thy ===== *)
theory Stopwatch
  imports MathxModel
begin

text \<open>
  The stopwatch of the profiler (\<open>StopwatchStack.h\<close>, \<open>.inl\<close>, \<open>.cpp\<close>). Ticks are signed 64-bit
  words; a clock reading comes from the world \<open>'w\<close>, the state of everything outside the program,
  through a function \<open>rdtsc\<close> that is an argument. A tag is a pointer into a string literal: the
  literal and an offset, or null. The stack has its top at the head of the list. \<^term>\<open>None\<close> is a
  failed assertion. The critical section is created and never used.
\<close>

type_synonym tick = "64 word"

datatype tag = NoTag | Tag string nat

record 'd stopwatch =
  sw_maxDepth :: nat
  sw_stack :: "(tick \<times> tag) list"
  sw_tagHistorySize :: nat
  sw_tagHistory :: "tag \<Rightarrow> tick list option"
  sw_useWin32Kernel :: bool
  sw_ticksPerSecond :: tick
  sw_ticksPerSecondFP :: 'd
  sw_ticksPerMillisecondFP :: 'd
  sw_ticksPerMicrosecondFP :: 'd
  sw_overheadSimple :: tick
  sw_overheadNested :: tick

type_synonym 'w clock = "'w \<Rightarrow> tick \<times> 'w"

section \<open>Operations\<close>

text \<open>
  The constructor, in the build with \<open>DISABLE_WIN32_PERFORMANCE_TIMER\<close>: \<open>mhz\<close> is what the
  registry says; the product \<open>mhz * 1000 * 1000\<close> is computed in 32 bits.
\<close>

definition new_stopwatch :: "'d fp \<Rightarrow> nat \<Rightarrow> nat \<Rightarrow> bool \<Rightarrow> u32 \<Rightarrow> 'd stopwatch option" where
  "new_stopwatch F reservationSize tagHistorySize useWin32Kernel mhz =
     (if useWin32Kernel then None
      else
        let tps = (ucast (mhz * 1000 * 1000) :: tick);
            tpsFP = fp_int F (sint tps)
        in Some \<lparr>sw_maxDepth = reservationSize, sw_stack = [], sw_tagHistorySize = tagHistorySize,
             sw_tagHistory = (\<lambda>_. None), sw_useWin32Kernel = useWin32Kernel, sw_ticksPerSecond = tps,
             sw_ticksPerSecondFP = tpsFP, sw_ticksPerMillisecondFP = fp_div F tpsFP (fp_int F 1000),
             sw_ticksPerMicrosecondFP = fp_div F tpsFP (fp_mult F (fp_int F 1000) (fp_int F 1000)),
             sw_overheadSimple = 0, sw_overheadNested = 0\<rparr>)"

definition TicksToSeconds :: "'d fp \<Rightarrow> 'd stopwatch \<Rightarrow> tick \<Rightarrow> 'd" where
  "TicksToSeconds F sw ticks = fp_div F (fp_int F (sint ticks)) (sw_ticksPerSecondFP sw)"

definition TicksToMilliseconds :: "'d fp \<Rightarrow> 'd stopwatch \<Rightarrow> tick \<Rightarrow> 'd" where
  "TicksToMilliseconds F sw ticks = fp_div F (fp_int F (sint ticks)) (sw_ticksPerMillisecondFP sw)"

definition TicksToMicroseconds :: "'d fp \<Rightarrow> 'd stopwatch \<Rightarrow> tick \<Rightarrow> 'd" where
  "TicksToMicroseconds F sw ticks = fp_div F (fp_int F (sint ticks)) (sw_ticksPerMicrosecondFP sw)"

definition MillisecondsToTicks :: "'d fp \<Rightarrow> 'd stopwatch \<Rightarrow> 'd \<Rightarrow> tick" where
  "MillisecondsToTicks F sw milliseconds =
     of_int (fp_trunc F (fp_mult F milliseconds (sw_ticksPerMillisecondFP sw)))"

definition PushWithValue :: "tag \<Rightarrow> tick \<Rightarrow> 'd stopwatch \<Rightarrow> 'd stopwatch" where
  "PushWithValue tag v sw =
     (if sw_maxDepth sw \<le> length (sw_stack sw) then sw else sw\<lparr>sw_stack := (v, tag) # sw_stack sw\<rparr>)"

definition Push :: "'w clock \<Rightarrow> tag \<Rightarrow> 'd stopwatch \<Rightarrow> 'w \<Rightarrow> 'd stopwatch \<times> 'w" where
  "Push rdtsc tag sw w =
     (if sw_maxDepth sw \<le> length (sw_stack sw) then (sw, w)
      else case rdtsc w of (t, w') \<Rightarrow> (sw\<lparr>sw_stack := (t, tag) # sw_stack sw\<rparr>, w'))"

definition Read :: "'w clock \<Rightarrow> 'w \<Rightarrow> tick \<times> 'w" where
  "Read rdtsc w = rdtsc w"

definition StoreResultWithTag :: "tick \<Rightarrow> tag \<Rightarrow> 'd stopwatch \<Rightarrow> 'd stopwatch" where
  "StoreResultWithTag result tag sw =
     (if sw_tagHistorySize sw = 0 then sw
      else
        let history = (case sw_tagHistory sw tag of Some h \<Rightarrow> h | None \<Rightarrow> []);
            history1 = (if length history \<ge> sw_tagHistorySize sw then tl history else history)
        in sw\<lparr>sw_tagHistory := (sw_tagHistory sw)(tag := Some (history1 @ [result]))\<rparr>)"

text \<open>What \<open>Pop\<close> and \<open>PopWithValue\<close> do with the entry they take and the time.\<close>

definition finish_entry :: "tick \<times> tag \<Rightarrow> tick \<Rightarrow> 'd stopwatch \<Rightarrow> tick \<times> 'd stopwatch" where
  "finish_entry entry v sw =
     (let delta = v - fst entry
      in (delta, if snd entry \<noteq> NoTag then StoreResultWithTag delta (snd entry) sw else sw))"

definition Pop :: "'w clock \<Rightarrow> 'd stopwatch \<Rightarrow> 'w \<Rightarrow> tick \<times> 'd stopwatch \<times> 'w" where
  "Pop rdtsc sw w =
     (case rdtsc w of (t, w') \<Rightarrow>
        (case sw_stack sw of
           [] \<Rightarrow> (0, sw, w')
         | entry # rest \<Rightarrow> (case finish_entry entry t (sw\<lparr>sw_stack := rest\<rparr>) of (delta, sw') \<Rightarrow> (delta, sw', w'))))"

definition PopWithValue :: "tag \<Rightarrow> tick \<Rightarrow> 'd stopwatch \<Rightarrow> (tick \<times> 'd stopwatch) option" where
  "PopWithValue tag v sw =
     (case sw_stack sw of
        [] \<Rightarrow> Some (0, sw)
      | entry # rest \<Rightarrow>
          if snd entry = tag then Some (finish_entry entry v (sw\<lparr>sw_stack := rest\<rparr>)) else None)"

definition GetTagHistory :: "tag \<Rightarrow> 'd stopwatch \<Rightarrow> tick list" where
  "GetTagHistory tag sw = (case sw_tagHistory sw tag of Some h \<Rightarrow> h | None \<Rightarrow> [])"

definition ResetTagHistory :: "tag \<Rightarrow> 'd stopwatch \<Rightarrow> 'd stopwatch" where
  "ResetTagHistory tag sw =
     (case sw_tagHistory sw tag of None \<Rightarrow> sw
      | Some _ \<Rightarrow> sw\<lparr>sw_tagHistory := (sw_tagHistory sw)(tag := None)\<rparr>)"

definition GetOverheadSimpleAsTicks :: "'d stopwatch \<Rightarrow> tick" where
  "GetOverheadSimpleAsTicks sw = sw_overheadSimple sw"

definition GetOverheadSimpleAsMicroSeconds :: "'d fp \<Rightarrow> 'd stopwatch \<Rightarrow> 'd" where
  "GetOverheadSimpleAsMicroSeconds F sw = TicksToMicroseconds F sw (sw_overheadSimple sw)"

text \<open>The measuring loop \<open>for (i = 0; i < n; ++i) { Push(tag); Pop(); }\<close> and the overhead.\<close>

fun overhead_loop :: "'w clock \<Rightarrow> tag \<Rightarrow> nat \<Rightarrow> 'd stopwatch \<Rightarrow> 'w \<Rightarrow> 'd stopwatch \<times> 'w" where
  "overhead_loop rdtsc tag 0 sw w = (sw, w)"
| "overhead_loop rdtsc tag (Suc n) sw w =
     (case Push rdtsc tag sw w of (sw1, w1) \<Rightarrow>
      (case Pop rdtsc sw1 w1 of (_, sw2, w2) \<Rightarrow> overhead_loop rdtsc tag n sw2 w2))"

text \<open>Ticks are compared as signed numbers.\<close>

definition CalculateOverheadSimple :: "'w clock \<Rightarrow> 'd stopwatch \<Rightarrow> 'w \<Rightarrow> ('d stopwatch \<times> 'w) option" where
  "CalculateOverheadSimple rdtsc sw w =
     (let tag = Tag ''Measurement Overhead'' 0;
          (sw1, w1) = overhead_loop rdtsc tag 50000 sw w
      in case Minimum (GetTagHistory tag sw1) sint of
           None \<Rightarrow> None
         | Some median \<Rightarrow> Some (sw1\<lparr>sw_overheadSimple := of_int median\<rparr>, w1))"

definition CalculateOverheadNested :: "'d stopwatch \<Rightarrow> 'd stopwatch option" where
  "CalculateOverheadNested sw = None"

section \<open>The invariant\<close>

text \<open>The stack is never deeper than reserved, and no history longer than configured.\<close>

definition sw_ok :: "'d stopwatch \<Rightarrow> bool" where
  "sw_ok sw \<longleftrightarrow> length (sw_stack sw) \<le> sw_maxDepth sw \<and>
     (\<forall>tag h. sw_tagHistory sw tag = Some h \<longrightarrow> length h \<le> sw_tagHistorySize sw)"

definition keep_last :: "nat \<Rightarrow> 'a list \<Rightarrow> 'a list" where
  "keep_last n xs = drop (length xs - n) xs"

lemma length_keep_last [simp]: "length (keep_last n xs) = min n (length xs)"
  by (simp add: keep_last_def)

lemma keep_last_all: "length xs \<le> n \<Longrightarrow> keep_last n xs = xs"
  by (simp add: keep_last_def)

lemma keep_last_snoc: "keep_last n (keep_last n xs @ [x]) = keep_last n (xs @ [x])"
proof (cases "length xs < n")
  case True
  then show ?thesis by (simp add: keep_last_all)
next
  case False
  then show ?thesis by (cases n) (simp_all add: keep_last_def not_less Suc_diff_le Suc_diff_Suc Suc_le_eq)
qed

lemma keep_last_append: "keep_last n (keep_last n xs @ ys) = keep_last n (xs @ ys)"
proof (induction ys rule: rev_induct)
  case (snoc y ys)
  show ?case by (metis snoc keep_last_snoc append_assoc)
qed (simp add: keep_last_def)

lemma GetTagHistory_length: "sw_ok sw \<Longrightarrow> length (GetTagHistory tag sw) \<le> sw_tagHistorySize sw"
  by (auto simp: sw_ok_def GetTagHistory_def split: option.split)

lemma Store_fields [simp]:
  "sw_stack (StoreResultWithTag r tag sw) = sw_stack sw"
  "sw_maxDepth (StoreResultWithTag r tag sw) = sw_maxDepth sw"
  "sw_tagHistorySize (StoreResultWithTag r tag sw) = sw_tagHistorySize sw"
  "sw_overheadSimple (StoreResultWithTag r tag sw) = sw_overheadSimple sw"
  "sw_ticksPerMicrosecondFP (StoreResultWithTag r tag sw) = sw_ticksPerMicrosecondFP sw"
  "sw_ticksPerSecondFP (StoreResultWithTag r tag sw) = sw_ticksPerSecondFP sw"
  "sw_ticksPerMillisecondFP (StoreResultWithTag r tag sw) = sw_ticksPerMillisecondFP sw"
  by (simp_all add: StoreResultWithTag_def Let_def)

lemma Store_eq:
  "StoreResultWithTag r tag sw =
     (if sw_tagHistorySize sw = 0 then sw
      else let h = GetTagHistory tag sw in
        sw\<lparr>sw_tagHistory := (sw_tagHistory sw)
          (tag := Some ((if sw_tagHistorySize sw \<le> length h then tl h else h) @ [r]))\<rparr>)"
  by (simp add: StoreResultWithTag_def GetTagHistory_def Let_def)

lemma history_step:
  assumes "length h \<le> n" "n \<noteq> 0"
  shows "(if n \<le> length h then tl h else h) @ [r] = keep_last n (h @ [r])"
  using assms by (cases h) (auto simp: keep_last_def)

lemma Store_history:
  assumes "sw_ok sw"
  shows "GetTagHistory t (StoreResultWithTag r tag sw) =
    (if t = tag then keep_last (sw_tagHistorySize sw) (GetTagHistory tag sw @ [r]) else GetTagHistory t sw)"
proof (cases "sw_tagHistorySize sw = 0")
  case True
  then show ?thesis using GetTagHistory_length [OF assms, of tag] by (simp add: Store_eq keep_last_def)
next
  case False
  then show ?thesis using history_step [OF GetTagHistory_length [OF assms, of tag] False, of r]
    unfolding Store_eq Let_def by (auto simp: GetTagHistory_def [of t])
qed

lemma Store_ok:
  assumes "sw_ok sw"
  shows "sw_ok (StoreResultWithTag r tag sw)"
proof (cases "sw_tagHistorySize sw = 0")
  case False
  have "length (keep_last (sw_tagHistorySize sw) (GetTagHistory tag sw @ [r])) \<le> sw_tagHistorySize sw" by simp
  then show ?thesis using assms False history_step [OF GetTagHistory_length [OF assms, of tag] False, of r]
    unfolding Store_eq Let_def sw_ok_def by (auto split: if_splits)
qed (simp add: assms Store_eq)

text \<open>A sequence of stored results keeps the last ones in the order they came.\<close>

definition store_all :: "tag \<Rightarrow> tick list \<Rightarrow> 'd stopwatch \<Rightarrow> 'd stopwatch" where
  "store_all tag ds sw = fold (\<lambda>d. StoreResultWithTag d tag) ds sw"

lemma store_all_simps [simp]:
  "store_all tag [] sw = sw"
  "store_all tag (d # ds) sw = store_all tag ds (StoreResultWithTag d tag sw)"
  by (simp_all add: store_all_def)

lemma store_all_append: "store_all tag (ds @ es) sw = store_all tag es (store_all tag ds sw)"
  by (simp add: store_all_def)

lemma store_all_fields [simp]:
  "sw_stack (store_all tag ds sw) = sw_stack sw" "sw_maxDepth (store_all tag ds sw) = sw_maxDepth sw"
  "sw_tagHistorySize (store_all tag ds sw) = sw_tagHistorySize sw"
  "sw_overheadSimple (store_all tag ds sw) = sw_overheadSimple sw"
  "sw_ticksPerMicrosecondFP (store_all tag ds sw) = sw_ticksPerMicrosecondFP sw"
  "sw_ticksPerSecondFP (store_all tag ds sw) = sw_ticksPerSecondFP sw"
  "sw_ticksPerMillisecondFP (store_all tag ds sw) = sw_ticksPerMillisecondFP sw"
  by (induction ds arbitrary: sw) simp_all

lemma store_all_ok: "sw_ok sw \<Longrightarrow> sw_ok (store_all tag ds sw)"
  by (induction ds arbitrary: sw) (simp_all add: Store_ok)

lemma store_all_history:
  "sw_ok sw \<Longrightarrow> GetTagHistory t (store_all tag ds sw) =
    (if t = tag then keep_last (sw_tagHistorySize sw) (GetTagHistory tag sw @ ds) else GetTagHistory t sw)"
proof (induction ds arbitrary: sw)
  case Nil
  then show ?case using GetTagHistory_length [of sw tag] by (simp add: keep_last_all)
next
  case (Cons d ds)
  then show ?case
    using keep_last_append [of "sw_tagHistorySize sw" "GetTagHistory tag sw @ [d]" ds]
    by (simp add: Store_ok Store_history)
qed

section \<open>One measurement\<close>

text \<open>
  \<open>Push(tag); ...; Pop()\<close> with room on the stack leaves the stack as it was and stores the time
  between the two clock readings.
\<close>

lemma push_pop:
  assumes "Push rdtsc tag sw w = (sw1, w1)" "Pop rdtsc sw1 w2 = (d, sw2, w3)"
    and "length (sw_stack sw) < sw_maxDepth sw" "tag \<noteq> NoTag"
  shows "sw2 = StoreResultWithTag d tag sw" "d = fst (rdtsc w2) - fst (rdtsc w)"
    "w1 = snd (rdtsc w)" "w3 = snd (rdtsc w2)"
  using assms by (auto simp: Push_def Pop_def finish_entry_def Let_def split: prod.splits)

text \<open>The times between back-to-back readings: what a series of empty measurements should record.\<close>

fun intervals :: "'w clock \<Rightarrow> nat \<Rightarrow> 'w \<Rightarrow> tick list \<times> 'w" where
  "intervals rdtsc 0 w = ([], w)"
| "intervals rdtsc (Suc n) w =
     (let (t0, w1) = rdtsc w; (t1, w2) = rdtsc w1; (ds, w') = intervals rdtsc n w2 in ((t1 - t0) # ds, w'))"

lemma length_intervals [simp]: "length (fst (intervals rdtsc n w)) = n"
  by (induction n arbitrary: w) (simp_all add: Let_def split_beta)

lemma overhead_loop_store:
  assumes "length (sw_stack sw) < sw_maxDepth sw" "tag \<noteq> NoTag"
  shows "overhead_loop rdtsc tag n sw w = (store_all tag (fst (intervals rdtsc n w)) sw, snd (intervals rdtsc n w))"
  using assms
proof (induction n arbitrary: sw w)
  case (Suc n)
  obtain sw1 w1 where p: "Push rdtsc tag sw w = (sw1, w1)" by force
  obtain d sw2 w2 where q: "Pop rdtsc sw1 w1 = (d, sw2, w2)" by (metis prod_cases3)
  note pp = push_pop [OF p q Suc.prems]
  show ?case using Suc.IH [of sw2 w2] Suc.prems p q pp by (simp add: split_beta)
qed simp

section \<open>Nested measurements\<close>

text \<open>
  A program of properly nested measurements, run on the stopwatch, and what it should record: for each
  measurement, inner ones first, the tag and the time between its own two readings.
\<close>

datatype meas = Meas tag "meas list"

fun run_meas :: "'w clock \<Rightarrow> meas \<Rightarrow> 'd stopwatch \<times> 'w \<Rightarrow> 'd stopwatch \<times> 'w" where
  "run_meas rdtsc (Meas tag ms) (sw, w) =
     (case fold (run_meas rdtsc) ms (Push rdtsc tag sw w) of (sw1, w1) \<Rightarrow>
      (case Pop rdtsc sw1 w1 of (_, sw2, w2) \<Rightarrow> (sw2, w2)))"

fun ideal :: "'w clock \<Rightarrow> meas \<Rightarrow> (tag \<times> tick) list \<times> 'w \<Rightarrow> (tag \<times> tick) list \<times> 'w" where
  "ideal rdtsc (Meas tag ms) (log, w) =
     (case rdtsc w of (t0, w0) \<Rightarrow>
      (case fold (ideal rdtsc) ms (log, w0) of (log1, w1) \<Rightarrow>
       (case rdtsc w1 of (t1, w2) \<Rightarrow> (log1 @ [(tag, t1 - t0)], w2))))"

fun depth :: "meas \<Rightarrow> nat" where
  "depth (Meas tag ms) = Suc (foldr (\<lambda>m d. max (depth m) d) ms 0)"

fun tagged :: "meas \<Rightarrow> bool" where
  "tagged (Meas tag ms) = (tag \<noteq> NoTag \<and> (\<forall>m \<in> set ms. tagged m))"

definition store_log :: "(tag \<times> tick) list \<Rightarrow> 'd stopwatch \<Rightarrow> 'd stopwatch" where
  "store_log log sw = fold (\<lambda>(t, d). StoreResultWithTag d t) log sw"

lemma store_log_simps [simp]:
  "store_log [] sw = sw" "store_log (log @ [(t, d)]) sw = StoreResultWithTag d t (store_log log sw)"
  by (simp_all add: store_log_def)

lemma store_log_fields [simp]:
  "sw_stack (store_log log sw) = sw_stack sw" "sw_maxDepth (store_log log sw) = sw_maxDepth sw"
  by (induction log rule: rev_induct) (auto simp: store_log_def)

lemma store_log_stack: "store_log log (sw\<lparr>sw_stack := st\<rparr>) = (store_log log sw)\<lparr>sw_stack := st\<rparr>"
proof (induction log rule: rev_induct)
  case (snoc e log)
  then show ?case by (cases e) (simp add: StoreResultWithTag_def Let_def)
qed simp

lemma depth_le: "m \<in> set ms \<Longrightarrow> depth m \<le> foldr (\<lambda>m d. max (depth m) d) ms 0"
  by (induction ms) auto

lemma run_ideal:
  assumes "tagged m" "depth m + length (sw_stack sw) \<le> sw_maxDepth sw" "ideal rdtsc m (log, w) = (log', w')"
  shows "run_meas rdtsc m (store_log log sw, w) = (store_log log' sw, w')"
  using assms
proof (induction m arbitrary: sw log w log' w')
  case (Meas tag ms)
  obtain t0 w0 where t0: "rdtsc w = (t0, w0)" by force
  obtain log1 w1 where l1: "fold (ideal rdtsc) ms (log, w0) = (log1, w1)" by force
  obtain t1 w2 where t1: "rdtsc w1 = (t1, w2)" by force
  let ?sw = "sw\<lparr>sw_stack := (t0, tag) # sw_stack sw\<rparr>"
  have room: "Suc (foldr (\<lambda>m d. max (depth m) d) ms 0) + length (sw_stack sw) \<le> sw_maxDepth sw"
    using Meas.prems(2) by simp
  have inner: "fold (run_meas rdtsc) ns (store_log l ?sw, v) = (store_log l' ?sw, v')"
    if "set ns \<subseteq> set ms" "fold (ideal rdtsc) ns (l, v) = (l', v')" for ns l v l' v'
    using that
  proof (induction ns arbitrary: l v)
    case (Cons n ns)
    obtain l2 v2 where 2: "ideal rdtsc n (l, v) = (l2, v2)" by force
    have n: "n \<in> set ms" using Cons.prems(1) by simp
    have "depth n + length (sw_stack ?sw) \<le> sw_maxDepth ?sw" using depth_le [OF n] room by simp
    moreover have "tagged n" using Meas.prems(1) n by simp
    ultimately have "run_meas rdtsc n (store_log l ?sw, v) = (store_log l2 ?sw, v2)"
      using Meas.IH [OF n] 2 by blast
    then show ?case using Cons 2 by simp
  qed simp
  have push: "Push rdtsc tag (store_log log sw) w = (store_log log ?sw, w0)"
    using room t0 by (simp add: Push_def store_log_stack)
  have restore: "(store_log log1 ?sw)\<lparr>sw_stack := sw_stack sw\<rparr> = store_log log1 sw"
    by (simp add: store_log_stack [symmetric])
  have "log' = log1 @ [(tag, t1 - t0)]" "w' = w2" using Meas.prems(3) t0 l1 t1 by simp_all
  moreover have "Pop rdtsc (store_log log1 ?sw) w1 = (t1 - t0, store_log (log1 @ [(tag, t1 - t0)]) sw, w2)"
    using t1 Meas.prems(1) restore by (simp add: Pop_def finish_entry_def Let_def)
  ultimately show ?case using push inner [OF order_refl l1] by simp
qed

lemma store_log_ok: "sw_ok sw \<Longrightarrow> sw_ok (store_log log sw)"
  by (induction log rule: rev_induct) (auto simp: Store_ok store_log_def)

lemma store_log_fields2 [simp]: "sw_tagHistorySize (store_log log sw) = sw_tagHistorySize sw"
  by (induction log rule: rev_induct) (auto simp: store_log_def)

lemma store_log_history:
  assumes "sw_ok sw"
  shows "GetTagHistory t (store_log log sw) =
    keep_last (sw_tagHistorySize sw) (GetTagHistory t sw @ map snd (filter (\<lambda>e. fst e = t) log))"
proof (induction log rule: rev_induct)
  case Nil
  show ?case using GetTagHistory_length [OF assms, of t] by (simp add: keep_last_all)
next
  case (snoc e log)
  obtain u d where e: "e = (u, d)" by force
  show ?case using Store_history [OF store_log_ok [OF assms], of t d u log] snoc
    keep_last_append [of "sw_tagHistorySize sw" "GetTagHistory t sw @ map snd (filter (\<lambda>e. fst e = t) log)" "[d]"]
    by (cases "t = u") (simp_all add: e)
qed

text \<open>
  C14: nested measurements. When measurements are properly nested, each under some tag, and not
  nested deeper than the free places of the stack, running them leaves the stack as it was, and
  the history of every tag is extended, in the order in which the measurements ended, by exactly
  the times between the two clock readings of each measurement with this tag, and then cut to the
  last \<open>_tagHistorySize\<close> entries.
\<close>

theorem nested_measurements:
  assumes "tagged m" "depth m + length (sw_stack sw) \<le> sw_maxDepth sw" "sw_ok sw"
    and "ideal rdtsc m ([], w) = (log, w')" "run_meas rdtsc m (sw, w) = (sw', w'')"
  shows "w'' = w' \<and> sw_stack sw' = sw_stack sw \<and>
    (\<forall>t. GetTagHistory t sw' = keep_last (sw_tagHistorySize sw) (GetTagHistory t sw @ map snd (filter (\<lambda>e. fst e = t) log)))"
  using run_ideal [OF assms(1,2,4)] assms(5) store_log_history [OF assms(3)] by auto

theorem nested_measurements_witness:
  "\<exists>sw sw' w''. new_stopwatch \<lparr>fp_int = (\<lambda>i. i), fp_add = (+), fp_mult = (*), fp_div = (div), fp_trunc = (\<lambda>i. i), fp_show = (\<lambda>i :: int. [])\<rparr>
      2 10 False 1000 = Some sw \<and>
    run_meas (\<lambda>w :: nat. (of_nat (w * w), w + 1)) (Meas (Tag ''a'' 0) [Meas (Tag ''b'' 0) [], Meas (Tag ''b'' 0) []]) (sw, 0) = (sw', w'') \<and>
    GetTagHistory (Tag ''b'' 0) sw' = [3, 7] \<and> GetTagHistory (Tag ''a'' 0) sw' = [25] \<and> sw_stack sw' = []"
proof -
  let ?F = "\<lparr>fp_int = (\<lambda>i. i), fp_add = (+), fp_mult = (*), fp_div = (div), fp_trunc = (\<lambda>i. i), fp_show = (\<lambda>i :: int. [])\<rparr>"
  let ?m = "Meas (Tag ''a'' 0) [Meas (Tag ''b'' 0) [], Meas (Tag ''b'' 0) []]" and ?c = "\<lambda>w :: nat. (of_nat (w * w) :: tick, w + 1)"
  obtain sw where sw: "new_stopwatch ?F 2 10 False 1000 = Some sw" "sw_stack sw = []" "sw_maxDepth sw = 2"
    "sw_tagHistorySize sw = 10" "sw_tagHistory sw = (\<lambda>_. None)" by (simp add: new_stopwatch_def Let_def)
  then have ok: "sw_ok sw" "GetTagHistory t sw = []" for t by (simp_all add: sw_ok_def GetTagHistory_def)
  obtain sw' w'' where r: "run_meas ?c ?m (sw, 0) = (sw', w'')" by force
  have i: "ideal ?c ?m ([], 0) = ([(Tag ''b'' 0, 3), (Tag ''b'' 0, 7), (Tag ''a'' 0, 25)], 6)"
    by (simp add: numeral_eq_Suc)
  have "w'' = 6 \<and> sw_stack sw' = sw_stack sw \<and> (\<forall>t. GetTagHistory t sw' = keep_last (sw_tagHistorySize sw)
      (GetTagHistory t sw @ map snd (filter (\<lambda>e. fst e = t) [(Tag ''b'' 0, 3), (Tag ''b'' 0, 7), (Tag ''a'' 0, 25)])))"
    using nested_measurements [OF _ _ ok(1) i r] sw(2,3) by simp
  then show ?thesis using sw r ok by (intro exI [of _ sw] exI [of _ sw'] exI [of _ w'']) (simp add: keep_last_def)
qed

section \<open>A concrete stopwatch\<close>

text \<open>Of a processor of one gigahertz, with integers for floating-point numbers, for the examples.\<close>

definition int_fp :: "int fp" where
  "int_fp = \<lparr>fp_int = (\<lambda>i. i), fp_add = (+), fp_mult = (*), fp_div = (div), fp_trunc = (\<lambda>i. i),
     fp_show = (\<lambda>i. if i < 0 then ''-'' else ''+'')\<rparr>"

definition demo_sw :: "int stopwatch" where
  "demo_sw = \<lparr>sw_maxDepth = 100, sw_stack = [], sw_tagHistorySize = 1000, sw_tagHistory = (\<lambda>_. None),
     sw_useWin32Kernel = False, sw_ticksPerSecond = 1000000000, sw_ticksPerSecondFP = 1000000000,
     sw_ticksPerMillisecondFP = 1000000, sw_ticksPerMicrosecondFP = 1000, sw_overheadSimple = 0, sw_overheadNested = 0\<rparr>"

lemma demo_sw_new: "new_stopwatch int_fp 100 1000 False 1000 = Some demo_sw"
  by (simp add: new_stopwatch_def demo_sw_def int_fp_def Let_def)

lemma demo_sw_ok [simp]: "sw_ok demo_sw" "sw_stack demo_sw = []" "sw_maxDepth demo_sw = 100"
  "sw_tagHistorySize demo_sw = 1000" "GetTagHistory t demo_sw = []"
  by (simp_all add: sw_ok_def demo_sw_def GetTagHistory_def)

section \<open>Calibration\<close>

lemma intervals_regular: "intervals (\<lambda>w. (of_nat w, w + 3)) n w = (replicate n 3, w + 6 * n)"
  by (induction n arbitrary: w) simp_all

text \<open>
  the calibration. With a free place on the stack, a history of positive size and no earlier
  times under its tag, \<open>CalculateOverheadSimple\<close> returns; the overhead is the smallest, as a
  signed number, of the last \<open>_tagHistorySize\<close> of the 50000 times between the readings number
  \<open>2 i\<close> and \<open>2 i + 1\<close> of the clock, no other reading is made, and the stack is as before.
\<close>

theorem overhead_calibrated:
  assumes "sw_ok sw" "length (sw_stack sw) < sw_maxDepth sw" "0 < sw_tagHistorySize sw"
    and "GetTagHistory (Tag ''Measurement Overhead'' 0) sw = []" and "intervals rdtsc 50000 w = (ds, w')"
  shows "\<exists>sw'. CalculateOverheadSimple rdtsc sw w = Some (sw', w') \<and>
    sint (sw_overheadSimple sw') = Min (sint ` set (keep_last (sw_tagHistorySize sw) ds)) \<and> sw_stack sw' = sw_stack sw"
proof -
  let ?t = "Tag ''Measurement Overhead'' 0" and ?kept = "keep_last (sw_tagHistorySize sw) ds"
  have l: "overhead_loop rdtsc ?t 50000 sw w = (store_all ?t ds sw, w')"
    using overhead_loop_store [OF assms(2), of ?t rdtsc 50000 w] assms(5) by simp
  have h: "GetTagHistory ?t (store_all ?t ds sw) = ?kept"
    using store_all_history [OF assms(1), of ?t ?t ds] assms(4) by simp
  have "length ds = 50000" using length_intervals [of rdtsc 50000 w] assms(5) by simp
  then have ne: "?kept \<noteq> []" using assms(3) by (simp flip: length_greater_0_conv)
  then have "Min (sint ` set ?kept) \<in> sint ` set ?kept" by (intro Min_in) auto
  then have "sint (of_int (Min (sint ` set ?kept)) :: tick) = Min (sint ` set ?kept)" by auto
  moreover have "CalculateOverheadSimple rdtsc sw w =
      Some ((store_all ?t ds sw)\<lparr>sw_overheadSimple := of_int (Min (sint ` set ?kept))\<rparr>, w')"
    using l h Minimum_eq [OF ne, of sint] by (simp add: CalculateOverheadSimple_def Let_def)
  ultimately show ?thesis by simp
qed

theorem overhead_calibrated_witness:
  "\<exists>sw'. CalculateOverheadSimple (\<lambda>w :: nat. (of_nat w, w + 3)) demo_sw 0 = Some (sw', 300000) \<and>
    sint (sw_overheadSimple sw') = 3 \<and> sw_stack sw' = []"
proof -
  have "set (keep_last 1000 (replicate 50000 (3 :: tick))) = {3}" by (simp add: keep_last_def)
  then show ?thesis
    using overhead_calibrated [of demo_sw "\<lambda>w :: nat. (of_nat w, w + 3)" 0, OF _ _ _ _ intervals_regular] by simp
qed

text \<open>
  the clock rate. The constructor multiplies the rate from the registry, in megahertz, in 32 bits:
  \<open>_ticksPerSecond\<close> is right exactly up to 4294 megahertz.
\<close>

theorem clock_rate_wraps:
  "\<exists>sw. new_stopwatch F reservationSize tagHistorySize False mhz = Some sw \<and>
     (unat (sw_ticksPerSecond sw) = unat mhz * 1000 * 1000 \<longleftrightarrow> unat mhz \<le> 4294)"
proof -
  have "unat (mhz * 1000 * 1000) = unat mhz * 1000 * 1000 mod 2 ^ 32"
    by (simp add: unat_word_ariths mod_mult_left_eq)
  then have "unat (mhz * 1000 * 1000) = unat mhz * 1000 * 1000 \<longleftrightarrow> unat mhz * 1000 * 1000 < 2 ^ 32"
    by (metis mod_less mod_less_divisor zero_less_power zero_less_numeral)
  also have "\<dots> \<longleftrightarrow> unat mhz \<le> 4294"
  proof -
    have "n * 1000 * 1000 < 4294967296 \<Longrightarrow> n \<le> 4294" "n \<le> 4294 \<Longrightarrow> n * 1000 * 1000 < 4294967296" for n :: nat
      by linarith+
    from this [of "unat mhz"] show ?thesis by auto
  qed
  finally show ?thesis by (simp add: new_stopwatch_def Let_def unat_ucast_up)
qed

end
