(* ===== verification/TextIO.thy ===== *)
theory TextIO
  imports Prelude
begin

text \<open>
  Numbers as text, for the trace files of the simulator and the command lines and file names of
  the profiler: white space, digits, the scanning of digits in a base and the printing of a
  number, with the lemma that what was printed is read back; and the lines of an input. A number is printed and read by the
  C and C++ libraries in decimal as \<open>show_int\<close> and \<open>extract_int\<close> say.
\<close>

section \<open>Scanning\<close>

definition isspace :: "char \<Rightarrow> bool" where
  "isspace ch \<longleftrightarrow> ch = CHR '' '' \<or> (9 \<le> (of_char ch :: nat) \<and> (of_char ch :: nat) \<le> 13)"

definition skip_space :: "string \<Rightarrow> string" where
  "skip_space s = dropWhile isspace s"

definition hex_digit :: "char \<Rightarrow> nat option" where
  "hex_digit ch = (let n = (of_char ch :: nat) in
     if 48 \<le> n \<and> n \<le> 57 then Some (n - 48)
     else if 97 \<le> n \<and> n \<le> 102 then Some (n - 87)
     else if 65 \<le> n \<and> n \<le> 70 then Some (n - 55)
     else None)"

definition dec_digit :: "char \<Rightarrow> nat option" where
  "dec_digit ch = (let n = (of_char ch :: nat) in if 48 \<le> n \<and> n \<le> 57 then Some (n - 48) else None)"

text \<open>The digits from the current position on: accumulated value and rest of the input.\<close>

fun scan_digits :: "(char \<Rightarrow> nat option) \<Rightarrow> nat \<Rightarrow> nat \<Rightarrow> string \<Rightarrow> nat \<times> string" where
  "scan_digits dig base acc [] = (acc, [])"
| "scan_digits dig base acc (ch # s) =
     (case dig ch of Some d \<Rightarrow> scan_digits dig base (acc * base + d) s | None \<Rightarrow> (acc, ch # s))"

text \<open>A conversion: \<open>Inl rest\<close> is a matching failure at \<open>rest\<close>.\<close>

definition scan_nat :: "(char \<Rightarrow> nat option) \<Rightarrow> nat \<Rightarrow> string \<Rightarrow> string + (nat \<times> string)" where
  "scan_nat dig base s =
     (case s of [] \<Rightarrow> Inl []
      | ch # _ \<Rightarrow> if dig ch = None then Inl s else Inr (scan_digits dig base 0 s))"

fun drop_sign :: "string \<Rightarrow> bool \<times> string" where
  "drop_sign (ch # s) = (if ch = CHR ''-'' then (True, s) else if ch = CHR ''+'' then (False, s) else (False, ch # s))"
| "drop_sign [] = (False, [])"

section \<open>Buffers and lines\<close>

text \<open>The string a character array holds: its characters up to the first NUL.\<close>

definition cstr :: "string \<Rightarrow> string" where
  "cstr buf = takeWhile (\<lambda>c. c \<noteq> NUL) buf"

text \<open>\<open>fgets\<close> into a cleared buffer: the text read, and the input that is left.\<close>

definition fgets :: "nat \<Rightarrow> string \<Rightarrow> string \<times> string" where
  "fgets nbuf inp =
     (let l = take (nbuf - 1) inp; k = (if newline \<in> set l then length (takeWhile (\<lambda>c. c \<noteq> newline) l) + 1 else length l)
      in (take k inp, drop k inp))"

text \<open>
  Whether \<open>fgets\<close> met the end of the input: it stops there unless a newline or the size of the buffer stops
  it before.
\<close>

definition fgets_eof :: "nat \<Rightarrow> string \<Rightarrow> bool" where
  "fgets_eof nbuf inp \<longleftrightarrow> length inp < nbuf - 1 \<and> newline \<notin> set inp"

lemma fgets_append: "fgets n s = (l, r) \<Longrightarrow> s = l @ r"
  by (auto simp: fgets_def Let_def)

lemma fgets_shorter: "fgets n s = (l, r) \<Longrightarrow> s \<noteq> [] \<Longrightarrow> 1 < n \<Longrightarrow> length r < length s"
  by (cases s) (auto simp: fgets_def Let_def)

lemma fgets_line:
  assumes "newline \<notin> set l" "length l + 1 < nbuf"
  shows "fgets nbuf (l @ newline # rest) = (l @ [newline], rest)"
proof -
  have t: "take (nbuf - 1) (l @ newline # rest) = l @ newline # take (nbuf - 2 - length l) rest"
    using assms(2) by (simp add: take_Cons' diff_diff_eq numeral_2_eq_2)
  have "takeWhile (\<lambda>c. c \<noteq> newline) (l @ newline # x) = l" for x using assms(1) by (subst takeWhile_append2) auto
  then show ?thesis unfolding fgets_def Let_def t by simp
qed

lemma cstr_line: "NUL \<notin> set l \<Longrightarrow> cstr (l @ [newline]) = l @ [newline]"
  unfolding cstr_def by (auto simp: takeWhile_eq_all_conv)

text \<open>\<open>atoi\<close> of the C library: white space, a sign, digits; a value outside \<open>int\<close> is undefined.\<close>

definition c_atoi :: "string \<Rightarrow> int option" where
  "c_atoi s =
     (let (neg, t) = drop_sign (skip_space s); n = fst (scan_digits dec_digit 10 0 t);
          v = (if neg then - int n else int n)
      in if - (2 ^ 31) \<le> v \<and> v < 2 ^ 31 then Some v else None)"

text \<open>\<open>strtok\<close>: the first token of a string and what follows the delimiter after it.\<close>

definition strtok :: "string \<Rightarrow> string \<Rightarrow> (string \<times> string) option" where
  "strtok delims s =
     (let t = dropWhile (\<lambda>c. c \<in> set delims) s
      in if t = [] then None
         else Some (takeWhile (\<lambda>c. c \<notin> set delims) t, drop 1 (dropWhile (\<lambda>c. c \<notin> set delims) t)))"

lemma strtok_shorter: "strtok delims s = Some (tok, rest) \<Longrightarrow> length rest < length s"
proof -
  assume a: "strtok delims s = Some (tok, rest)"
  let ?t = "dropWhile (\<lambda>c. c \<in> set delims) s"
  have ne: "?t \<noteq> []" and r: "rest = drop 1 (dropWhile (\<lambda>c. c \<notin> set delims) ?t)"
    using a by (auto simp: strtok_def Let_def split: if_splits)
  have "length ?t \<le> length s" by (rule length_dropWhile_le)
  moreover have "length (dropWhile (\<lambda>c. c \<notin> set delims) ?t) \<le> length ?t" by (rule length_dropWhile_le)
  ultimately show ?thesis using ne r by (cases ?t) auto
qed

section \<open>Printing\<close>

definition hex_char :: "nat \<Rightarrow> char" where
  "hex_char d = (if d < 10 then char_of (48 + d) else char_of (87 + d))"

fun show_base :: "nat \<Rightarrow> nat \<Rightarrow> string" where
  "show_base b n = (if n < b \<or> b < 2 then [hex_char n] else show_base b (n div b) @ [hex_char (n mod b)])"

declare show_base.simps [simp del]

section \<open>Reading back what was printed\<close>

lemma show_base_small: "n < b \<Longrightarrow> show_base b n = [hex_char n]"
  by (simp add: show_base.simps)

lemma show_base_step: "b \<le> n \<Longrightarrow> 2 \<le> b \<Longrightarrow> show_base b n = show_base b (n div b) @ [hex_char (n mod b)]"
  by (subst show_base.simps) simp

lemma show_base_scan:
  assumes dig: "\<And>d. d < b \<Longrightarrow> dig (hex_char d) = Some d" and b: "2 \<le> b"
  shows "scan_digits dig b acc (show_base b n @ s) =
    scan_digits dig b (acc * b ^ length (show_base b n) + n) s"
proof (induction n arbitrary: acc s rule: less_induct)
  case (less n)
  show ?case
  proof (cases "n < b")
    case True
    then show ?thesis by (simp add: show_base_small dig)
  next
    case False
    then have n: "b \<le> n" "n div b < n" using b by simp_all
    have "scan_digits dig b acc (show_base b n @ s) =
        scan_digits dig b (acc * b ^ length (show_base b (n div b)) + n div b) (hex_char (n mod b) # s)"
      using less [OF n(2)] by (simp add: show_base_step [OF n(1) b])
    also have "\<dots> = scan_digits dig b ((acc * b ^ length (show_base b (n div b)) + n div b) * b + n mod b) s"
      using dig [of "n mod b"] b by simp
    also have "(acc * b ^ length (show_base b (n div b)) + n div b) * b + n mod b =
        acc * b ^ length (show_base b n) + n"
      using div_mult_mod_eq [of n b] by (simp add: show_base_step [OF n(1) b] algebra_simps)
    finally show ?thesis .
  qed
qed

lemma show_base_hd:
  assumes "2 \<le> b"
  shows "\<exists>d t. d < b \<and> show_base b n = hex_char d # t"
proof (induction n rule: less_induct)
  case (less n)
  show ?case
  proof (cases "n < b")
    case True
    then show ?thesis by (auto simp: show_base_small)
  next
    case False
    then have n: "b \<le> n" "n div b < n" using assms by simp_all
    from less [OF n(2)] show ?thesis by (auto simp: show_base_step [OF n(1) assms])
  qed
qed

lemma hex_char_code: "d < 16 \<Longrightarrow> (of_char (hex_char d) :: nat) = (if d < 10 then 48 + d else 87 + d)"
  by (simp add: hex_char_def)

lemma hex_digit_char: "d < 16 \<Longrightarrow> hex_digit (hex_char d) = Some d"
  by (auto simp: hex_digit_def hex_char_code Let_def)

lemma dec_digit_char: "d < 10 \<Longrightarrow> dec_digit (hex_char d) = Some d"
  by (auto simp: dec_digit_def hex_char_code Let_def)

lemma hex_char_plain:
  assumes "d < 16"
  shows "\<not> isspace (hex_char d)" "hex_char d \<noteq> CHR ''-''" "hex_char d \<noteq> CHR ''+''"
proof -
  have c: "(of_char (hex_char d) :: nat) \<ge> 48" using assms by (simp add: hex_char_code)
  show "\<not> isspace (hex_char d)" "hex_char d \<noteq> CHR ''-''" "hex_char d \<noteq> CHR ''+''"
    using c by (auto simp: isspace_def)
qed

lemma isspace_blank: "isspace CHR '' ''"
  by (simp add: isspace_def)

section \<open>Decimal integers\<close>

text \<open>
  \<open>stream << i\<close> for an integer, and \<open>stream >> i\<close> for an integer of the given range: white space, an
  optional sign and digits; the extraction fails without a digit or out of range.
\<close>

definition show_int :: "int \<Rightarrow> string" where
  "show_int i = (if i < 0 then ''-'' @ show_base 10 (nat (- i)) else show_base 10 (nat i))"

definition extract_int :: "int \<Rightarrow> int \<Rightarrow> string \<Rightarrow> int option" where
  "extract_int lo hi s =
     (case drop_sign (skip_space s) of (neg, s1) \<Rightarrow>
        (case scan_nat dec_digit 10 s1 of
           Inl rest \<Rightarrow> None
         | Inr (n, rest) \<Rightarrow>
             let i = (if neg then - int n else int n) in if lo \<le> i \<and> i \<le> hi then Some i else None))"

lemma scan_nat_show: "scan_nat dec_digit 10 (show_base 10 n) = Inr (n, [])"
proof -
  obtain d t where "d < 10" "show_base 10 n = hex_char d # t" using show_base_hd [of 10 n] by auto
  moreover have "scan_digits dec_digit 10 0 (show_base 10 n) = (n, [])"
    using show_base_scan [of 10 dec_digit 0 n "[]", OF dec_digit_char] by simp
  ultimately show ?thesis using dec_digit_char [of d] by (simp add: scan_nat_def)
qed

lemma drop_sign_show: "drop_sign (skip_space (show_base 10 n)) = (False, show_base 10 n)"
proof -
  obtain d t where "d < 10" "show_base 10 n = hex_char d # t" using show_base_hd [of 10 n] by auto
  then show ?thesis using hex_char_plain [of d] by (simp add: skip_space_def)
qed

lemma extract_show_int:
  assumes "lo \<le> i" "i \<le> hi"
  shows "extract_int lo hi (show_int i) = Some i"
proof (cases "i < 0")
  case True
  then show ?thesis using assms
    by (simp add: extract_int_def show_int_def skip_space_def isspace_def scan_nat_show)
next
  case False
  then show ?thesis using assms by (simp add: extract_int_def show_int_def drop_sign_show scan_nat_show)
qed

lemma c_atoi_show:
  assumes "- (2 ^ 31) \<le> i" "i < 2 ^ 31"
  shows "c_atoi (show_int i) = Some i"
proof -
  have n: "fst (scan_digits dec_digit 10 0 (show_base 10 n)) = n" for n
    using show_base_scan [of 10 dec_digit 0 n "[]", OF dec_digit_char] by simp
  show ?thesis
  proof (cases "i < 0")
    case True
    then show ?thesis using assms by (simp add: c_atoi_def show_int_def skip_space_def isspace_def n Let_def)
  next
    case False
    then show ?thesis using assms by (simp add: c_atoi_def show_int_def drop_sign_show n Let_def)
  qed
qed

lemma show_base_chars: "c \<in> set (show_base 10 n) \<Longrightarrow> \<exists>d < 10. c = hex_char d"
proof (induction n arbitrary: c rule: less_induct)
  case (less n)
  show ?case
  proof (cases "n < 10")
    case True
    with less.prems show ?thesis by (auto simp: show_base_small)
  next
    case False
    then have "show_base 10 n = show_base 10 (n div 10) @ [hex_char (n mod 10)]" "n div 10 < n" by (simp_all add: show_base_step)
    moreover have "n mod 10 < 10" by simp
    ultimately show ?thesis using less by (metis Un_iff empty_iff empty_set insert_iff list.simps(15) set_append)
  qed
qed

lemma decimal_length: "n < 10 ^ k \<Longrightarrow> 0 < k \<Longrightarrow> length (show_base 10 n) \<le> k"
proof (induction k arbitrary: n)
  case (Suc k)
  show ?case
  proof (cases "n < 10")
    case True
    then show ?thesis by (simp add: show_base_small)
  next
    case False
    then have "n div 10 < 10 ^ k" "0 < k" using Suc.prems by (auto intro: ccontr)
    with Suc.IH [of "n div 10"] False show ?thesis by (simp add: show_base_step)
  qed
qed simp

lemma show_base_inj: "show_base 10 m = show_base 10 n \<Longrightarrow> m = n"
  by (metis scan_nat_show sum.inject(2) prod.inject)

lemma show_int_inj: "show_int i = show_int j \<longleftrightarrow> i = j"
proof
  assume "show_int i = show_int j"
  then have "extract_int (min i j) (max i j) (show_int i) = extract_int (min i j) (max i j) (show_int j)" by simp
  then show "i = j" by (simp add: extract_show_int)
qed simp

end
