(* ===== verification/ExperimentBase.thy ===== *)
theory ExperimentBase
  imports Stopwatch TextIO
begin

text \<open>
  The base class of the profiler's experiments (\<open>Experiment.h\<close>, \<open>Experiment.cpp\<close>) and its use of the
  operating system. Everything outside the program is a world \<open>'w\<close>: the record \<open>api\<close> has the
  clock, the random numbers, the floating-point arithmetic and one function \<open>sys\<close> for the calls of
  the Windows API and of \<open>malloc\<close>, which takes the name of the call and the arguments that matter and
  returns the result and one output parameter. An experiment is a record with the world, the
  stopwatch it shares, and the fields of the class. \<^term>\<open>None\<close> is the end of the program by an
  exception or a failed assertion, neither of which is ever caught, or undefined behaviour.
  The letter mu of the result names is written \<open>u\<close>; console output is left out.
\<close>

datatype arg = I int | S string

record ('w, 'd) api =
  clock :: "'w clock"
  sys :: "string \<Rightarrow> arg list \<Rightarrow> 'w \<Rightarrow> (int \<times> int) \<times> 'w"
  random :: "'w \<Rightarrow> nat \<times> 'w"
  fpo :: "'d fp"

record ('w, 'd) exper =
  ex_world :: "'w"
  ex_sw :: "'d stopwatch"
  ex_name :: string
  ex_iterations :: nat
  ex_results :: "(string \<times> 'd) list"

section \<open>Operations\<close>

definition new_experiment :: "string \<Rightarrow> 'd stopwatch \<Rightarrow> 'w \<Rightarrow> ('w, 'd) exper" where
  "new_experiment name sw w =
     \<lparr>ex_world = w, ex_sw = sw, ex_name = name, ex_iterations = 5000, ex_results = []\<rparr>"

definition PushResult :: "string \<Rightarrow> 'd \<Rightarrow> ('w, 'd, 'z) exper_scheme \<Rightarrow> ('w, 'd, 'z) exper_scheme" where
  "PushResult resultName v e = e\<lparr>ex_results := ex_results e @ [(resultName, v)]\<rparr>"

text \<open>The selector of the following templates.\<close>

definition as_us :: "('w, 'd) api \<Rightarrow> 'd stopwatch \<Rightarrow> tick \<Rightarrow> tick \<Rightarrow> 'd" where
  "as_us A sw adjustment t = TicksToMicroseconds (fpo A) sw (t + adjustment)"

definition PushResultMeanAsMicroseconds :: "('w, 'd) api \<Rightarrow> string \<Rightarrow> tick list \<Rightarrow> tick \<Rightarrow>
    ('w, 'd, 'z) exper_scheme \<Rightarrow> ('w, 'd, 'z) exper_scheme" where
  "PushResultMeanAsMicroseconds A resultName dataset adjustment e =
     PushResult resultName (Mean (fpo A) dataset (as_us A (ex_sw e) adjustment)) e"

definition PushResultMedianAsMicroseconds :: "('w, 'd :: linorder) api \<Rightarrow> string \<Rightarrow> tick list \<Rightarrow> tick \<Rightarrow>
    ('w, 'd, 'z) exper_scheme \<Rightarrow> ('w, 'd, 'z) exper_scheme option" where
  "PushResultMedianAsMicroseconds A resultName dataset adjustment e = do {
     v \<leftarrow> Median (fp_int (fpo A) 0) dataset (as_us A (ex_sw e) adjustment);
     Some (PushResult resultName v e)
   }"

definition PushResultMinimumAsMicroseconds :: "('w, 'd :: linorder) api \<Rightarrow> string \<Rightarrow> tick list \<Rightarrow> tick \<Rightarrow>
    ('w, 'd, 'z) exper_scheme \<Rightarrow> ('w, 'd, 'z) exper_scheme option" where
  "PushResultMinimumAsMicroseconds A resultName dataset adjustment e = do {
     v \<leftarrow> Minimum dataset (as_us A (ex_sw e) adjustment);
     Some (PushResult resultName v e)
   }"

definition PushResultMaximumAsMicroseconds :: "('w, 'd :: linorder) api \<Rightarrow> string \<Rightarrow> tick list \<Rightarrow> tick \<Rightarrow>
    ('w, 'd, 'z) exper_scheme \<Rightarrow> ('w, 'd, 'z) exper_scheme option" where
  "PushResultMaximumAsMicroseconds A resultName dataset adjustment e = do {
     v \<leftarrow> Maximum dataset (as_us A (ex_sw e) adjustment);
     Some (PushResult resultName v e)
   }"

definition PushResultPercentileAsMicroseconds :: "('w, 'd :: linorder) api \<Rightarrow> string \<Rightarrow> tick list \<Rightarrow> int \<Rightarrow> tick \<Rightarrow>
    ('w, 'd, 'z) exper_scheme \<Rightarrow> ('w, 'd, 'z) exper_scheme option" where
  "PushResultPercentileAsMicroseconds A resultName dataset percentile adjustment e = do {
     v \<leftarrow> Percentile (fp_int (fpo A) 0) dataset (as_us A (ex_sw e) adjustment) percentile;
     Some (PushResult resultName v e)
   }"

text \<open>\<open>ToString\<close>; \<open>std::endl\<close> is a newline.\<close>

definition ToString :: "('w, 'd) api \<Rightarrow> ('w, 'd, 'z) exper_scheme \<Rightarrow> string" where
  "ToString A e =
     ''::'' @ ex_name e @ ''::'' @ [CHR 0x0A] @
     concat (map (\<lambda>(name, v). ''  |-'' @ name @ '':'' @ [CHR 0x09] @ fp_show (fpo A) v @ [CHR 0x0A]) (ex_results e)) @
     ''::'' @ [CHR 0x0A]"

text \<open>\<open>ParseInteger<int>\<close>; the constants of the class.\<close>

definition ParseInteger :: "string \<Rightarrow> int option" where
  "ParseInteger s = extract_int (- (2 ^ 31)) (2 ^ 31 - 1) s"

definition CacheLineSize :: nat where "CacheLineSize = 0x40"

definition MaxCacheSize :: nat where "MaxCacheSize = 0x800000"

definition LocalMachineAddress :: u32 where
  "LocalMachineAddress = or (or (or (push_bit 0 127) (push_bit 8 0)) (push_bit 16 0)) (push_bit 24 1)"

definition OtherMachineAddress :: u32 where
  "OtherMachineAddress = or (or (or (push_bit 0 192) (push_bit 8 168)) (push_bit 16 1)) (push_bit 24 65)"

text \<open>Pieces of the experiments: the shared stopwatch, system calls, random numbers.\<close>

definition ss_push :: "('w, 'd) api \<Rightarrow> tag \<Rightarrow> ('w, 'd, 'z) exper_scheme \<Rightarrow> ('w, 'd, 'z) exper_scheme" where
  "ss_push A tag e = (case Push (clock A) tag (ex_sw e) (ex_world e) of (sw, w) \<Rightarrow> e\<lparr>ex_sw := sw, ex_world := w\<rparr>)"

definition ss_pop :: "('w, 'd) api \<Rightarrow> ('w, 'd, 'z) exper_scheme \<Rightarrow> ('w, 'd, 'z) exper_scheme" where
  "ss_pop A e = (case Pop (clock A) (ex_sw e) (ex_world e) of (_, sw, w) \<Rightarrow> e\<lparr>ex_sw := sw, ex_world := w\<rparr>)"

definition ss_read :: "('w, 'd) api \<Rightarrow> ('w, 'd, 'z) exper_scheme \<Rightarrow> tick \<times> ('w, 'd, 'z) exper_scheme" where
  "ss_read A e = (case Read (clock A) (ex_world e) of (t, w) \<Rightarrow> (t, e\<lparr>ex_world := w\<rparr>))"

definition ss_push_value :: "tag \<Rightarrow> tick \<Rightarrow> ('w, 'd, 'z) exper_scheme \<Rightarrow> ('w, 'd, 'z) exper_scheme" where
  "ss_push_value tag v e = e\<lparr>ex_sw := PushWithValue tag v (ex_sw e)\<rparr>"

definition ss_pop_value :: "tag \<Rightarrow> tick \<Rightarrow> ('w, 'd, 'z) exper_scheme \<Rightarrow> ('w, 'd, 'z) exper_scheme option" where
  "ss_pop_value tag v e = do { (_, sw) \<leftarrow> PopWithValue tag v (ex_sw e); Some (e\<lparr>ex_sw := sw\<rparr>) }"

definition ss_reset :: "tag \<Rightarrow> ('w, 'd, 'z) exper_scheme \<Rightarrow> ('w, 'd, 'z) exper_scheme" where
  "ss_reset tag e = e\<lparr>ex_sw := ResetTagHistory tag (ex_sw e)\<rparr>"

definition syscall :: "('w, 'd) api \<Rightarrow> string \<Rightarrow> arg list \<Rightarrow> ('w, 'd, 'z) exper_scheme \<Rightarrow> (int \<times> int) \<times> ('w, 'd, 'z) exper_scheme" where
  "syscall A name args e = (case sys A name args (ex_world e) of (r, w) \<Rightarrow> (r, e\<lparr>ex_world := w\<rparr>))"

text \<open>A call whose result is not looked at.\<close>

definition call :: "('w, 'd) api \<Rightarrow> string \<Rightarrow> arg list \<Rightarrow> ('w, 'd, 'z) exper_scheme \<Rightarrow> ('w, 'd, 'z) exper_scheme" where
  "call A name args e = snd (syscall A name args e)"

definition rand :: "('w, 'd) api \<Rightarrow> ('w, 'd, 'z) exper_scheme \<Rightarrow> nat \<times> ('w, 'd, 'z) exper_scheme" where
  "rand A e = (case random A (ex_world e) of (r, w) \<Rightarrow> (r, e\<lparr>ex_world := w\<rparr>))"

text \<open>\<open>GetTagHistory(tag)\<close> and the adjustment \<open>-ss.GetOverheadSimpleAsTicks()\<close>\<close>

definition history :: "tag \<Rightarrow> ('w, 'd, 'z) exper_scheme \<Rightarrow> tick list" where
  "history tag e = GetTagHistory tag (ex_sw e)"

definition minus_overhead :: "('w, 'd, 'z) exper_scheme \<Rightarrow> tick" where
  "minus_overhead e = - GetOverheadSimpleAsTicks (ex_sw e)"

text \<open>\<open>for(int i = from; i < from + n; ++i) body\<close>\<close>

fun for_opt :: "nat \<Rightarrow> nat \<Rightarrow> (nat \<Rightarrow> 's \<Rightarrow> 's option) \<Rightarrow> 's \<Rightarrow> 's option" where
  "for_opt i 0 body s = Some s"
| "for_opt i (Suc n) body s = Option.bind (body i s) (for_opt (Suc i) n body)"

section \<open>What a measuring loop leaves behind\<close>

text \<open>
  \<open>measured tag n e e'\<close>: between \<open>e\<close> and \<open>e'\<close> exactly \<open>n\<close> times were stored under \<open>tag\<close>; apart
  from that only the world changed.
\<close>

definition measured :: "tag \<Rightarrow> nat \<Rightarrow> ('w, 'd, 'z) exper_scheme \<Rightarrow> ('w, 'd, 'z) exper_scheme \<Rightarrow> bool" where
  "measured tag n e e' \<longleftrightarrow>
     (\<exists>ds w. length ds = n \<and> e' = e\<lparr>ex_sw := store_all tag ds (ex_sw e), ex_world := w\<rparr>)"

definition room :: "('w, 'd, 'z) exper_scheme \<Rightarrow> bool" where
  "room e \<longleftrightarrow> length (sw_stack (ex_sw e)) < sw_maxDepth (ex_sw e)"

lemma measured_refl: "measured tag 0 e e"
  by (auto simp: measured_def intro!: exI [of _ "ex_world e"])

lemma measured_world: "measured tag n e e' \<Longrightarrow> measured tag n e (e'\<lparr>ex_world := w\<rparr>)"
  unfolding measured_def by (elim exE conjE, intro exI [of _ w] exI conjI) simp_all

lemma measured_world0: "measured tag 0 e (e\<lparr>ex_world := w\<rparr>)"
  using measured_world [OF measured_refl] .

lemma measured_trans:
  assumes "measured tag n e e'" "measured tag m e' e''"
  shows "measured tag (n + m) e e''"
proof -
  obtain ds w es v where "length ds = n" "e' = e\<lparr>ex_sw := store_all tag ds (ex_sw e), ex_world := w\<rparr>"
    "length es = m" "e'' = e'\<lparr>ex_sw := store_all tag es (ex_sw e'), ex_world := v\<rparr>"
    using assms by (auto simp: measured_def)
  then show ?thesis unfolding measured_def
    by (intro exI [of _ "ds @ es"] exI [of _ v]) (simp add: store_all_append)
qed

lemma measured_room: "measured tag n e e' \<Longrightarrow> room e' = room e"
  by (auto simp: measured_def room_def)

lemma measured_fields:
  assumes "measured tag n e e'"
  shows "ex_results e' = ex_results e" "ex_iterations e' = ex_iterations e" "ex_name e' = ex_name e"
    "minus_overhead e' = minus_overhead e" "sw_tagHistorySize (ex_sw e') = sw_tagHistorySize (ex_sw e)"
    "as_us A (ex_sw e') = as_us A (ex_sw e)" "exper.more e' = exper.more e"
    "sw_stack (ex_sw e') = sw_stack (ex_sw e)" "sw_maxDepth (ex_sw e') = sw_maxDepth (ex_sw e)"
  using assms
  by (auto simp: measured_def minus_overhead_def GetOverheadSimpleAsTicks_def as_us_def fun_eq_iff TicksToMicroseconds_def)

lemma measured_ok: "measured tag n e e' \<Longrightarrow> sw_ok (ex_sw e) \<Longrightarrow> sw_ok (ex_sw e')"
  by (auto simp: measured_def store_all_ok)

lemma measured_history:
  assumes "measured tag n e e'" "sw_ok (ex_sw e)"
  shows "\<exists>ds. length ds = n \<and> history tag e' = keep_last (sw_tagHistorySize (ex_sw e)) (history tag e @ ds)"
    and "t \<noteq> tag \<Longrightarrow> history t e' = history t e"
  using assms by (auto simp: measured_def history_def store_all_history)

lemma length_measured_history:
  assumes "measured tag n e e'" "sw_ok (ex_sw e)"
  shows "length (history tag e') = min (sw_tagHistorySize (ex_sw e)) (length (history tag e) + n)"
  using measured_history(1) [OF assms] by auto

text \<open>One measurement of an action that only changes the world.\<close>

lemma timed:
  assumes "room e" "tag \<noteq> NoTag"
  shows "measured tag 1 e (ss_pop A ((ss_push A tag e)\<lparr>ex_world := w\<rparr>))"
proof -
  obtain sw1 w1 where p: "Push (clock A) tag (ex_sw e) (ex_world e) = (sw1, w1)" by force
  obtain d sw2 w2 where q: "Pop (clock A) sw1 w = (d, sw2, w2)" by (metis prod_cases3)
  have "sw2 = StoreResultWithTag d tag (ex_sw e)"
    using push_pop(1) [OF p q] assms by (simp add: room_def)
  then have "ss_pop A ((ss_push A tag e)\<lparr>ex_world := w\<rparr>) =
      e\<lparr>ex_sw := store_all tag [d] (ex_sw e), ex_world := w2\<rparr>"
    using p q by (simp add: ss_push_def ss_pop_def)
  then show ?thesis unfolding measured_def by (intro exI [of _ "[d]"] exI [of _ w2]) simp
qed

lemma timed0:
  assumes "room e" "tag \<noteq> NoTag"
  shows "measured tag 1 e (ss_pop A (ss_push A tag e))"
  using timed [OF assms, of A "ex_world (ss_push A tag e)"] by simp

lemma syscall_world: "\<exists>w. snd (syscall A name args e) = e\<lparr>ex_world := w\<rparr>"
  by (auto simp: syscall_def split: prod.split)

lemma call_world: "\<exists>w. call A name args e = e\<lparr>ex_world := w\<rparr>"
  by (simp add: call_def syscall_world)

lemma timed_call:
  assumes "room e" "tag \<noteq> NoTag"
  shows "measured tag 1 e (ss_pop A (call A name args (ss_push A tag e)))"
proof -
  obtain w where w: "call A name args (ss_push A tag e) = (ss_push A tag e)\<lparr>ex_world := w\<rparr>"
    using call_world [of A name args "ss_push A tag e"] by blast
  show ?thesis unfolding w by (rule timed [OF assms])
qed

lemma measured_syscall: "measured tag n e e' \<Longrightarrow> measured tag n e (call A name args e')"
  using measured_world [of tag n e e'] call_world [of A name args e'] by auto

text \<open>The loop rule: each turn measures \<open>k\<close> times.\<close>

lemma measured_loop:
  assumes body: "\<And>i e e'. room e \<Longrightarrow> body i e = Some e' \<Longrightarrow> measured tag k e e'"
    and "room e" "for_opt i n body e = Some e'"
  shows "measured tag (n * k) e e'"
  using assms(2,3)
proof (induction n arbitrary: i e)
  case 0
  then show ?case by (simp add: measured_refl)
next
  case (Suc n)
  then obtain e1 where e1: "body i e = Some e1" "for_opt (Suc i) n body e1 = Some e'"
    by (auto simp: bind_eq_Some_conv)
  have m: "measured tag k e e1" using body [OF Suc.prems(1) e1(1)] .
  then have "room e1" using Suc.prems(1) by (simp add: measured_room)
  from Suc.IH [OF this e1(2)] measured_trans [OF m] show ?case by simp
qed

lemma for_opt_total:
  assumes "\<And>j s. i \<le> j \<Longrightarrow> j < i + n \<Longrightarrow> P s \<Longrightarrow> \<exists>s'. body j s = Some s' \<and> P s'" "P s"
  shows "\<exists>s'. for_opt i n body s = Some s' \<and> P s'"
  using assms
proof (induction n arbitrary: i s)
  case (Suc n)
  from Suc.prems(1) [of i s] Suc.prems(2) obtain s1 where "body i s = Some s1" "P s1" by auto
  moreover have "\<exists>s'. for_opt (Suc i) n body s1 = Some s' \<and> P s'"
    by (rule Suc.IH) (use Suc.prems(1) \<open>P s1\<close> in simp_all)
  ultimately show ?case by simp
qed simp

lemma measured_loop_inv:
  assumes body: "\<And>j e. i \<le> j \<Longrightarrow> j < i + n \<Longrightarrow> room e \<Longrightarrow> P e \<Longrightarrow> \<exists>e'. body j e = Some e' \<and> measured tag k e e'"
    and inv: "\<And>e e'. measured tag k e e' \<Longrightarrow> P e \<Longrightarrow> P e'" and "room e" "P e"
  shows "\<exists>e'. for_opt i n body e = Some e' \<and> measured tag (n * k) e e'"
  using assms
proof (induction n arbitrary: i e)
  case 0
  show ?case by (simp add: measured_refl)
next
  case (Suc n)
  from Suc.prems(1) [of i e] Suc.prems(3,4) obtain e1 where e1: "body i e = Some e1" "measured tag k e e1" by auto
  have "\<exists>e'. for_opt (Suc i) n body e1 = Some e' \<and> measured tag (n * k) e1 e'"
    by (rule Suc.IH) (use Suc.prems e1 measured_room [OF e1(2)] in auto)
  then show ?case using e1 measured_trans [OF e1(2)] by auto
qed

lemmas measured_loop_total = measured_loop_inv [where P = "\<lambda>_. True", simplified]

section \<open>Statistics of a history\<close>

lemma Median_defined: "\<exists>v. Median z xs sel = Some v"
  by (auto simp: Median_def nth_value_def)

lemma Minimum_defined: "xs \<noteq> [] \<Longrightarrow> \<exists>v. Minimum xs sel = Some v"
  by (auto simp: Minimum_def nth_value_def)

lemma Maximum_defined: "xs \<noteq> [] \<Longrightarrow> \<exists>v. Maximum xs sel = Some v"
  by (auto simp: Maximum_def nth_value_def)

lemma Percentile_defined:
  assumes "0 < p" "p < 100" "length xs < 2 ^ 25"
  shows "\<exists>v. Percentile z xs sel p = Some v"
  using assms percentile_index_eq(2) [of p "length xs"] Median_defined [of z xs sel]
  by (auto simp: Percentile_def nth_value_def)

text \<open>What no measurement changes: the settings of the experiment and of the stopwatch.\<close>

definition same_setup :: "('w, 'd, 'z) exper_scheme \<Rightarrow> ('w, 'd, 'z) exper_scheme \<Rightarrow> bool" where
  "same_setup e e' \<longleftrightarrow> ex_iterations e' = ex_iterations e \<and> ex_name e' = ex_name e \<and>
     sw_stack (ex_sw e') = sw_stack (ex_sw e) \<and> sw_maxDepth (ex_sw e') = sw_maxDepth (ex_sw e) \<and>
     sw_tagHistorySize (ex_sw e') = sw_tagHistorySize (ex_sw e) \<and>
     sw_overheadSimple (ex_sw e') = sw_overheadSimple (ex_sw e) \<and>
     sw_ticksPerMicrosecondFP (ex_sw e') = sw_ticksPerMicrosecondFP (ex_sw e)"

lemma same_setup_refl [simp]: "same_setup e e"
  by (simp add: same_setup_def)

lemma same_setup_trans: "same_setup e e' \<Longrightarrow> same_setup e' e'' \<Longrightarrow> same_setup e e''"
  by (simp add: same_setup_def)

lemma same_setup_PushResult [simp]: "same_setup e (PushResult n v e') = same_setup e e'"
  by (simp add: same_setup_def PushResult_def)

lemma same_setup_world [simp]: "same_setup e (e\<lparr>ex_world := w\<rparr>)"
  by (simp add: same_setup_def)

lemma measured_same_setup: "measured tag n e e' \<Longrightarrow> same_setup e e'"
  by (auto simp: measured_def same_setup_def)

lemma same_setup_eqs:
  assumes "same_setup e e'"
  shows "room e' = room e" "as_us A (ex_sw e') = as_us A (ex_sw e)" "minus_overhead e' = minus_overhead e"
    "ex_iterations e' = ex_iterations e" "sw_tagHistorySize (ex_sw e') = sw_tagHistorySize (ex_sw e)"
  using assms
  by (auto simp: same_setup_def room_def as_us_def fun_eq_iff TicksToMicroseconds_def minus_overhead_def
      GetOverheadSimpleAsTicks_def)

lemma PushResult_fields [simp]:
  "ex_results (PushResult n v e) = ex_results e @ [(n, v)]" "ex_sw (PushResult n v e) = ex_sw e"
  "ex_world (PushResult n v e) = ex_world e" "history t (PushResult n v e) = history t e"
  by (simp_all add: PushResult_def history_def)

text \<open>The median of the kept times less the overhead, which most experiments report.\<close>

definition median_us :: "('w, 'd :: linorder) api \<Rightarrow> ('w, 'd, 'z) exper_scheme \<Rightarrow> tick list \<Rightarrow> 'd" where
  "median_us A e ds = the (Median (fp_int (fpo A) 0) ds (as_us A (ex_sw e) (minus_overhead e)))"

lemma median_us_setup: "same_setup e e' \<Longrightarrow> median_us A e' ds = median_us A e ds"
  using same_setup_eqs(2) [of e e' A] same_setup_eqs(3) [of e e'] by (simp add: median_us_def)

lemma report_median_us:
  assumes "same_setup e e'"
  shows "PushResultMedianAsMicroseconds A name ds (minus_overhead e') e' = Some (PushResult name (median_us A e ds) e')"
  using Median_defined [of "fp_int (fpo A) 0" ds "as_us A (ex_sw e') (minus_overhead e')"] median_us_setup [OF assms, of A ds]
  by (auto simp: PushResultMedianAsMicroseconds_def median_us_def)

section \<open>Steps that change the world only\<close>

definition only_world :: "('w, 'd, 'z) exper_scheme \<Rightarrow> ('w, 'd, 'z) exper_scheme \<Rightarrow> bool" where
  "only_world e e' \<longleftrightarrow> (\<exists>w. e' = e\<lparr>ex_world := w\<rparr>)"

lemma only_world_refl [simp]: "only_world e e"
  unfolding only_world_def by (intro exI [of _ "ex_world e"]) simp

lemma only_world_trans: "only_world e e' \<Longrightarrow> only_world e' e'' \<Longrightarrow> only_world e e''"
  by (auto simp: only_world_def)

lemma only_world_rand: "only_world e (snd (rand A e))"
  by (auto simp: only_world_def rand_def split: prod.split)

lemma for_opt_world:
  assumes "\<And>j s. i \<le> j \<Longrightarrow> j < i + n \<Longrightarrow> \<exists>s'. body j s = Some s' \<and> only_world s s'"
  shows "\<exists>s'. for_opt i n body s = Some s' \<and> only_world s s'"
proof (rule for_opt_total [where P = "only_world s"])
  fix j s1 assume "i \<le> j" "j < i + n" "only_world s s1"
  moreover obtain s2 where "body j s1 = Some s2" "only_world s1 s2" using assms calculation(1,2) by blast
  ultimately show "\<exists>s'. body j s1 = Some s' \<and> only_world s s'" using only_world_trans by blast
qed simp

lemma only_world_measured: "only_world e e' \<Longrightarrow> measured tag 0 e e'"
  by (auto simp: only_world_def measured_world0)

lemma timed_only_world:
  assumes "only_world (ss_push A tag e) e1" "room e" "tag \<noteq> NoTag"
  shows "measured tag 1 e (ss_pop A e1)"
  using assms timed [OF assms(2,3), of A] by (auto simp: only_world_def)

lemma only_world_call [simp]: "only_world e (call A name args e)"
  using call_world [of A name args e] by (simp add: only_world_def)

lemma only_world_syscall [simp]: "only_world e (snd (syscall A name args e))"
  using syscall_world [of A name args e] by (simp add: only_world_def)

lemma only_world_syscallD: "syscall A name args e = (r, e') \<Longrightarrow> only_world e e'"
  using only_world_syscall [of e A name args] by simp

lemma only_world_read: "ss_read A e = (t, e') \<Longrightarrow> only_world e e' \<and> t \<in> range (\<lambda>w. fst (clock A w))"
  by (auto simp: ss_read_def Read_def only_world_def split: prod.splits) (metis fst_conv rangeI)

lemma only_world_fold:
  assumes "\<And>x e. x \<in> set xs \<Longrightarrow> only_world e (f x e)"
  shows "only_world e (fold f xs e)"
  using assms
proof (induction xs arbitrary: e)
  case (Cons x xs)
  have "only_world (f x e) (fold f xs (f x e))" by (rule Cons.IH) (simp add: Cons.prems)
  then show ?case using Cons.prems [of x e] only_world_trans by fastforce
qed simp

lemma only_world_fields:
  assumes "only_world e e'"
  shows "ex_sw e' = ex_sw e" "ex_results e' = ex_results e" "exper.more e' = exper.more e" "ex_iterations e' = ex_iterations e"
    "history t e' = history t e" "minus_overhead e' = minus_overhead e" "room e' = room e" "same_setup e e'"
  using assms by (auto simp: only_world_def history_def minus_overhead_def room_def)

text \<open>A world in which every call of the operating system succeeds.\<close>

definition calls_succeed :: "('w, 'd) api \<Rightarrow> bool" where
  "calls_succeed A \<longleftrightarrow> (\<forall>name args w. fst (fst (sys A name args w)) \<noteq> 0)"

lemma syscall_ok:
  assumes "calls_succeed A"
  shows "\<exists>r x e'. syscall A name args e = ((r, x), e') \<and> r \<noteq> 0 \<and> only_world e e'"
proof -
  obtain r x w where s: "sys A name args (ex_world e) = ((r, x), w)" by (metis prod.exhaust)
  then have "r \<noteq> 0" using assms by (metis calls_succeed_def fst_conv)
  with s show ?thesis by (auto simp: syscall_def only_world_def)
qed

text \<open>Resetting a tag.\<close>

lemma GetTagHistory_Reset: "GetTagHistory t (ResetTagHistory tag sw) = (if t = tag then [] else GetTagHistory t sw)"
  by (auto simp: GetTagHistory_def ResetTagHistory_def split: option.split)

lemma reset_history: "history t (ss_reset tag e) = (if t = tag then [] else history t e)"
  by (simp add: ss_reset_def history_def GetTagHistory_Reset)

lemma reset_setup: "same_setup e (ss_reset tag e)" "ex_results (ss_reset tag e) = ex_results e"
  by (simp_all add: ss_reset_def same_setup_def ResetTagHistory_def split: option.split)

lemma reset_ok: "sw_ok (ex_sw e) \<Longrightarrow> sw_ok (ex_sw (ss_reset tag e))"
  by (auto simp: ss_reset_def sw_ok_def ResetTagHistory_def split: option.splits if_splits)

text \<open>A loop in which turn \<open>j\<close> measures \<open>c j\<close> times.\<close>

lemma measured_loop_sum:
  assumes body: "\<And>j e. i \<le> j \<Longrightarrow> j < i + n \<Longrightarrow> room e \<Longrightarrow> \<exists>e'. body j e = Some e' \<and> measured tag (c j) e e'" and "room e"
  shows "\<exists>e'. for_opt i n body e = Some e' \<and> measured tag (\<Sum>j = i..<i + n. c j) e e'"
  using assms
proof (induction n arbitrary: i e)
  case 0
  show ?case by (simp add: measured_refl)
next
  case (Suc n)
  obtain e1 where 1: "body i e = Some e1" "measured tag (c i) e e1" using Suc.prems(1) [of i e] Suc.prems(2) by auto
  have "\<exists>e'. for_opt (Suc i) n body e1 = Some e' \<and> measured tag (\<Sum>j = Suc i..<Suc i + n. c j) e1 e'"
    by (rule Suc.IH) (use Suc.prems measured_room [OF 1(2)] in auto)
  then obtain e2 where 2: "for_opt (Suc i) n body e1 = Some e2" "measured tag (\<Sum>j = Suc i..<Suc i + n. c j) e1 e2" by blast
  have "(\<Sum>j = i..<i + Suc n. c j) = c i + (\<Sum>j = Suc i..<Suc i + n. c j)" by (simp add: sum.atLeast_Suc_lessThan)
  then show ?case using 1(1) 2(1) measured_trans [OF 1(2) 2(2)] by simp
qed

section \<open>A concrete world\<close>

text \<open>
  The world of the examples counts clock readings, random numbers and calls; every call succeeds.
\<close>

definition demo_api :: "(nat, int) api" where
  "demo_api = \<lparr>clock = (\<lambda>w. (of_nat w, w + 3)), sys = (\<lambda>name args w. ((1, 0), w + 1)),
     random = (\<lambda>w. (w mod 32768, w + 1)), fpo = int_fp\<rparr>"

lemma demo_calls [simp]: "calls_succeed demo_api"
  by (simp add: calls_succeed_def demo_api_def)

lemma new_experiment_fields [simp]:
  "ex_sw (new_experiment name sw w) = sw" "ex_iterations (new_experiment name sw w) = 5000"
  "ex_results (new_experiment name sw w) = []" "ex_world (new_experiment name sw w) = w"
  "ex_name (new_experiment name sw w) = name"
  by (simp_all add: new_experiment_def)

end
