(* ===== verification/BasicExperiments.thy ===== *)
theory BasicExperiments
  imports ExperimentBase
begin

text \<open>
  The experiments of the profiler that time one operation in a loop: \<open>MeasurementOverhead.cpp\<close>,
  \<open>LoopOverhead.cpp\<close>, \<open>SystemCallOverhead.cpp\<close>, \<open>ProcedureOverhead.cpp\<close> and \<open>TaskCreation.cpp\<close>.
  The empty counting loop of \<open>LoopOverhead\<close> has no effect besides the time it takes, which the
  world accounts for.
\<close>

section \<open>Measurement overhead\<close>

definition new_MeasurementOverhead :: "'d stopwatch \<Rightarrow> 'w \<Rightarrow> ('w, 'd) exper" where
  "new_MeasurementOverhead stopwatch w = new_experiment ''Measurement Overhead'' stopwatch w"

definition MeasurementOverhead_Run :: "('w, 'd) api \<Rightarrow> ('w, 'd, 'z) exper_scheme \<Rightarrow> ('w, 'd, 'z) exper_scheme option" where
  "MeasurementOverhead_Run A e = do {
     let overhead = GetOverheadSimpleAsTicks (ex_sw e);
     e1 \<leftarrow> (if overhead = 0
            then do { (sw, w) \<leftarrow> CalculateOverheadSimple (clock A) (ex_sw e) (ex_world e);
                      Some (e\<lparr>ex_sw := sw, ex_world := w\<rparr>) }
            else Some e);
     Some (PushResult ''Minimum (us)'' (GetOverheadSimpleAsMicroSeconds (fpo A) (ex_sw e1)) e1)
   }"

section \<open>Loop overhead\<close>

definition new_LoopOverhead :: "'d stopwatch \<Rightarrow> 'w \<Rightarrow> ('w, 'd) exper" where
  "new_LoopOverhead stopwatch w = new_experiment ''Loop Overhead'' stopwatch w"

fun count_to :: "nat \<Rightarrow> nat \<Rightarrow> nat" where
  "count_to j 0 = j"
| "count_to j (Suc n) = count_to (Suc j) n"

definition LoopOverhead_Run :: "('w, 'd) api \<Rightarrow> ('w, 'd, 'z) exper_scheme \<Rightarrow> ('w, 'd, 'z) exper_scheme option" where
  "LoopOverhead_Run A e = do {
     let tag = Tag ''CPU-Scheduling -- Loop Overhead per 1000 iterations'' 0;
     e1 \<leftarrow> for_opt 0 (ex_iterations e) (\<lambda>i e.
            let e1 = ss_push A tag e; j = count_to 0 1000 in Some (ss_pop A e1)) e;
     Some (PushResultMeanAsMicroseconds A ''Loop Overhead per 1000 iterations'' (history tag e1) (minus_overhead e1) e1)
   }"

section \<open>System call overhead\<close>

definition new_SystemCallOverhead :: "'d stopwatch \<Rightarrow> 'w \<Rightarrow> ('w, 'd) exper" where
  "new_SystemCallOverhead stopwatch w = new_experiment ''System Call Overhead'' stopwatch w"

text \<open>\<open>if(i % 100 == 0) Sleep(1);\<close>\<close>

definition yield_early :: "('w, 'd) api \<Rightarrow> nat \<Rightarrow> ('w, 'd, 'z) exper_scheme \<Rightarrow> ('w, 'd, 'z) exper_scheme" where
  "yield_early A i e = (if i mod 100 = 0 then call A ''Sleep'' [I 1] e else e)"

definition SystemCallOverhead_Run :: "('w, 'd) api \<Rightarrow> ('w, 'd, 'z) exper_scheme \<Rightarrow> ('w, 'd, 'z) exper_scheme option" where
  "SystemCallOverhead_Run A e = do {
     let tag = Tag ''SystemCallOverhead'' 0;
     e1 \<leftarrow> for_opt 0 (ex_iterations e) (\<lambda>i e.
            Some (yield_early A i (ss_pop A (call A ''SetThreadAffinityMask'' [I (-1), I 0] (ss_push A tag e))))) e;
     Some (PushResultMeanAsMicroseconds A ''System Call Overhead (us)'' (history tag e1) (minus_overhead e1) e1)
   }"

section \<open>Procedure call overhead\<close>

text \<open>
  The static variable \<open>g_hiddenValue\<close> is set to the address of the tag, given by a function
  \<open>addr\<close>; the sums of the test procedures wrap around.
\<close>

record ('w, 'd) procedure_overhead = "('w, 'd) exper" +
  g_hiddenValue :: "32 word"

definition new_ProcedureOverhead :: "'d stopwatch \<Rightarrow> 'w \<Rightarrow> ('w, 'd) procedure_overhead" where
  "new_ProcedureOverhead stopwatch w =
     exper.extend (new_experiment ''Procedure Call Overhead'' stopwatch w) \<lparr>g_hiddenValue = 0\<rparr>"

definition Procedure0 :: "32 word \<Rightarrow> 32 word" where "Procedure0 g = g"

definition Procedure1 :: "32 word \<Rightarrow> 32 word \<Rightarrow> 32 word" where "Procedure1 g a = g + a"

definition Procedure2 :: "32 word \<Rightarrow> 32 word \<Rightarrow> 32 word \<Rightarrow> 32 word" where "Procedure2 g a b = g + b"

definition Procedure3 :: "32 word \<Rightarrow> 32 word \<Rightarrow> 32 word \<Rightarrow> 32 word \<Rightarrow> 32 word" where
  "Procedure3 g a b c = g + c"

definition Procedure4 :: "32 word \<Rightarrow> 32 word \<Rightarrow> 32 word \<Rightarrow> 32 word \<Rightarrow> 32 word \<Rightarrow> 32 word" where
  "Procedure4 g a b c d = g + d"

definition Procedure5 :: "32 word \<Rightarrow> 32 word \<Rightarrow> 32 word \<Rightarrow> 32 word \<Rightarrow> 32 word \<Rightarrow> 32 word \<Rightarrow> 32 word" where
  "Procedure5 g a b c d e = g + e"

definition Procedure6 :: "32 word \<Rightarrow> 32 word \<Rightarrow> 32 word \<Rightarrow> 32 word \<Rightarrow> 32 word \<Rightarrow> 32 word \<Rightarrow> 32 word \<Rightarrow> 32 word" where
  "Procedure6 g a b c d e f = g + f"

definition Procedure7 :: "32 word \<Rightarrow> 32 word \<Rightarrow> 32 word \<Rightarrow> 32 word \<Rightarrow> 32 word \<Rightarrow> 32 word \<Rightarrow> 32 word \<Rightarrow> 32 word \<Rightarrow> 32 word" where
  "Procedure7 g a b c d e f g' = g + g'"

text \<open>One of the eight parts of \<open>Run\<close>, for the procedure \<open>pfn\<close> called with the loop counter.\<close>

definition procedure_part :: "('w, 'd :: linorder) api \<Rightarrow> (string \<Rightarrow> 32 word) \<Rightarrow> string \<Rightarrow> string \<Rightarrow>
    (32 word \<Rightarrow> 32 word \<Rightarrow> 32 word) \<Rightarrow> ('w, 'd) procedure_overhead \<Rightarrow> ('w, 'd) procedure_overhead option" where
  "procedure_part A addr tagP resultName pfn e = do {
     let tag = Tag tagP 0;
     e1 \<leftarrow> for_opt 0 (ex_iterations e) (\<lambda>i e.
            let e1 = ss_push A tag e; ignored = pfn (g_hiddenValue e1) (of_nat i)
            in Some (yield_early A i (ss_pop A e1))) (e\<lparr>g_hiddenValue := addr tagP\<rparr>);
     PushResultMinimumAsMicroseconds A resultName (history tag e1) (minus_overhead e1) e1
   }"

definition ProcedureOverhead_Run :: "('w, 'd :: linorder) api \<Rightarrow> (string \<Rightarrow> 32 word) \<Rightarrow>
    ('w, 'd) procedure_overhead \<Rightarrow> ('w, 'd) procedure_overhead option" where
  "ProcedureOverhead_Run A addr e = do {
     e \<leftarrow> procedure_part A addr ''P0'' ''0 Parameters (us)'' (\<lambda>g i. Procedure0 g) e;
     e \<leftarrow> procedure_part A addr ''P1'' ''1 Parameters (us)'' (\<lambda>g i. Procedure1 g i) e;
     e \<leftarrow> procedure_part A addr ''P2'' ''2 Parameters (us)'' (\<lambda>g i. Procedure2 g i 234) e;
     e \<leftarrow> procedure_part A addr ''P3'' ''3 Parameters (us)'' (\<lambda>g i. Procedure3 g i 234 i) e;
     e \<leftarrow> procedure_part A addr ''P4'' ''4 Parameters (us)'' (\<lambda>g i. Procedure4 g i 234 i 456) e;
     e \<leftarrow> procedure_part A addr ''P5'' ''5 Parameters (us)'' (\<lambda>g i. Procedure5 g i 234 i 456 i) e;
     e \<leftarrow> procedure_part A addr ''P6'' ''6 Parameters (us)'' (\<lambda>g i. Procedure6 g i 234 i 456 i 678) e;
     procedure_part A addr ''P7'' ''7 Parameters (us)'' (\<lambda>g i. Procedure7 g i 234 i 456 i 678 i) e
   }"

section \<open>Task creation\<close>

definition new_TaskCreation :: "'d stopwatch \<Rightarrow> 'w \<Rightarrow> ('w, 'd) exper" where
  "new_TaskCreation stopwatch w = new_experiment ''Task Creation Time'' stopwatch w"

definition TaskCreation_ThreadMain :: "int \<Rightarrow> int" where "TaskCreation_ThreadMain argument = 0"

text \<open>
  The new thread runs \<^const>\<open>TaskCreation_ThreadMain\<close> and shares nothing with the experiment. A call
  returns its result and, for \<open>CreateProcess\<close>, the handle stored in \<open>processInfo.hProcess\<close>.
\<close>

definition TaskCreation_thread :: "('w, 'd) api \<Rightarrow> ('w, 'd, 'z) exper_scheme \<Rightarrow> ('w, 'd, 'z) exper_scheme option" where
  "TaskCreation_thread A e =
     (let e1 = ss_push A (Tag ''CreateThread'' 0) e;
          ((hThread, _), e2) = syscall A ''CreateThread'' [I 0, I 0, S ''TaskCreation_ThreadMain'', I 0, I 0, I 0] e1
      in if hThread = 0 then None
         else
           let e3 = ss_pop A (call A ''WaitForSingleObject'' [I hThread, I (-1)] e2);
               ((closed, _), e4) = syscall A ''CloseHandle'' [I hThread] e3
           in if closed = 0 then None else Some e4)"

definition TaskCreation_process :: "('w, 'd) api \<Rightarrow> ('w, 'd, 'z) exper_scheme \<Rightarrow> ('w, 'd, 'z) exper_scheme option" where
  "TaskCreation_process A e =
     (let e1 = ss_push A (Tag ''CreateProcess'' 0) e;
          ((ok, hProcess), e2) = syscall A ''CreateProcess'' [S ''svchost.exe'', I 0x20] e1
      in if ok = 0 then None
         else
           let e3 = ss_pop A (call A ''WaitForSingleObject'' [I hProcess, I (-1)] e2);
               ((closed, _), e4) = syscall A ''CloseHandle'' [I hProcess] e3
           in if closed = 0 then None else Some e4)"

definition TaskCreation_Run :: "('w, 'd :: linorder) api \<Rightarrow> ('w, 'd, 'z) exper_scheme \<Rightarrow> ('w, 'd, 'z) exper_scheme option" where
  "TaskCreation_Run A e = do {
     e \<leftarrow> for_opt 0 1000 (\<lambda>i. TaskCreation_thread A) e;
     e \<leftarrow> PushResultMedianAsMicroseconds A ''CreateThread (us)'' (history (Tag ''CreateThread'' 0) e) (minus_overhead e) e;
     e \<leftarrow> for_opt 0 1000 (\<lambda>i. TaskCreation_process A) e;
     PushResultMedianAsMicroseconds A ''CreateProcess (us)'' (history (Tag ''CreateProcess'' 0) e) (minus_overhead e) e
   }"

section \<open>What the experiments report\<close>

lemma measured_yield: "measured tag n e e' \<Longrightarrow> measured tag n e (yield_early A i e')"
  by (simp add: yield_early_def measured_syscall)

lemma procedure_part_spec:
  assumes "room e" "sw_ok (ex_sw e)" "0 < sw_tagHistorySize (ex_sw e)" "0 < ex_iterations e"
  shows "\<exists>e'. procedure_part A addr tagP name pfn e = Some e' \<and>
    length (history (Tag tagP 0) e') = min (sw_tagHistorySize (ex_sw e)) (length (history (Tag tagP 0) e) + ex_iterations e) \<and>
    ex_results e' = ex_results e @ [(name, Min (as_us A (ex_sw e) (minus_overhead e) ` set (history (Tag tagP 0) e')))] \<and>
    same_setup e e' \<and> sw_ok (ex_sw e') \<and> (\<forall>t. t \<noteq> Tag tagP 0 \<longrightarrow> history t e' = history t e)"
proof -
  let ?t = "Tag tagP 0" and ?e = "e\<lparr>g_hiddenValue := addr tagP\<rparr>"
  have same: "room ?e" "ex_sw ?e = ex_sw e" "history t ?e = history t e" for t
    using assms(1) by (auto simp: room_def history_def)
  let ?body = "\<lambda>i e. let e1 = ss_push A ?t e; ignored = pfn (g_hiddenValue e1) (of_nat i)
      in Some (yield_early A i (ss_pop A e1))"
  have "\<exists>e1. for_opt 0 (ex_iterations e) ?body ?e = Some e1 \<and> measured ?t (ex_iterations e * 1) ?e e1"
    by (rule measured_loop_total) (auto simp: Let_def same(1) simp del: One_nat_def intro!: measured_yield timed0)
  then obtain e1 where e1: "for_opt 0 (ex_iterations e) ?body ?e = Some e1" "measured ?t (ex_iterations e) ?e e1"
    by auto
  note m = e1(2)
  have len: "length (history ?t e1) = min (sw_tagHistorySize (ex_sw e)) (length (history ?t e) + ex_iterations e)"
    using length_measured_history [OF m] assms(2) same by simp
  then have ne: "history ?t e1 \<noteq> []" using assms(3,4) by (auto simp flip: length_greater_0_conv)
  have s: "same_setup e e1" using measured_same_setup [OF m] by (simp add: same_setup_def)
  have "procedure_part A addr tagP name pfn e =
      Some (PushResult name (Min (as_us A (ex_sw e) (minus_overhead e) ` set (history ?t e1))) e1)"
    using e1(1) Minimum_eq [OF ne, of "as_us A (ex_sw e1) (minus_overhead e1)"]
      same_setup_eqs(2) [OF s, of A] same_setup_eqs(3) [OF s]
    by (simp add: procedure_part_def Let_def PushResultMinimumAsMicroseconds_def)
  moreover have "sw_ok (ex_sw e1)" using measured_ok [OF m] assms(2) same(2) by simp
  moreover have "ex_results e1 = ex_results e" using measured_fields(1) [OF m] by simp
  moreover have "\<forall>t. t \<noteq> ?t \<longrightarrow> history t e1 = history t e"
    using measured_history(2) [OF m] assms(2) same by simp
  ultimately show ?thesis using len s by simp
qed

text \<open>The eight parts as a list.\<close>

fun procedure_parts :: "('w, 'd :: linorder) api \<Rightarrow> (string \<Rightarrow> 32 word) \<Rightarrow>
    (string \<times> string \<times> (32 word \<Rightarrow> 32 word \<Rightarrow> 32 word)) list \<Rightarrow>
    ('w, 'd) procedure_overhead \<Rightarrow> ('w, 'd) procedure_overhead option" where
  "procedure_parts A addr [] e = Some e"
| "procedure_parts A addr ((tagP, name, pfn) # ps) e =
     Option.bind (procedure_part A addr tagP name pfn e) (procedure_parts A addr ps)"

lemma procedure_parts_funs:
  "procedure_parts A addr [] = Some"
  "procedure_parts A addr ((tagP, name, pfn) # ps) =
     (\<lambda>e. Option.bind (procedure_part A addr tagP name pfn e) (procedure_parts A addr ps))"
  by (simp_all add: fun_eq_iff)

lemma procedure_parts_spec:
  assumes "room e" "sw_ok (ex_sw e)" "0 < sw_tagHistorySize (ex_sw e)" "0 < ex_iterations e"
    and "distinct (map fst ps)" "\<forall>p \<in> set ps. history (Tag (fst p) 0) e = []"
  shows "\<exists>e'. procedure_parts A addr ps e = Some e' \<and>
    (\<forall>p \<in> set ps. length (history (Tag (fst p) 0) e') = min (sw_tagHistorySize (ex_sw e)) (ex_iterations e)) \<and>
    ex_results e' = ex_results e @
      map (\<lambda>p. (fst (snd p), Min (as_us A (ex_sw e) (minus_overhead e) ` set (history (Tag (fst p) 0) e')))) ps \<and>
    (\<forall>t. t \<notin> (\<lambda>p. Tag (fst p) 0) ` set ps \<longrightarrow> history t e' = history t e)"
  using assms
proof (induction ps arbitrary: e)
  case Nil
  then show ?case by simp
next
  case (Cons p ps)
  obtain tagP name pfn where p: "p = (tagP, name, pfn)" by (metis prod_cases3)
  obtain e1 where e1: "procedure_part A addr tagP name pfn e = Some e1"
    "length (history (Tag tagP 0) e1) = min (sw_tagHistorySize (ex_sw e)) (length (history (Tag tagP 0) e) + ex_iterations e)"
    "ex_results e1 = ex_results e @ [(name, Min (as_us A (ex_sw e) (minus_overhead e) ` set (history (Tag tagP 0) e1)))]"
    "same_setup e e1" "sw_ok (ex_sw e1)" "\<forall>t. t \<noteq> Tag tagP 0 \<longrightarrow> history t e1 = history t e"
    using procedure_part_spec [OF Cons.prems(1-4)] by blast
  note eqs = same_setup_eqs(1,3-5) [OF e1(4)] same_setup_eqs(2) [OF e1(4), of A]
  have "\<forall>q \<in> set ps. fst q \<noteq> tagP" using Cons.prems(5) p by (auto simp: image_iff)
  then have "\<forall>q \<in> set ps. history (Tag (fst q) 0) e1 = []" using e1(6) Cons.prems(6) by simp
  from Cons.IH [OF _ e1(5) _ _ _ this] obtain e' where
    e': "procedure_parts A addr ps e1 = Some e'"
    "\<forall>p \<in> set ps. length (history (Tag (fst p) 0) e') = min (sw_tagHistorySize (ex_sw e)) (ex_iterations e)"
    "ex_results e' = ex_results e1 @
      map (\<lambda>p. (fst (snd p), Min (as_us A (ex_sw e) (minus_overhead e) ` set (history (Tag (fst p) 0) e')))) ps"
    "\<forall>t. t \<notin> (\<lambda>p. Tag (fst p) 0) ` set ps \<longrightarrow> history t e' = history t e1"
    using Cons.prems eqs by auto
  have "history (Tag tagP 0) e' = history (Tag tagP 0) e1" using e'(4) Cons.prems(5) p by (auto simp: image_iff)
  then show ?case using e1 e' p Cons.prems(6) by (intro exI [of _ e']) simp
qed

definition procedure_tests :: "(string \<times> string \<times> (32 word \<Rightarrow> 32 word \<Rightarrow> 32 word)) list" where
  "procedure_tests =
     [(''P0'', ''0 Parameters (us)'', \<lambda>g i. Procedure0 g),
      (''P1'', ''1 Parameters (us)'', \<lambda>g i. Procedure1 g i),
      (''P2'', ''2 Parameters (us)'', \<lambda>g i. Procedure2 g i 234),
      (''P3'', ''3 Parameters (us)'', \<lambda>g i. Procedure3 g i 234 i),
      (''P4'', ''4 Parameters (us)'', \<lambda>g i. Procedure4 g i 234 i 456),
      (''P5'', ''5 Parameters (us)'', \<lambda>g i. Procedure5 g i 234 i 456 i),
      (''P6'', ''6 Parameters (us)'', \<lambda>g i. Procedure6 g i 234 i 456 i 678),
      (''P7'', ''7 Parameters (us)'', \<lambda>g i. Procedure7 g i 234 i 456 i 678 i)]"

lemma ProcedureOverhead_Run_parts: "ProcedureOverhead_Run A addr e = procedure_parts A addr procedure_tests e"
  by (simp add: ProcedureOverhead_Run_def procedure_tests_def procedure_parts_funs)



end
