(* ===== verification/CommandLine.thy ===== *)
theory CommandLine
  imports TextIO
begin

text \<open>
  How a program gets its arguments: a parent passes one string to \<open>CreateProcessW\<close>, and the start-up code of the
  new process splits it into \<open>argv\<close>. Arguments are separated by blanks and tabs outside of quotes; a quote opens or
  closes a quoted part; backslashes stand for themselves unless they precede a quote, where each pair of them is
  one backslash and an odd one makes the quote an ordinary character. Two quotes in a row inside a quoted
  part, which no command line here has, are not treated specially.
\<close>

abbreviation quote_char :: char where "quote_char \<equiv> CHR 0x22"
abbreviation backslash :: char where "backslash \<equiv> CHR 0x5C"

section \<open>Splitting\<close>

text \<open>
  Whether the scan is inside quotes, how many backslashes are pending, and the argument read so far, if one has
  begun
\<close>

fun crt_scan :: "bool \<Rightarrow> nat \<Rightarrow> string option \<Rightarrow> string \<Rightarrow> string list" where
  "crt_scan quoted b cur [] = (case cur of None \<Rightarrow> [] | Some w \<Rightarrow> [w @ replicate b backslash])"
| "crt_scan quoted b cur (c # s) =
     (let w = (case cur of None \<Rightarrow> [] | Some w \<Rightarrow> w)
      in if c = backslash then crt_scan quoted (Suc b) (Some w) s
         else if c = quote_char then
           if even b then crt_scan (\<not> quoted) 0 (Some (w @ replicate (b div 2) backslash)) s
           else crt_scan quoted 0 (Some (w @ replicate (b div 2) backslash @ [c])) s
         else if c \<in> {CHR '' '', CHR 0x09} \<and> \<not> quoted then
           case cur of None \<Rightarrow> crt_scan quoted 0 None s
           | Some w \<Rightarrow> (w @ replicate b backslash) # crt_scan quoted 0 None s
         else crt_scan quoted 0 (Some (w @ replicate b backslash @ [c])) s)"

definition crt_args :: "string \<Rightarrow> string list" where
  "crt_args line = crt_scan False 0 None line"

section \<open>Plain and quoted arguments\<close>

definition plain_char :: "char \<Rightarrow> bool" where
  "plain_char c \<longleftrightarrow> c \<notin> {CHR '' '', CHR 0x09, quote_char, backslash}"

definition plain_word :: "string \<Rightarrow> bool" where
  "plain_word w \<longleftrightarrow> w \<noteq> [] \<and> (\<forall>c \<in> set w. plain_char c)"

lemma crt_scan_plain:
  "\<forall>c \<in> set w. plain_char c \<Longrightarrow> crt_scan False 0 (Some u) (w @ s) = crt_scan False 0 (Some (u @ w)) s"
  by (induction w arbitrary: u) (auto simp: plain_char_def)

lemma crt_scan_word:
  assumes "plain_word w"
  shows "crt_scan False 0 None (w @ s) = crt_scan False 0 (Some w) s"
proof -
  obtain c v where w: "w = c # v" "plain_char c" "\<forall>c \<in> set v. plain_char c"
    using assms by (cases w) (auto simp: plain_word_def)
  then show ?thesis using crt_scan_plain [of v "[c]" s] by (simp add: plain_char_def)
qed

text \<open>The steps from one argument to the next\<close>

lemma crt_scan_steps:
  "plain_word w \<Longrightarrow> crt_scan False 0 None (w @ CHR '' '' # s) = w # crt_scan False 0 None s"
  "plain_word w \<Longrightarrow> crt_scan False 0 None w = [w]"
  "crt_scan False 0 None (CHR '' '' # s) = crt_scan False 0 None s"
  using crt_scan_word [of w "CHR '' '' # s"] crt_scan_word [of w "[]"] by simp_all

text \<open>A quoted part without quotes ends at the next one, unless a backslash comes before it.\<close>

lemma crt_scan_quoted:
  assumes "quote_char \<notin> set f" "f = [] \<longrightarrow> b = 0" "f \<noteq> [] \<longrightarrow> last f \<noteq> backslash"
  shows "crt_scan True b (Some u) (f @ quote_char # s) = crt_scan False 0 (Some (u @ replicate b backslash @ f)) s"
  using assms
proof (induction f arbitrary: b u)
  case (Cons c f)
  show ?case
  proof (cases "c = backslash")
    case True
    then have "f \<noteq> []" using Cons.prems(3) by auto
    then show ?thesis using Cons True by (simp add: replicate_append_same [symmetric])
  next
    case False
    then show ?thesis using Cons by (auto split: if_splits)
  qed
qed simp

lemma crt_args_quoted:
  assumes "quote_char \<notin> set f" "f \<noteq> [] \<longrightarrow> last f \<noteq> backslash"
  shows "crt_scan False 0 None (quote_char # f @ [quote_char]) = [f]"
  using crt_scan_quoted [of f 0 "[]" "[]"] assms by simp

lemma plain_number: "plain_word (show_base 10 n)"
proof -
  have "list_all (\<lambda>d. plain_char (hex_char d)) [0..<10]" by code_simp
  then have "plain_char (hex_char d)" if "d < 10" for d using that by (simp add: list_all_iff)
  moreover have "show_base 10 n \<noteq> []" using show_base_hd [of 10 n] by auto
  ultimately show ?thesis using show_base_chars [of _ n] by (auto simp: plain_word_def)
qed

end
