(* ===== verification/ContextSwitch.thy ===== *)
theory ContextSwitch
  imports ExperimentBase CommandLine
begin

text \<open>
  The context-switch experiment (\<open>ContextSwitchTime.h\<close>, \<open>ContextSwitchTime.cpp\<close>). The threads and the
  child processes are program code that runs beside the main thread: each is a small state
  machine (\<open>runner\<close>), and a schedule says in which order the machines take their steps. The steps a
  thread takes before the gates open are taken while the main thread sleeps, the others while it
  waits for all of them; \<^term>\<open>None\<close> also stands for waiting forever. A step is atomic: the
  critical section protects the only shared counter, and each machine writes its own slot of the
  shared memory. The shared memory is a list of ticks; what \<open>malloc\<close> leaves in it is an argument.
\<close>

section \<open>Threads and child processes\<close>

text \<open>
  A thread has not begun, waits for the event with its number, has passed the event, sleeps with its
  reading, or has stored it.
\<close>

datatype runner = T_start | T_waiting nat | T_go nat | T_read nat tick | T_done nat tick | T_failed

record 'w machine =
  m_world :: 'w
  m_counter :: nat
  m_set :: bool
  m_mem :: "tick list"
  m_runners :: "runner list"

text \<open>What threads and child processes do differently: how they begin and how they end.\<close>

record 'w runner_code =
  rc_start :: "nat \<Rightarrow> 'w machine \<Rightarrow> runner \<times> 'w machine"
  rc_finish :: "'w \<Rightarrow> 'w"

text \<open>The first steps of \<open>ThreadMain\<close>: \<open>localThreadId = _threadIdCounter++\<close>.\<close>

definition ThreadMain :: "'w runner_code" where
  "ThreadMain = \<lparr>rc_start = (\<lambda>i m. (T_waiting (m_counter m), m\<lparr>m_counter := Suc (m_counter m)\<rparr>)), rc_finish = (\<lambda>w. w)\<rparr>"

text \<open>
  The first steps of \<open>ChildProcessMain\<close>: the number is read from the command line (a failed
  extraction leaves \<open>0\<close>; a negative number, which the parent never passes, is not followed
  further), and the child ends with an exception when a call fails.
\<close>

definition child_command_line :: "nat \<Rightarrow> string" where
  "child_command_line localProcessId = ''Profiler.exe'' @ '' -ContextSwitchTimeChildProcess '' @ show_int (int localProcessId)"

text \<open>The arguments that the child with this command line gets\<close>

definition child_argv :: "nat \<Rightarrow> string list" where
  "child_argv i = crt_args (child_command_line i)"

lemma child_argv_eq: "child_argv i = [''Profiler.exe'', ''-ContextSwitchTimeChildProcess'', show_int (int i)]"
proof -
  have "plain_word ''Profiler.exe''" "plain_word ''-ContextSwitchTimeChildProcess''" by (code_simp)+
  with crt_scan_steps(1) [of "''Profiler.exe''" "''-ContextSwitchTimeChildProcess '' @ show_base 10 i"]
    crt_scan_steps(1) [of "''-ContextSwitchTimeChildProcess''" "show_base 10 i"]
  show ?thesis by (simp add: child_argv_def crt_args_def child_command_line_def show_int_def crt_scan_steps(2) plain_number)
qed

definition CST_ChildProcessMain_start :: "('w, 'd) api \<Rightarrow> string list \<Rightarrow> 'w machine \<Rightarrow> runner \<times> 'w machine" where
  "CST_ChildProcessMain_start A argv m =
     (if length argv < 3 then (T_failed, m)
      else
        let localProcessId = (case ParseInteger (argv ! 2) of Some i \<Rightarrow> i | None \<Rightarrow> 0);
            ((hSharedMemory, _), w) = sys A ''CreateFileMapping''
               [I (-1), I 1048576, S ''Local CSE221-ContextSwitchTime-ProcessSharedData''] (m_world m)
        in if hSharedMemory = 0 then (T_failed, m\<lparr>m_world := w\<rparr>)
           else
             let ((pSharedMemory, _), w) = sys A ''MapViewOfFile'' [I hSharedMemory, I 1048576] w
             in if pSharedMemory = 0 then (T_failed, m\<lparr>m_world := w\<rparr>)
                else
                  let ((condition, _), w) = sys A ''OpenEvent'' [S ''Local CSE221-ContextSwitchTime-ThreadsMayStart''] w
                  in if condition = 0 \<or> localProcessId < 0 then (T_failed, m\<lparr>m_world := w\<rparr>)
                     else (T_waiting (nat localProcessId), m\<lparr>m_world := w\<rparr>))"

definition CST_ChildProcessMain :: "('w, 'd) api \<Rightarrow> 'w runner_code" where
  "CST_ChildProcessMain A =
     \<lparr>rc_start = (\<lambda>i. CST_ChildProcessMain_start A (child_argv i)),
      rc_finish = (\<lambda>w. snd (sys A ''CloseHandle'' [S ''hSharedMemory'']
        (snd (sys A ''UnmapViewOfFile'' [S ''pSharedMemory'']
          (snd (sys A ''CloseHandle'' [S ''conditionThreadsMayStart''] w))))))\<rparr>"

text \<open>
  One step of the \<open>i\<close>-th machine: the rest of \<open>ThreadMain\<close> and of \<open>ChildProcessMain\<close>. A machine that
  waits for the event and one that has ended do not move.
\<close>

definition runner_step :: "('w, 'd) api \<Rightarrow> 'w runner_code \<Rightarrow> nat \<Rightarrow> 'w machine \<Rightarrow> 'w machine option" where
  "runner_step A code i m =
     (case m_runners m ! i of
        T_start \<Rightarrow> (case rc_start code i m of (r, m1) \<Rightarrow> Some (m1\<lparr>m_runners := (m_runners m1)[i := r]\<rparr>))
      | T_waiting n \<Rightarrow> Some (if m_set m then m\<lparr>m_runners := (m_runners m)[i := T_go n]\<rparr> else m)
      | T_go n \<Rightarrow>
          (case Read (clock A) (m_world m) of (ticks, w) \<Rightarrow>
             Some (m\<lparr>m_world := snd (sys A ''Sleep'' [I 1000] w), m_runners := (m_runners m)[i := T_read n ticks]\<rparr>))
      | T_read n ticks \<Rightarrow>
          if 1 + n < length (m_mem m)
          then Some (m\<lparr>m_world := rc_finish code (m_world m), m_mem := (m_mem m)[1 + n := ticks], m_runners := (m_runners m)[i := T_done n ticks]\<rparr>)
          else None
      | T_done n ticks \<Rightarrow> Some m
      | T_failed \<Rightarrow> Some m)"

fun run_schedule :: "('w, 'd) api \<Rightarrow> 'w runner_code \<Rightarrow> nat list \<Rightarrow> 'w machine \<Rightarrow> 'w machine option" where
  "run_schedule A code [] m = Some m"
| "run_schedule A code (i # is) m =
     (if i < length (m_runners m) then Option.bind (runner_step A code i m) (run_schedule A code is)
      else run_schedule A code is m)"

fun ended :: "runner \<Rightarrow> bool" where
  "ended (T_done n ticks) = True"
| "ended T_failed = True"
| "ended _ = False"

section \<open>The experiment\<close>

record ('w, 'd) context_switch = "('w, 'd) exper" +
  conditionThreadsMayStart :: int
  criticalSectionStopwatch :: int
  threadSharedMemory :: int
  threadIdCounter :: nat

abbreviation threadSwitchStopwatchTag :: tag where
  "threadSwitchStopwatchTag \<equiv> Tag ''ThreadContextSwitch'' 0"

abbreviation processSwitchStopwatchTag :: tag where
  "processSwitchStopwatchTag \<equiv> Tag ''ProcessContextSwitch'' 0"

definition new_ContextSwitchTime :: "('w, 'd) api \<Rightarrow> 'd stopwatch \<Rightarrow> 'w \<Rightarrow> ('w, 'd) context_switch" where
  "new_ContextSwitchTime A stopwatch w =
     (case sys A ''malloc'' [S ''sizeof(CRITICAL_SECTION)''] w of ((cs, _), w1) \<Rightarrow>
        exper.extend (new_experiment ''Context Switch Time'' stopwatch (snd (sys A ''InitializeCriticalSectionEx'' [I cs] w1)))
          \<lparr>conditionThreadsMayStart = 0, criticalSectionStopwatch = cs, threadSharedMemory = 0, threadIdCounter = 0\<rparr>)"

definition CST_CreateThread :: "('w, 'd) api \<Rightarrow> ('w, 'd) context_switch \<Rightarrow> (int \<times> ('w, 'd) context_switch) option" where
  "CST_CreateThread A e =
     (let ((hThread, _), e1) = syscall A ''CreateThread'' [S ''ContextSwitchTime_ThreadMain''] e
      in if hThread = 0 then None
         else
           let e2 = call A ''SetThreadAffinityMask'' [I hThread, I 1] e1;
               ((ok, _), e3) = syscall A ''SetThreadPriority'' [I hThread, I 15] e2
           in if ok = 0 then None else Some (hThread, e3))"

definition CST_CreateProcess :: "('w, 'd) api \<Rightarrow> nat \<Rightarrow> ('w, 'd) context_switch \<Rightarrow> (int \<times> ('w, 'd) context_switch) option" where
  "CST_CreateProcess A localProcessId e =
     (let e1 = call A ''GetModuleFileName'' [I 0, I 1024] e;
          ((success, hProcess), e2) = syscall A ''CreateProcessW'' [S (child_command_line localProcessId)] e1
      in if success = 0 then None else Some (hProcess, e2))"

text \<open>\<open>for(int i = 0; i < n; ++i) handles.push_back(create(i))\<close>\<close>

fun create_all :: "(nat \<Rightarrow> 's \<Rightarrow> (int \<times> 's) option) \<Rightarrow> nat \<Rightarrow> nat \<Rightarrow> 's \<Rightarrow> (int list \<times> 's) option" where
  "create_all create i 0 e = Some ([], e)"
| "create_all create i (Suc n) e = do {
     (h, e1) \<leftarrow> create i e;
     (hs, e2) \<leftarrow> create_all create (Suc i) n e1;
     Some (h # hs, e2)
   }"

text \<open>The waits for the batches, and the closing of all handles.\<close>

definition wait_all :: "('w, 'd) api \<Rightarrow> nat \<Rightarrow> int list \<Rightarrow> ('w, 'd, 'z) exper_scheme \<Rightarrow> ('w, 'd, 'z) exper_scheme" where
  "wait_all A batch handles e =
     fold (\<lambda>i. call A ''WaitForMultipleObjects'' (map I (take batch (drop (i * batch) handles))))
       [0..<length handles div batch] e"

definition close_all :: "('w, 'd) api \<Rightarrow> int list \<Rightarrow> ('w, 'd, 'z) exper_scheme \<Rightarrow> ('w, 'd, 'z) exper_scheme" where
  "close_all A handles e = fold (\<lambda>h. call A ''CloseHandle'' [I h]) handles e"

text \<open>\<open>std::sort\<close> on ticks, and the storing of the differences in the stopwatch.\<close>

definition sort_ticks :: "tick list \<Rightarrow> tick list" where
  "sort_ticks ts = sort_key sint ts"

fun store_middle :: "tag \<Rightarrow> tick list \<Rightarrow> ('w, 'd, 'z) exper_scheme \<Rightarrow> ('w, 'd, 'z) exper_scheme option" where
  "store_middle tag [] e = Some e"
| "store_middle tag (t # ts) e = do {
     e1 \<leftarrow> ss_pop_value tag t e;
     store_middle tag ts (ss_push_value tag t e1)
   }"

definition store_timeline :: "tag \<Rightarrow> tick list \<Rightarrow> ('w, 'd, 'z) exper_scheme \<Rightarrow> ('w, 'd, 'z) exper_scheme option" where
  "store_timeline tag dataCollected e =
     (if dataCollected = [] then None
      else do {
        e2 \<leftarrow> store_middle tag (butlast (tl dataCollected)) (ss_push_value tag (hd dataCollected) e);
        ss_pop_value tag (last dataCollected) e2
      })"

text \<open>
  The action and the reorganisation of the data, which \<open>RunUsingThreads\<close> and \<open>RunUsingProcesses\<close> have
  in common: \<open>mem\<close> is the shared memory, \<open>handles\<close> are the handles of the threads or processes.
\<close>

definition race :: "('w, 'd) api \<Rightarrow> 'w runner_code \<Rightarrow> tick list \<Rightarrow> int list \<Rightarrow> nat list \<Rightarrow> nat list \<Rightarrow>
    ('w, 'd) context_switch \<Rightarrow> (tick list \<times> ('w, 'd) context_switch) option" where
  "race A code mem handles before after e = do {
     let n = length handles;
     let e1 = call A ''Sleep'' [I 1000] e;
     m1 \<leftarrow> run_schedule A code before
             \<lparr>m_world = ex_world e1, m_counter = threadIdCounter e1, m_set = False, m_mem = mem,
              m_runners = replicate n T_start\<rparr>;
     let (startTick, e2) = ss_read A (e1\<lparr>ex_world := m_world m1, threadIdCounter := m_counter m1\<rparr>);
     let e3 = call A ''SetEvent'' [I (conditionThreadsMayStart e2)] e2;
     m2 \<leftarrow> run_schedule A code after (m1\<lparr>m_world := ex_world e3, m_set := True\<rparr>);
     if list_all ended (m_runners m2) \<and> n + 1 < length (m_mem m2)
     then
       let e4 = wait_all A 64 handles (e3\<lparr>ex_world := m_world m2, threadIdCounter := m_counter m2\<rparr>);
           (endTick, e5) = ss_read A e4
       in Some ((m_mem m2)[0 := startTick, n + 1 := endTick], e5)
     else None
   }"

definition RunUsingThreads :: "('w, 'd :: linorder) api \<Rightarrow> tick list \<Rightarrow> nat list \<Rightarrow> nat list \<Rightarrow>
    ('w, 'd) context_switch \<Rightarrow> ('w, 'd) context_switch option" where
  "RunUsingThreads A junk before after e =
     (if conditionThreadsMayStart e \<noteq> 0 then None
      else do {
        let ((event, _), e) = syscall A ''CreateEvent'' [S ''Local CSE221-ContextSwitchTime-ThreadsMayStart''] e;
        let e = e\<lparr>conditionThreadsMayStart := event\<rparr>;
        (threads, e) \<leftarrow> create_all (\<lambda>i. CST_CreateThread A) 0 (64 * 10) e;
        let ((mem, _), e) = syscall A ''malloc'' [I 1048576] e;
        let e = e\<lparr>threadSharedMemory := mem\<rparr>;
        (shared, e) \<leftarrow> race A ThreadMain (if mem = 0 then [] else junk) threads before after e;
        e \<leftarrow> store_timeline threadSwitchStopwatchTag (sort_ticks (take (64 * 10 + 2) shared)) e;
        e \<leftarrow> PushResultMedianAsMicroseconds A ''Thread Switch Time (us)'' (history threadSwitchStopwatchTag e) (minus_overhead e) e;
        let e = close_all A threads e;
        let e = call A ''CloseHandle'' [I (conditionThreadsMayStart e)] e;
        let e = e\<lparr>conditionThreadsMayStart := 0\<rparr>;
        Some (call A ''free'' [I (threadSharedMemory e)] e)
      })"

definition RunUsingProcesses :: "('w, 'd :: linorder) api \<Rightarrow> nat list \<Rightarrow> nat list \<Rightarrow>
    ('w, 'd) context_switch \<Rightarrow> ('w, 'd) context_switch option" where
  "RunUsingProcesses A before after e =
     (if conditionThreadsMayStart e \<noteq> 0 then None
      else do {
        let ((event, _), e) = syscall A ''CreateEvent'' [S ''Local CSE221-ContextSwitchTime-ThreadsMayStart''] e;
        let e = e\<lparr>conditionThreadsMayStart := event\<rparr>;
        let ((hSharedMemory, _), e) = syscall A ''CreateFileMapping''
              [I (-1), I 1048576, S ''Local CSE221-ContextSwitchTime-ProcessSharedData''] e;
        e \<leftarrow> (if hSharedMemory = 0 then None else Some e);
        let ((pSharedMemory, _), e) = syscall A ''MapViewOfFile'' [I hSharedMemory, I 1048576] e;
        e \<leftarrow> (if pSharedMemory = 0 then None else Some e);
        (processes, e) \<leftarrow> create_all (CST_CreateProcess A) 0 (64 * 10) e;
        (shared, e) \<leftarrow> race A (CST_ChildProcessMain A) (replicate 131072 0) processes before after e;
        e \<leftarrow> store_timeline processSwitchStopwatchTag (sort_ticks (take (64 * 10 + 2) shared)) e;
        e \<leftarrow> PushResultMedianAsMicroseconds A ''Process Switch Time (us)'' (history processSwitchStopwatchTag e) (minus_overhead e) e;
        let e = close_all A processes e;
        let e = call A ''CloseHandle'' [I (conditionThreadsMayStart e)] e;
        let e = e\<lparr>conditionThreadsMayStart := 0\<rparr>;
        let e = call A ''UnmapViewOfFile'' [I pSharedMemory] e;
        Some (call A ''CloseHandle'' [I hSharedMemory] e)
      })"

definition ContextSwitchTime_Run :: "('w, 'd :: linorder) api \<Rightarrow> tick list \<Rightarrow> nat list \<Rightarrow> nat list \<Rightarrow> nat list \<Rightarrow> nat list \<Rightarrow>
    ('w, 'd) context_switch \<Rightarrow> ('w, 'd) context_switch option" where
  "ContextSwitchTime_Run A junk tb ta pb pa e =
     Option.bind (RunUsingThreads A junk tb ta e) (RunUsingProcesses A pb pa)"

section \<open>The times between the readings\<close>

definition deltas :: "tick list \<Rightarrow> tick list" where
  "deltas ts = map2 (\<lambda>a b. b - a) ts (tl ts)"

lemma deltas_simps [simp]: "deltas [] = []" "deltas [a] = []" "deltas (a # b # ts) = (b - a) # deltas (b # ts)"
  by (simp_all add: deltas_def)

lemma length_deltas [simp]: "length (deltas ts) = length ts - 1"
  by (simp add: deltas_def)

lemma sum_deltas: "ts \<noteq> [] \<Longrightarrow> sum_list (deltas ts) = last ts - hd ts"
proof (induction ts)
  case (Cons a ts)
  then show ?case by (cases ts) simp_all
qed simp

lemma push_pop_value:
  assumes "room e" "tag \<noteq> NoTag"
  shows "ss_pop_value tag t (ss_push_value tag a e) = Some (e\<lparr>ex_sw := StoreResultWithTag (t - a) tag (ex_sw e)\<rparr>)"
  using assms by (simp add: ss_pop_value_def ss_push_value_def PushWithValue_def PopWithValue_def room_def
      finish_entry_def Let_def)

lemma room_store [simp]: "room (e\<lparr>ex_sw := StoreResultWithTag d tag (ex_sw e)\<rparr>) = room e"
  by (simp add: room_def)

lemma store_middle_eq:
  assumes "room e" "tag \<noteq> NoTag"
  shows "store_middle tag ts (ss_push_value tag a e) =
    Some (ss_push_value tag (last (a # ts)) (e\<lparr>ex_sw := store_all tag (deltas (a # ts)) (ex_sw e)\<rparr>))"
  using assms
proof (induction ts arbitrary: a e)
  case (Cons t ts)
  then show ?case by (simp add: push_pop_value)
qed simp

lemma deltas_snoc: "ts \<noteq> [] \<Longrightarrow> deltas (ts @ [t]) = deltas ts @ [t - last ts]"
proof (induction ts)
  case (Cons a ts)
  then show ?case by (cases ts) simp_all
qed simp

lemma store_timeline_eq:
  assumes "room e" "tag \<noteq> NoTag" "2 \<le> length ts"
  shows "store_timeline tag ts e = Some (e\<lparr>ex_sw := store_all tag (deltas ts) (ex_sw e)\<rparr>)"
proof -
  obtain a us t where ts: "ts = a # us @ [t]"
    using assms(3) by (cases ts; cases "tl ts" rule: rev_cases) auto
  have r: "room (e\<lparr>ex_sw := store_all tag ds (ex_sw e)\<rparr>)" for ds using assms(1) by (simp add: room_def)
  have "deltas ts = deltas (a # us) @ [t - last (a # us)]" using deltas_snoc [of "a # us" t] by (simp add: ts)
  then show ?thesis using assms(1,2) push_pop_value [OF r assms(2)]
    by (simp add: store_timeline_def ts store_middle_eq store_all_append butlast_append)
qed

lemma timeline_measured:
  assumes "room e" "tag \<noteq> NoTag" "2 \<le> length ts"
  shows "\<exists>e'. store_timeline tag ts e = Some e' \<and> measured tag (length ts - 1) e e'"
  using store_timeline_eq [OF assms] unfolding measured_def
  by (intro exI [of _ "e\<lparr>ex_sw := store_all tag (deltas ts) (ex_sw e)\<rparr>"])
    (auto intro!: exI [of _ "deltas ts"] exI [of _ "ex_world e"])

lemma sort_ticks_simps [simp]:
  "length (sort_ticks ts) = length ts" "mset (sort_ticks ts) = mset ts" "sorted (map sint (sort_ticks ts))"
  by (simp_all add: sort_ticks_def)

section \<open>Interleavings\<close>

inductive runner_reach :: "('w, 'd) api \<Rightarrow> 'w runner_code \<Rightarrow> 'w machine \<Rightarrow> 'w machine \<Rightarrow> bool" for A code m0 where
  reach_refl: "runner_reach A code m0 m0"
| reach_step: "runner_reach A code m0 m \<Longrightarrow> i < length (m_runners m) \<Longrightarrow> runner_step A code i m = Some m' \<Longrightarrow>
    runner_reach A code m0 m'"
| reach_open: "runner_reach A code m0 m \<Longrightarrow> runner_reach A code m0 (m\<lparr>m_world := w, m_set := True\<rparr>)"

lemma reach_trans: "runner_reach A code m1 m2 \<Longrightarrow> runner_reach A code m0 m1 \<Longrightarrow> runner_reach A code m0 m2"
  by (induction rule: runner_reach.induct) (auto intro: reach_step reach_open)

lemma run_schedule_reach: "run_schedule A code is m = Some m' \<Longrightarrow> runner_reach A code m m'"
proof (induction "is" arbitrary: m)
  case (Cons i "is")
  then show ?case
    by (auto simp: bind_eq_Some_conv split: if_splits intro: reach_trans [OF _ reach_step [OF reach_refl]])
qed (simp add: reach_refl)

fun ident :: "runner \<Rightarrow> nat option" where
  "ident (T_waiting n) = Some n"
| "ident (T_go n) = Some n"
| "ident (T_read n t) = Some n"
| "ident (T_done n t) = Some n"
| "ident _ = None"

fun sample :: "runner \<Rightarrow> tick option" where
  "sample (T_read n t) = Some t"
| "sample (T_done n t) = Some t"
| "sample _ = None"

fun rank :: "runner \<Rightarrow> nat" where
  "rank T_start = 4"
| "rank (T_waiting n) = 3"
| "rank (T_go n) = 2"
| "rank (T_read n t) = 1"
| "rank _ = 0"

text \<open>
  The contract of the code at the beginning of a thread or child: it takes a number below \<open>N\<close>
  that no other one has; \<open>idinv\<close> relates the counter to the numbers taken so far.
\<close>

locale runner_pool =
  fixes A :: "('w, 'd) api" and code :: "'w runner_code" and N :: nat and idinv :: "nat \<Rightarrow> nat option list \<Rightarrow> bool"
  assumes start: "idinv (m_counter m) (map ident (m_runners m)) \<Longrightarrow> length (m_runners m) = N \<Longrightarrow> i < N \<Longrightarrow>
      m_runners m ! i = T_start \<Longrightarrow>
      \<exists>n m1. rc_start code i m = (T_waiting n, m1) \<and> m_runners m1 = m_runners m \<and> m_mem m1 = m_mem m \<and>
        m_set m1 = m_set m \<and> idinv (m_counter m1) ((map ident (m_runners m))[i := Some n])"
    and bound: "idinv c os \<Longrightarrow> length os = N \<Longrightarrow> i < N \<Longrightarrow> os ! i = Some n \<Longrightarrow> n < N"
    and unique: "idinv c os \<Longrightarrow> length os = N \<Longrightarrow> i < N \<Longrightarrow> j < N \<Longrightarrow> os ! i = Some n \<Longrightarrow> os ! j = Some n \<Longrightarrow> i = j"
begin

definition pool_ok :: "'w machine \<Rightarrow> bool" where
  "pool_ok m \<longleftrightarrow> length (m_runners m) = N \<and> N + 1 < length (m_mem m) \<and>
     idinv (m_counter m) (map ident (m_runners m)) \<and>
     (\<forall>i < N. m_runners m ! i \<noteq> T_failed \<and>
        (\<forall>t. sample (m_runners m ! i) = Some t \<longrightarrow> t \<in> range (\<lambda>w. fst (clock A w))) \<and>
        (\<forall>n t. m_runners m ! i = T_done n t \<longrightarrow> m_mem m ! Suc n = t))"

lemma pool_bound: "pool_ok m \<Longrightarrow> i < N \<Longrightarrow> ident (m_runners m ! i) = Some n \<Longrightarrow> n < N"
  using bound [of "m_counter m" "map ident (m_runners m)" i n] by (auto simp: pool_ok_def)

lemma pool_unique:
  "pool_ok m \<Longrightarrow> i < N \<Longrightarrow> j < N \<Longrightarrow> ident (m_runners m ! i) = Some n \<Longrightarrow> ident (m_runners m ! j) = Some n \<Longrightarrow> i = j"
  using unique [of "m_counter m" "map ident (m_runners m)" i j n] by (auto simp: pool_ok_def)

lemma pool_change:
  assumes "pool_ok m" "i < N" "r \<noteq> T_failed" "\<And>t. sample r = Some t \<Longrightarrow> t \<in> range (\<lambda>w. fst (clock A w))"
    and "\<And>n t. r \<noteq> T_done n t" "idinv c ((map ident (m_runners m))[i := ident r])"
  shows "pool_ok (m\<lparr>m_world := w, m_counter := c, m_set := b, m_runners := (m_runners m)[i := r]\<rparr>)"
  using assms by (auto simp: pool_ok_def nth_list_update map_update)

lemma pool_same_ident:
  assumes "pool_ok m" "i < N" "ident r = ident (m_runners m ! i)"
  shows "idinv (m_counter m) ((map ident (m_runners m))[i := ident r])"
proof -
  have "(map ident (m_runners m))[i := ident r] = map ident (m_runners m)"
    using assms(2,3) assms(1) by (intro nth_equalityI) (auto simp: nth_list_update pool_ok_def)
  then show ?thesis using assms(1) by (simp add: pool_ok_def)
qed

lemma pool_step:
  assumes "pool_ok m" "i < N"
  shows "\<exists>m'. runner_step A code i m = Some m' \<and> pool_ok m' \<and> m_set m' = m_set m \<and>
    (\<forall>j < N. j \<noteq> i \<longrightarrow> m_runners m' ! j = m_runners m ! j) \<and>
    (m_set m \<longrightarrow> rank (m_runners m' ! i) = rank (m_runners m ! i) - 1)"
proof (cases "m_runners m ! i")
  case T_start
  obtain n m1 where s: "rc_start code i m = (T_waiting n, m1)" "m_runners m1 = m_runners m" "m_mem m1 = m_mem m"
    "m_set m1 = m_set m" "idinv (m_counter m1) ((map ident (m_runners m))[i := Some n])"
    using start [of m i] assms T_start by (auto simp: pool_ok_def)
  have "pool_ok (m1\<lparr>m_runners := (m_runners m1)[i := T_waiting n]\<rparr>)"
    using assms s by (auto simp: pool_ok_def nth_list_update map_update)
  then show ?thesis using T_start s assms by (auto simp: runner_step_def pool_ok_def)
next
  case (T_waiting n)
  have "pool_ok (m\<lparr>m_runners := (m_runners m)[i := T_go n]\<rparr>)"
    using pool_change [OF assms, of "T_go n" "m_counter m" "m_set m" "m_world m"] pool_same_ident [OF assms, of "T_go n"] T_waiting
    by simp
  then show ?thesis using T_waiting assms by (auto simp: runner_step_def pool_ok_def)
next
  case (T_go n)
  obtain t w where t: "clock A (m_world m) = (t, w)" by force
  then have "t \<in> range (\<lambda>w. fst (clock A w))" by (metis fst_conv rangeI)
  then have "pool_ok (m\<lparr>m_world := snd (sys A ''Sleep'' [I 1000] w), m_runners := (m_runners m)[i := T_read n t]\<rparr>)"
    using pool_change [OF assms, of "T_read n t" "m_counter m" "m_set m"] pool_same_ident [OF assms, of "T_read n t"] T_go
    by simp
  then show ?thesis using T_go t assms by (auto simp: runner_step_def Read_def pool_ok_def)
next
  case (T_read n t)
  have n: "n < N" using pool_bound [OF assms] T_read by simp
  have "pool_ok (m\<lparr>m_world := rc_finish code (m_world m), m_mem := (m_mem m)[1 + n := t],
      m_runners := (m_runners m)[i := T_done n t]\<rparr>)"
  proof -
    have other: "k \<noteq> n" if "j < N" "j \<noteq> i" "m_runners m ! j = T_done k u" for j k u
      using pool_unique [OF assms(1) that(1) assms(2), of n] that T_read by auto
    have "t \<in> range (\<lambda>w. fst (clock A w))" using assms T_read by (auto simp: pool_ok_def)
    moreover have "idinv (m_counter m) ((map ident (m_runners m))[i := Some n])"
      using pool_same_ident [OF assms, of "T_done n t"] T_read by simp
    ultimately show ?thesis using assms n other
      by (auto simp: pool_ok_def nth_list_update map_update)
  qed
  then show ?thesis using T_read n assms by (auto simp: runner_step_def pool_ok_def)
next
  case (T_done n t)
  then show ?thesis using assms by (simp add: runner_step_def)
next
  case T_failed
  then show ?thesis using assms by (simp add: pool_ok_def)
qed

lemma pool_schedule:
  assumes "pool_ok m"
  shows "\<exists>m'. run_schedule A code is m = Some m' \<and> pool_ok m' \<and> m_set m' = m_set m \<and>
    (m_set m \<longrightarrow> (\<forall>j < N. rank (m_runners m' ! j) \<le> rank (m_runners m ! j) - count_list is j))"
  using assms
proof (induction "is" arbitrary: m)
  case Nil
  then show ?case by simp
next
  case (Cons i "is")
  have len: "length (m_runners m) = N" using Cons.prems by (simp add: pool_ok_def)
  show ?case
  proof (cases "i < N")
    case True
    obtain m1 where m1: "runner_step A code i m = Some m1" "pool_ok m1" "m_set m1 = m_set m"
      "\<forall>j < N. j \<noteq> i \<longrightarrow> m_runners m1 ! j = m_runners m ! j"
      "m_set m \<longrightarrow> rank (m_runners m1 ! i) = rank (m_runners m ! i) - 1"
      using pool_step [OF Cons.prems True] by blast
    obtain m2 where m2: "run_schedule A code is m1 = Some m2" "pool_ok m2" "m_set m2 = m_set m1"
      "m_set m1 \<longrightarrow> (\<forall>j < N. rank (m_runners m2 ! j) \<le> rank (m_runners m1 ! j) - count_list is j)"
      using Cons.IH [OF m1(2)] by blast
    have "rank (m_runners m2 ! j) \<le> rank (m_runners m ! j) - count_list (i # is) j" if "j < N" "m_set m" for j
      using m1(3-5) m2(4) that by (cases "j = i") auto
    then show ?thesis using m1(1,3) m2(1-3) True len by auto
  next
    case False
    obtain m2 where m2: "run_schedule A code is m = Some m2" "pool_ok m2" "m_set m2 = m_set m"
      "m_set m \<longrightarrow> (\<forall>j < N. rank (m_runners m2 ! j) \<le> rank (m_runners m ! j) - count_list is j)"
      using Cons.IH [OF Cons.prems] by blast
    then show ?thesis using False len by (auto simp: count_list_eq_length_filter)
  qed
qed

lemma pool_finished:
  assumes "pool_ok m" "\<forall>j < N. rank (m_runners m ! j) = 0"
  shows "list_all ended (m_runners m)"
    "\<exists>ts. length ts = N \<and> mset (take N (drop 1 (m_mem m))) = mset ts \<and> set ts \<subseteq> range (\<lambda>w. fst (clock A w))"
proof -
  have len: "length (m_runners m) = N" "N + 1 < length (m_mem m)" using assms(1) by (simp_all add: pool_ok_def)
  have "\<exists>n t. m_runners m ! j = T_done n t" if "j < N" for j
    using assms that by (cases "m_runners m ! j") (fastforce simp: pool_ok_def)+
  then obtain f g where fg: "\<And>j. j < N \<Longrightarrow> m_runners m ! j = T_done (f j) (g j)" by metis
  show "list_all ended (m_runners m)" using fg len by (auto simp: list_all_length)
  have inj: "inj_on f {0..<N}"
    using pool_unique [OF assms(1)] fg by (auto intro!: inj_onI)
  have "f ` {0..<N} \<subseteq> {0..<N}" using pool_bound [OF assms(1)] fg by auto
  then have im: "f ` {0..<N} = {0..<N}" using inj by (simp add: endo_inj_surj)
  have mf: "mset (map f [0..<N]) = mset [0..<N]"
    using inj im by (intro set_eq_iff_mset_eq_distinct [THEN iffD1]) (simp_all add: distinct_map)
  have mem: "m_mem m ! Suc (f j) = g j" "g j \<in> range (\<lambda>w. fst (clock A w))" if "j < N" for j
    using assms(1) fg [OF that] that by (auto simp: pool_ok_def)
  have "take N (drop 1 (m_mem m)) = map (\<lambda>k. m_mem m ! Suc k) [0..<N]"
    using len by (intro nth_equalityI) simp_all
  then have "mset (take N (drop 1 (m_mem m))) = image_mset (\<lambda>k. m_mem m ! Suc k) (mset (map f [0..<N]))"
    unfolding mf by (metis mset_map)
  also have "\<dots> = mset (map (\<lambda>j. m_mem m ! Suc (f j)) [0..<N])" by (simp add: image_mset.compositionality o_def)
  also have "map (\<lambda>j. m_mem m ! Suc (f j)) [0..<N] = map g [0..<N]" using mem by simp
  finally show "\<exists>ts. length ts = N \<and> mset (take N (drop 1 (m_mem m))) = mset ts \<and> set ts \<subseteq> range (\<lambda>w. fst (clock A w))"
    using mem by (intro exI [of _ "map g [0..<N]"]) auto
qed

end

lemma wait_all_world [simp]: "only_world e (wait_all A batch hs e)"
  by (simp add: wait_all_def only_world_fold)

lemma close_all_world [simp]: "only_world e (close_all A hs e)"
  by (simp add: close_all_def only_world_fold)

definition race_frame :: "('w, 'd) context_switch \<Rightarrow> ('w, 'd) context_switch \<Rightarrow> bool" where
  "race_frame e e' \<longleftrightarrow> (\<exists>w c. e' = e\<lparr>ex_world := w, threadIdCounter := c\<rparr>)"

lemma race_frame_refl: "race_frame e e"
  unfolding race_frame_def by (intro exI [of _ "ex_world e"] exI [of _ "threadIdCounter e"]) simp

lemma race_frame_world: "race_frame e e' \<Longrightarrow> only_world e' e'' \<Longrightarrow> race_frame e e''"
  unfolding race_frame_def only_world_def
  by (elim exE, intro exI [of _ "ex_world e''"] exI [of _ "threadIdCounter e''"]) simp

lemma race_frame_both: "race_frame e e' \<Longrightarrow> race_frame e (e'\<lparr>ex_world := w, threadIdCounter := c\<rparr>)"
  unfolding race_frame_def by (elim exE) (intro exI, simp)

lemma mset_shared:
  assumes "n + 1 < length mem" "mset (take n (drop 1 mem)) = mset ts"
  shows "mset (take (n + 2) (mem[0 := s, n + 1 := t])) = mset (s # ts @ [t])"
proof -
  have "take (n + 2) (mem[0 := s, n + 1 := t]) = s # take n (drop 1 mem) @ [t]"
  proof (rule nth_equalityI)
    fix i assume "i < length (take (n + 2) (mem[0 := s, n + 1 := t]))"
    then show "take (n + 2) (mem[0 := s, n + 1 := t]) ! i = (s # take n (drop 1 mem) @ [t]) ! i"
      using assms(1) by (cases mem; cases i) (auto simp: nth_list_update nth_append)
  qed (use assms(1) in simp)
  then show ?thesis using assms(2) by simp
qed

context runner_pool
begin

lemma pool_initial:
  assumes "idinv c (replicate N None)" "N + 1 < length mem"
  shows "pool_ok \<lparr>m_world = w, m_counter = c, m_set = False, m_mem = mem, m_runners = replicate N T_start\<rparr>"
  using assms by (simp add: pool_ok_def)

lemma pool_set: "pool_ok m \<Longrightarrow> pool_ok (m\<lparr>m_world := w, m_set := b\<rparr>)"
  by (simp add: pool_ok_def)

lemma pool_reach:
  assumes "runner_reach A code m0 m" "pool_ok m0"
  shows "pool_ok m"
  using assms
proof (induction rule: runner_reach.induct)
  case (reach_step m i m')
  then have "i < N" by (simp add: pool_ok_def)
  with pool_step [of m i] reach_step show ?case by auto
qed (auto intro: pool_set)

lemma race_ok:
  assumes "length handles = N" "N + 1 < length mem" "idinv (threadIdCounter e) (replicate N None)"
    and fair: "\<forall>i < N. 4 \<le> count_list after i"
  shows "\<exists>shared e' ts s t. race A code mem handles before after e = Some (shared, e') \<and> length ts = N \<and>
    mset (take (N + 2) shared) = mset (s # ts @ [t]) \<and> set (s # ts @ [t]) \<subseteq> range (\<lambda>w. fst (clock A w)) \<and> race_frame e e'"
proof -
  define e1 where "e1 = call A ''Sleep'' [I 1000] e"
  define m0 where "m0 = \<lparr>m_world = ex_world e1, m_counter = threadIdCounter e1, m_set = False, m_mem = mem, m_runners = replicate N T_start\<rparr>"
  have f1: "race_frame e e1" unfolding e1_def by (rule race_frame_world [OF race_frame_refl only_world_call])
  have "threadIdCounter e1 = threadIdCounter e" using only_world_call [of e A "''Sleep''" "[I 1000]"] by (auto simp: only_world_def e1_def)
  then have "pool_ok m0" unfolding m0_def using assms(2,3) by (intro pool_initial) simp_all
  then obtain m1 where m1: "run_schedule A code before m0 = Some m1" "pool_ok m1"
    using pool_schedule [of m0] by blast
  obtain s e2 where e2: "ss_read A (e1\<lparr>ex_world := m_world m1, threadIdCounter := m_counter m1\<rparr>) = (s, e2)" by force
  define e3 where "e3 = call A ''SetEvent'' [I (conditionThreadsMayStart e2)] e2"
  have f3: "race_frame e e3" unfolding e3_def
    using race_frame_world [OF race_frame_world [OF race_frame_both [OF f1]]] only_world_read [OF e2] only_world_call by blast
  have "pool_ok (m1\<lparr>m_world := ex_world e3, m_set := True\<rparr>)" using m1(2) by (rule pool_set)
  from pool_schedule [OF this, of after] obtain m2 where
    m2: "run_schedule A code after (m1\<lparr>m_world := ex_world e3, m_set := True\<rparr>) = Some m2" "pool_ok m2"
    "\<forall>j < N. rank (m_runners m2 ! j) \<le> rank (m_runners m1 ! j) - count_list after j" by auto
  have "rank r \<le> 4" for r by (cases r) simp_all
  then have "\<forall>j < N. rank (m_runners m2 ! j) = 0"
    using m2(3) fair by (metis diff_is_0_eq le_trans le_zero_eq)
  note fin = pool_finished [OF m2(2) this]
  obtain ts where ts: "length ts = N" "mset (take N (drop 1 (m_mem m2))) = mset ts" "set ts \<subseteq> range (\<lambda>w. fst (clock A w))"
    using fin(2) by blast
  have len: "N + 1 < length (m_mem m2)" using m2(2) by (simp add: pool_ok_def)
  obtain t e5 where e5: "ss_read A (wait_all A 64 handles (e3\<lparr>ex_world := m_world m2, threadIdCounter := m_counter m2\<rparr>)) = (t, e5)"
    by force
  have f5: "race_frame e e5"
    using race_frame_world [OF race_frame_world [OF race_frame_both [OF f3] wait_all_world]] only_world_read [OF e5] by blast
  have "race A code mem handles before after e = Some ((m_mem m2)[0 := s, N + 1 := t], e5)"
    using m1(1) e2 m2(1) fin(1) len e5 assms(1)
    unfolding race_def e1_def [symmetric] m0_def by (simp add: Let_def e3_def)
  moreover have "set (s # ts @ [t]) \<subseteq> range (\<lambda>w. fst (clock A w))"
    using ts(3) only_world_read [OF e2] only_world_read [OF e5] by auto
  ultimately show ?thesis using mset_shared [OF len ts(2)] ts(1) f5 by blast
qed

end

section \<open>Both kinds of runners keep the contract\<close>

text \<open>Threads are numbered by the counter, children by their command line.\<close>

definition counted :: "nat \<Rightarrow> nat option list \<Rightarrow> bool" where
  "counted c os \<longleftrightarrow> (\<forall>n. Some n \<in> set os \<longleftrightarrow> n < c) \<and>
     (\<forall>i j n. i < length os \<longrightarrow> j < length os \<longrightarrow> os ! i = Some n \<longrightarrow> os ! j = Some n \<longrightarrow> i = j)"

definition own_number :: "nat \<Rightarrow> nat option list \<Rightarrow> bool" where
  "own_number c os \<longleftrightarrow> (\<forall>i < length os. os ! i = None \<or> os ! i = Some i)"

lemma counted_bound:
  assumes "counted c os"
  shows "c \<le> length os"
proof -
  have "Some ` {0..<c} \<subseteq> set os" using assms by (auto simp: counted_def)
  then have "card (Some ` {0..<c}) \<le> card (set os)" by (intro card_mono) simp_all
  also have "\<dots> \<le> length os" by (rule card_length)
  finally show ?thesis by (simp add: card_image)
qed

lemma counted_step:
  assumes "counted c os" "i < length os" "os ! i = None"
  shows "counted (Suc c) (os[i := Some c])"
proof -
  have "Some c \<notin> set os" using assms(1) by (auto simp: counted_def)
  then have fresh: "os ! j \<noteq> Some c" if "j < length os" for j using that nth_mem by metis
  have "Some n \<in> set (os[i := Some c]) \<longleftrightarrow> n < Suc c" for n
  proof -
    have "Some n \<in> set (os[i := Some c]) \<longleftrightarrow> n = c \<or> Some n \<in> set os"
      using assms(2,3) by (auto simp: in_set_conv_nth nth_list_update) (metis option.distinct(1))
    then show ?thesis using assms(1) by (auto simp: counted_def)
  qed
  then show ?thesis using assms fresh unfolding counted_def by (auto simp: nth_list_update)
qed

interpretation thread_pool: runner_pool A ThreadMain N counted for A :: "('w, 'd) api" and N
proof
  fix m :: "'w machine" and i
  assume "counted (m_counter m) (map ident (m_runners m))" "length (m_runners m) = N" "i < N" "m_runners m ! i = T_start"
  then show "\<exists>n m1. rc_start ThreadMain i m = (T_waiting n, m1) \<and> m_runners m1 = m_runners m \<and> m_mem m1 = m_mem m \<and>
      m_set m1 = m_set m \<and> counted (m_counter m1) ((map ident (m_runners m))[i := Some n])"
    using counted_step [of "m_counter m" "map ident (m_runners m)" i] by (simp add: ThreadMain_def)
next
  fix c os i n
  assume "counted c os" "length os = N" "i < N" "os ! i = Some n"
  moreover from this have "n < c" by (metis counted_def nth_mem)
  ultimately show "n < N" using counted_bound by fastforce
qed (auto simp: counted_def)

lemma child_start:
  assumes "calls_succeed A" "i < 2 ^ 31"
  shows "\<exists>w. rc_start (CST_ChildProcessMain A) i m = (T_waiting i, m\<lparr>m_world := w\<rparr>)"
proof -
  have "ParseInteger (show_int (int i)) = Some (int i)"
    unfolding ParseInteger_def using assms(2) by (intro extract_show_int) simp_all
  moreover have "r \<noteq> 0" if "sys A name args w = ((r, x), w')" for name args w r x w'
    using assms(1) that by (metis calls_succeed_def fst_conv)
  ultimately show ?thesis
    by (auto simp: CST_ChildProcessMain_def CST_ChildProcessMain_start_def child_argv_eq Let_def split: prod.split)
qed

lemma child_pool:
  assumes "calls_succeed A" "N \<le> 2 ^ 31"
  shows "runner_pool (CST_ChildProcessMain A) N own_number"
proof
  fix m :: "'a machine" and i
  assume "own_number (m_counter m) (map ident (m_runners m))" "length (m_runners m) = N" "i < N" "m_runners m ! i = T_start"
  moreover obtain w where "rc_start (CST_ChildProcessMain A) i m = (T_waiting i, m\<lparr>m_world := w\<rparr>)"
    using child_start [OF assms(1), of i m] \<open>i < N\<close> assms(2) by auto
  ultimately show "\<exists>n m1. rc_start (CST_ChildProcessMain A) i m = (T_waiting n, m1) \<and> m_runners m1 = m_runners m \<and>
      m_mem m1 = m_mem m \<and> m_set m1 = m_set m \<and> own_number (m_counter m1) ((map ident (m_runners m))[i := Some n])"
    by (auto simp: own_number_def nth_list_update)
next
  fix c os i j n
  assume "own_number c os" "length os = N" "i < N" "j < N" "os ! i = Some n" "os ! j = Some n"
  then show "i = j" unfolding own_number_def by (metis option.inject option.distinct(1))
qed (auto simp: own_number_def)

lemma create_all_ok:
  assumes "\<And>i e. \<exists>h e'. create i e = Some (h, e') \<and> only_world e e'"
  shows "\<exists>hs e'. create_all create i n e = Some (hs, e') \<and> length hs = n \<and> only_world e e'"
proof (induction n arbitrary: i e)
  case (Suc n)
  obtain h e1 where 1: "create i e = Some (h, e1)" "only_world e e1" using assms by blast
  obtain hs e2 where 2: "create_all create (Suc i) n e1 = Some (hs, e2)" "length hs = n" "only_world e1 e2"
    using Suc by blast
  show ?case using 1 2 only_world_trans [OF 1(2) 2(3)] by simp
qed simp

lemma CreateThread_ok:
  assumes "calls_succeed A"
  shows "\<exists>h e'. CST_CreateThread A e = Some (h, e') \<and> only_world e e'"
proof -
  obtain r x e1 where 1: "syscall A ''CreateThread'' [S ''ContextSwitchTime_ThreadMain''] e = ((r, x), e1)" "r \<noteq> 0" "only_world e e1"
    using syscall_ok [OF assms] by blast
  let ?e2 = "call A ''SetThreadAffinityMask'' [I r, I 1] e1"
  obtain ok y e3 where 3: "syscall A ''SetThreadPriority'' [I r, I 15] ?e2 = ((ok, y), e3)" "ok \<noteq> 0" "only_world ?e2 e3"
    using syscall_ok [OF assms] by blast
  have "only_world e e3" by (rule only_world_trans [OF 1(3) only_world_trans [OF only_world_call 3(3)]])
  then show ?thesis using 1 3 by (simp add: CST_CreateThread_def)
qed

lemma CreateProcess_ok:
  assumes "calls_succeed A"
  shows "\<exists>h e'. CST_CreateProcess A i e = Some (h, e') \<and> only_world e e'"
proof -
  let ?e1 = "call A ''GetModuleFileName'' [I 0, I 1024] e"
  obtain ok h e2 where 2: "syscall A ''CreateProcessW'' [S (child_command_line i)] ?e1 = ((ok, h), e2)" "ok \<noteq> 0" "only_world ?e1 e2"
    using syscall_ok [OF assms] by blast
  have "only_world e e2" by (rule only_world_trans [OF only_world_call 2(3)])
  then show ?thesis using 2 by (simp add: CST_CreateProcess_def)
qed

section \<open>What the experiment reports\<close>

lemma sort_ticks_mset: "mset xs = mset ys \<Longrightarrow> sort_ticks xs = sort_ticks ys"
  unfolding sort_ticks_def by (rule sort_key_inj_key_eq) (auto simp: inj_on_def intro: signed_word_eqI)

lemma frame_fields:
  assumes "race_frame e e'"
  shows "ex_sw e' = ex_sw e" "ex_results e' = ex_results e" "conditionThreadsMayStart e' = conditionThreadsMayStart e"
    "same_setup e e'" "room e' = room e" "history t e' = history t e"
  using assms by (auto simp: race_frame_def same_setup_def room_def history_def)

text \<open>The reorganisation and the report, with all that follows them.\<close>

lemma timeline_report:
  fixes e :: "('w, 'd :: linorder) context_switch"
  assumes "room e" "sw_ok (ex_sw e)" "tag \<noteq> NoTag" "2 \<le> length data"
  shows "\<exists>e1. store_timeline tag data e = Some e1 \<and> sw_ok (ex_sw e1) \<and>
    PushResultMedianAsMicroseconds A name (history tag e1) (minus_overhead e1) e1 =
      Some (PushResult name (the (Median (fp_int (fpo A) 0)
        (keep_last (sw_tagHistorySize (ex_sw e)) (history tag e @ deltas data)) (as_us A (ex_sw e) (minus_overhead e)))) e1) \<and>
    same_setup e e1 \<and> ex_results e1 = ex_results e \<and> exper.more e1 = exper.more e \<and>
    history tag e1 = keep_last (sw_tagHistorySize (ex_sw e)) (history tag e @ deltas data) \<and>
    (\<forall>t. t \<noteq> tag \<longrightarrow> history t e1 = history t e)"
proof -
  define e1 where "e1 = e\<lparr>ex_sw := store_all tag (deltas data) (ex_sw e)\<rparr>"
  have s: "store_timeline tag data e = Some e1" unfolding e1_def by (rule store_timeline_eq [OF assms(1,3,4)])
  have m: "measured tag (length data - 1) e e1"
    using timeline_measured [OF assms(1,3,4)] s by simp
  have h: "history tag e1 = keep_last (sw_tagHistorySize (ex_sw e)) (history tag e @ deltas data)"
    using store_all_history [OF assms(2), of tag tag "deltas data"] by (simp add: e1_def history_def)
  have "PushResultMedianAsMicroseconds A name (history tag e1) (minus_overhead e1) e1 =
      Some (PushResult name (the (Median (fp_int (fpo A) 0) (history tag e1) (as_us A (ex_sw e) (minus_overhead e)))) e1)"
    using Median_defined [of "fp_int (fpo A) 0" "history tag e1" "as_us A (ex_sw e) (minus_overhead e)"]
      same_setup_eqs(2) [OF measured_same_setup [OF m], of A] same_setup_eqs(3) [OF measured_same_setup [OF m]]
    by (auto simp: PushResultMedianAsMicroseconds_def)
  then show ?thesis
    using s h measured_ok [OF m assms(2)] measured_same_setup [OF m] measured_fields(1,7) [OF m]
      measured_history(2) [OF m assms(2)] by auto
qed

text \<open>The result of one race: the median of the differences of the sorted readings.\<close>

definition switch_times :: "('w, 'd) context_switch \<Rightarrow> tag \<Rightarrow> tick list \<Rightarrow> tick list" where
  "switch_times e tag readings = keep_last (sw_tagHistorySize (ex_sw e)) (history tag e @ deltas (sort_ticks readings))"

definition switch_result :: "('w, 'd :: linorder) api \<Rightarrow> ('w, 'd) context_switch \<Rightarrow> tag \<Rightarrow> tick list \<Rightarrow> 'd" where
  "switch_result A e tag readings =
     the (Median (fp_int (fpo A) 0) (switch_times e tag readings) (as_us A (ex_sw e) (minus_overhead e)))"

lemma switch_result_setup:
  assumes "same_setup e e'" "history tag e' = history tag e"
  shows "switch_result A e' tag = switch_result A e tag"
  using same_setup_eqs(2) [OF assms(1), of A] same_setup_eqs(3,5) [OF assms(1)] assms(2)
  by (intro ext) (simp add: switch_result_def switch_times_def)

lemma switch_times_setup:
  assumes "same_setup e e'" "history tag e' = history tag e"
  shows "switch_times e' tag = switch_times e tag"
  using same_setup_eqs(5) [OF assms(1)] assms(2) by (intro ext) (simp add: switch_times_def)

definition race_post :: "('w, 'd :: linorder) api \<Rightarrow> tag \<Rightarrow> string \<Rightarrow> ('w, 'd) context_switch \<Rightarrow> ('w, 'd) context_switch \<Rightarrow> bool" where
  "race_post A tag name e e' \<longleftrightarrow>
     (\<exists>s ts t. length ts = 640 \<and> set (s # ts @ [t]) \<subseteq> range (\<lambda>w. fst (clock A w)) \<and>
        ex_results e' = ex_results e @ [(name, switch_result A e tag (s # ts @ [t]))] \<and>
        history tag e' = switch_times e tag (s # ts @ [t])) \<and>
     same_setup e e' \<and> sw_ok (ex_sw e') \<and> (\<forall>t. t \<noteq> tag \<longrightarrow> history t e' = history t e)"

definition same_watch :: "('w, 'd) context_switch \<Rightarrow> ('w, 'd) context_switch \<Rightarrow> bool" where
  "same_watch e e' \<longleftrightarrow> ex_sw e' = ex_sw e \<and> ex_results e' = ex_results e \<and> ex_iterations e' = ex_iterations e \<and> ex_name e' = ex_name e"

lemma same_watch_world: "only_world e e' \<Longrightarrow> same_watch e e'"
  by (auto simp: only_world_def same_watch_def)

lemma same_watch_trans: "same_watch e e' \<Longrightarrow> same_watch e' e'' \<Longrightarrow> same_watch e e''"
  by (simp add: same_watch_def)

lemma same_watch_updates [simp]:
  "same_watch e (e'\<lparr>conditionThreadsMayStart := c\<rparr>) = same_watch e e'"
  "same_watch e (e'\<lparr>threadSharedMemory := c\<rparr>) = same_watch e e'"
  "same_watch (e\<lparr>conditionThreadsMayStart := c\<rparr>) e' = same_watch e e'"
  "same_watch (e\<lparr>threadSharedMemory := c\<rparr>) e' = same_watch e e'"
  by (simp_all add: same_watch_def)

lemma same_watch_setup: "same_watch e e' \<Longrightarrow> same_setup e e'"
  by (simp add: same_watch_def same_setup_def)

lemma race_post_watch:
  assumes "same_watch e e1" "race_post A tag name e1 e2" "same_watch e2 e3"
  shows "race_post A tag name e e3"
proof -
  have h: "history u e1 = history u e" "history u e3 = history u e2" for u
    using assms(1,3) by (simp_all add: same_watch_def history_def)
  have "switch_result A e1 tag = switch_result A e tag" "switch_times e1 tag = switch_times e tag"
    using switch_result_setup [OF same_watch_setup [OF assms(1)]] switch_times_setup [OF same_watch_setup [OF assms(1)]] h by simp_all
  moreover have "same_setup e e3"
    using assms same_watch_setup same_setup_trans by (metis race_post_def)
  ultimately show ?thesis using assms h by (auto simp: race_post_def same_watch_def)
qed

lemma race_report:
  assumes "room e" "sw_ok (ex_sw e)" "tag \<noteq> NoTag" "race_frame e e6"
    and ts: "length ts = 640" "mset (take (640 + 2) shared) = mset (s # ts @ [t])" "set (s # ts @ [t]) \<subseteq> range (\<lambda>w. fst (clock A w))"
  shows "\<exists>e7 e8. store_timeline tag (sort_ticks (take (640 + 2) shared)) e6 = Some e7 \<and>
    PushResultMedianAsMicroseconds A name (history tag e7) (minus_overhead e7) e7 = Some e8 \<and> race_post A tag name e e8"
proof -
  let ?data = "sort_ticks (take (640 + 2) shared)" and ?r = "s # ts @ [t]"
  note f = frame_fields [OF assms(4)]
  have d: "?data = sort_ticks ?r" using ts(2) by (rule sort_ticks_mset)
  obtain e7 where 7: "store_timeline tag ?data e6 = Some e7" "sw_ok (ex_sw e7)"
    "PushResultMedianAsMicroseconds A name (history tag e7) (minus_overhead e7) e7 = Some (PushResult name (switch_result A e6 tag ?r) e7)"
    "same_setup e6 e7" "ex_results e7 = ex_results e6" "\<forall>u. u \<noteq> tag \<longrightarrow> history u e7 = history u e6"
    "history tag e7 = switch_times e6 tag ?r"
    using timeline_report [of e6 tag ?data A name] f assms(1-3) ts(1) unfolding d switch_result_def switch_times_def by auto
  have "race_post A tag name e (PushResult name (switch_result A e6 tag ?r) e7)"
    unfolding race_post_def
    using 7 ts(1,3) f switch_result_setup [OF f(4,6), of A] switch_times_setup [OF f(4,6)] same_setup_trans [OF f(4) 7(4)] by auto
  then show ?thesis using 7(1,3) by blast
qed

lemma RunUsingThreads_ok:
  fixes e :: "('w, 'd :: linorder) context_switch"
  assumes calls: "calls_succeed A" and e: "room e" "sw_ok (ex_sw e)" "conditionThreadsMayStart e = 0" "threadIdCounter e = 0"
    and junk: "length junk = 131072" and fair: "\<forall>i < 640. 4 \<le> count_list after i"
  shows "\<exists>e'. RunUsingThreads A junk before after e = Some e' \<and> conditionThreadsMayStart e' = 0 \<and>
    race_post A threadSwitchStopwatchTag ''Thread Switch Time (us)'' e e'"
proof -
  obtain ev x e1 where 1: "syscall A ''CreateEvent'' [S ''Local CSE221-ContextSwitchTime-ThreadsMayStart''] e = ((ev, x), e1)"
    "only_world e e1" using syscall_ok [OF calls] by blast
  let ?e2 = "e1\<lparr>conditionThreadsMayStart := ev\<rparr>"
  obtain hs e3 where 3: "create_all (\<lambda>i. CST_CreateThread A) 0 640 ?e2 = Some (hs, e3)" "length hs = 640" "only_world ?e2 e3"
    using create_all_ok [of "\<lambda>i. CST_CreateThread A", OF CreateThread_ok [OF calls]] by blast
  obtain mem y e4 where 4: "syscall A ''malloc'' [I 1048576] e3 = ((mem, y), e4)" "mem \<noteq> 0" "only_world e3 e4"
    using syscall_ok [OF calls] by blast
  let ?e5 = "e4\<lparr>threadSharedMemory := mem\<rparr>"
  have w5: "same_watch e ?e5"
    using same_watch_trans [OF same_watch_trans] same_watch_world [OF 1(2)] same_watch_world [OF 3(3)] same_watch_world [OF 4(3)] by simp
  have c5: "threadIdCounter ?e5 = 0" using 1(2) 3(3) 4(3) e(4) by (auto simp: only_world_def)
  have "counted 0 (replicate 640 None)" by (simp add: counted_def)
  then obtain shared e6 ts s t where 6: "race A ThreadMain junk hs before after ?e5 = Some (shared, e6)" "length ts = 640"
    "mset (take (640 + 2) shared) = mset (s # ts @ [t])" "set (s # ts @ [t]) \<subseteq> range (\<lambda>w. fst (clock A w))" "race_frame ?e5 e6"
    using thread_pool.race_ok [of hs 640 junk ?e5 after A before] 3(2) junk c5 fair by auto
  have "room ?e5" "sw_ok (ex_sw ?e5)" using w5 e(1,2) by (simp_all add: same_watch_def room_def)
  then obtain e7 e8 where 7: "store_timeline threadSwitchStopwatchTag (sort_ticks (take (640 + 2) shared)) e6 = Some e7"
    "PushResultMedianAsMicroseconds A ''Thread Switch Time (us)'' (history threadSwitchStopwatchTag e7) (minus_overhead e7) e7 = Some e8"
    "race_post A threadSwitchStopwatchTag ''Thread Switch Time (us)'' ?e5 e8"
    using race_report [OF _ _ _ 6(5,2,3,4)] by blast
  define e9 where "e9 = call A ''CloseHandle'' [I (conditionThreadsMayStart (close_all A hs e8))] (close_all A hs e8)"
  define e11 where "e11 = call A ''free'' [I (threadSharedMemory e9)] (e9\<lparr>conditionThreadsMayStart := 0\<rparr>)"
  have o: "only_world e8 e9" "only_world (e9\<lparr>conditionThreadsMayStart := 0\<rparr>) e11"
    unfolding e9_def e11_def by (rule only_world_trans [OF close_all_world only_world_call], rule only_world_call)
  have "RunUsingThreads A junk before after e = Some e11"
    using e(3) 1(1) 3(1) 4(1,2) 6(1) 7(1,2) unfolding RunUsingThreads_def by (simp add: Let_def e9_def e11_def)
  moreover have "conditionThreadsMayStart e11 = 0" using o(2) by (auto simp: only_world_def)
  moreover have "same_watch e8 e11"
    using same_watch_trans [OF same_watch_world [OF o(1)]] same_watch_world [OF o(2)] by simp
  ultimately show ?thesis using race_post_watch [OF w5 7(3)] by blast
qed

lemma RunUsingProcesses_ok:
  fixes e :: "('w, 'd :: linorder) context_switch"
  assumes calls: "calls_succeed A" and e: "room e" "sw_ok (ex_sw e)" "conditionThreadsMayStart e = 0"
    and fair: "\<forall>i < 640. 4 \<le> count_list after i"
  shows "\<exists>e'. RunUsingProcesses A before after e = Some e' \<and> conditionThreadsMayStart e' = 0 \<and>
    race_post A processSwitchStopwatchTag ''Process Switch Time (us)'' e e'"
proof -
  obtain ev x e1 where 1: "syscall A ''CreateEvent'' [S ''Local CSE221-ContextSwitchTime-ThreadsMayStart''] e = ((ev, x), e1)"
    "only_world e e1" using syscall_ok [OF calls] by blast
  let ?e2 = "e1\<lparr>conditionThreadsMayStart := ev\<rparr>"
  obtain hm y e3 where 3: "syscall A ''CreateFileMapping'' [I (-1), I 1048576, S ''Local CSE221-ContextSwitchTime-ProcessSharedData''] ?e2
    = ((hm, y), e3)" "hm \<noteq> 0" "only_world ?e2 e3" using syscall_ok [OF calls] by blast
  obtain pm z e4 where 4: "syscall A ''MapViewOfFile'' [I hm, I 1048576] e3 = ((pm, z), e4)" "pm \<noteq> 0" "only_world e3 e4"
    using syscall_ok [OF calls] by blast
  obtain hs e5 where 5: "create_all (CST_CreateProcess A) 0 640 e4 = Some (hs, e5)" "length hs = 640" "only_world e4 e5"
    using create_all_ok [of "CST_CreateProcess A", OF CreateProcess_ok [OF calls]] by blast
  have w5: "same_watch e e5"
    using same_watch_trans [OF same_watch_trans [OF same_watch_trans]] same_watch_world [OF 1(2)]
      same_watch_world [OF 3(3)] same_watch_world [OF 4(3)] same_watch_world [OF 5(3)] by simp
  have "own_number (threadIdCounter e5) (replicate 640 None)" by (simp add: own_number_def)
  then obtain shared e6 ts s t where 6: "race A (CST_ChildProcessMain A) (replicate 131072 0) hs before after e5 = Some (shared, e6)"
    "length ts = 640" "mset (take (640 + 2) shared) = mset (s # ts @ [t])"
    "set (s # ts @ [t]) \<subseteq> range (\<lambda>w. fst (clock A w))" "race_frame e5 e6"
    using runner_pool.race_ok [OF child_pool [OF calls, of 640], of hs "replicate 131072 0" e5 after A before] 5(2) fair by auto
  have "room e5" "sw_ok (ex_sw e5)" using w5 e(1,2) by (simp_all add: same_watch_def room_def)
  then obtain e7 e8 where 7: "store_timeline processSwitchStopwatchTag (sort_ticks (take (640 + 2) shared)) e6 = Some e7"
    "PushResultMedianAsMicroseconds A ''Process Switch Time (us)'' (history processSwitchStopwatchTag e7) (minus_overhead e7) e7 = Some e8"
    "race_post A processSwitchStopwatchTag ''Process Switch Time (us)'' e5 e8"
    using race_report [OF _ _ _ 6(5,2,3,4)] by blast
  define e9 where "e9 = call A ''CloseHandle'' [I (conditionThreadsMayStart (close_all A hs e8))] (close_all A hs e8)"
  define e11 where "e11 = call A ''CloseHandle'' [I hm] (call A ''UnmapViewOfFile'' [I pm] (e9\<lparr>conditionThreadsMayStart := 0\<rparr>))"
  have o: "only_world e8 e9" "only_world (e9\<lparr>conditionThreadsMayStart := 0\<rparr>) e11"
    unfolding e9_def e11_def by (rule only_world_trans [OF close_all_world only_world_call], rule only_world_trans [OF only_world_call only_world_call])
  have "RunUsingProcesses A before after e = Some e11"
    using e(3) 1(1) 3(1,2) 4(1,2) 5(1) 6(1) 7(1,2) unfolding RunUsingProcesses_def by (simp add: Let_def e9_def e11_def)
  moreover have "conditionThreadsMayStart e11 = 0" using o(2) by (auto simp: only_world_def)
  moreover have "same_watch e8 e11"
    using same_watch_trans [OF same_watch_world [OF o(1)]] same_watch_world [OF o(2)] by simp
  ultimately show ?thesis using race_post_watch [OF w5 7(3)] by blast
qed

text \<open>The machines when they begin, and that their numbers never clash\<close>

definition pool_start :: "'w \<Rightarrow> tick list \<Rightarrow> 'w machine" where
  "pool_start w mem = \<lparr>m_world = w, m_counter = 0, m_set = False, m_mem = mem, m_runners = replicate 640 T_start\<rparr>"

definition own_slots :: "('w, 'd) api \<Rightarrow> 'w runner_code \<Rightarrow> bool" where
  "own_slots A code \<longleftrightarrow> (\<forall>w mem m i j n. length mem = 131072 \<longrightarrow> runner_reach A code (pool_start w mem) m \<longrightarrow>
     i < 640 \<longrightarrow> j < 640 \<longrightarrow> ident (m_runners m ! i) = Some n \<longrightarrow>
     n < 640 \<and> (ident (m_runners m ! j) = Some n \<longrightarrow> i = j))"

lemma runner_pool_slots:
  assumes "runner_pool code 640 idinv" "idinv 0 (replicate 640 None)"
  shows "own_slots A code"
  unfolding own_slots_def
proof (intro allI impI)
  fix w :: 'a and mem m and i j n :: nat
  assume a: "length mem = 131072" "runner_reach A code (pool_start w mem) m" "i < 640" "j < 640" "ident (m_runners m ! i) = Some n"
  have "runner_pool.pool_ok A 640 idinv (pool_start w mem)"
    unfolding pool_start_def using a(1) assms(2) by (intro runner_pool.pool_initial [OF assms(1)]) simp_all
  then have "runner_pool.pool_ok A 640 idinv m" by (rule runner_pool.pool_reach [OF assms(1) a(2)])
  note ok = this
  show "n < 640 \<and> (ident (m_runners m ! j) = Some n \<longrightarrow> i = j)"
    using runner_pool.pool_bound [OF assms(1) ok a(3,5)] runner_pool.pool_unique [OF assms(1) ok a(3,4,5)] by blast
qed

lemma both_own_slots: "own_slots A ThreadMain" "calls_succeed A \<Longrightarrow> own_slots A (CST_ChildProcessMain A)"
proof -
  show "own_slots A ThreadMain"
    by (rule runner_pool_slots [OF thread_pool.runner_pool_axioms]) (simp add: counted_def)
  show "own_slots A (CST_ChildProcessMain A)" if "calls_succeed A"
    by (rule runner_pool_slots [OF child_pool [OF that]]) (simp_all add: own_number_def)
qed

lemma count_rounds: "i < n \<Longrightarrow> count_list (concat (replicate k [0..<n])) i = k"
proof (induction k)
  case (Suc k)
  have "count_list xs i = (if i \<in> set xs then 1 else 0)" if "distinct xs" for xs :: "nat list"
    using that by (induction xs) auto
  then show ?case using Suc by simp
qed simp



end
