(* ===== verification/FakeKernelModel.thy ===== *)
theory FakeKernelModel
  imports ExperimentBase
begin

text \<open>
  The simulated kernel of the profiler (\<open>FakeKernel.h\<close>, \<open>FakeKernel.cpp\<close>). A \<open>std::map\<close> is the list of
  its entries in the order of the keys; \<open>insert\<close> leaves an existing entry alone. An object is its 512
  bytes, zero after \<open>FakeKernelObject()\<close>.
\<close>

section \<open>Maps in key order\<close>

definition map_insert :: "'k :: linorder \<Rightarrow> 'v \<Rightarrow> ('k \<times> 'v) list \<Rightarrow> ('k \<times> 'v) list" where
  "map_insert k v m = (if k \<in> fst ` set m then m else insort_key fst (k, v) m)"

definition map_find :: "'k \<Rightarrow> ('k \<times> 'v) list \<Rightarrow> 'v option" where
  "map_find k m = map_of m k"

definition map_erase :: "'k \<Rightarrow> ('k \<times> 'v) list \<Rightarrow> ('k \<times> 'v) list" where
  "map_erase k m = filter (\<lambda>e. fst e \<noteq> k) m"

definition map_ok :: "('k :: linorder \<times> 'v) list \<Rightarrow> bool" where
  "map_ok m \<longleftrightarrow> sorted (map fst m) \<and> distinct (map fst m)"

text \<open>The contract of a finite map and what its clients need of it.\<close>

locale finite_table =
  fixes ok :: "'m \<Rightarrow> bool" and find :: "'k \<Rightarrow> 'm \<Rightarrow> 'v option"
    and insert :: "'k \<Rightarrow> 'v \<Rightarrow> 'm \<Rightarrow> 'm" and erase :: "'k \<Rightarrow> 'm \<Rightarrow> 'm"
  assumes ok_insert: "ok m \<Longrightarrow> ok (insert k v m)"
    and ok_erase: "ok m \<Longrightarrow> ok (erase k m)"
    and find_insert: "ok m \<Longrightarrow> find j (insert k v m) = (if j = k \<and> find k m = None then Some v else find j m)"
    and find_erase: "ok m \<Longrightarrow> find j (erase k m) = (if j = k then None else find j m)"
    and extensional: "ok m \<Longrightarrow> ok m' \<Longrightarrow> (\<And>k. find k m = find k m') \<Longrightarrow> m = m'"
begin

lemma erase_insert:
  assumes "ok m" "find k m = None"
  shows "erase k (insert k v m) = m"
  by (rule extensional) (use assms in \<open>simp_all add: ok_insert ok_erase find_insert find_erase\<close>)

lemma erase_absent:
  assumes "ok m" "find k m = None"
  shows "erase k m = m"
  by (rule extensional) (use assms in \<open>simp_all add: ok_erase find_erase\<close>)

lemma insert_present:
  assumes "ok m" "find k m = Some w"
  shows "insert k v m = m"
  by (rule extensional) (use assms in \<open>simp_all add: ok_insert find_insert\<close>)

end

lemma set_map_insert: "set (map_insert k v m) = (if k \<in> fst ` set m then set m else insert (k, v) (set m))"
  by (simp add: map_insert_def set_insort_key)

lemma map_insert_ok: "map_ok m \<Longrightarrow> map_ok (map_insert k v m)"
proof -
  have "distinct (map fst (insort_key fst (k, v) m))" if "distinct (map fst m)" "k \<notin> fst ` set m"
    using that by (induction m) (auto simp: set_insort_key)
  then show "map_ok m \<Longrightarrow> map_ok (map_insert k v m)"
    by (auto simp: map_ok_def map_insert_def sorted_insort_key)
qed

lemma map_erase_ok: "map_ok m \<Longrightarrow> map_ok (map_erase k m)"
  by (auto simp: map_ok_def map_erase_def sorted_filter distinct_map intro: inj_on_subset)

lemma map_find_insert:
  "map_find j (map_insert k v m) = (if j = k \<and> map_find k m = None then Some v else map_find j m)"
proof -
  have "map_of (insort_key fst (k, v) m) = (map_of m)(k \<mapsto> v)" if "k \<notin> fst ` set m"
    using that by (induction m) (auto simp: fun_eq_iff)
  then show ?thesis by (auto simp: map_find_def map_insert_def map_of_eq_None_iff)
qed

lemma map_find_erase: "map_find j (map_erase k m) = (if j = k then None else map_find j m)"
  by (induction m) (auto simp: map_find_def map_erase_def)

lemma map_ok_ext:
  assumes "map_ok m" "map_ok m'" "\<And>k. map_find k m = map_find k m'"
  shows "m = m'"
proof -
  have "map_of m = map_of m'" using assms(3) by (auto simp: map_find_def fun_eq_iff)
  then have "set m = set m'" using assms(1,2) by (metis map_of_inject_set map_ok_def)
  moreover have "inj_on fst (set m)" using assms(1) by (simp add: map_ok_def distinct_map)
  ultimately show ?thesis using assms(1,2)
    by (intro map_sorted_distinct_set_unique [where f = fst]) (simp_all add: map_ok_def)
qed

interpretation std_map: finite_table map_ok map_find map_insert map_erase
proof
  show "m = m'" if "map_ok m" "map_ok m'" "\<And>k. map_find k m = map_find k m'" for m m' :: "('a :: linorder \<times> 'b) list"
    using that by (rule map_ok_ext)
qed (simp_all add: map_insert_ok map_erase_ok map_find_insert map_find_erase)

section \<open>The kernel\<close>

type_synonym FakeKernelObject = "8 word list"

definition new_FakeKernelObject :: FakeKernelObject where
  "new_FakeKernelObject = replicate 512 0"

record ('w, 'd) fake_kernel = "('w, 'd) exper" +
  NumInitialHandles :: nat
  NumInitialThreads :: nat
  NumInitialProcesses :: nat
  NumInitialRegistryKeys :: nat
  NumInitialSockets :: nat
  handleObjects :: "(u32 \<times> FakeKernelObject) list"
  threads :: "(u32 \<times> FakeKernelObject) list"
  processes :: "(u32 \<times> FakeKernelObject) list"
  registryKeys :: "(u64 \<times> FakeKernelObject) list"
  sockets :: "(u64 \<times> FakeKernelObject) list"

text \<open>\<open>for(uint32_t i = 1; i <= n; ++i) m.insert(std::pair(i, FakeKernelObject()));\<close>\<close>

definition initial_objects :: "nat \<Rightarrow> ('l :: len word \<times> FakeKernelObject) list" where
  "initial_objects n = fold (\<lambda>i. map_insert (of_nat i) new_FakeKernelObject) [1..<Suc n] []"

definition new_FakeKernel :: "'d stopwatch \<Rightarrow> 'w \<Rightarrow> ('w, 'd) fake_kernel" where
  "new_FakeKernel stopwatch w =
     exper.extend (new_experiment ''Fake Kernel'' stopwatch w)
       \<lparr>NumInitialHandles = 23 * 1024, NumInitialThreads = 1 * 1024, NumInitialProcesses = 80,
        NumInitialRegistryKeys = 100 * 1024, NumInitialSockets = 128,
        handleObjects = initial_objects (23 * 1024), threads = initial_objects (1 * 1024),
        processes = initial_objects 80, registryKeys = initial_objects (100 * 1024),
        sockets = initial_objects 128\<rparr>"

text \<open>The body of \<open>if(key != 0)\<close> for one of the maps.\<close>

definition locate :: "'l :: len word \<Rightarrow> ('l word \<times> FakeKernelObject) list \<Rightarrow> FakeKernelObject option" where
  "locate key m = (if key \<noteq> 0 then map_find key m else None)"

text \<open>The comparisons of two objects change nothing but the state of \<open>rand\<close>.\<close>

definition compare_objects :: "('w, 'd) api \<Rightarrow> FakeKernelObject \<Rightarrow> FakeKernelObject \<Rightarrow>
    ('w, 'd) fake_kernel \<Rightarrow> ('w, 'd) fake_kernel option" where
  "compare_objects A objA objB = for_opt 0 48 (\<lambda>r e.
     let (v0, e1) = rand A e; r0 = v0 mod length objA;
         (v1, e2) = rand A e1; r1 = v1 mod length objB;
         equal = (objA ! r0 = objB ! r1)
     in if r0 < length objA \<and> r1 < length objB then Some e2 else None)"

definition inspect_objects :: "('w, 'd) api \<Rightarrow> FakeKernelObject option list \<Rightarrow>
    ('w, 'd) fake_kernel \<Rightarrow> ('w, 'd) fake_kernel option" where
  "inspect_objects A objects = for_opt 0 5 (\<lambda>i e.
     case objects ! i of None \<Rightarrow> Some e
     | Some objA \<Rightarrow> for_opt 0 i (\<lambda>j e.
         case objects ! j of None \<Rightarrow> Some e
         | Some objB \<Rightarrow> compare_objects A objA objB e) e)"

definition FakeValidateUserArguments :: "('w, 'd) api \<Rightarrow> u32 \<Rightarrow> u32 \<Rightarrow> u32 \<Rightarrow> u64 \<Rightarrow> u64 \<Rightarrow>
    ('w, 'd) fake_kernel \<Rightarrow> ('w, 'd) fake_kernel option" where
  "FakeValidateUserArguments A handle threadId processId registryKeyId socketId e =
     inspect_objects A
       [locate handle (handleObjects e), locate threadId (threads e), locate processId (processes e),
        locate registryKeyId (registryKeys e), locate socketId (sockets e)] e"

text \<open>The key \<open>-1\<close> is the largest one; \<open>keySize\<close> and \<open>memorySize\<close> are small.\<close>

definition FakeResourceAllocation :: "('w, 'd) api \<Rightarrow> int \<Rightarrow> int \<Rightarrow> ('w, 'd) fake_kernel \<Rightarrow> ('w, 'd) fake_kernel option" where
  "FakeResourceAllocation A memorySize keySize e =
     (if \<not> (keySize = 4 \<or> keySize = 8) then None
      else
        let e1 = (if keySize = 4 then e\<lparr>handleObjects := map_insert (-1) new_FakeKernelObject (handleObjects e)\<rparr>
                  else if keySize = 8 then e\<lparr>registryKeys := map_insert (-1) new_FakeKernelObject (registryKeys e)\<rparr>
                  else e);
            ((mem, _), e2) = syscall A ''malloc'' [I memorySize] e1
        in if mem = 0 then None
           else
             let e3 = call A ''free'' [I mem] e2
             in Some (e3\<lparr>handleObjects := map_erase (-1) (handleObjects e3),
                         registryKeys := map_erase (-1) (registryKeys e3)\<rparr>))"

text \<open>\<open>rand() % m.size() + 1\<close>\<close>

definition pick :: "('w, 'd) api \<Rightarrow> ('l :: len word \<times> FakeKernelObject) list \<Rightarrow>
    ('w, 'd) fake_kernel \<Rightarrow> ('l word \<times> ('w, 'd) fake_kernel) option" where
  "pick A m e = (if m = [] then None else case rand A e of (r, e1) \<Rightarrow> Some (of_nat (r mod length m + 1), e1))"

definition verify_turn :: "('w, 'd) api \<Rightarrow> tag \<Rightarrow> ('w, 'd) fake_kernel \<Rightarrow> ('w, 'd) fake_kernel option" where
  "verify_turn A tag e = do {
     (handle, e) \<leftarrow> pick A (handleObjects e) e;
     (thread, e) \<leftarrow> pick A (threads e) e;
     (process, e) \<leftarrow> pick A (processes e) e;
     (registryKey, e) \<leftarrow> pick A (registryKeys e) e;
     (socket, e) \<leftarrow> pick A (sockets e) e;
     e \<leftarrow> FakeValidateUserArguments A handle thread process registryKey socket (ss_push A tag e);
     Some (ss_pop A e)
   }"

definition allocate_turn :: "('w, 'd) api \<Rightarrow> tag \<Rightarrow> nat \<Rightarrow> ('w, 'd) fake_kernel \<Rightarrow> ('w, 'd) fake_kernel option" where
  "allocate_turn A tag i e = do {
     e \<leftarrow> FakeResourceAllocation A (16 * 1024 * (int i mod 4 + 1)) (4 * (int i mod 2 + 1)) (ss_push A tag e);
     Some (ss_pop A e)
   }"

definition FakeKernel_Run :: "('w, 'd :: linorder) api \<Rightarrow> ('w, 'd) fake_kernel \<Rightarrow> ('w, 'd) fake_kernel option" where
  "FakeKernel_Run A e = do {
     let tag = Tag ''Verify User Arguments'' 0;
     e \<leftarrow> for_opt 0 (ex_iterations e) (\<lambda>i. verify_turn A tag) e;
     e \<leftarrow> PushResultMedianAsMicroseconds A ''User Argument Verification (us)'' (history tag e) (minus_overhead e) e;
     let tag = Tag ''Resource Allocation'' 0;
     e \<leftarrow> for_opt 0 (ex_iterations e) (allocate_turn A tag) e;
     PushResultMedianAsMicroseconds A ''Resource Allocation (us)'' (history tag e) (minus_overhead e) e
   }"

section \<open>Every key that is looked up exists\<close>

text \<open>The keys of a table are the numbers from one to its size, and no table is full or empty.\<close>

definition table_ok :: "('l :: len word \<times> FakeKernelObject) list \<Rightarrow> bool" where
  "table_ok m \<longleftrightarrow> (\<exists>n. 0 < n \<and> Suc n < 2 ^ LENGTH('l) \<and>
     m = map (\<lambda>i. (of_nat i, new_FakeKernelObject)) [1..<Suc n])"

lemma insort_key_last: "\<forall>y \<in> set xs. f y < f x \<Longrightarrow> insort_key f x xs = xs @ [x]"
  by (induction xs) auto

lemma initial_objects_eq:
  assumes "n < 2 ^ LENGTH('l)"
  shows "(initial_objects n :: ('l :: len word \<times> _) list) = map (\<lambda>i. (of_nat i, new_FakeKernelObject)) [1..<Suc n]"
  using assms
proof (induction n)
  case 0
  show ?case by (simp add: initial_objects_def)
next
  case (Suc n)
  have lt: "(of_nat i :: 'l word) < of_nat (Suc n)" if "i \<le> n" for i
    using that Suc.prems by (simp add: word_less_nat_alt unat_of_nat del: of_nat_Suc)
  have "(initial_objects (Suc n) :: ('l word \<times> _) list) =
      map_insert (of_nat (Suc n)) new_FakeKernelObject (initial_objects n)"
    by (simp add: initial_objects_def del: of_nat_Suc)
  also have "\<dots> = initial_objects n @ [(of_nat (Suc n), new_FakeKernelObject)]"
  proof -
    have small: "\<forall>y \<in> set (initial_objects n :: ('l word \<times> _) list). fst y < of_nat (Suc n)"
      using lt Suc by (auto simp del: of_nat_Suc)
    then have "of_nat (Suc n) \<notin> fst ` set (initial_objects n :: ('l word \<times> _) list)" by fastforce
    then show ?thesis unfolding map_insert_def using small by (simp add: insort_key_last del: of_nat_Suc)
  qed
  finally show ?case using Suc by simp
qed

lemma initial_table_ok:
  assumes "0 < n" "Suc n < 2 ^ LENGTH('l)"
  shows "table_ok (initial_objects n :: ('l :: len word \<times> _) list)"
  unfolding table_ok_def using assms initial_objects_eq [where 'l = 'l, of n] by (intro exI [of _ n]) simp

lemma table_ok_D:
  fixes m :: "('l :: len word \<times> FakeKernelObject) list"
  assumes "table_ok m"
  shows "m \<noteq> []" "Suc (length m) < 2 ^ LENGTH('l)" "map_ok m"
    "set m = (\<lambda>i. (of_nat i, new_FakeKernelObject)) ` {1..length m}"
proof -
  obtain n where n: "0 < n" "Suc n < 2 ^ LENGTH('l)" "m = map (\<lambda>i. (of_nat i, new_FakeKernelObject)) [1..<Suc n]"
    using assms unfolding table_ok_def by blast
  show "m \<noteq> []" "Suc (length m) < 2 ^ LENGTH('l)" using n by simp_all
  show "set m = (\<lambda>i. (of_nat i, new_FakeKernelObject)) ` {1..length m}"
    using n(3) by (simp add: atLeastLessThanSuc_atLeastAtMost del: upt_Suc)
  have "m = initial_objects n" using n by (simp add: initial_objects_eq)
  moreover have "map_ok (fold (\<lambda>i. map_insert (of_nat i :: 'l word) new_FakeKernelObject) is [])" for "is"
    by (induction "is" rule: rev_induct) (simp_all add: map_insert_ok map_ok_def [of "[]"])
  ultimately show "map_ok m" by (simp add: initial_objects_def)
qed

lemma table_find:
  fixes m :: "('l :: len word \<times> FakeKernelObject) list"
  assumes "table_ok m" "k < length m"
  shows "locate (of_nat (k + 1)) m = Some new_FakeKernelObject"
proof -
  note m = table_ok_D [OF assms(1)]
  have "unat (of_nat (k + 1) :: 'l word) = k + 1" using m(2) assms(2) by (intro unat_of_nat_small) simp
  then have nz: "(of_nat (k + 1) :: 'l word) \<noteq> 0" by (metis add_is_0 one_neq_zero unat_0)
  have "(of_nat (k + 1), new_FakeKernelObject) \<in> set m" using assms(2) unfolding m(4) by (intro imageI) simp
  then obtain v where v: "map_of m (of_nat (k + 1)) = Some v" by (metis weak_map_of_SomeI)
  then have "(of_nat (k + 1), v) \<in> set m" by (rule map_of_SomeD)
  then have "v = new_FakeKernelObject" unfolding m(4) by auto
  with v nz show ?thesis by (simp add: locate_def map_find_def del: of_nat_Suc of_nat_add)
qed

lemma table_no_key:
  fixes m :: "('l :: len word \<times> FakeKernelObject) list"
  assumes "table_ok m"
  shows "map_find (- 1) m = None"
proof -
  note m = table_ok_D [OF assms]
  have "of_nat i \<noteq> (- 1 :: 'l word)" if "i \<le> length m" for i
  proof
    assume "of_nat i = (- 1 :: 'l word)"
    then have "unat (of_nat (Suc i) :: 'l word) = 0" by simp
    moreover have "unat (of_nat (Suc i) :: 'l word) = Suc i" using that m(2) by (intro unat_of_nat_small) simp
    ultimately show False by simp
  qed
  then have "- 1 \<notin> fst ` set m" unfolding m(4) by (force simp: image_iff dest: sym)
  then show ?thesis by (simp add: map_find_def map_of_eq_None_iff)
qed

lemma table_restored:
  assumes "table_ok m"
  shows "map_erase (- 1) (map_insert (- 1) v m) = m" "map_erase (- 1) m = m"
  using std_map.erase_insert [OF table_ok_D(3) [OF assms] table_no_key [OF assms]]
    std_map.erase_absent [OF table_ok_D(3) [OF assms] table_no_key [OF assms]] by simp_all

section \<open>Both series of measurements\<close>

definition kernel_ok :: "('w, 'd) fake_kernel \<Rightarrow> bool" where
  "kernel_ok e \<longleftrightarrow> table_ok (handleObjects e) \<and> table_ok (threads e) \<and> table_ok (processes e) \<and>
     table_ok (registryKeys e) \<and> table_ok (sockets e)"

lemma new_FakeKernel_ok: "kernel_ok (new_FakeKernel sw w)"
  by (simp add: kernel_ok_def new_FakeKernel_def exper.defs initial_table_ok)

lemma compare_objects_world:
  assumes "objA \<noteq> []" "objB \<noteq> []"
  shows "\<exists>e'. compare_objects A objA objB e = Some e' \<and> only_world e e'"
  unfolding compare_objects_def
proof (rule for_opt_world)
  fix i :: nat and s
  obtain v0 e1 v1 e2 where r: "rand A s = (v0, e1)" "rand A e1 = (v1, e2)" by fastforce
  have "only_world s e2" using only_world_rand [of s A] only_world_rand [of e1 A] r only_world_trans by auto
  then show "\<exists>s'. (let (v0, e1) = rand A s; r0 = v0 mod length objA; (v1, e2) = rand A e1;
      r1 = v1 mod length objB; equal = (objA ! r0 = objB ! r1)
      in if r0 < length objA \<and> r1 < length objB then Some e2 else None) = Some s' \<and> only_world s s'"
    using assms r by (simp add: Let_def)
qed

lemma inspect_objects_world:
  assumes "\<And>obj. Some obj \<in> set objects \<Longrightarrow> obj \<noteq> []" "length objects = 5"
  shows "\<exists>e'. inspect_objects A objects e = Some e' \<and> only_world e e'"
proof -
  have ne: "objects ! i \<noteq> Some []" if "i < 5" for i
    using assms nth_mem [of i objects] that by metis
  show ?thesis unfolding inspect_objects_def
    by (rule for_opt_world)
      (auto split: option.split intro!: for_opt_world compare_objects_world simp: ne less_trans)
qed

lemma locate_nonempty:
  assumes "table_ok m" "locate k m = Some obj"
  shows "obj \<noteq> []"
proof -
  have "(k, obj) \<in> set m" using assms(2) by (auto simp: locate_def map_find_def split: if_splits dest: map_of_SomeD)
  then show ?thesis unfolding table_ok_D(4) [OF assms(1)] by (auto simp: new_FakeKernelObject_def)
qed

lemma validate_world:
  assumes "kernel_ok e"
  shows "\<exists>e'. FakeValidateUserArguments A h t p r s e = Some e' \<and> only_world e e'"
  unfolding FakeValidateUserArguments_def
  by (rule inspect_objects_world) (use assms in \<open>auto simp: kernel_ok_def dest: locate_nonempty [OF _ sym]\<close>)

lemma pick_ok:
  assumes "table_ok m"
  shows "\<exists>k e'. pick A m e = Some (k, e') \<and> locate k m = Some new_FakeKernelObject \<and> only_world e e'"
proof -
  obtain r e1 where r: "rand A e = (r, e1)" by fastforce
  have "r mod length m < length m" using table_ok_D(1) [OF assms] by simp
  from table_find [OF assms this] show ?thesis
    using r only_world_rand [of e A] table_ok_D(1) [OF assms] by (auto simp: pick_def)
qed

lemma only_world_kernel_ok: "only_world e e' \<Longrightarrow> kernel_ok e' = kernel_ok e"
  by (auto simp: only_world_def kernel_ok_def)

lemma ss_push_kernel_ok [simp]: "kernel_ok (ss_push A tag e) = kernel_ok e"
  by (simp add: ss_push_def kernel_ok_def split: prod.split)

lemma measured_kernel_ok: "measured tag n e e' \<Longrightarrow> kernel_ok e \<Longrightarrow> kernel_ok e'"
  by (auto simp: measured_def kernel_ok_def)

lemma picks_ok:
  assumes "kernel_ok e"
  shows "\<exists>h t p r s e1 e2 e3 e4 e5. pick A (handleObjects e) e = Some (h, e1) \<and> pick A (threads e1) e1 = Some (t, e2) \<and>
    pick A (processes e2) e2 = Some (p, e3) \<and> pick A (registryKeys e3) e3 = Some (r, e4) \<and>
    pick A (sockets e4) e4 = Some (s, e5) \<and> only_world e e5"
proof -
  have step: "\<exists>k e'. pick A m e = Some (k, e') \<and> only_world e e' \<and> kernel_ok e'"
    if "table_ok m" "kernel_ok e" for m :: "('l :: len word \<times> FakeKernelObject) list" and e :: "('a, 'b) fake_kernel"
    using pick_ok [OF that(1)] that(2) only_world_kernel_ok by metis
  obtain h e1 where 1: "pick A (handleObjects e) e = Some (h, e1)" "only_world e e1" "kernel_ok e1"
    using step assms unfolding kernel_ok_def by metis
  obtain t e2 where 2: "pick A (threads e1) e1 = Some (t, e2)" "only_world e1 e2" "kernel_ok e2"
    using step 1(3) unfolding kernel_ok_def by metis
  obtain p e3 where 3: "pick A (processes e2) e2 = Some (p, e3)" "only_world e2 e3" "kernel_ok e3"
    using step 2(3) unfolding kernel_ok_def by metis
  obtain r e4 where 4: "pick A (registryKeys e3) e3 = Some (r, e4)" "only_world e3 e4" "kernel_ok e4"
    using step 3(3) unfolding kernel_ok_def by metis
  obtain s e5 where 5: "pick A (sockets e4) e4 = Some (s, e5)" "only_world e4 e5"
    using step 4(3) unfolding kernel_ok_def by metis
  have "only_world e e5" using 1(2) 2(2) 3(2) 4(2) 5(2) by (meson only_world_trans)
  then show ?thesis using 1(1) 2(1) 3(1) 4(1) 5(1) by (intro exI conjI)
qed

lemma verify_turn_measured:
  assumes "kernel_ok e" "room e" "tag \<noteq> NoTag"
  shows "\<exists>e'. verify_turn A tag e = Some e' \<and> measured tag 1 e e'"
proof -
  obtain h t p r s e1 e2 e3 e4 e5 where p: "pick A (handleObjects e) e = Some (h, e1)" "pick A (threads e1) e1 = Some (t, e2)"
    "pick A (processes e2) e2 = Some (p, e3)" "pick A (registryKeys e3) e3 = Some (r, e4)"
    "pick A (sockets e4) e4 = Some (s, e5)" "only_world e e5"
    using picks_ok [OF assms(1), of A] by (elim exE conjE) (rule that)
  have "kernel_ok (ss_push A tag e5)" using p(6) assms(1) by (simp add: only_world_kernel_ok)
  then obtain e6 where e6: "FakeValidateUserArguments A h t p r s (ss_push A tag e5) = Some e6"
    "only_world (ss_push A tag e5) e6" using validate_world by blast
  have m0: "measured tag 0 e e5" using p(6) by (rule only_world_measured)
  have "measured tag 1 e5 (ss_pop A e6)"
    using timed_only_world [OF e6(2)] measured_room [OF m0] assms by simp
  from measured_trans [OF m0 this] have "measured tag 1 e (ss_pop A e6)" by simp
  moreover have "verify_turn A tag e = Some (ss_pop A e6)" using p e6(1) by (simp add: verify_turn_def)
  ultimately show ?thesis by blast
qed

lemma allocation_world:
  assumes malloc: "\<And>n w. fst (fst (sys A ''malloc'' [I n] w)) \<noteq> 0"
    and "kernel_ok e" "keySize = 4 \<or> keySize = 8"
  shows "\<exists>e'. FakeResourceAllocation A memorySize keySize e = Some e' \<and> only_world e e'"
proof -
  obtain w e1 where e1: "e1 = (if keySize = 4 then e\<lparr>handleObjects := map_insert (-1) new_FakeKernelObject (handleObjects e)\<rparr>
      else if keySize = 8 then e\<lparr>registryKeys := map_insert (-1) new_FakeKernelObject (registryKeys e)\<rparr> else e)"
    by blast
  obtain r o' w1 where s1: "sys A ''malloc'' [I memorySize] (ex_world e1) = ((r, o'), w1)" by (metis prod.exhaust)
  have r: "r \<noteq> 0" using malloc [of memorySize "ex_world e1"] s1 by simp
  obtain w2 where s2: "call A ''free'' [I r] (e1\<lparr>ex_world := w1\<rparr>) = e1\<lparr>ex_world := w2\<rparr>"
    using call_world [of A "''free''" "[I r]" "e1\<lparr>ex_world := w1\<rparr>"] by auto
  note t = table_restored(1) [of "handleObjects e"] table_restored(2) [of "handleObjects e"]
    table_restored(1) [of "registryKeys e"] table_restored(2) [of "registryKeys e"]
  have "FakeResourceAllocation A memorySize keySize e = Some (e\<lparr>ex_world := w2\<rparr>)"
    using assms(2,3) t s1 s2 r unfolding FakeResourceAllocation_def e1 [symmetric] syscall_def Let_def
    by (auto simp: kernel_ok_def e1)
  then show ?thesis by (auto simp: only_world_def)
qed

lemma allocate_turn_measured:
  assumes "\<And>n w. fst (fst (sys A ''malloc'' [I n] w)) \<noteq> 0" "kernel_ok e" "room e" "tag \<noteq> NoTag"
  shows "\<exists>e'. allocate_turn A tag i e = Some e' \<and> measured tag 1 e e'"
proof -
  have "int i mod 2 = 0 \<or> int i mod 2 = 1" by presburger
  then have k: "4 * (int i mod 2 + 1) = 4 \<or> 4 * (int i mod 2 + 1) = 8" by auto
  obtain e1 where "FakeResourceAllocation A (16 * 1024 * (int i mod 4 + 1)) (4 * (int i mod 2 + 1)) (ss_push A tag e) = Some e1"
    "only_world (ss_push A tag e) e1"
    using allocation_world [OF assms(1) _ k, of "ss_push A tag e"] assms(2) ss_push_kernel_ok by blast
  then show ?thesis using timed_only_world [of A tag e e1] assms(3,4) by (auto simp: allocate_turn_def)
qed

lemma tables_of_more:
  assumes "exper.more e = exper.more e'"
  shows "handleObjects e = handleObjects e'" "threads e = threads e'" "processes e = processes e'"
    "registryKeys e = registryKeys e'" "sockets e = sockets e'"
  using assms by (cases e; cases e'; simp)+

text \<open>One series: 5000 turns that each measure once, and the median of what is kept of them.\<close>

lemma kernel_series:
  assumes turn: "\<And>i e. kernel_ok e \<Longrightarrow> room e \<Longrightarrow> \<exists>e'. body i e = Some e' \<and> measured tag 1 e e'"
    and e: "kernel_ok e" "room e" "sw_ok (ex_sw e)" "history tag e = []"
  shows "\<exists>e'. for_opt 0 5000 body e = Some e' \<and>
    PushResultMedianAsMicroseconds A name (history tag e') (minus_overhead e') e' =
      Some (PushResult name (median_us A e (history tag e')) e') \<and>
    length (history tag e') = min (sw_tagHistorySize (ex_sw e)) 5000 \<and> measured tag 5000 e e'"
proof -
  have "\<exists>e'. for_opt 0 5000 body e = Some e' \<and> measured tag (5000 * 1) e e'"
    by (rule measured_loop_inv [where P = kernel_ok]) (use turn e measured_kernel_ok in blast)+
  then obtain e' where e': "for_opt 0 5000 body e = Some e'" "measured tag 5000 e e'" by auto
  show ?thesis
    using e' report_median_us [OF measured_same_setup [OF e'(2)], of A name] length_measured_history [OF e'(2) e(3)] e(4)
    by simp
qed



end
