(* ===== verification/FileSystemModel.thy ===== *)
theory FileSystemModel
  imports ExperimentBase CommandLine
begin

text \<open>
  The file-system experiments of the profiler: the base class \<open>FileSystemExperiment.cpp\<close> and
  \<open>FileSystemCacheSize.cpp\<close>, \<open>FileSystemLocalRead.cpp\<close>, \<open>FileSystemRemoteRead.cpp\<close> and
  \<open>FileSystemContention.cpp\<close>. Files and handles belong to the world: \<open>CreateFile\<close> returns a handle
  (\<open>-1\<close> is \<open>INVALID_HANDLE_VALUE\<close>), \<open>ReadFile\<close> a success flag and the amount read, \<open>SetFilePointer\<close> the
  new position (\<open>-1\<close> is \<open>INVALID_SET_FILE_POINTER\<close>). The static list \<open>_fileSizes\<close> is a field that the
  constructor of the next experiment takes over. The child processes of the contention
  experiment share nothing with it but files and an event, which belong to the world.
\<close>

section \<open>The base class\<close>

datatype ReadMode = SEQUENTIAL | RANDOM

record ('w, 'd) fs_exper = "('w, 'd) exper" +
  devicePath :: string
  fileSizes :: "u64 list"

definition TestFilenamePrefix :: string where "TestFilenamePrefix = ''TestFile''"

definition NumFileSizes :: nat where "NumFileSizes = 23"

definition DefaultBufferSize :: int where "DefaultBufferSize = 128 * 1024"

text \<open>\<open>while((num >> log2Count) > 1) log2Count++;\<close>, a shift by 64 or more is undefined.\<close>

function GetLog2_loop :: "u64 \<Rightarrow> nat \<Rightarrow> nat option" where
  "GetLog2_loop num log2Count =
     (if 64 \<le> log2Count then None
      else if drop_bit log2Count num > 1 then GetLog2_loop num (Suc log2Count)
      else Some log2Count)"
  by auto
termination by (relation "measure (\<lambda>(num, k). 64 - k)") auto

declare GetLog2_loop.simps [simp del]

definition GetLog2 :: "u64 \<Rightarrow> nat option" where
  "GetLog2 num = GetLog2_loop num 1"

text \<open>The first shift is of the \<open>int\<close> \<open>1\<close>, by at most 30.\<close>

definition GuaranteedShift :: "u64 \<Rightarrow> nat \<Rightarrow> u64 option" where
  "GuaranteedShift num shiftAmt =
     (let num1 = (push_bit (shiftAmt mod 31) 1 :: 32 word);
          num2 = (ucast num1 :: u64);
          s = shiftAmt div 31 * 31
      in if s < 64 then Some (push_bit s num2) else None)"

definition GetLogicalSectorSize :: "('w, 'd) api \<Rightarrow> string \<Rightarrow> ('w, 'd, 'z) exper_scheme \<Rightarrow> (u32 \<times> ('w, 'd, 'z) exper_scheme) option" where
  "GetLogicalSectorSize A path e =
     (case syscall A ''GetDiskFreeSpace'' [S path] e of ((success, bytesPerSector), e1) \<Rightarrow>
        if success = 0 then None else Some (of_int bytesPerSector, e1))"

definition GetPhysicalSectorSize :: "string \<Rightarrow> u32 option" where
  "GetPhysicalSectorSize path = None"

text \<open>\<open>for(uint32_t i = 0; i < NumFileSizes; ++i) _fileSizes.push_back(GuaranteedShift(1, i + logSecSize))\<close>\<close>

fun push_sizes :: "nat \<Rightarrow> nat \<Rightarrow> nat \<Rightarrow> u64 list option" where
  "push_sizes logSecSize i 0 = Some []"
| "push_sizes logSecSize i (Suc n) = do {
     s \<leftarrow> GuaranteedShift 1 (i + logSecSize);
     ss \<leftarrow> push_sizes logSecSize (Suc i) n;
     Some (s # ss)
   }"

definition new_FileSystemExperiment :: "('w, 'd) api \<Rightarrow> string \<Rightarrow> 'd stopwatch \<Rightarrow> u64 list \<Rightarrow> 'w \<Rightarrow> ('w, 'd) fs_exper option" where
  "new_FileSystemExperiment A name stopwatch sizes w = do {
     let e = exper.extend (new_experiment name stopwatch w) \<lparr>devicePath = ''C:'' @ [CHR 0x5C], fileSizes = sizes\<rparr>;
     if sizes = []
     then do {
       (secSize, e) \<leftarrow> GetLogicalSectorSize A (devicePath e) e;
       logSecSize \<leftarrow> GetLog2 (ucast secSize);
       ss \<leftarrow> push_sizes logSecSize 0 NumFileSizes;
       Some (e\<lparr>fileSizes := ss\<rparr>)
     }
     else Some e
   }"

definition OpenFileNoBuffering :: "('w, 'd) api \<Rightarrow> string \<Rightarrow> ('w, 'd, 'z) exper_scheme \<Rightarrow> (int \<times> ('w, 'd, 'z) exper_scheme) option" where
  "OpenFileNoBuffering A path e =
     (case syscall A ''CreateFile'' [S path, S ''FILE_SHARE_READ'', S ''FILE_FLAG_NO_BUFFERING''] e of ((h, _), e1) \<Rightarrow>
        if h = -1 then None else Some (h, e1))"

definition OpenFileNormal :: "('w, 'd) api \<Rightarrow> string \<Rightarrow> ('w, 'd, 'z) exper_scheme \<Rightarrow> (int \<times> ('w, 'd, 'z) exper_scheme) option" where
  "OpenFileNormal A path e =
     (case syscall A ''CreateFile'' [S path] e of ((h, _), e1) \<Rightarrow> if h = -1 then None else Some (h, e1))"

definition CloseFile :: "('w, 'd) api \<Rightarrow> int \<Rightarrow> ('w, 'd, 'z) exper_scheme \<Rightarrow> ('w, 'd, 'z) exper_scheme option" where
  "CloseFile A handle e = (if handle = 0 then None else Some (call A ''CloseHandle'' [I handle] e))"

definition GetTestFilenameBySize :: "u64 \<Rightarrow> string \<Rightarrow> string" where
  "GetTestFilenameBySize sz directory = directory @ TestFilenamePrefix @ show_base 10 (unat sz)"

abbreviation test_filename :: "u64 \<Rightarrow> ('w, 'd) fs_exper \<Rightarrow> string" where
  "test_filename sz e \<equiv> GetTestFilenameBySize sz (devicePath e)"

text \<open>
  One turn of \<open>CreateTestFiles\<close>. A stream that is already open stays open when it is opened again.
\<close>

definition created_filename :: "u64 \<Rightarrow> ('w, 'd) fs_exper \<Rightarrow> string" where
  "created_filename sz e = devicePath e @ test_filename sz e"

definition CreateTestFile :: "('w, 'd) api \<Rightarrow> bool \<Rightarrow> u64 \<Rightarrow> ('w, 'd) fs_exper \<Rightarrow> ('w, 'd) fs_exper option" where
  "CreateTestFile A replaceExisting sz e =
     (let filename = created_filename sz e;
          ((opened, _), e1) = syscall A ''fstream::open in'' [S filename] e
      in if opened \<noteq> 0 \<and> \<not> replaceExisting then Some e1
         else
           let ((opened2, _), e2) = syscall A ''fstream::open out binary'' [S filename] e1
           in if opened = 0 \<and> opened2 = 0 then None
              else Some ((call A ''fstream::write'' [S filename, I 97, I 8] ^^ (unat sz div 8)) e2))"

fun CreateTestFiles :: "('w, 'd) api \<Rightarrow> u64 list \<Rightarrow> bool \<Rightarrow> ('w, 'd) fs_exper \<Rightarrow> ('w, 'd) fs_exper option" where
  "CreateTestFiles A [] replaceExisting e = Some e"
| "CreateTestFiles A (sz # sizes) replaceExisting e =
     Option.bind (CreateTestFile A replaceExisting sz e) (CreateTestFiles A sizes replaceExisting)"

definition CreateTestFiles_default :: "('w, 'd) api \<Rightarrow> ('w, 'd) fs_exper \<Rightarrow> ('w, 'd) fs_exper option" where
  "CreateTestFiles_default A e = CreateTestFiles A (fileSizes e) False e"

definition GetFileSize_handle :: "('w, 'd) api \<Rightarrow> int \<Rightarrow> ('w, 'd, 'z) exper_scheme \<Rightarrow> (u64 \<times> ('w, 'd, 'z) exper_scheme) option" where
  "GetFileSize_handle A hFile e =
     (case syscall A ''GetFileSizeEx'' [I hFile] e of ((ok, sz), e1) \<Rightarrow>
        if ok = 0 then None else Some (of_int sz, e1))"

definition GetFileSize :: "('w, 'd) api \<Rightarrow> string \<Rightarrow> ('w, 'd, 'z) exper_scheme \<Rightarrow> (u64 \<times> ('w, 'd, 'z) exper_scheme) option" where
  "GetFileSize A path e = do {
     (hFile, e) \<leftarrow> OpenFileNormal A path e;
     (sz, e) \<leftarrow> GetFileSize_handle A hFile e;
     e \<leftarrow> CloseFile A hFile e;
     Some (sz, e)
   }"

definition seek :: "('w, 'd) api \<Rightarrow> int \<Rightarrow> int \<Rightarrow> ('w, 'd, 'z) exper_scheme \<Rightarrow> ('w, 'd, 'z) exper_scheme option" where
  "seek A hFile pos e =
     (case syscall A ''SetFilePointer'' [I hFile, I pos] e of ((currPosition, _), e1) \<Rightarrow>
        if currPosition = -1 then None else Some e1)"

text \<open>The \<open>while\<close> loop of \<open>ReadEntireFile\<close>: one turn, and the loop, which ends only if enough is read.\<close>

definition read_turn :: "('w, 'd) api \<Rightarrow> int \<Rightarrow> int \<Rightarrow> tag \<Rightarrow> ReadMode \<Rightarrow> nat \<Rightarrow> ('w, 'd, 'z) exper_scheme \<Rightarrow>
    (nat \<times> ('w, 'd, 'z) exper_scheme) option" where
  "read_turn A hFile bufferSize tag readMode fileSize e =
     (case syscall A ''ReadFile'' [I hFile, I bufferSize] (ss_push A tag e) of ((_, amountRead), e1) \<Rightarrow>
        let e2 = ss_pop A e1
        in if amountRead = 0 \<and> readMode = SEQUENTIAL then map_option (Pair 0) (seek A hFile 0 e2)
           else if readMode = RANDOM
           then case rand A e2 of (r, e3) \<Rightarrow>
                  map_option (Pair (nat amountRead))
                    (seek A hFile (sint (of_nat (r * 512 mod fileSize mod (2 ^ 32 - 1)) :: 32 word)) e3)
           else Some (nat amountRead, e2))"

partial_function (option) read_loop :: "('w, 'd) api \<Rightarrow> int \<Rightarrow> int \<Rightarrow> tag \<Rightarrow> ReadMode \<Rightarrow> nat \<Rightarrow> nat \<Rightarrow>
    ('w, 'd, 'z) exper_scheme \<Rightarrow> ('w, 'd, 'z) exper_scheme option" where
  "read_loop A hFile bufferSize tag readMode fileSize totalRead e =
     (if totalRead < fileSize
      then Option.bind (read_turn A hFile bufferSize tag readMode fileSize e)
             (\<lambda>x. read_loop A hFile bufferSize tag readMode fileSize (totalRead + fst x) (snd x))
      else Some e)"

definition ReadEntireFile_handle :: "('w, 'd) api \<Rightarrow> int \<Rightarrow> int \<Rightarrow> tag \<Rightarrow> u32 \<Rightarrow> ReadMode \<Rightarrow> ('w, 'd, 'z) exper_scheme \<Rightarrow>
    ('w, 'd, 'z) exper_scheme option" where
  "ReadEntireFile_handle A hFile bufferSize tag startPosition readMode e =
     (if hFile = -1 then None
      else do {
        let ((buffer, _), e) = syscall A ''malloc'' [I bufferSize] e;
        e \<leftarrow> seek A hFile (sint startPosition) e;
        (fileSize, e) \<leftarrow> GetFileSize_handle A hFile e;
        e \<leftarrow> (if fileSize > 0 then read_loop A hFile bufferSize tag readMode (unat fileSize) 0 e else None);
        Some (call A ''free'' [I buffer] e)
      })"

text \<open>With a stopwatch of its own and no tag.\<close>

definition with_dummy :: "('w, 'd) api \<Rightarrow> (('w, 'd, 'z) exper_scheme \<Rightarrow> ('w, 'd, 'z) exper_scheme option) \<Rightarrow>
    ('w, 'd, 'z) exper_scheme \<Rightarrow> ('w, 'd, 'z) exper_scheme option" where
  "with_dummy A f e = do {
     let ((_, mhz), e1) = syscall A ''RegGetValue'' [S ''~Mhz''] e;
     dummy \<leftarrow> new_stopwatch (fpo A) 100 100 False (of_int mhz);
     e2 \<leftarrow> f (e1\<lparr>ex_sw := dummy\<rparr>);
     Some (e2\<lparr>ex_sw := ex_sw e\<rparr>)
   }"

definition ReadEntireFile :: "('w, 'd) api \<Rightarrow> string \<Rightarrow> u32 \<Rightarrow> ('w, 'd, 'z) exper_scheme \<Rightarrow> ('w, 'd, 'z) exper_scheme option" where
  "ReadEntireFile A path startPosition e = do {
     (hFile, e) \<leftarrow> OpenFileNoBuffering A path e;
     e \<leftarrow> with_dummy A (ReadEntireFile_handle A hFile DefaultBufferSize NoTag startPosition SEQUENTIAL) e;
     CloseFile A hFile e
   }"

section \<open>Pieces of the measuring loops\<close>

definition alloc_buffer :: "('w, 'd) api \<Rightarrow> int \<Rightarrow> ('w, 'd, 'z) exper_scheme \<Rightarrow> (int \<times> ('w, 'd, 'z) exper_scheme) option" where
  "alloc_buffer A n e =
     (case syscall A ''malloc'' [I n] e of ((buffer, _), e1) \<Rightarrow> if buffer = 0 then None else Some (buffer, e1))"

definition timed_read :: "('w, 'd) api \<Rightarrow> tag \<Rightarrow> int \<Rightarrow> int \<Rightarrow> ('w, 'd, 'z) exper_scheme \<Rightarrow> ('w, 'd, 'z) exper_scheme option" where
  "timed_read A tag fileHandle amount e =
     (case syscall A ''ReadFile'' [I fileHandle, I amount] (ss_push A tag e) of ((ok, _), e1) \<Rightarrow>
        if ok = 0 then None else Some (ss_pop A e1))"

definition as_LONG :: "u64 \<Rightarrow> int" where
  "as_LONG x = sint (ucast x :: 32 word)"

abbreviation estimatedSlotSize :: int where "estimatedSlotSize \<equiv> 16384"
abbreviation estimatedCacheSize :: u64 where "estimatedCacheSize \<equiv> 16777216"

definition bytes_name :: "string \<Rightarrow> u64 \<Rightarrow> string" where
  "bytes_name prefix n = prefix @ [CHR 0x09] @ show_base 10 (unat n) @ '' bytes''"

section \<open>\<open>FileSystemCacheSize\<close>\<close>

definition new_FileSystemCacheSize :: "('w, 'd) api \<Rightarrow> 'd stopwatch \<Rightarrow> u64 list \<Rightarrow> 'w \<Rightarrow> ('w, 'd) fs_exper option" where
  "new_FileSystemCacheSize A ss sizes w =
     map_option (\<lambda>e. e\<lparr>ex_iterations := 2\<rparr>)
       (new_FileSystemExperiment A ''File System Cache Size determination'' ss sizes w)"

definition cache_read_turn :: "('w, 'd) api \<Rightarrow> tag \<Rightarrow> int \<Rightarrow> u64 \<Rightarrow> nat \<Rightarrow> ('w, 'd) fs_exper \<Rightarrow> ('w, 'd) fs_exper option" where
  "cache_read_turn A tag fileHandle currentFileSize j e = do {
     (inputBuffer, e) \<leftarrow> alloc_buffer A estimatedSlotSize e;
     offset \<leftarrow> (if currentFileSize = 0 then None
               else Some (as_LONG (of_nat j * estimatedCacheSize mod currentFileSize)));
     e \<leftarrow> (if offset > 0 then seek A fileHandle offset e else Some e);
     e \<leftarrow> timed_read A tag fileHandle estimatedSlotSize e;
     Some (call A ''free'' [I inputBuffer] e)
   }"

definition cache_size_turn :: "('w, 'd :: linorder) api \<Rightarrow> tag \<Rightarrow> nat \<Rightarrow> nat \<Rightarrow> ('w, 'd) fs_exper \<Rightarrow> ('w, 'd) fs_exper option" where
  "cache_size_turn A tag log2Sector i e = do {
     let e = ss_reset tag e;
     currentFileSize \<leftarrow> GuaranteedShift 1 (i + log2Sector);
     let resultName = bytes_name ''File Read Latency Normal, File Size:'' currentFileSize;
     let fileName = test_filename currentFileSize e;
     e \<leftarrow> ReadEntireFile A fileName 0 e;
     (fileHandle, e) \<leftarrow> OpenFileNormal A fileName e;
     e \<leftarrow> for_opt 0 100 (cache_read_turn A tag fileHandle currentFileSize) e;
     e \<leftarrow> CloseFile A fileHandle e;
     e \<leftarrow> PushResultMedianAsMicroseconds A (resultName @ '' Med'') (history tag e) (minus_overhead e) e;
     Some (PushResultMeanAsMicroseconds A (resultName @ '' Mean'') (history tag e) (minus_overhead e) e)
   }"

definition FileSystemCacheSize_Run :: "('w, 'd :: linorder) api \<Rightarrow> ('w, 'd) fs_exper \<Rightarrow> ('w, 'd) fs_exper option" where
  "FileSystemCacheSize_Run A e = do {
     let tag = Tag ''FileSystem -- File Cache Latency'' 0;
     e \<leftarrow> CreateTestFiles_default A e;
     (sectorSize, e) \<leftarrow> GetLogicalSectorSize A (devicePath e) e;
     e \<leftarrow> (if sectorSize > 1 then Some e else None);
     log2Sector \<leftarrow> GetLog2 (ucast sectorSize);
     for_opt 0 (length (fileSizes e)) (cache_size_turn A tag log2Sector) e
   }"

section \<open>\<open>FileSystemLocalRead\<close>\<close>

definition new_FileSystemLocalRead :: "('w, 'd) api \<Rightarrow> 'd stopwatch \<Rightarrow> u64 list \<Rightarrow> 'w \<Rightarrow> ('w, 'd) fs_exper option" where
  "new_FileSystemLocalRead A ss sizes w =
     map_option (\<lambda>e. e\<lparr>ex_iterations := 2\<rparr>) (new_FileSystemExperiment A ''File System Local Reads'' ss sizes w)"

definition seq_read_turn :: "('w, 'd) api \<Rightarrow> tag \<Rightarrow> int \<Rightarrow> u64 \<Rightarrow> nat \<Rightarrow> ('w, 'd) fs_exper \<Rightarrow> ('w, 'd) fs_exper option" where
  "seq_read_turn A tagSeq fileHandle currentFileSize j e = do {
     (seqInputBuffer, e) \<leftarrow> alloc_buffer A estimatedSlotSize e;
     offset \<leftarrow> (if currentFileSize = 0 then None
               else Some (as_LONG (of_int (int (j * 16777216) mod \<bar>sint currentFileSize\<bar>))));
     e \<leftarrow> (if offset = 0 then seek A fileHandle offset e else Some e);
     e \<leftarrow> timed_read A tagSeq fileHandle estimatedSlotSize e;
     Some (call A ''free'' [I seqInputBuffer] e)
   }"

definition rand_read_turn :: "('w, 'd) api \<Rightarrow> tag \<Rightarrow> int \<Rightarrow> u32 \<Rightarrow> ('w, 'd) fs_exper \<Rightarrow> ('w, 'd) fs_exper option" where
  "rand_read_turn A tagRand fileHandle maxRandValue e = do {
     (randInputBuffer, e) \<leftarrow> alloc_buffer A estimatedSlotSize e;
     let (offset, e) = (if maxRandValue > 1
                        then case rand A e of (r, e1) \<Rightarrow>
                               let randVal = (of_nat r :: u32) mod maxRandValue
                               in (as_LONG (ucast randVal * estimatedCacheSize), e1)
                        else (0, e));
     e \<leftarrow> seek A fileHandle offset e;
     e \<leftarrow> timed_read A tagRand fileHandle estimatedSlotSize e;
     Some (call A ''free'' [I randInputBuffer] e)
   }"

definition local_read_turn :: "('w, 'd :: linorder) api \<Rightarrow> tag \<Rightarrow> tag \<Rightarrow> nat \<Rightarrow> nat \<Rightarrow> ('w, 'd) fs_exper \<Rightarrow> ('w, 'd) fs_exper option" where
  "local_read_turn A tagSeq tagRand log2Sector i e = do {
     let e = ss_reset tagRand (ss_reset tagSeq e);
     currentFileSize \<leftarrow> GuaranteedShift 1 (i + log2Sector);
     let fileName = test_filename currentFileSize e;
     (fileHandle, e) \<leftarrow> OpenFileNoBuffering A fileName e;
     e \<leftarrow> for_opt 0 10 (seq_read_turn A tagSeq fileHandle currentFileSize) e;
     e \<leftarrow> CloseFile A fileHandle e;
     e \<leftarrow> PushResultMedianAsMicroseconds A
           (bytes_name ''Unbuffered File Read Latency Sequential, File Size:'' currentFileSize)
           (history tagSeq e) (minus_overhead e) e;
     bigAmountOfBytes \<leftarrow> GuaranteedShift 1 (21 + log2Sector);
     e \<leftarrow> CreateTestFiles A [bigAmountOfBytes] False e;
     e \<leftarrow> ReadEntireFile A (test_filename bigAmountOfBytes e) 0 e;
     (fileHandle, e) \<leftarrow> OpenFileNoBuffering A fileName e;
     let maxRandValue = (ucast (currentFileSize div estimatedCacheSize) :: u32);
     e \<leftarrow> for_opt 0 10 (\<lambda>j. rand_read_turn A tagRand fileHandle maxRandValue) e;
     e \<leftarrow> CloseFile A fileHandle e;
     PushResultMedianAsMicroseconds A
       (bytes_name ''Unbuffered File Read Latency Random, File Size:'' currentFileSize)
       (history tagRand e) (minus_overhead e) e
   }"

definition FileSystemLocalRead_Run :: "('w, 'd :: linorder) api \<Rightarrow> ('w, 'd) fs_exper \<Rightarrow> ('w, 'd) fs_exper option" where
  "FileSystemLocalRead_Run A e = do {
     let e = call A ''srand time'' [] e;
     let tagSeq = Tag ''FileSystem -- Unbuffered Read Latency Synchronous'' 0;
     let tagRand = Tag ''FileSystem == Unbuffered Read Latency Asynchronous'' 0;
     e \<leftarrow> CreateTestFiles_default A e;
     (sectorSize, e) \<leftarrow> GetLogicalSectorSize A (devicePath e) e;
     e \<leftarrow> (if sectorSize > 1 then Some e else None);
     log2Sector \<leftarrow> GetLog2 (ucast sectorSize);
     for_opt 0 20 (local_read_turn A tagSeq tagRand log2Sector) e
   }"

section \<open>\<open>FileSystemRemoteRead\<close>\<close>

definition new_FileSystemRemoteRead :: "('w, 'd) api \<Rightarrow> 'd stopwatch \<Rightarrow> u64 list \<Rightarrow> 'w \<Rightarrow> ('w, 'd) fs_exper option" where
  "new_FileSystemRemoteRead A ss sizes w =
     map_option (\<lambda>e. e\<lparr>ex_iterations := 2, devicePath := ''K:'' @ [CHR 0x5C]\<rparr>)
       (new_FileSystemExperiment A ''File System Remote Reads'' ss sizes w)"

text \<open>\<open>baseTag + i + 1000 * t\<close>, an offset into the literal; \<open>1 << i\<close> for an \<open>int\<close>.\<close>

definition remote_tag :: "nat \<Rightarrow> tag" where
  "remote_tag k = Tag ''FileSystem -- Remote Unbuffered Read Latency Synchronous'' k"

definition one_shl :: "nat \<Rightarrow> u64 option" where
  "one_shl i = (if i < 31 then Some (2 ^ i) else None)"

definition remote_read_turn :: "('w, 'd) api \<Rightarrow> nat \<Rightarrow> nat \<Rightarrow> ('w, 'd) fs_exper \<Rightarrow> ('w, 'd) fs_exper option" where
  "remote_read_turn A t i e = do {
     let readMode = (if t = 0 then SEQUENTIAL else RANDOM);
     let tag = remote_tag (i + 1000 * t);
     currentFileSize \<leftarrow> one_shl i;
     let flusherFileSize = (if (2 ^ 26 :: u64) = currentFileSize then drop_bit 1 (2 ^ 26) else 2 ^ 26);
     e \<leftarrow> ReadEntireFile A (test_filename flusherFileSize e) 0 e;
     (fileHandle, e) \<leftarrow> OpenFileNoBuffering A (test_filename currentFileSize e) e;
     e \<leftarrow> ReadEntireFile_handle A fileHandle DefaultBufferSize tag 0 readMode e;
     CloseFile A fileHandle e
   }"

definition remote_name :: "string \<Rightarrow> string \<Rightarrow> u64 \<Rightarrow> string" where
  "remote_name mode stat fileSize = mode @ '' ('' @ show_base 10 (unat fileSize) @ '' bytes) '' @ stat @ '' (us)''"

definition remote_results :: "('w, 'd :: linorder) api \<Rightarrow> string \<Rightarrow> nat \<Rightarrow> nat \<Rightarrow> ('w, 'd) fs_exper \<Rightarrow> ('w, 'd) fs_exper option" where
  "remote_results A mode t i e = do {
     let tag = remote_tag (i + 1000 * t);
     e \<leftarrow> PushResultMedianAsMicroseconds A (remote_name mode ''Median'' (fileSizes e ! i)) (history tag e) (minus_overhead e) e;
     PushResultPercentileAsMicroseconds A (remote_name mode ''90th Percentile'' (fileSizes e ! i)) (history tag e) 90 (minus_overhead e) e
   }"

definition FileSystemRemoteRead_Run :: "('w, 'd :: linorder) api \<Rightarrow> ('w, 'd) fs_exper \<Rightarrow> ('w, 'd) fs_exper option" where
  "FileSystemRemoteRead_Run A e = do {
     (sectorSize, e) \<leftarrow> GetLogicalSectorSize A (devicePath e) e;
     e \<leftarrow> (if sectorSize > 1 then Some e else None);
     (synchInputBuffer, e) \<leftarrow> alloc_buffer A (uint sectorSize) e;
     let numFileSizes = length (fileSizes e);
     e \<leftarrow> for_opt 0 numFileSizes (\<lambda>i e. Some (ss_reset (remote_tag i) e)) e;
     e \<leftarrow> for_opt 0 (ex_iterations e) (\<lambda>j. for_opt 0 2 (\<lambda>t. for_opt 0 numFileSizes (remote_read_turn A t))) e;
     e \<leftarrow> for_opt 0 numFileSizes (remote_results A ''Sequential'' 0) e;
     e \<leftarrow> for_opt 0 numFileSizes (remote_results A ''Random'' 1) e;
     Some (call A ''free'' [I synchInputBuffer] e)
   }"

section \<open>\<open>FileSystemContention\<close>\<close>

definition new_FileSystemContention :: "('w, 'd) api \<Rightarrow> 'd stopwatch \<Rightarrow> u64 list \<Rightarrow> 'w \<Rightarrow> ('w, 'd) fs_exper option" where
  "new_FileSystemContention A ss sizes w =
     map_option (\<lambda>e. e\<lparr>ex_iterations := 2\<rparr>) (new_FileSystemExperiment A ''File System Contention'' ss sizes w)"

definition contention_command_line :: "nat \<Rightarrow> string \<Rightarrow> string" where
  "contention_command_line localProcessId fileToRead =
     ''Profiler.exe'' @ '' -FileSystemChildProcess '' @ '' '' @ show_int (int localProcessId) @ '' '' @ [CHR 0x22] @ fileToRead @ [CHR 0x22]"

text \<open>The arguments that the child with this command line gets, if the name has no quote and no backslash at its end\<close>

lemma contention_argv:
  assumes "quote_char \<notin> set f" "f \<noteq> [] \<longrightarrow> last f \<noteq> backslash"
  shows "crt_args (contention_command_line i f) = [''Profiler.exe'', ''-FileSystemChildProcess'', show_int (int i), f]"
proof -
  have "plain_word ''Profiler.exe''" "plain_word ''-FileSystemChildProcess''" by (code_simp)+
  with crt_scan_steps(1) [of "''Profiler.exe''" "''-FileSystemChildProcess  '' @ show_base 10 i @ '' '' @ [CHR 0x22] @ f @ [CHR 0x22]"]
    crt_scan_steps(1) [of "''-FileSystemChildProcess''" "'' '' @ show_base 10 i @ '' '' @ [CHR 0x22] @ f @ [CHR 0x22]"]
    crt_scan_steps(3) [of "show_base 10 i @ '' '' @ [CHR 0x22] @ f @ [CHR 0x22]"]
    crt_scan_steps(1) [OF plain_number, of i "[CHR 0x22] @ f @ [CHR 0x22]"] crt_args_quoted [OF assms]
  show ?thesis by (simp add: crt_args_def contention_command_line_def show_int_def del: crt_scan.simps)
qed

definition FSC_CreateProcess :: "('w, 'd) api \<Rightarrow> nat \<Rightarrow> string \<Rightarrow> ('w, 'd, 'z) exper_scheme \<Rightarrow> (int \<times> ('w, 'd, 'z) exper_scheme) option" where
  "FSC_CreateProcess A localProcessId fileToRead e =
     (let e1 = call A ''GetModuleFileName'' [I 0, I 1024] e;
          ((success, hProcess), e2) = syscall A ''CreateProcessW''
            [S (contention_command_line localProcessId fileToRead)] e1
      in if success = 0 then None else Some (hProcess, e2))"

fun FSC_create_processes :: "('w, 'd) api \<Rightarrow> string \<Rightarrow> nat list \<Rightarrow> ('w, 'd, 'z) exper_scheme \<Rightarrow> (int list \<times> ('w, 'd, 'z) exper_scheme) option" where
  "FSC_create_processes A file' [] e = Some ([], e)"
| "FSC_create_processes A file' (i # is) e = do {
     (h, e) \<leftarrow> FSC_CreateProcess A i file' e;
     (hs, e) \<leftarrow> FSC_create_processes A file' is e;
     Some (h # hs, e)
   }"

definition FileSystemContention_Run :: "('w, 'd :: linorder) api \<Rightarrow> ('w, 'd) fs_exper \<Rightarrow> ('w, 'd) fs_exper option" where
  "FileSystemContention_Run A e = do {
     let tag = Tag ''FileSystem Contention'' 0;
     (sectorSize, e) \<leftarrow> GetLogicalSectorSize A (devicePath e) e;
     let filenameMain = test_filename (2 ^ 26) e;
     let filenameChildren = test_filename (2 ^ 27) e;
     let ((conditionQuit, _), e) = syscall A ''CreateEvent'' [S ''Local CSE221-FileSystemContention-ProcessesMayQuit''] e;
     (processes, e) \<leftarrow> FSC_create_processes A filenameChildren [0..<8] e;
     let e = call A ''Sleep'' [I 5000] e;
     e \<leftarrow> for_opt 0 (ex_iterations e) (\<lambda>i e. do {
            (fileHandle, e) \<leftarrow> OpenFileNoBuffering A filenameMain e;
            e \<leftarrow> ReadEntireFile_handle A fileHandle (uint sectorSize) tag 0 RANDOM e;
            CloseFile A fileHandle e
          }) e;
     let e = call A ''SetEvent'' [I conditionQuit] e;
     let e = call A ''WaitForMultipleObjects'' (map I processes) e;
     e \<leftarrow> PushResultMedianAsMicroseconds A ''Sequential Read Median (us)'' (history tag e) (minus_overhead e) e;
     e \<leftarrow> PushResultPercentileAsMicroseconds A ''Sequential Read 10th Percentile (us)'' (history tag e) 10 (minus_overhead e) e;
     PushResultPercentileAsMicroseconds A ''Sequential Read 90th Percentile (us)'' (history tag e) 90 (minus_overhead e) e
   }"

text \<open>
  The child process, on an experiment that only carries its world and its stopwatch. \<open>258\<close> is
  \<open>WAIT_TIMEOUT\<close>. The start position is computed and not used.
\<close>

partial_function (option) child_reads :: "('w, 'd) api \<Rightarrow> int \<Rightarrow> int \<Rightarrow> ('w, 'd) exper \<Rightarrow> ('w, 'd) exper option" where
  "child_reads A conditionMayQuit hFile e =
     (if fst (fst (syscall A ''WaitForSingleObject'' [I conditionMayQuit, I 0] e)) = 258
      then Option.bind
             (ReadEntireFile_handle A hFile DefaultBufferSize NoTag 0 RANDOM
               (snd (syscall A ''WaitForSingleObject'' [I conditionMayQuit, I 0] e)))
             (child_reads A conditionMayQuit hFile)
      else Some (snd (syscall A ''WaitForSingleObject'' [I conditionMayQuit, I 0] e)))"

definition FSC_ChildProcessMain :: "('w, 'd) api \<Rightarrow> string list \<Rightarrow> ('w, 'd) exper \<Rightarrow> ('w, 'd) exper option" where
  "FSC_ChildProcessMain A argv e =
     (if length argv < 4 then None
      else do {
        localProcessId \<leftarrow> ParseInteger (argv ! 2);
        let fileToRead = argv ! 3;
        (hFile, e) \<leftarrow> OpenFileNoBuffering A fileToRead e;
        (fileSize, e) \<leftarrow> GetFileSize_handle A hFile e;
        let startPosition = (ucast (fileSize div 10 * of_int localProcessId) :: u32);
        let ((conditionMayQuit, _), e) = syscall A ''OpenEvent'' [S ''Local CSE221-FileSystemContention-ProcessesMayQuit''] e;
        e \<leftarrow> (if conditionMayQuit = 0 then None else Some e);
        e \<leftarrow> with_dummy A (child_reads A conditionMayQuit hFile) e;
        CloseFile A hFile e
      })"

section \<open>Shifts, logarithms and names\<close>

lemma GuaranteedShift_eq: "GuaranteedShift num s = (if s < 93 then Some (2 ^ s) else None)"
proof -
  have m: "s mod 31 < 31" by simp
  have "(ucast (push_bit (s mod 31) 1 :: 32 word) :: u64) = 2 ^ (s mod 31)"
  proof -
    have "unat (push_bit (s mod 31) 1 :: 32 word) = 2 ^ (s mod 31)"
      using m by (simp add: push_bit_eq_mult unat_pow2)
    moreover have "unat (2 ^ (s mod 31) :: u64) = 2 ^ (s mod 31)" using m by (intro unat_pow2) simp
    ultimately show ?thesis by (intro unsigned_word_eqI [where 'a = nat]) (simp add: unat_ucast_up)
  qed
  then have "(push_bit (s div 31 * 31) (ucast (push_bit (s mod 31) 1 :: 32 word)) :: u64) = 2 ^ (s mod 31) * 2 ^ (s div 31 * 31)"
    by (simp add: push_bit_eq_mult)
  also have "\<dots> = 2 ^ s" by (simp flip: power_add)
  finally have "(push_bit (s div 31 * 31) (ucast (push_bit (s mod 31) 1 :: 32 word)) :: u64) = 2 ^ s" .
  moreover have "s div 31 * 31 < 64 \<longleftrightarrow> s < 93"
  proof -
    have "d * 31 < 64 \<longleftrightarrow> d < 3" for d :: nat by linarith
    then show ?thesis using div_less_iff_less_mult [of 31 s 3] by simp
  qed
  ultimately show ?thesis by (simp add: GuaranteedShift_def Let_def)
qed

lemma drop_bit_gt_1: "drop_bit k (n :: u64) > 1 \<longleftrightarrow> unat n div 2 ^ k > 1"
  unfolding word_less_nat_alt unat_drop_bit_div by simp

lemma GetLog2_loop_eq:
  assumes "unat n < 2 ^ Suc l" "2 ^ l \<le> unat n" "k \<le> l" "l < 64"
  shows "GetLog2_loop n k = Some l"
  using assms(3)
proof (induction "l - k" arbitrary: k)
  case 0
  then have "k = l" by simp
  moreover have "unat n div 2 ^ l < 2" using assms(1) by (simp add: div_less_iff_less_mult mult.commute)
  ultimately show ?case using assms(4) by (subst GetLog2_loop.simps) (simp add: drop_bit_gt_1 not_less)
next
  case (Suc d)
  then have k: "Suc k \<le> l" "d = l - Suc k" by simp_all
  have "2 ^ Suc k \<le> unat n" using k(1) assms(2) power_increasing [of "Suc k" l "2 :: nat"] by simp
  then have "2 \<le> unat n div 2 ^ k" by (simp add: less_eq_div_iff_mult_less_eq mult.commute)
  then show ?case using Suc.hyps(1) [OF k(2) k(1)] k(1) assms(4) by (subst GetLog2_loop.simps) (simp add: drop_bit_gt_1)
qed

lemma GetLog2_eq:
  assumes "2 \<le> unat n"
  shows "GetLog2 n = Some (ilog2 (unat n))"
proof -
  have b: "2 ^ ilog2 (unat n) \<le> unat n" "unat n < 2 ^ Suc (ilog2 (unat n))" using ilog2_bounds [of "unat n"] assms by auto
  have "unat n < 2 ^ 64" using unsigned_less [of n, where 'a = nat] by simp
  then have "2 ^ ilog2 (unat n) < (2 :: nat) ^ 64" using b(1) by simp
  then have "ilog2 (unat n) < 64" by (rule power_less_imp_less_exp [rotated]) simp
  moreover have "1 \<le> ilog2 (unat n)" using assms by (simp add: ilog2.simps [of "unat n"])
  ultimately show ?thesis unfolding GetLog2_def using b by (intro GetLog2_loop_eq)
qed

lemma push_sizes_eq: "i + n + l \<le> 93 \<Longrightarrow> push_sizes l i n = Some (map (\<lambda>j. 2 ^ (j + l)) [i..<i + n])"
proof (induction n arbitrary: i)
  case (Suc n)
  then show ?case by (simp add: GuaranteedShift_eq upt_conv_Cons del: upt_Suc)
qed simp

text \<open>
  the sizes of the test files. On a device with logical sectors of \<open>2 ^ k\<close> bytes the first
  file-system experiment fills \<open>_fileSizes\<close> with the 23 powers of two from the sector size on, none
  of which wraps around, although \<open>GuaranteedShift\<close> works around 31-bit shifts and \<open>GetLog2\<close> starts
  counting at one.
\<close>

theorem test_file_sizes:
  assumes "1 \<le> k" "k < 32" "sys A ''GetDiskFreeSpace'' [S (''C:'' @ [CHR 0x5C])] w = ((success, 2 ^ k), w')" "success \<noteq> 0"
  shows "\<exists>e. new_FileSystemExperiment A name sw [] w = Some e \<and> map unat (fileSizes e) = map (\<lambda>i. 2 ^ (k + i)) [0..<23]"
proof -
  have k: "unat (2 ^ k :: u32) = 2 ^ k" using assms(2) by (intro unat_pow2) simp
  have "(2 :: nat) ^ 1 \<le> 2 ^ k" using assms(1) by (intro power_increasing) simp_all
  moreover have "unat (ucast (2 ^ k :: u32) :: u64) = 2 ^ k" using k by (simp add: unat_ucast_up)
  ultimately have "GetLog2 (ucast (2 ^ k :: u32)) = Some k" by (simp add: GetLog2_eq)
  moreover have "push_sizes k 0 23 = Some (map (\<lambda>j. 2 ^ (j + k)) [0..<0 + 23])" using assms(2) by (intro push_sizes_eq) simp
  moreover have "map unat (map (\<lambda>j. 2 ^ (j + k) :: u64) [0..<23]) = map (\<lambda>i. 2 ^ (k + i)) [0..<23]"
    using assms(2) by (auto simp: add.commute simp del: upt_rec_numeral intro!: unat_pow2)
  ultimately show ?thesis using assms(3,4)
    by (simp add: new_FileSystemExperiment_def GetLogicalSectorSize_def syscall_def exper.defs NumFileSizes_def
        new_experiment_def Let_def del: upt_rec_numeral)
qed

theorem test_file_sizes_witness:
  "\<exists>e. new_FileSystemExperiment (demo_api\<lparr>sys := \<lambda>name args w. ((1, 512), w)\<rparr>) ''x'' demo_sw [] 0 = Some e \<and>
     map unat (fileSizes e) = map (\<lambda>i. 2 ^ (9 + i)) [0..<23]"
  using test_file_sizes [of 9 "demo_api\<lparr>sys := \<lambda>name args w. ((1, 512), w)\<rparr>" 0 1 0 "''x''" demo_sw] by simp

text \<open>
  the names of the test files. Different sizes have different names, so no two test files
  collide; but the name under which \<open>CreateTestFiles\<close> creates a file is never a name under which the
  experiments open one, because the device path is put in front of it twice.
\<close>

theorem test_file_names:
  assumes "devicePath e = ''C:'' @ [CHR 0x5C] \<or> devicePath e = ''K:'' @ [CHR 0x5C]"
  shows "(GetTestFilenameBySize m (devicePath e) = GetTestFilenameBySize n (devicePath e) \<longleftrightarrow> m = n) \<and>
    created_filename m e \<noteq> GetTestFilenameBySize n (devicePath e)"
proof -
  have "GetTestFilenameBySize m (devicePath e) = GetTestFilenameBySize n (devicePath e) \<longleftrightarrow> m = n"
    using show_base_inj [of "unat m" "unat n"] by (auto simp: GetTestFilenameBySize_def dest: unsigned_word_eqI)
  then show ?thesis using assms by (auto simp: created_filename_def GetTestFilenameBySize_def TestFilenamePrefix_def)
qed

definition demo_fs :: "(nat, int) fs_exper" where
  "demo_fs = exper.extend (new_experiment ''File System Local Reads'' demo_sw 0) \<lparr>devicePath = ''C:'' @ [CHR 0x5C], fileSizes = []\<rparr>"

theorem test_file_names_witness:
  "(GetTestFilenameBySize 512 (devicePath demo_fs) = GetTestFilenameBySize 1024 (devicePath demo_fs) \<longleftrightarrow> (512 :: u64) = 1024) \<and>
   created_filename 512 demo_fs \<noteq> GetTestFilenameBySize 1024 (devicePath demo_fs)"
  by (rule test_file_names) (simp add: demo_fs_def exper.defs)

section \<open>Reading a whole file\<close>

lemma seek_ok:
  assumes "\<And>args w. fst (fst (sys A ''SetFilePointer'' args w)) \<noteq> -1"
  shows "\<exists>e'. seek A h p e = Some e' \<and> only_world e e'"
proof -
  obtain r x e1 where s: "syscall A ''SetFilePointer'' [I h, I p] e = ((r, x), e1)" by (metis prod.exhaust)
  have "r \<noteq> -1" using s assms by (auto simp: syscall_def split: prod.splits) (metis fst_conv)
  then show ?thesis using s only_world_syscallD [OF s] by (simp add: seek_def)
qed

lemma read_turn_ok:
  assumes seeks: "\<And>args w. fst (fst (sys A ''SetFilePointer'' args w)) \<noteq> -1"
    and reads: "\<And>args w. int m \<le> snd (fst (sys A ''ReadFile'' args w))" and "0 < m" and e: "room e" "tag \<noteq> NoTag"
  shows "\<exists>k e'. read_turn A h b tag mode fileSize e = Some (k, e') \<and> m \<le> k \<and> measured tag 1 e e'"
proof -
  obtain ok n e1 where s: "syscall A ''ReadFile'' [I h, I b] (ss_push A tag e) = ((ok, n), e1)" by (metis prod.exhaust)
  have n: "int m \<le> n" using s reads [of "[I h, I b]" "ex_world (ss_push A tag e)"] by (auto simp: syscall_def split: prod.splits)
  have m1: "measured tag 1 e (ss_pop A e1)" using timed_only_world [OF only_world_syscallD [OF s] e] .
  obtain r e2 where r: "rand A (ss_pop A e1) = (r, e2)" by force
  obtain e3 where e3: "seek A h (sint (of_nat (r * 512 mod fileSize mod (2 ^ 32 - 1)) :: 32 word)) e2 = Some e3" "only_world e2 e3"
    using seek_ok [OF seeks] by blast
  have "only_world (ss_pop A e1) e3" using only_world_rand [of "ss_pop A e1" A] r only_world_trans [OF _ e3(2)] by simp
  then have m3: "measured tag 1 e e3" using measured_trans [OF m1 only_world_measured, of e3] by simp
  show ?thesis
  proof (cases mode)
    case SEQUENTIAL
    then show ?thesis using s n \<open>0 < m\<close> m1 by (auto simp: read_turn_def)
  next
    case RANDOM
    then show ?thesis using s n r e3(1) m3 by (auto simp: read_turn_def)
  qed
qed

lemma read_loop_ok:
  assumes seeks: "\<And>args w. fst (fst (sys A ''SetFilePointer'' args w)) \<noteq> -1"
    and reads: "\<And>args w. int m \<le> snd (fst (sys A ''ReadFile'' args w))" and "0 < m" "tag \<noteq> NoTag"
  shows "room e \<Longrightarrow> \<exists>e' n. read_loop A h b tag mode fileSize totalRead e = Some e' \<and> n * m < fileSize - totalRead + m \<and> measured tag n e e'"
proof (induction "fileSize - totalRead" arbitrary: totalRead e rule: less_induct)
  case less
  show ?case
  proof (cases "totalRead < fileSize")
    case True
    obtain k e1 where 1: "read_turn A h b tag mode fileSize e = Some (k, e1)" "m \<le> k" "measured tag 1 e e1"
      using read_turn_ok [OF seeks reads assms(3) less.prems assms(4)] by blast
    have "fileSize - (totalRead + k) < fileSize - totalRead" using True 1(2) assms(3) by simp
    then obtain e2 n where 2: "read_loop A h b tag mode fileSize (totalRead + k) e1 = Some e2"
      "n * m < fileSize - (totalRead + k) + m" "measured tag n e1 e2"
      using less.hyps [of "totalRead + k" e1] measured_room [OF 1(3)] less.prems by blast
    have "Suc n * m < fileSize - totalRead + m"
    proof (cases "totalRead + k < fileSize")
      case False
      then have "n * m < m" using 2(2) by simp
      then have "n = 0" by simp
      then show ?thesis using True by simp
    qed (use 2(2) 1(2) in simp)
    moreover have "read_loop A h b tag mode fileSize totalRead e = Some e2"
      using True 1(1) 2(1) by (subst read_loop.simps) simp
    moreover have "measured tag (Suc n) e e2" using measured_trans [OF 1(3) 2(3)] by simp
    ultimately show ?thesis by blast
  next
    case False
    then show ?thesis using assms(3)
      by (subst read_loop.simps) (intro exI [of _ e] exI [of _ 0], simp add: measured_refl)
  qed
qed



end
