(* ===== verification/MemoryModel.thy ===== *)
theory MemoryModel
  imports ExperimentBase
begin

text \<open>
  The memory experiments of the profiler (\<open>MemoryLatency.cpp\<close>, \<open>MemoryBandwidth.cpp\<close>,
  \<open>MemoryPageFault.cpp\<close>) and the companion program \<open>memSucker.cpp\<close>. A block from \<open>malloc\<close> that the code
  fills is the list of its cells; a pointer into the block is the index of a cell, and reading
  outside the block is \<^term>\<open>None\<close>. Where the code returns early because \<open>malloc\<close> failed, the loops
  stop with the state reached so far.
\<close>

section \<open>Loops that may be left early\<close>

text \<open>The flag says whether the loop goes on.\<close>

fun for_until :: "nat \<Rightarrow> (nat \<Rightarrow> 's \<Rightarrow> (bool \<times> 's) option) \<Rightarrow> nat \<Rightarrow> 's \<Rightarrow> (bool \<times> 's) option" where
  "for_until 0 body j s = Some (True, s)"
| "for_until (Suc n) body j s = do {
     (go, s1) \<leftarrow> body j s;
     if go then for_until n body (Suc j) s1 else Some (False, s1)
   }"

section \<open>Memory latency\<close>

definition new_MemoryLatency :: "'d stopwatch \<Rightarrow> 'w \<Rightarrow> ('w, 'd) exper" where
  "new_MemoryLatency stopwatch w = new_experiment ''Memory Latency Overhead'' stopwatch w"

text \<open>
  The cells of a block of \<open>i\<close> bytes after the initialisation, which stores in each of the \<open>i / 4\<close>
  cells, one after the other, the address of the cell \<open>CacheLineSize\<close> further on.
\<close>

definition pointer_chain :: "nat \<Rightarrow> nat list" where
  "pointer_chain i = map (\<lambda>k. (k + CacheLineSize) mod (i div 4)) [0..<i div 4]"

text \<open>\<open>n\<close> times \<open>explorer = (int**) *explorer\<close>; the source has 5000 groups of 20.\<close>

fun follow :: "nat list \<Rightarrow> nat \<Rightarrow> nat \<Rightarrow> nat option" where
  "follow mem 0 explorer = Some explorer"
| "follow mem (Suc n) explorer = (if explorer < length mem then follow mem n (mem ! explorer) else None)"

definition latency_turn :: "('w, 'd) api \<Rightarrow> tag \<Rightarrow> nat \<Rightarrow> ('w, 'd, 'z) exper_scheme \<Rightarrow> (bool \<times> ('w, 'd, 'z) exper_scheme) option" where
  "latency_turn A tag i e =
     (let ((p, _), e1) = syscall A ''malloc'' [I (int i)] e
      in if p = 0 then Some (False, e1)
         else do {
           let mem = pointer_chain i;
           let e2 = ss_push A tag e1;
           explorer \<leftarrow> follow mem (5000 * 20) 0;
           Some (True, call A ''free'' [I p] (ss_pop A e2))
         })"

definition latency_title :: "nat \<Rightarrow> string" where
  "latency_title i = ''Memory Latency Bytes: '' @ show_int (int i)"

function latency_loop :: "('w, 'd :: linorder) api \<Rightarrow> tag \<Rightarrow> nat \<Rightarrow> ('w, 'd, 'z) exper_scheme \<Rightarrow> ('w, 'd, 'z) exper_scheme option" where
  "latency_loop A tag i e =
     (if i < MaxCacheSize * 4 \<and> 0 < i
      then do {
        let e1 = ss_reset tag e;
        (go, e2) \<leftarrow> for_until 200 (\<lambda>j. latency_turn A tag i) 0 e1;
        if go
        then Option.bind (PushResultMedianAsMicroseconds A (latency_title i) (history tag e2) (minus_overhead e2) e2)
               (latency_loop A tag (i * 2))
        else Some e2
      }
      else Some e)"
  by pat_completeness auto
termination by (relation "measure (\<lambda>(A, tag, i, e). MaxCacheSize * 4 - i)") auto

declare latency_loop.simps [simp del]

definition MemoryLatency_Run :: "('w, 'd :: linorder) api \<Rightarrow> ('w, 'd, 'z) exper_scheme \<Rightarrow> ('w, 'd, 'z) exper_scheme option" where
  "MemoryLatency_Run A e = latency_loop A (Tag ''Memory -- Memory Latency'' 0) CacheLineSize e"

section \<open>Memory bandwidth\<close>

definition new_MemoryBandwidth :: "'d stopwatch \<Rightarrow> 'w \<Rightarrow> ('w, 'd) exper" where
  "new_MemoryBandwidth stopwatch w = new_experiment ''Memory Bandwidth Overhead'' stopwatch w"

definition copy_turn :: "('w, 'd) api \<Rightarrow> tag \<Rightarrow> nat \<Rightarrow> ('w, 'd, 'z) exper_scheme \<Rightarrow> (bool \<times> ('w, 'd, 'z) exper_scheme) option" where
  "copy_turn A tagMemCopy numBytes e =
     (let ((p, _), e1) = syscall A ''malloc'' [I (int numBytes)] e;
          ((q, _), e2) = syscall A ''malloc'' [I (int numBytes)] e1
      in if p = 0 \<or> q = 0 then Some (False, e2)
         else Some (True, call A ''free'' [I q] (call A ''free'' [I p]
                (ss_pop A (call A ''memcpy'' [I q, I p, I (int numBytes)] (ss_push A tagMemCopy e2))))))"

text \<open>The first \<open>n\<close> cells hold their index; reading them all; and the loop that should write them all.\<close>

definition index_cells :: "nat \<Rightarrow> 32 word list" where
  "index_cells n = map of_nat [0..<n]"

fun read_cells :: "32 word list \<Rightarrow> nat \<Rightarrow> nat \<Rightarrow> 32 word \<Rightarrow> 32 word option" where
  "read_cells mem k 0 manipulatedInt = Some manipulatedInt"
| "read_cells mem k (Suc n) manipulatedInt =
     (if k < length mem then read_cells mem (Suc k) n (mem ! k + of_nat k) else None)"

fun write_cells :: "nat \<Rightarrow> nat \<Rightarrow> 32 word list \<Rightarrow> 32 word list option" where
  "write_cells k 0 mem = Some mem"
| "write_cells k (Suc n) mem = (if 0 < length mem then write_cells (Suc k) n (mem[0 := of_nat k + 1]) else None)"

definition read_turn_bw :: "('w, 'd) api \<Rightarrow> tag \<Rightarrow> nat \<Rightarrow> ('w, 'd, 'z) exper_scheme \<Rightarrow> (bool \<times> ('w, 'd, 'z) exper_scheme) option" where
  "read_turn_bw A tagMemRead numBytes e =
     (let ((p, _), e1) = syscall A ''malloc'' [I (int numBytes)] e
      in if p = 0 then Some (False, e1)
         else do {
           let mem = index_cells (numBytes div 4);
           let e2 = ss_push A tagMemRead e1;
           manipulatedInt \<leftarrow> read_cells mem 0 (numBytes div 4) 0;
           Some (True, call A ''free'' [I p] (ss_pop A e2))
         })"

definition write_turn_bw :: "('w, 'd) api \<Rightarrow> tag \<Rightarrow> nat \<Rightarrow> ('w, 'd, 'z) exper_scheme \<Rightarrow> (bool \<times> ('w, 'd, 'z) exper_scheme) option" where
  "write_turn_bw A tagMemWrite numBytes e =
     (let ((p, _), e1) = syscall A ''malloc'' [I (int numBytes)] e
      in if p = 0 then None
         else do {
           let e2 = ss_push A tagMemWrite e1;
           mem \<leftarrow> write_cells 0 (numBytes div 4) (index_cells (numBytes div 4));
           Some (True, call A ''free'' [I p] (ss_pop A e2))
         })"

text \<open>The loop over the sizes runs once, for \<open>i = 1\<close>.\<close>

definition MemoryBandwidth_Run :: "('w, 'd :: linorder) api \<Rightarrow> ('w, 'd, 'z) exper_scheme \<Rightarrow> ('w, 'd, 'z) exper_scheme option" where
  "MemoryBandwidth_Run A e = do {
     let tagMemCopy = Tag ''Memory -- Memory Bandwidth -- Mem Copy'' 0;
     let tagMemRead = Tag ''Memory -- Memory Bandwidth -- Mem Read'' 0;
     let tagMemWrite = Tag ''Memory -- Memory Bandwidth -- Mem Write'' 0;
     let numBytes = MaxCacheSize * 2;
     let wMemoryTitleMemCopy = ''Memory Bandwidth memcpy Bytes: '' @ show_int (int numBytes);
     let wMemoryTitleRead = ''Memory Bandwidth Read Bytes: '' @ show_int (int numBytes);
     (go, e) \<leftarrow> for_until 100 (\<lambda>j. copy_turn A tagMemCopy numBytes) 0 e;
     if \<not> go then Some e
     else do {
       e \<leftarrow> PushResultMedianAsMicroseconds A wMemoryTitleMemCopy (history tagMemCopy e) (minus_overhead e) e;
       (go, e) \<leftarrow> for_until 100 (\<lambda>j. read_turn_bw A tagMemRead numBytes) 0 e;
       if \<not> go then Some e
       else do {
         e \<leftarrow> PushResultMedianAsMicroseconds A wMemoryTitleRead (history tagMemRead e) (minus_overhead e) e;
         (go, e) \<leftarrow> for_until 100 (\<lambda>j. write_turn_bw A tagMemWrite numBytes) 0 e;
         PushResultMedianAsMicroseconds A wMemoryTitleRead (history tagMemWrite e) (minus_overhead e) e
       }
     }
   }"

section \<open>Page faults\<close>

definition new_MemoryPageFault :: "'d stopwatch \<Rightarrow> 'w \<Rightarrow> ('w, 'd) exper" where
  "new_MemoryPageFault stopwatch w = new_experiment ''Memory Page Fault Overhead'' stopwatch w"

text \<open>The offset \<open>(pageNum * pageSize) % oneGibby\<close> in 32 bits, and one store into a block of a gigabyte.\<close>

definition page_offset :: "nat \<Rightarrow> nat" where
  "page_offset pageNum = unat ((of_nat pageNum * 4096 :: u32) mod 2 ^ 30)"

definition touch_page :: "nat \<Rightarrow> (nat \<Rightarrow> 8 word) \<Rightarrow> (nat \<Rightarrow> 8 word)" where
  "touch_page pageNum mem = mem(page_offset pageNum := of_nat (pageNum mod 256))"

definition touch_pages :: "(nat \<Rightarrow> 8 word) \<Rightarrow> (nat \<Rightarrow> 8 word)" where
  "touch_pages mem = fold touch_page [0..<2 ^ 30 div 4096] mem"

fun launch_suckers :: "('w, 'd) api \<Rightarrow> nat \<Rightarrow> ('w, 'd, 'z) exper_scheme \<Rightarrow> (int list \<times> ('w, 'd, 'z) exper_scheme) option" where
  "launch_suckers A 0 e = Some ([], e)"
| "launch_suckers A (Suc n) e =
     (case syscall A ''CreateProcess'' [S ''memSucker.exe'', I 0x20] e of ((ok, hProcess), e1) \<Rightarrow>
        if ok = 0 then None else map_option (\<lambda>(hs, e2). (hProcess # hs, e2)) (launch_suckers A n e1))"

text \<open>The measured statement computes an address and does not use it.\<close>

definition page_fault_turn :: "('w, 'd) api \<Rightarrow> tag \<Rightarrow> nat \<Rightarrow> ('w, 'd, 'z) exper_scheme \<Rightarrow> ('w, 'd, 'z) exper_scheme option" where
  "page_fault_turn A tag r e = for_opt 0 1 (\<lambda>pageNum e.
     let (tv0, e1) = ss_read A e;
         explorer = pageNum * 4096 * r mod 2 ^ 30;
         (tv1, e2) = ss_read A e1
     in do {
       e3 \<leftarrow> ss_pop_value tag tv1 (ss_push_value tag tv0 e2);
       Some (call A ''Sleep'' [I 100] e3)
     }) e"

definition MemoryPageFault_Run :: "('w, 'd :: linorder) api \<Rightarrow> (nat \<Rightarrow> 8 word) \<Rightarrow> ('w, 'd, 'z) exper_scheme \<Rightarrow> ('w, 'd, 'z) exper_scheme option" where
  "MemoryPageFault_Run A junk e = do {
     let tag = Tag ''Memory -- Page Faults'' 0;
     let ((hProcess, _), e) = syscall A ''GetCurrentProcess'' [] e;
     let e = call A ''SetPriorityClass'' [I hProcess, I 0x20] e;
     let ((hThread, _), e) = syscall A ''GetCurrentThread'' [] e;
     let e = call A ''SetThreadAffinityMask'' [I hThread, I 0] e;
     let e = call A ''SetThreadPriority'' [I hThread, I 0] e;
     let ((p, _), e) = syscall A ''malloc'' [I (2 ^ 30)] e;
     mem \<leftarrow> (if p = 0 then None else Some (touch_pages junk));
     (processes, e) \<leftarrow> launch_suckers A 16 e;
     let e = call A ''Sleep'' [I 10000] e;
     e \<leftarrow> for_opt 0 100 (page_fault_turn A tag) e;
     let e = call A ''free'' [I p] e;
     let e = fold (\<lambda>h. call A ''TerminateProcess'' [I h, I 0]) processes e;
     e \<leftarrow> PushResultMedianAsMicroseconds A ''Page Fault Time Median (us)'' (history tag e) (minus_overhead e) e;
     PushResultMaximumAsMicroseconds A ''Page Fault Time Max (us)'' (history tag e) (minus_overhead e) e
   }"

section \<open>\<open>memSucker\<close>\<close>

text \<open>The endless loop, left when the page number is a positive multiple of a gigabyte.\<close>

partial_function (option) sucker_loop :: "nat \<Rightarrow> (nat \<Rightarrow> 8 word) \<Rightarrow> (nat \<Rightarrow> 8 word) option" where
  "sucker_loop pageNum mem =
     (if pageNum mod 2 ^ 30 = 0 \<and> pageNum > 0 then Some (touch_page pageNum mem)
      else if Suc pageNum = 2 ^ 31 then None
      else sucker_loop (Suc pageNum) (touch_page pageNum mem))"

definition memSucker_main :: "bool \<Rightarrow> (nat \<Rightarrow> 8 word) \<Rightarrow> (nat \<Rightarrow> 8 word) option" where
  "memSucker_main mallocSucceeds junk = (if mallocSucceeds then sucker_loop 0 junk else None)"

section \<open>Following the chain of pointers\<close>

lemma length_pointer_chain [simp]: "length (pointer_chain i) = i div 4"
  by (simp add: pointer_chain_def)

lemma follow_chain:
  assumes "x < i div 4"
  shows "follow (pointer_chain i) n x = Some ((x + CacheLineSize * n) mod (i div 4))"
  using assms
proof (induction n arbitrary: x)
  case (Suc n)
  have "(x + CacheLineSize) mod (i div 4) < i div 4" using Suc.prems by simp
  from Suc.IH [OF this] have "follow (pointer_chain i) n ((x + CacheLineSize) mod (i div 4)) =
      Some ((x + CacheLineSize + CacheLineSize * n) mod (i div 4))" by (simp add: mod_add_left_eq)
  moreover have "pointer_chain i ! x = (x + CacheLineSize) mod (i div 4)" using Suc.prems by (simp add: pointer_chain_def)
  ultimately show ?case using Suc.prems by (simp add: add.assoc)
qed simp

text \<open>The times that one block size should give, and the times of a list of sizes.\<close>

fun latency_times :: "('w, 'd) api \<Rightarrow> nat \<Rightarrow> nat \<Rightarrow> 'w \<Rightarrow> tick list \<times> 'w" where
  "latency_times A i 0 w = ([], w)"
| "latency_times A i (Suc n) w =
     (let ((p, _), w1) = sys A ''malloc'' [I (int i)] w; (t0, w2) = clock A w1; (t1, w3) = clock A w2;
          (ds, w') = latency_times A i n (snd (sys A ''free'' [I p] w3))
      in ((t1 - t0) # ds, w'))"

fun latency_ideal :: "('w, 'd) api \<Rightarrow> nat list \<Rightarrow> 'w \<Rightarrow> (nat \<times> tick list) list" where
  "latency_ideal A [] w = []"
| "latency_ideal A (i # is) w =
     (let (ds, w1) = latency_times A i 200 w in (i, ds) # latency_ideal A is w1)"

lemma latency_turn_exact:
  assumes "calls_succeed A" "4 \<le> i" "room e" "tag \<noteq> NoTag"
    and "sys A ''malloc'' [I (int i)] (ex_world e) = ((p, x), w1)" "clock A w1 = (t0, w2)" "clock A w2 = (t1, w3)"
  shows "latency_turn A tag i e = Some (True, e\<lparr>ex_sw := StoreResultWithTag (t1 - t0) tag (ex_sw e),
    ex_world := snd (sys A ''free'' [I p] w3)\<rparr>)"
proof -
  have p: "p \<noteq> 0" using assms(1,5) by (metis calls_succeed_def fst_conv)
  obtain sw1 w2' where q: "Push (clock A) tag (ex_sw e) w1 = (sw1, w2')" by force
  obtain d sw2 w3' where r: "Pop (clock A) sw1 w2' = (d, sw2, w3')" by (metis prod_cases3)
  have pp: "sw2 = StoreResultWithTag (t1 - t0) tag (ex_sw e)" "w3' = w3"
    using push_pop [OF q r _ assms(4)] assms(3,6,7) by (simp_all add: room_def)
  have "0 < i div 4" using assms(2) by (simp add: div_greater_zero_iff)
  then show ?thesis using follow_chain [of 0 i "5000 * 20"] p q r pp assms(5)
    by (simp add: latency_turn_def Let_def syscall_def call_def ss_push_def ss_pop_def split: prod.split)
qed

lemma latency_turns:
  assumes "calls_succeed A" "4 \<le> i" "tag \<noteq> NoTag" "room e" "latency_times A i n (ex_world e) = (ds, w')"
  shows "for_until n (\<lambda>j. latency_turn A tag i) j e = Some (True, e\<lparr>ex_sw := store_all tag ds (ex_sw e), ex_world := w'\<rparr>)"
  using assms(4,5)
proof (induction n arbitrary: j e ds)
  case (Suc n)
  obtain p x w1 t0 w2 t1 w3 where c: "sys A ''malloc'' [I (int i)] (ex_world e) = ((p, x), w1)"
    "clock A w1 = (t0, w2)" "clock A w2 = (t1, w3)" by (metis prod.exhaust)
  let ?e = "e\<lparr>ex_sw := StoreResultWithTag (t1 - t0) tag (ex_sw e), ex_world := snd (sys A ''free'' [I p] w3)\<rparr>"
  obtain es where es: "latency_times A i n (ex_world ?e) = (es, w')" "ds = (t1 - t0) # es"
    using Suc.prems(2) c by (auto simp: Let_def split: prod.splits)
  have "room ?e" using Suc.prems(1) by (simp add: room_def)
  from Suc.IH [OF this es(1)] show ?case
    using latency_turn_exact [OF assms(1,2) Suc.prems(1) assms(3) c] es(2) by simp
qed simp

lemma latency_size:
  assumes "calls_succeed A" "tag \<noteq> NoTag" "room e" "sw_ok (ex_sw e)" "4 \<le> i" "i < MaxCacheSize * 4"
    and "latency_times A i 200 (ex_world e) = (ds, w')"
  shows "\<exists>e3. latency_loop A tag i e = latency_loop A tag (i * 2) e3 \<and> ex_world e3 = w' \<and>
    ex_results e3 = ex_results e @ [(latency_title i, median_us A e (keep_last (sw_tagHistorySize (ex_sw e)) ds))] \<and>
    same_setup e e3 \<and> sw_ok (ex_sw e3)"
proof -
  let ?e1 = "ss_reset tag e"
  define e2 where "e2 = ?e1\<lparr>ex_sw := store_all tag ds (ex_sw ?e1), ex_world := w'\<rparr>"
  define e3 where "e3 = PushResult (latency_title i) (median_us A e (keep_last (sw_tagHistorySize (ex_sw e)) ds)) e2"
  note r = reset_setup [where e = e and tag = tag] reset_ok [OF assms(4), of tag]
  have 1: "room ?e1" "ex_world ?e1 = ex_world e" using same_setup_eqs(1) [OF r(1)] assms(3) by (simp_all add: ss_reset_def)
  have 2: "for_until 200 (\<lambda>j. latency_turn A tag i) 0 ?e1 = Some (True, e2)"
    unfolding e2_def using latency_turns [OF assms(1,5,2) 1(1)] 1(2) assms(7) by simp
  have s: "same_setup e e2" using r(1) by (simp add: e2_def same_setup_def)
  have "history tag e2 = keep_last (sw_tagHistorySize (ex_sw e)) ds"
    using store_all_history [OF r(3), of tag tag ds] reset_history [of tag tag e] same_setup_eqs(5) [OF r(1)]
    by (simp add: e2_def history_def)
  then have "latency_loop A tag i e = latency_loop A tag (i * 2) e3"
    using assms(5,6) 2 report_median_us [OF s] by (subst latency_loop.simps) (simp add: Let_def e3_def)
  then show ?thesis using s r store_all_ok [OF r(3)] by (intro exI [of _ e3]) (simp add: e3_def, simp add: e2_def)
qed

lemma latency_loop_results:
  fixes e :: "('w, 'd :: linorder, 'z) exper_scheme"
  assumes "calls_succeed A" "tag \<noteq> NoTag"
  shows "\<lbrakk>room e; sw_ok (ex_sw e); 2 \<le> k; k + n = 25\<rbrakk> \<Longrightarrow>
    \<exists>e'. latency_loop A tag (2 ^ k) e = Some e' \<and>
      ex_results e' = ex_results e @ map (\<lambda>(i, ds). (latency_title i, median_us A e (keep_last (sw_tagHistorySize (ex_sw e)) ds)))
        (latency_ideal A (map (\<lambda>j. 2 ^ j) [k..<25]) (ex_world e))"
proof (induction n arbitrary: k e)
  case 0
  then have "\<not> (2 ^ k :: nat) < MaxCacheSize * 4" by (simp add: MaxCacheSize_def)
  then show ?case using 0 by (subst latency_loop.simps) simp
next
  case (Suc n)
  have k: "(2 :: nat) ^ k < MaxCacheSize * 4" "(4 :: nat) \<le> 2 ^ k"
  proof -
    have "(2 :: nat) ^ k \<le> 2 ^ 24" using Suc.prems(4) by (intro power_increasing) simp_all
    then show "(2 :: nat) ^ k < MaxCacheSize * 4" by (simp add: MaxCacheSize_def)
    have "(2 :: nat) ^ 2 \<le> 2 ^ k" using Suc.prems(3) by (intro power_increasing) simp_all
    then show "(4 :: nat) \<le> 2 ^ k" by simp
  qed
  obtain ds w' where t: "latency_times A (2 ^ k) 200 (ex_world e) = (ds, w')" by force
  obtain e3 where 3: "latency_loop A tag (2 ^ k) e = latency_loop A tag (2 ^ k * 2) e3" "ex_world e3 = w'"
    "ex_results e3 = ex_results e @ [(latency_title (2 ^ k), median_us A e (keep_last (sw_tagHistorySize (ex_sw e)) ds))]"
    "same_setup e e3" "sw_ok (ex_sw e3)"
    using latency_size [OF assms Suc.prems(1,2) k(2,1) t] by blast
  obtain e' where 4: "latency_loop A tag (2 ^ Suc k) e3 = Some e'"
    "ex_results e' = ex_results e3 @ map (\<lambda>(i, ds). (latency_title i, median_us A e3 (keep_last (sw_tagHistorySize (ex_sw e3)) ds)))
      (latency_ideal A (map (\<lambda>j. 2 ^ j) [Suc k..<25]) (ex_world e3))"
    using Suc.IH [OF _ 3(5), of "Suc k"] Suc.prems same_setup_eqs(1) [OF 3(4)] by auto
  have "latency_loop A tag (2 ^ k) e = Some e'" using 3(1) 4(1) by (simp add: mult.commute)
  moreover have "[k..<25] = k # [Suc k..<25]" using Suc.prems(4) by (simp add: upt_conv_Cons)
  ultimately show ?case using 4(2) 3(2,3) t median_us_setup [OF 3(4)] same_setup_eqs(5) [OF 3(4)] by simp
qed

text \<open>
  the memory-latency experiment. When \<open>malloc\<close> succeeds and the stopwatch has a free place, the
  experiment returns: the chain of pointers never leaves its block, after \<open>n\<close> reads the explorer
  is at cell \<open>64 n\<close> modulo the number of cells (so in blocks of at most 256 bytes it never moves),
  and one result is added for each of the 19 sizes from 64 bytes to 16 megabytes: the median of
  the last of exactly 200 times, each between two clock readings that follow a \<open>malloc\<close> of this
  size and precede the matching \<open>free\<close>; no time of another size has any influence.
\<close>

lemma memory_latency_run:
  assumes "calls_succeed A" "room e" "sw_ok (ex_sw e)"
  shows "\<exists>e'. MemoryLatency_Run A e = Some e' \<and>
    ex_results e' = ex_results e @ map (\<lambda>(i, ds). (latency_title i, median_us A e (keep_last (sw_tagHistorySize (ex_sw e)) ds)))
      (latency_ideal A (map (\<lambda>j. 2 ^ j) [6..<25]) (ex_world e)) \<and>
    (\<forall>i n. 4 \<le> i \<longrightarrow> follow (pointer_chain i) n 0 = Some (64 * n mod (i div 4)))"
proof -
  have c: "CacheLineSize = 2 ^ 6" by (simp add: CacheLineSize_def)
  then have "\<forall>i n. 4 \<le> i \<longrightarrow> follow (pointer_chain i) n 0 = Some (64 * n mod (i div 4))"
    using follow_chain [of 0] by (auto simp: div_greater_zero_iff)
  then show ?thesis using latency_loop_results [OF assms(1) _ assms(2,3), of "Tag ''Memory -- Memory Latency'' 0" 6 19]
    unfolding MemoryLatency_Run_def c by (simp del: upt_rec_numeral)
qed

lemma memory_latency_run_witness:
  "\<exists>e'. MemoryLatency_Run demo_api (new_MemoryLatency demo_sw 0) = Some e' \<and>
    ex_results e' = map (\<lambda>(i, ds). (latency_title i, median_us demo_api (new_MemoryLatency demo_sw 0) (keep_last 1000 ds)))
      (latency_ideal demo_api (map (\<lambda>j. 2 ^ j) [6..<25]) 0) \<and>
    follow (pointer_chain 1024) 6 0 = Some 128"
proof -
  let ?e = "new_MemoryLatency demo_sw (0 :: nat)"
  have "room ?e" "ex_sw ?e = demo_sw" "ex_results ?e = []" "ex_world ?e = 0"
    by (simp_all add: new_MemoryLatency_def room_def)
  with memory_latency_run [of demo_api ?e] obtain e' where "MemoryLatency_Run demo_api ?e = Some e'"
    "ex_results e' = map (\<lambda>(i, ds). (latency_title i, median_us demo_api ?e (keep_last 1000 ds)))
      (latency_ideal demo_api (map (\<lambda>j. 2 ^ j) [6..<25]) 0)"
    "\<forall>i n. 4 \<le> i \<longrightarrow> follow (pointer_chain i) n 0 = Some (64 * n mod (i div 4))" by (auto simp del: upt_rec_numeral)
  then show ?thesis by (intro exI [of _ e']) (simp del: upt_rec_numeral)
qed

section \<open>Only one cell is written\<close>

lemma write_cells_eq: "mem \<noteq> [] \<Longrightarrow> write_cells k n mem = Some (if n = 0 then mem else mem[0 := of_nat (k + n)])"
proof (induction n arbitrary: k mem)
  case (Suc n)
  then show ?case using Suc.IH [of "mem[0 := of_nat k + 1]" "Suc k"] by (auto simp: add.commute)
qed simp

text \<open>
  the write loop of the bandwidth experiment stays on one cell. On a block of \<open>n > 0\<close> cells that
  hold their index, the loop meant to measure writing the block changes the first cell only.
\<close>

theorem bandwidth_writes_one_cell:
  assumes "0 < n"
  shows "write_cells 0 n (index_cells n) = Some (of_nat n # tl (index_cells n))"
proof -
  have "index_cells n = 0 # map of_nat [1..<n]" using assms by (simp add: index_cells_def upt_conv_Cons)
  then show ?thesis using assms write_cells_eq [of "index_cells n" 0 n] by simp
qed

theorem bandwidth_writes_one_cell_witness: "write_cells 0 4 (index_cells 4) = Some [4, 1, 2, 3]"
  using bandwidth_writes_one_cell [of 4] by (simp add: index_cells_def upt_rec)

section \<open>The companion program ends\<close>

lemma page_offset_eq: "page_offset k = k mod 2 ^ 18 * 4096"
proof -
  have "unat ((of_nat k * 4096 :: u32) mod 2 ^ 30) = unat (of_nat k * 4096 :: u32) mod 2 ^ 30"
    by (simp add: unat_mod_distrib)
  also have "unat (of_nat k * 4096 :: u32) = k * 4096 mod 2 ^ 32"
    by (simp add: unat_word_ariths unat_of_nat mod_mult_left_eq)
  also have "k * 4096 mod 2 ^ 32 mod 2 ^ 30 = k * 4096 mod 2 ^ 30" by (intro mod_mod_cancel le_imp_power_dvd) simp
  also have "\<dots> = k mod 2 ^ 18 * 4096" using mult_mod_left [of k "2 ^ 18" 4096] by simp
  finally show ?thesis by (simp add: page_offset_def)
qed

lemma touch_fold:
  "fold touch_page ks mem off =
     (if off mod 4096 = 0 \<and> (\<exists>k \<in> set ks. k mod 2 ^ 18 = off div 4096) then of_nat (off div 4096 mod 256) else mem off)"
proof (induction ks arbitrary: mem)
  case (Cons k ks)
  have "touch_page k mem off =
      (if off mod 4096 = 0 \<and> k mod 2 ^ 18 = off div 4096 then of_nat (off div 4096 mod 256) else mem off)"
  proof -
    have "off = page_offset k \<longleftrightarrow> off mod 4096 = 0 \<and> k mod 2 ^ 18 = off div 4096"
      by (auto simp: page_offset_eq)
    moreover have "k mod 2 ^ 18 mod 256 = k mod 256" by (simp add: mod_mod_cancel)
    ultimately show ?thesis unfolding touch_page_def by auto
  qed
  then show ?case using Cons by auto
qed simp

lemma sucker_loop_eq:
  assumes "0 < pageNum" "pageNum \<le> 2 ^ 30"
  shows "sucker_loop pageNum mem = Some (fold touch_page [pageNum..<Suc (2 ^ 30)] mem)"
  using assms
proof (induction "2 ^ 30 - pageNum" arbitrary: pageNum mem)
  case 0
  then have "pageNum = 2 ^ 30" by simp
  then show ?case by (subst sucker_loop.simps) simp
next
  case (Suc d)
  then have lt: "pageNum < 2 ^ 30" by linarith
  have "d = 2 ^ 30 - Suc pageNum" using Suc.hyps(2) by simp
  then have "sucker_loop (Suc pageNum) (touch_page pageNum mem) = Some (fold touch_page [Suc pageNum..<Suc (2 ^ 30)] (touch_page pageNum mem))"
    using Suc.hyps(1) lt by (simp del: upt_Suc)
  then show ?case using Suc.prems lt by (subst sucker_loop.simps) (simp add: upt_conv_Cons del: upt_Suc)
qed


end
