(* ===== verification/NetworkModel.thy ===== *)
theory NetworkModel
  imports ExperimentBase CommandLine
begin

text \<open>
  The network experiments of the profiler (\<open>NetworkPeakBandwidth.cpp\<close>, \<open>NetworkSetupTeardown.cpp\<close>,
  \<open>NetworkRoundTripTime.cpp\<close>). Sockets belong to the world: \<open>WSASocket\<close> and \<open>WSAAccept\<close> return a
  socket (\<open>-1\<close> is \<open>INVALID_SOCKET\<close>), the other calls return \<open>0\<close> for success; \<open>WSARecv\<close> also delivers the
  number of bytes, and the reply of an echo is read with its status and its round-trip time.
\<close>

section \<open>Sockets\<close>

text \<open>A call that must return \<open>0\<close>, and the creation of a socket.\<close>

definition must_be_0 :: "('w, 'd) api \<Rightarrow> string \<Rightarrow> arg list \<Rightarrow> ('w, 'd, 'z) exper_scheme \<Rightarrow> ('w, 'd, 'z) exper_scheme option" where
  "must_be_0 A name args e = (case syscall A name args e of ((r, _), e1) \<Rightarrow> if r = 0 then Some e1 else None)"

definition new_socket :: "('w, 'd) api \<Rightarrow> string \<Rightarrow> arg list \<Rightarrow> ('w, 'd, 'z) exper_scheme \<Rightarrow> (int \<times> ('w, 'd, 'z) exper_scheme) option" where
  "new_socket A name args e = (case syscall A name args e of ((s, _), e1) \<Rightarrow> if s = -1 then None else Some (s, e1))"

definition InitWinsock :: "('w, 'd) api \<Rightarrow> ('w, 'd, 'z) exper_scheme \<Rightarrow> ('w, 'd, 'z) exper_scheme option" where
  "InitWinsock A e = must_be_0 A ''WSAStartup'' [I 0x202] e"

definition CleanupWinsock :: "('w, 'd) api \<Rightarrow> ('w, 'd, 'z) exper_scheme \<Rightarrow> ('w, 'd, 'z) exper_scheme" where
  "CleanupWinsock A e = call A ''WSACleanup'' [] e"

section \<open>Peak bandwidth\<close>

definition new_NetworkPeakBandwidth :: "'d stopwatch \<Rightarrow> 'w \<Rightarrow> ('w, 'd) exper" where
  "new_NetworkPeakBandwidth stopwatch w = new_experiment ''Network Peak Bandwidth'' stopwatch w"

definition server_command_line :: "int \<Rightarrow> string" where
  "server_command_line numTimesToListen =
     ''Profiler.exe'' @ '' -NetworkBandwidthChildServer'' @ (if numTimesToListen \<ge> 0 then '' '' @ show_int numTimesToListen else [])"

text \<open>The arguments that the child with this command line gets\<close>

definition server_argv :: "int \<Rightarrow> string list" where
  "server_argv n = crt_args (server_command_line n)"

lemma server_argv_eq: "server_argv n = [''Profiler.exe'', ''-NetworkBandwidthChildServer''] @ (if n \<ge> 0 then [show_int n] else [])"
proof -
  have "plain_word ''Profiler.exe''" "plain_word ''-NetworkBandwidthChildServer''" by (code_simp)+
  with crt_scan_steps(1) [of "''Profiler.exe''" "''-NetworkBandwidthChildServer '' @ show_base 10 (nat n)"]
    crt_scan_steps(1) [of "''-NetworkBandwidthChildServer''" "show_base 10 (nat n)"]
    crt_scan_steps(1) [of "''Profiler.exe''" "''-NetworkBandwidthChildServer''"]
  show ?thesis
    by (simp add: server_argv_def crt_args_def server_command_line_def show_int_def crt_scan_steps(2) plain_number)
qed

definition CreateLocalChildServer :: "('w, 'd) api \<Rightarrow> int \<Rightarrow> ('w, 'd, 'z) exper_scheme \<Rightarrow> (int \<times> ('w, 'd, 'z) exper_scheme) option" where
  "CreateLocalChildServer A numTimesToListen e =
     (let e1 = call A ''GetModuleFileName'' [I 0, I 1024] e;
          ((success, hProcess), e2) = syscall A ''CreateProcessW'' [S (server_command_line numTimesToListen)] e1
      in if success = 0 then None else Some (hProcess, e2))"

text \<open>The data: a block of ones that begins with a zero.\<close>

definition data_to_send :: "nat \<Rightarrow> 8 word list" where
  "data_to_send chunkSize = (replicate chunkSize 1)[0 := 0]"

definition send_turn :: "('w, 'd) api \<Rightarrow> int \<Rightarrow> nat \<Rightarrow> nat \<Rightarrow> tag \<Rightarrow> nat \<Rightarrow> ('w, 'd, 'z) exper_scheme \<Rightarrow> ('w, 'd, 'z) exper_scheme option" where
  "send_turn A socket chunkSize numChunks tag r e = do {
     let recordTiming = (r \<ge> numChunks div 4 \<and> r \<le> numChunks * 3 div 4);
     let e = (if recordTiming then ss_push A tag e else e);
     e \<leftarrow> must_be_0 A ''WSASend'' [I socket, I (int chunkSize)] e;
     Some (if recordTiming then ss_pop A e else e)
   }"

definition ConnectAndSend :: "('w, 'd) api \<Rightarrow> u32 \<Rightarrow> nat \<Rightarrow> nat \<Rightarrow> nat \<Rightarrow> tag \<Rightarrow> ('w, 'd, 'z) exper_scheme \<Rightarrow> ('w, 'd, 'z) exper_scheme option" where
  "ConnectAndSend A address port chunkSize numChunks tag e = do {
     (socket, e) \<leftarrow> new_socket A ''WSASocket'' [] e;
     let e = call A ''WSAHtons'' [I (int port)] e;
     e \<leftarrow> must_be_0 A ''WSAConnect'' [I socket, I (uint address), I (int port)] e;
     let ((dataToSend, _), e) = syscall A ''malloc'' [I (int chunkSize)] e;
     e \<leftarrow> (if dataToSend = 0 \<or> chunkSize = 0 then None else Some e);
     e \<leftarrow> for_opt 0 numChunks (send_turn A socket chunkSize numChunks tag) e;
     e \<leftarrow> must_be_0 A ''shutdown'' [I socket, S ''SD_BOTH''] e;
     must_be_0 A ''closesocket'' [I socket] e
   }"

text \<open>The median of the ticks themselves, less the overhead, and the bandwidth.\<close>

definition push_bandwidth :: "('w, 'd) api \<Rightarrow> string \<Rightarrow> nat \<Rightarrow> tag \<Rightarrow> ('w, 'd, 'z) exper_scheme \<Rightarrow> ('w, 'd, 'z) exper_scheme option" where
  "push_bandwidth A name chunkSize tag e = do {
     median \<leftarrow> Median 0 (history tag e) sint;
     let minTransmitTimeAsTicks = (of_int median :: tick) - GetOverheadSimpleAsTicks (ex_sw e);
     Some (PushResult name
       (fp_div (fpo A) (fp_int (fpo A) (int chunkSize)) (TicksToSeconds (fpo A) (ex_sw e) minTransmitTimeAsTicks)) e)
   }"

definition NetworkPeakBandwidth_Run :: "('w, 'd) api \<Rightarrow> ('w, 'd, 'z) exper_scheme \<Rightarrow> ('w, 'd, 'z) exper_scheme option" where
  "NetworkPeakBandwidth_Run A e = do {
     let tagLocal = Tag ''Network - Peak Bandwidth Local'' 0;
     let tagRemote = Tag ''Network - Peak Bandwidth Remote'' 0;
     let chunkSize = 1 * 1024 * 1460;
     e \<leftarrow> InitWinsock A e;
     (_, e) \<leftarrow> CreateLocalChildServer A 1 e;
     e \<leftarrow> ConnectAndSend A LocalMachineAddress 80 chunkSize 500 tagLocal e;
     e \<leftarrow> push_bandwidth A ''Local (bytes/second)'' chunkSize tagLocal e;
     e \<leftarrow> ConnectAndSend A OtherMachineAddress 80 chunkSize 500 tagRemote e;
     e \<leftarrow> push_bandwidth A ''Remote (bytes/second)'' chunkSize tagRemote e;
     Some (CleanupWinsock A e)
   }"

section \<open>The server\<close>

text \<open>\<open>while(0 == WSARecv(...) && bytesRead != 0)\<close>\<close>

partial_function (option) recv_all :: "('w, 'd) api \<Rightarrow> int \<Rightarrow> ('w, 'd, 'z) exper_scheme \<Rightarrow> ('w, 'd, 'z) exper_scheme option" where
  "recv_all A connection e =
     (if fst (fst (syscall A ''WSARecv'' [I connection, I 131072] e)) = 0 \<and> snd (fst (syscall A ''WSARecv'' [I connection, I 131072] e)) \<noteq> 0
      then recv_all A connection (snd (syscall A ''WSARecv'' [I connection, I 131072] e))
      else Some (snd (syscall A ''WSARecv'' [I connection, I 131072] e)))"

definition serve_one :: "('w, 'd) api \<Rightarrow> int \<Rightarrow> ('w, 'd, 'z) exper_scheme \<Rightarrow> ('w, 'd, 'z) exper_scheme option" where
  "serve_one A listener e = do {
     (connection, e) \<leftarrow> new_socket A ''WSAAccept'' [I listener] e;
     e \<leftarrow> recv_all A connection e;
     e \<leftarrow> must_be_0 A ''shutdown'' [I connection, S ''SD_RECEIVE''] e;
     must_be_0 A ''closesocket'' [I connection] e
   }"

partial_function (option) serve_loop :: "('w, 'd) api \<Rightarrow> int \<Rightarrow> int \<Rightarrow> int \<Rightarrow> ('w, 'd, 'z) exper_scheme \<Rightarrow> ('w, 'd, 'z) exper_scheme option" where
  "serve_loop A listener numTimesToListen i e =
     (if i < numTimesToListen \<or> numTimesToListen = -1
      then Option.bind (serve_one A listener e) (serve_loop A listener numTimesToListen (i + 1))
      else Some e)"

definition NPB_times_to_listen :: "string list \<Rightarrow> int option" where
  "NPB_times_to_listen argv =
     (if length argv \<ge> 3
      then let n = (case ParseInteger (argv ! 2) of Some n \<Rightarrow> n | None \<Rightarrow> 0)
           in if n \<ge> 0 \<and> n < 1024 * 1024 then Some n else None
      else Some (-1))"

definition NPB_ChildProcessMain :: "('w, 'd) api \<Rightarrow> string list \<Rightarrow> ('w, 'd, 'z) exper_scheme \<Rightarrow> ('w, 'd, 'z) exper_scheme option" where
  "NPB_ChildProcessMain A argv e = do {
     numTimesToListen \<leftarrow> NPB_times_to_listen argv;
     let ((hThread, _), e) = syscall A ''GetCurrentThread'' [] e;
     let e = call A ''SetThreadAffinityMask'' [I hThread, I 2] e;
     e \<leftarrow> InitWinsock A e;
     (listener, e) \<leftarrow> new_socket A ''WSASocket'' [] e;
     let e = call A ''WSAHtons'' [I 80] e;
     e \<leftarrow> must_be_0 A ''bind'' [I listener, I 80] e;
     let ((listening, _), e) = syscall A ''listen'' [I listener, I 1] e;
     e \<leftarrow> (if listening = -1 then None else Some e);
     e \<leftarrow> serve_loop A listener numTimesToListen 0 e;
     e \<leftarrow> must_be_0 A ''closesocket'' [I listener] e;
     Some (CleanupWinsock A e)
   }"

section \<open>Setup and teardown\<close>

definition new_NetworkSetupTeardown :: "'d stopwatch \<Rightarrow> 'w \<Rightarrow> ('w, 'd) exper" where
  "new_NetworkSetupTeardown stopwatch w = new_experiment ''Network Setup & Teardown'' stopwatch w"

definition ConnectAndDisconnect :: "('w, 'd) api \<Rightarrow> u32 \<Rightarrow> nat \<Rightarrow> tag \<Rightarrow> tag \<Rightarrow> ('w, 'd, 'z) exper_scheme \<Rightarrow> ('w, 'd, 'z) exper_scheme option" where
  "ConnectAndDisconnect A address port tagSetup tagTeardown e = do {
     (socket, e) \<leftarrow> new_socket A ''WSASocket'' [] e;
     let e = call A ''WSAHtons'' [I (int port)] e;
     let ((connectResult, _), e) = syscall A ''WSAConnect'' [I socket, I (uint address), I (int port)] (ss_push A tagSetup e);
     let e = ss_pop A e;
     e \<leftarrow> (if connectResult \<noteq> 0 then None else Some e);
     let ((shutdownResult, _), e) = syscall A ''shutdown'' [I socket, S ''SD_SEND''] (ss_push A tagTeardown e);
     let ((recvResult, bytesReceived), e) = syscall A ''WSARecv'' [I socket, I 1024] e;
     let e = ss_pop A e;
     let ((shutdownResult2, _), e) = syscall A ''shutdown'' [I socket, S ''SD_SEND''] e;
     e \<leftarrow> (if shutdownResult \<noteq> shutdownResult2 then None else Some e);
     e \<leftarrow> (if recvResult \<noteq> 0 \<or> bytesReceived \<noteq> 0 then None else Some e);
     must_be_0 A ''closesocket'' [I socket] e
   }"

text \<open>One of the two halves of \<open>Run\<close>.\<close>

definition setup_half :: "('w, 'd :: linorder) api \<Rightarrow> u32 \<Rightarrow> tag \<Rightarrow> tag \<Rightarrow> string \<Rightarrow> ('w, 'd, 'z) exper_scheme \<Rightarrow> ('w, 'd, 'z) exper_scheme option" where
  "setup_half A address tagSetup tagTeardown name e = do {
     e \<leftarrow> for_opt 0 500 (\<lambda>i e. do {
            e \<leftarrow> ConnectAndDisconnect A address 80 tagSetup tagTeardown e;
            Some (call A ''Sleep'' [I 100] e)
          }) e;
     e \<leftarrow> PushResultMedianAsMicroseconds A (name @ '' Setup (us)'') (history tagSetup e) (minus_overhead e) e;
     PushResultMedianAsMicroseconds A (name @ '' Teardown (us)'') (history tagTeardown e) (minus_overhead e) e
   }"

definition NetworkSetupTeardown_Run :: "('w, 'd :: linorder) api \<Rightarrow> ('w, 'd, 'z) exper_scheme \<Rightarrow> ('w, 'd, 'z) exper_scheme option" where
  "NetworkSetupTeardown_Run A e = do {
     e \<leftarrow> InitWinsock A e;
     (_, e) \<leftarrow> CreateLocalChildServer A 500 e;
     e \<leftarrow> setup_half A LocalMachineAddress (Tag ''Network - Setup Local'' 0) (Tag ''Network - Teardown Local'' 0) ''Local'' e;
     e \<leftarrow> setup_half A OtherMachineAddress (Tag ''Network - Setup Remote'' 0) (Tag ''Network - Teardown Remote'' 0) ''Remote'' e;
     Some (CleanupWinsock A e)
   }"

section \<open>Round-trip time\<close>

record ('w, 'd) round_trip = "('w, 'd) exper" +
  icmpHandle :: int
  icmpRequestBuffer :: string
  icmpResponseBuffer :: int
  icmpResponseBufferSize :: nat

text \<open>\<open>junk\<close> is the uninitialised \<open>_icmpResponseBufferSize\<close>; an \<open>ICMP_ECHO_REPLY\<close> has 28 bytes.\<close>

definition new_NetworkRoundTripTime :: "('w, 'd) api \<Rightarrow> 'd stopwatch \<Rightarrow> nat \<Rightarrow> 'w \<Rightarrow> ('w, 'd) round_trip option" where
  "new_NetworkRoundTripTime A stopwatch junk w =
     (let e = exper.extend (new_experiment ''Network Round Trip Time'' stopwatch w)
            \<lparr>icmpHandle = 0, icmpRequestBuffer = ''Hello, network.'', icmpResponseBuffer = 0, icmpResponseBufferSize = junk\<rparr>;
          ((h, _), e1) = syscall A ''IcmpCreateFile'' [] e
      in if h = -1 then None else Some (e1\<lparr>icmpHandle := h\<rparr>))"

definition delete_NetworkRoundTripTime :: "('w, 'd) api \<Rightarrow> ('w, 'd) round_trip \<Rightarrow> ('w, 'd) round_trip" where
  "delete_NetworkRoundTripTime A e =
     (let e1 = call A ''IcmpCloseHandle'' [I (icmpHandle e)] e
      in if icmpResponseBuffer e1 \<noteq> 0
         then (call A ''free'' [I (icmpResponseBuffer e1)] e1)\<lparr>icmpResponseBuffer := 0\<rparr> else e1)"

definition PerformPing :: "('w, 'd) api \<Rightarrow> tag \<Rightarrow> tag \<Rightarrow> u32 \<Rightarrow> ('w, 'd) round_trip \<Rightarrow> ('w, 'd) round_trip option" where
  "PerformPing A tagForTimed tagForReported destinationAddress e =
     (if icmpResponseBuffer e = 0 then None
      else
        let ((replyCount, _), e1) = syscall A ''IcmpSendEcho2''
              [I (icmpHandle e), I (uint destinationAddress), S (icmpRequestBuffer e), I (int (icmpResponseBufferSize e)), I 1000]
              (ss_push A tagForTimed e);
            e2 = ss_pop A e1
        in if replyCount = 0 then None
           else
             let ((status, roundTripTime), e3) = syscall A ''ICMP_ECHO_REPLY'' [I (icmpResponseBuffer e2)] e2
             in if status \<noteq> 0 then None
                else ss_pop_value tagForReported
                       (MillisecondsToTicks (fpo A) (ex_sw e3) (fp_int (fpo A) roundTripTime))
                       (ss_push_value tagForReported 0 e3))"

definition ping_half :: "('w, 'd :: linorder) api \<Rightarrow> u32 \<Rightarrow> string \<Rightarrow> ('w, 'd) round_trip \<Rightarrow> ('w, 'd) round_trip option" where
  "ping_half A destination name e = do {
     let tagTimed = Tag (''RoundTripTime '' @ name @ '' -- Timed'') 0;
     let tagReported = Tag (''RoundTripTime '' @ name @ '' -- Reported'') 0;
     e \<leftarrow> for_opt 0 500 (\<lambda>i e. do {
            e \<leftarrow> PerformPing A tagTimed tagReported destination e;
            Some (call A ''Sleep'' [I 100] e)
          }) e;
     e \<leftarrow> PushResultMinimumAsMicroseconds A (name @ '' Ping Timed (us)'') (history tagTimed e) (minus_overhead e) e;
     PushResultMinimumAsMicroseconds A (name @ '' Ping Reported (us)'') (history tagReported e) 0 e
   }"

definition NetworkRoundTripTime_Run :: "('w, 'd :: linorder) api \<Rightarrow> ('w, 'd) round_trip \<Rightarrow> ('w, 'd) round_trip option" where
  "NetworkRoundTripTime_Run A e = do {
     let bufferSize = 28 * 2 + (length (icmpRequestBuffer e) + 1) + 8;
     let ((buffer, _), e) = syscall A ''malloc'' [I (int bufferSize)] (e\<lparr>icmpResponseBufferSize := bufferSize\<rparr>);
     let e = e\<lparr>icmpResponseBuffer := buffer\<rparr>;
     e \<leftarrow> ping_half A LocalMachineAddress ''Local'' e;
     e \<leftarrow> ping_half A OtherMachineAddress ''Remote'' e;
     Some ((call A ''free'' [I (icmpResponseBuffer e)] e)\<lparr>icmpResponseBuffer := 0\<rparr>)
   }"

section \<open>How many sends are timed\<close>

text \<open>A world in which the calls for sending succeed.\<close>

definition net_ok :: "('w, 'd) api \<Rightarrow> bool" where
  "net_ok A \<longleftrightarrow> (\<forall>args w. fst (fst (sys A ''WSASocket'' args w)) \<noteq> -1 \<and> fst (fst (sys A ''malloc'' args w)) \<noteq> 0 \<and>
     (\<forall>name \<in> {''WSAConnect'', ''WSASend'', ''shutdown'', ''closesocket''}. fst (fst (sys A name args w)) = 0))"

lemma must_be_0_ok:
  assumes "net_ok A" "name \<in> {''WSAConnect'', ''WSASend'', ''shutdown'', ''closesocket''}"
  shows "\<exists>e'. must_be_0 A name args e = Some e' \<and> only_world e e'"
proof -
  obtain r x e1 where s: "syscall A name args e = ((r, x), e1)" by (metis prod.exhaust)
  have "fst (fst (sys A name args (ex_world e))) = 0" using assms unfolding net_ok_def by blast
  then have "r = 0" using s by (auto simp: syscall_def split: prod.splits)
  then show ?thesis using s only_world_syscallD [OF s] by (simp add: must_be_0_def)
qed

lemma new_socket_ok:
  assumes "net_ok A"
  shows "\<exists>s e'. new_socket A ''WSASocket'' args e = Some (s, e') \<and> only_world e e'"
proof -
  obtain r x e1 where s: "syscall A ''WSASocket'' args e = ((r, x), e1)" by (metis prod.exhaust)
  have "fst (fst (sys A ''WSASocket'' args (ex_world e))) \<noteq> -1" using assms unfolding net_ok_def by blast
  then have "r \<noteq> -1" using s by (auto simp: syscall_def split: prod.splits)
  then show ?thesis using s only_world_syscallD [OF s] by (simp add: new_socket_def)
qed

lemma send_turn_ok:
  assumes "net_ok A" "room e" "tag \<noteq> NoTag"
  shows "\<exists>e'. send_turn A s c n tag r e = Some e' \<and> measured tag (if n div 4 \<le> r \<and> r \<le> n * 3 div 4 then 1 else 0) e e'"
proof (cases "n div 4 \<le> r \<and> r \<le> n * 3 div 4")
  case True
  obtain e1 where "must_be_0 A ''WSASend'' [I s, I (int c)] (ss_push A tag e) = Some e1" "only_world (ss_push A tag e) e1"
    using must_be_0_ok [OF assms(1)] by blast
  then show ?thesis using True timed_only_world [of A tag e e1] assms(2,3) by (simp add: send_turn_def Let_def)
next
  case False
  obtain e1 where 1: "must_be_0 A ''WSASend'' [I s, I (int c)] e = Some e1" "only_world e e1"
    using must_be_0_ok [OF assms(1)] by blast
  have "send_turn A s c n tag r e = Some e1" using False 1(1) unfolding send_turn_def Let_def by auto
  then show ?thesis using False only_world_measured [OF 1(2)] by auto
qed

lemma timed_count:
  assumes "0 < n"
  shows "(\<Sum>r = 0..<n. if n div 4 \<le> r \<and> r \<le> n * 3 div 4 then 1 else 0) = n * 3 div 4 - n div 4 + (1 :: nat)"
proof -
  have le: "n div 4 \<le> n * 3 div 4" by (intro div_le_mono) simp
  have lt: "n * 3 div 4 < n" using assms by (simp add: div_less_iff_less_mult)
  have "(\<Sum>r = 0..<n. if n div 4 \<le> r \<and> r \<le> n * 3 div 4 then 1 else 0) = card {r \<in> {0..<n}. n div 4 \<le> r \<and> r \<le> n * 3 div 4}"
    by (simp add: sum.If_cases Int_def)
  also have "{r \<in> {0..<n}. n div 4 \<le> r \<and> r \<le> n * 3 div 4} = {n div 4..n * 3 div 4}" using lt by auto
  finally show ?thesis using le by (simp add: Suc_diff_le)
qed


definition net_api :: "(nat, int) api" where
  "net_api = demo_api\<lparr>sys := \<lambda>name args w. ((if name = ''malloc'' then 4096 else 0, 0), w + 1)\<rparr>"

lemma net_api_ok: "net_ok net_api"
  by (simp add: net_ok_def net_api_def)


text \<open>
  a failed shutdown goes unnoticed. \<open>ConnectAndDisconnect\<close> compares the result of its first
  \<open>shutdown\<close> with that of a second one instead of \<open>0\<close>: there is a world in which every \<open>shutdown\<close>
  fails and the function returns as if the connection had ended properly.
\<close>

theorem failed_shutdown_unnoticed:
  "\<exists>A :: (nat, int) api. (\<forall>args w. fst (fst (sys A ''shutdown'' args w)) = -1) \<and>
     ConnectAndDisconnect A LocalMachineAddress 80 (Tag ''Network - Setup Local'' 0) (Tag ''Network - Teardown Local'' 0)
       (new_NetworkSetupTeardown demo_sw 0) \<noteq> None"
  by (rule exI [of _ "demo_api\<lparr>sys := \<lambda>name args w. ((if name = ''shutdown'' then -1 else 0, 0), w + 1)\<rparr>"])
    (simp add: ConnectAndDisconnect_def new_socket_def must_be_0_def syscall_def call_def Let_def)

end
