(* ===== verification/ProfilerMain.thy ===== *)
theory ProfilerMain
  imports BasicExperiments ContextSwitch FakeKernelModel FileSystemModel MemoryModel NetworkModel
begin

text \<open>
  The main program of the profiler (\<open>main.cpp\<close>): which part of it runs for which command line, and the
  list of experiments, all of which share one stopwatch and the world. All experiments are made first, then they
  are run one after the other, and the results are printed in the end; what is printed is the list of
  strings that the functions return. The objects of the experiments have different types; in the list they are
  kept as their name and the function that runs them.
\<close>

section \<open>Command lines\<close>

datatype main_action = ContextSwitchChild | NetworkServer | FileSystemChild | PerformExperiments

definition wmain_action :: "string list \<Rightarrow> main_action option" where
  "wmain_action argv =
     (if length argv \<ge> 2
      then if argv ! 1 = ''-ContextSwitchTimeChildProcess'' then Some ContextSwitchChild
           else if argv ! 1 = ''-NetworkBandwidthChildServer'' then Some NetworkServer
           else if argv ! 1 = ''-FileSystemChildProcess'' then Some FileSystemChild
           else None
      else Some PerformExperiments)"

section \<open>The experiments\<close>

type_synonym ('w, 'd) made = "string \<times> ('d stopwatch \<Rightarrow> 'w \<Rightarrow> (string \<times> 'd stopwatch \<times> 'w) option)"

type_synonym ('w, 'd) job = "'d stopwatch \<Rightarrow> 'w \<Rightarrow> (('w, 'd) made \<times> 'd stopwatch \<times> 'w) option"

definition job :: "('w, 'd) api \<Rightarrow> ('d stopwatch \<Rightarrow> 'w \<Rightarrow> ('w, 'd, 'z) exper_scheme option) \<Rightarrow>
    (('w, 'd, 'z) exper_scheme \<Rightarrow> ('w, 'd, 'z) exper_scheme option) \<Rightarrow> ('w, 'd) job" where
  "job A new run sw w = do {
     e \<leftarrow> new sw w;
     Some ((ex_name e, \<lambda>sw w. do {
              e \<leftarrow> run (e\<lparr>ex_sw := sw, ex_world := w\<rparr>);
              Some (ToString A e, ex_sw e, ex_world e)
            }), ex_sw e, ex_world e)
   }"

fun make_jobs :: "('w, 'd) job list \<Rightarrow> 'd stopwatch \<Rightarrow> 'w \<Rightarrow> (('w, 'd) made list \<times> 'd stopwatch \<times> 'w) option" where
  "make_jobs [] sw w = Some ([], sw, w)"
| "make_jobs (j # js) sw w = do {
     (m, sw, w) \<leftarrow> j sw w;
     (ms, sw, w) \<leftarrow> make_jobs js sw w;
     Some (m # ms, sw, w)
   }"

text \<open>The lines printed while the experiments run, and the results to be printed afterwards\<close>

fun run_jobs :: "('w, 'd) made list \<Rightarrow> 'd stopwatch \<Rightarrow> 'w \<Rightarrow> (string list \<times> string list \<times> 'd stopwatch \<times> 'w) option" where
  "run_jobs [] sw w = Some ([], [], sw, w)"
| "run_jobs ((name, run) # ms) sw w = do {
     (out, sw, w) \<leftarrow> run sw w;
     (lines, outs, sw, w) \<leftarrow> run_jobs ms sw w;
     Some ((''Running '' @ [CHR 0x27] @ name @ [CHR 0x27] @ ''...'') # lines, out # outs, sw, w)
   }"

text \<open>
  What the experiments take from outside: addresses of literals, the contents of fresh memory, the
  schedules of threads and children.
\<close>

record surroundings =
  s_addr :: "string \<Rightarrow> 32 word"
  s_junk :: "tick list"
  s_threads_before :: "nat list"
  s_threads_after :: "nat list"
  s_processes_before :: "nat list"
  s_processes_after :: "nat list"
  s_block :: "nat \<Rightarrow> 8 word"
  s_size :: nat

definition set1 :: "('w, 'd :: linorder) api \<Rightarrow> surroundings \<Rightarrow> ('w, 'd) job list" where
  "set1 A s =
     [job A (\<lambda>sw w. Some (new_MeasurementOverhead sw w)) (MeasurementOverhead_Run A),
      job A (\<lambda>sw w. Some (new_ProcedureOverhead sw w)) (ProcedureOverhead_Run A (s_addr s)),
      job A (\<lambda>sw w. Some (new_SystemCallOverhead sw w)) (SystemCallOverhead_Run A),
      job A (\<lambda>sw w. Some (new_TaskCreation sw w)) (TaskCreation_Run A),
      job A (\<lambda>sw w. Some (new_ContextSwitchTime A sw w))
        (ContextSwitchTime_Run A (s_junk s) (s_threads_before s) (s_threads_after s) (s_processes_before s) (s_processes_after s))]"

definition set2 :: "('w, 'd :: linorder) api \<Rightarrow> surroundings \<Rightarrow> ('w, 'd) job list" where
  "set2 A s =
     [job A (\<lambda>sw w. Some (new_MemoryLatency sw w)) (MemoryLatency_Run A),
      job A (\<lambda>sw w. Some (new_MemoryBandwidth sw w)) (MemoryBandwidth_Run A),
      job A (\<lambda>sw w. Some (new_MemoryPageFault sw w)) (MemoryPageFault_Run A (s_block s))]"

definition set3 :: "('w, 'd :: linorder) api \<Rightarrow> surroundings \<Rightarrow> ('w, 'd) job list" where
  "set3 A s =
     [job A (\<lambda>sw w. new_NetworkRoundTripTime A sw (s_size s) w) (NetworkRoundTripTime_Run A),
      job A (\<lambda>sw w. Some (new_NetworkPeakBandwidth sw w)) (NetworkPeakBandwidth_Run A),
      job A (\<lambda>sw w. Some (new_NetworkSetupTeardown sw w)) (NetworkSetupTeardown_Run A)]"

definition set4 :: "('w, 'd :: linorder) api \<Rightarrow> surroundings \<Rightarrow> ('w, 'd) job list" where
  "set4 A s =
     [job A (\<lambda>sw w. new_FileSystemCacheSize A sw [] w) (FileSystemCacheSize_Run A),
      job A (\<lambda>sw w. new_FileSystemLocalRead A sw [] w) (FileSystemLocalRead_Run A),
      job A (\<lambda>sw w. new_FileSystemRemoteRead A sw [] w) (FileSystemRemoteRead_Run A),
      job A (\<lambda>sw w. new_FileSystemContention A sw [] w) (FileSystemContention_Run A)]"

definition setX :: "('w, 'd :: linorder) api \<Rightarrow> surroundings \<Rightarrow> ('w, 'd) job list" where
  "setX A s = [job A (\<lambda>sw w. Some (new_FakeKernel sw w)) (FakeKernel_Run A)]"

text \<open>Every set stands under \<open>if(0)\<close>.\<close>

definition experiment_list :: "('w, 'd :: linorder) api \<Rightarrow> surroundings \<Rightarrow> ('w, 'd) job list" where
  "experiment_list A s =
     concat (map (\<lambda>(enabled, jobs). if enabled then jobs else [])
       [(False, set1 A s), (False, set2 A s), (False, set3 A s), (False, set4 A s), (False, setX A s)])"

definition performExperiments :: "('w, 'd :: linorder) api \<Rightarrow> surroundings \<Rightarrow> u32 \<Rightarrow> 'w \<Rightarrow> (string list \<times> 'd stopwatch \<times> 'w) option" where
  "performExperiments A s mhz w = do {
     ss \<leftarrow> new_stopwatch (fpo A) 100 1000 False mhz;
     (ss, w) \<leftarrow> CalculateOverheadSimple (clock A) ss w;
     (experiments, ss, w) \<leftarrow> make_jobs (experiment_list A s) ss w;
     (lines, outs, ss, w) \<leftarrow> run_jobs experiments ss w;
     Some ([''Calculating Stopwatch overhead...''] @ lines @ [''Printing results...''] @ outs, ss, w)
   }"

definition nothingFancy :: "('w, 'd) api \<Rightarrow> u32 \<Rightarrow> 'w \<Rightarrow> (tick \<times> 'd) option" where
  "nothingFancy A mhz w = do {
     ss \<leftarrow> new_stopwatch (fpo A) 100 10 False mhz;
     let (ss, w) = Push (clock A) NoTag ss w;
     let w = snd (sys A ''Sleep'' [I 1000] (snd (sys A ''MessageBox'' [S ''Testing Windows Message Box'', S ''blah''] w)));
     let (deltaTicks, ss, w) = Pop (clock A) ss w;
     Some (deltaTicks, TicksToSeconds (fpo A) ss deltaTicks)
   }"

section \<open>The main program\<close>

text \<open>The argument \<open>test\<close>, which would print a line, is always false.\<close>

definition configureConsoleForUnicode :: "('w, 'd) api \<Rightarrow> 'w \<Rightarrow> 'w" where
  "configureConsoleForUnicode A w = snd (sys A ''_setmode'' [S ''stdout'', S ''_O_U16TEXT''] w)"

definition welcome_banner :: "string list" where
  "welcome_banner = [[], '' ======================================= '',
     '' __/*/*/*/__ Micro Bench __'' @ [CHR 0x5C, CHR ''*'', CHR 0x5C, CHR ''*'', CHR 0x5C, CHR ''*'', CHR 0x5C] @ ''__ '',
     '' ======================================= '', []]"

definition boost_priority :: "('w, 'd) api \<Rightarrow> 'w \<Rightarrow> 'w" where
  "boost_priority A w =
     (let ((hProcess, _), w) = sys A ''GetCurrentProcess'' [] w;
          w = snd (sys A ''SetPriorityClass'' [I hProcess, S ''REALTIME_PRIORITY_CLASS''] w);
          ((hThread, _), w) = sys A ''GetCurrentThread'' [] w;
          w = snd (sys A ''SetThreadAffinityMask'' [I hThread, I 1] w)
      in snd (sys A ''SetThreadPriority'' [I hThread, S ''THREAD_PRIORITY_TIME_CRITICAL''] w))"

definition waitForEnterToQuit :: "('w, 'd) api \<Rightarrow> 'w \<Rightarrow> string list \<times> 'w" where
  "waitForEnterToQuit A w = ([''Press enter to quit.''], snd (sys A ''wcin.read'' [I 1] w))"

text \<open>
  The process returns with its output, or it is a child of the context-switch experiment and goes on as one
  of its machines. The functions of the other children are static; a record without results carries the world
  through them.
\<close>

datatype 'w main_end = Returned int "string list" 'w | Joins runner "'w machine"

definition wmain :: "('w, 'd :: linorder) api \<Rightarrow> surroundings \<Rightarrow> u32 \<Rightarrow> 'd stopwatch \<Rightarrow> 'w machine \<Rightarrow> string list \<Rightarrow> 'w \<Rightarrow> 'w main_end option" where
  "wmain A s mhz idle shared argv w = do {
     let w = configureConsoleForUnicode A w;
     let out = (if length argv < 2 then welcome_banner else []);
     let w = boost_priority A w;
     action \<leftarrow> wmain_action argv;
     case action of
       ContextSwitchChild \<Rightarrow> (case CST_ChildProcessMain_start A argv (shared\<lparr>m_world := w\<rparr>) of (r, m) \<Rightarrow> Some (Joins r m))
     | NetworkServer \<Rightarrow> do {
         e \<leftarrow> NPB_ChildProcessMain A argv (new_experiment [] idle w);
         Some (Returned 0 out (ex_world e))
       }
     | FileSystemChild \<Rightarrow> do {
         e \<leftarrow> FSC_ChildProcessMain A argv (new_experiment [] idle w);
         Some (Returned 0 out (ex_world e))
       }
     | PerformExperiments \<Rightarrow> do {
         (lines, _, w) \<leftarrow> performExperiments A s mhz w;
         let (prompt, w) = waitForEnterToQuit A w;
         Some (Returned 0 (out @ lines @ prompt) w)
       }
   }"

text \<open>
  As all sets are disabled, the program without arguments only calibrates its stopwatch: what it prints besides
  the welcome message and the prompt are the lines that frame the experiments.
\<close>

lemma wmain_no_experiment:
  assumes "length argv < 2" "new_stopwatch (fpo A) 100 1000 False mhz = Some ss"
    "CalculateOverheadSimple (clock A) ss (boost_priority A (configureConsoleForUnicode A w)) = Some (ss', w')"
  shows "wmain A s mhz idle shared argv w =
    Some (Returned 0 (welcome_banner @ [''Calculating Stopwatch overhead...'', ''Printing results...'', ''Press enter to quit.''])
      (snd (waitForEnterToQuit A w')))"
  using assms by (simp add: wmain_def wmain_action_def performExperiments_def experiment_list_def waitForEnterToQuit_def)

text \<open>An unknown first argument ends the program with an exception.\<close>

lemma wmain_unknown:
  "2 \<le> length argv \<Longrightarrow> argv ! 1 \<notin> {''-ContextSwitchTimeChildProcess'', ''-NetworkBandwidthChildServer'', ''-FileSystemChildProcess''} \<Longrightarrow>
   wmain A s mhz idle shared argv w = None"
  by (simp add: wmain_def wmain_action_def)

text \<open>Every experiment that is made is announced once and has one result, in the order of the list.\<close>

lemma run_jobs_announced:
  "run_jobs ms sw w = Some (lines, outs, sw', w') \<Longrightarrow>
   lines = map (\<lambda>(name, run). ''Running '' @ [CHR 0x27] @ name @ [CHR 0x27] @ ''...'') ms \<and> length outs = length ms"
  by (induction ms sw w arbitrary: lines outs rule: run_jobs.induct) (auto split: bind_splits)

text \<open>
  The child of the context-switch experiment that is started by the parent is, after its set-up, the machine that
  waits for the event under its own number.
\<close>

lemma wmain_child:
  assumes "wmain A s mhz idle shared (child_argv i) w = Some x"
  shows "\<exists>r m. x = Joins r m \<and>
    rc_start (CST_ChildProcessMain A) i (shared\<lparr>m_world := boost_priority A (configureConsoleForUnicode A w)\<rparr>) = (r, m)"
  using assms by (auto simp: wmain_def wmain_action_def child_argv_eq CST_ChildProcessMain_def split: prod.splits)

section \<open>What the parent passes is what the child reads\<close>

text \<open>
  C17: parent and child agree on the command line. The strings that the context-switch experiment, the network
  experiments and the contention experiment pass to \<open>CreateProcessW\<close>, split into arguments as the start-up code of the
  new process does it, lead \<open>wmain\<close> to the matching child, and the child reads back what the parent printed: its own
  number, how many connections to serve (\<open>-1\<close>, for ever, when the parent asks for a negative number), or its number
  and the name of the file, blanks and backslashes included.
\<close>

theorem child_arguments_roundtrip:
  assumes "i < 2 ^ 31" "n < 1024 * 1024" "quote_char \<notin> set f" "f \<noteq> [] \<longrightarrow> last f \<noteq> backslash"
  shows "wmain_action (crt_args (child_command_line i)) = Some ContextSwitchChild \<and>
    ParseInteger (crt_args (child_command_line i) ! 2) = Some (int i) \<and>
    wmain_action (crt_args (server_command_line n)) = Some NetworkServer \<and>
    NPB_times_to_listen (crt_args (server_command_line n)) = Some (max n (-1)) \<and>
    wmain_action (crt_args (contention_command_line i f)) = Some FileSystemChild \<and>
    ParseInteger (crt_args (contention_command_line i f) ! 2) = Some (int i) \<and> crt_args (contention_command_line i f) ! 3 = f"
proof -
  have "ParseInteger (show_int (int i)) = Some (int i)"
    unfolding ParseInteger_def using assms(1) by (intro extract_show_int) simp_all
  moreover have "ParseInteger (show_int n) = Some n" if "0 \<le> n"
    unfolding ParseInteger_def using assms(2) that by (intro extract_show_int) simp_all
  ultimately show ?thesis using assms(2) contention_argv [OF assms(3,4), of i]
    unfolding child_argv_def [symmetric] server_argv_def [symmetric] child_argv_eq server_argv_eq
    by (auto simp: wmain_action_def NPB_times_to_listen_def)
qed

theorem child_arguments_roundtrip_witness:
  "ParseInteger (crt_args (child_command_line 639) ! 2) = Some 639 \<and>
    NPB_times_to_listen (crt_args (server_command_line 500)) = Some 500 \<and>
    crt_args (contention_command_line 7 (''E:'' @ [backslash] @ ''test file'')) ! 3 = ''E:'' @ [backslash] @ ''test file''"
  using child_arguments_roundtrip [of 639 500 "''E:'' @ [backslash] @ ''test file''"]
    child_arguments_roundtrip [of 7 500 "''E:'' @ [backslash] @ ''test file''"] by simp

end
