(* ===== verification/MemSim.thy ===== *)
theory MemSim
  imports Prelude
begin

text \<open>
  The data that the components of the cache simulator exchange
  (\<open>src/cse240a/project/cse240a-proj1/mem-sim.h\<close>): the CPU states and the memory request.
\<close>

datatype cpuState = IDLE | READY | WAITING | STALLED_L2 | STALLED_WB

record Request =
  addr :: u32
  pc :: u32
  load :: bool
  fromCPU :: bool
  issuedAt :: u32
  HitL1 :: bool
  HitL2 :: bool

text \<open>A request whose storage is all zero bytes, as \<open>calloc\<close> leaves the entries of a queue.\<close>

definition zero_request :: Request where
  "zero_request = \<lparr>addr = 0, pc = 0, load = False, fromCPU = False, issuedAt = 0,
     HitL1 = False, HitL2 = False\<rparr>"

text \<open>The requests a CPU load leaves in the L2 and memory queues.\<close>

abbreviation cpu_load :: "Request \<Rightarrow> bool" where
  "cpu_load r \<equiv> fromCPU r \<and> load r"

end
