(* ===== verification/CacheModel.thy ===== *)
theory CacheModel
  imports MemSim
begin

text \<open>
  The set-associative cache of \<open>cache.C\<close>. A cache is the record of the object's fields, with
  the four two-dimensional arrays as lists of rows. \<open>access\<close> works on one row (one set) of
  the arrays; the model splits the body at the computation of index and tag and passes the row.
  The value \<open>rand()\<close> would return is an argument. \<^term>\<open>None\<close> stands for
  undefined behaviour: a shift by 32 or more, the logarithm of zero, a row out of range,
  \<open>rand() % 0\<close>. The LRU numbers are C \<open>int\<close>s that only grow from 0 by increments; as
  \<open>nat\<close>s they are exact as long as they do not overflow, which \<open>row_inv\<close> below rules out
  (they stay below the associativity).
\<close>

section \<open>State\<close>

record cache =
  tags :: "u32 list list"
  valid :: "bool list list"
  dirty :: "bool list list"
  lru :: "nat list list"
  blockSize :: u32
  assoc :: nat
  numSets :: u32
  randReplacement :: bool
  writeAlloc :: bool
  writeThrough :: bool

text \<open>One row of the four arrays: the ways of one set.\<close>

record cset =
  row_tags :: "u32 list"
  row_valid :: "bool list"
  row_dirty :: "bool list"
  row_lru :: "nat list"

definition get_row :: "cache \<Rightarrow> nat \<Rightarrow> cset" where
  "get_row c index = \<lparr>row_tags = tags c ! index, row_valid = valid c ! index,
     row_dirty = dirty c ! index, row_lru = lru c ! index\<rparr>"

definition put_row :: "cache \<Rightarrow> nat \<Rightarrow> cset \<Rightarrow> cache" where
  "put_row c index r = c\<lparr>tags := (tags c)[index := row_tags r],
     valid := (valid c)[index := row_valid r],
     dirty := (dirty c)[index := row_dirty r],
     lru := (lru c)[index := row_lru r]\<rparr>"

section \<open>Operations\<close>

text \<open>The body of the inner loop of \<open>reset\<close> writes every element of the arrays.\<close>

definition reset :: "cache \<Rightarrow> cache" where
  "reset c = for_loop (unat (numSets c)) (\<lambda>i. for_loop (assoc c) (\<lambda>j c.
     c\<lparr>tags := (tags c)[i := (tags c ! i)[j := 0]],
       lru := (lru c)[i := (lru c ! i)[j := 0]],
       dirty := (dirty c)[i := (dirty c ! i)[j := False]],
       valid := (valid c)[i := (valid c ! i)[j := False]]\<rparr>)) c"

text \<open>
  The constructor: \<open>malloc\<close> leaves the contents of the arrays unspecified, so they are
  arguments, and \<open>reset\<close> initialises them.
\<close>

definition new_cache :: "(nat \<Rightarrow> nat \<Rightarrow> u32) \<Rightarrow> (nat \<Rightarrow> nat \<Rightarrow> nat) \<Rightarrow> (nat \<Rightarrow> nat \<Rightarrow> bool) \<Rightarrow>
    u32 \<Rightarrow> u32 \<Rightarrow> u32 \<Rightarrow> bool \<Rightarrow> bool \<Rightarrow> bool \<Rightarrow> cache" where
  "new_cache junkW junkN junkB numSets' assoc' blockSize' randRep writeAlloc' writeThrough' =
     reset \<lparr>tags = map (\<lambda>i. map (junkW i) [0..<unat assoc']) [0..<unat numSets'],
       valid = map (\<lambda>i. map (junkB i) [0..<unat assoc']) [0..<unat numSets'],
       dirty = map (\<lambda>i. map (junkB i) [0..<unat assoc']) [0..<unat numSets'],
       lru = map (\<lambda>i. map (junkN i) [0..<unat assoc']) [0..<unat numSets'],
       blockSize = blockSize', assoc = unat assoc', numSets = numSets',
       randReplacement = randRep, writeAlloc = writeAlloc', writeThrough = writeThrough'\<rparr>"

definition getTag :: "cache \<Rightarrow> u32 \<Rightarrow> u32 option" where
  "getTag c a = do {
     b \<leftarrow> log2_int (blockSize c);
     s \<leftarrow> log2_int (numSets c);
     shr32 a (b + s)
   }"

definition getIndex :: "cache \<Rightarrow> u32 \<Rightarrow> u32 option" where
  "getIndex c a = do {
     b \<leftarrow> log2_int (blockSize c);
     s \<leftarrow> log2_int (numSets c);
     x \<leftarrow> shr32 a b;
     y \<leftarrow> shl32 x (32 - s);
     shr32 y (32 - s)
   }"

text \<open>The search of both \<open>check\<close> and \<open>access\<close>: the first valid way that holds the tag.\<close>

definition find_way :: "nat \<Rightarrow> u32 \<Rightarrow> cset \<Rightarrow> nat option" where
  "find_way n tag r = find_first (\<lambda>i. tag = row_tags r ! i \<and> row_valid r ! i) n"

definition check :: "cache \<Rightarrow> u32 \<Rightarrow> bool \<Rightarrow> bool option" where
  "check c a ld = do {
     index \<leftarrow> getIndex c a;
     tag \<leftarrow> getTag c a;
     if unat index < unat (numSets c)
     then Some (find_way (assoc c) tag (get_row c (unat index)) \<noteq> None)
     else None
   }"

text \<open>A hit at way \<open>i\<close>: the dirty bit of a store, then the LRU numbers.\<close>

definition hit_row :: "nat \<Rightarrow> bool \<Rightarrow> bool \<Rightarrow> nat \<Rightarrow> cset \<Rightarrow> cset" where
  "hit_row n randRep ld i r =
     (let r1 = (if \<not> ld then r\<lparr>row_dirty := (row_dirty r)[i := True]\<rparr> else r)
      in if n > 1 \<and> \<not> randRep
         then (let r2 = for_loop n (\<lambda>j r. if row_lru r ! j < row_lru r ! i \<and> row_valid r ! j
                   then r\<lparr>row_lru := (row_lru r)[j := row_lru r ! j + 1]\<rparr> else r) r1
               in r2\<lparr>row_lru := (row_lru r2)[i := 0]\<rparr>)
         else r1)"

text \<open>A miss that finds the open spot \<open>i\<close>.\<close>

definition fill_row :: "nat \<Rightarrow> bool \<Rightarrow> bool \<Rightarrow> u32 \<Rightarrow> nat \<Rightarrow> cset \<Rightarrow> cset" where
  "fill_row n randRep ld tag i r =
     (let r1 = r\<lparr>row_tags := (row_tags r)[i := tag], row_valid := (row_valid r)[i := True]\<rparr>;
          r2 = (if \<not> ld then r1\<lparr>row_dirty := (row_dirty r1)[i := True]\<rparr> else r1)
      in if n > 1 \<and> \<not> randRep
         then (let r3 = for_loop n (\<lambda>j r. if row_valid r ! j
                   then r\<lparr>row_lru := (row_lru r)[j := row_lru r ! j + 1]\<rparr> else r) r2
               in r3\<lparr>row_lru := (row_lru r3)[i := 0]\<rparr>)
         else r2)"

text \<open>The new block overwrites way \<open>i\<close>; its dirty bit is set exactly for a store.\<close>

definition replace_way :: "bool \<Rightarrow> u32 \<Rightarrow> nat \<Rightarrow> cset \<Rightarrow> cset" where
  "replace_way ld tag i r = r\<lparr>row_tags := (row_tags r)[i := tag],
     row_valid := (row_valid r)[i := True], row_dirty := (row_dirty r)[i := \<not> ld]\<rparr>"

definition evict_step :: "nat \<Rightarrow> bool \<Rightarrow> u32 \<Rightarrow> nat \<Rightarrow> cset \<Rightarrow> cset" where
  "evict_step n ld tag i r =
     (let r1 = r\<lparr>row_lru := (row_lru r)[i := row_lru r ! i + 1]\<rparr>
      in if row_lru r1 ! i = n
         then (replace_way ld tag i r1)\<lparr>row_lru := (row_lru r1)[i := 0]\<rparr>
         else r1)"

text \<open>A miss in a full set: direct mapped, random replacement, or LRU replacement.\<close>

definition evict_row :: "nat \<Rightarrow> bool \<Rightarrow> nat \<Rightarrow> bool \<Rightarrow> u32 \<Rightarrow> cset \<Rightarrow> cset" where
  "evict_row n randRep rnd ld tag r =
     (if n = 1 then replace_way ld tag 0 r
      else if randRep then replace_way ld tag (rnd mod n) r
      else for_loop n (evict_step n ld tag) r)"

definition access_row :: "nat \<Rightarrow> bool \<Rightarrow> bool \<Rightarrow> nat \<Rightarrow> u32 \<Rightarrow> bool \<Rightarrow> cset \<Rightarrow> bool \<times> cset" where
  "access_row n randRep wa rnd tag ld r =
     (case find_way n tag r of
        Some i \<Rightarrow> (True, hit_row n randRep ld i r)
      | None \<Rightarrow>
          (False,
           if ld \<or> wa
           then (case find_first (\<lambda>i. \<not> row_valid r ! i) n of
                   Some i \<Rightarrow> fill_row n randRep ld tag i r
                 | None \<Rightarrow> evict_row n randRep rnd ld tag r)
           else r))"

definition cache_access :: "cache \<Rightarrow> nat \<Rightarrow> u32 \<Rightarrow> bool \<Rightarrow> (bool \<times> cache) option" where
  "cache_access c rnd a ld = do {
     index0 \<leftarrow> getIndex c a;
     tag \<leftarrow> getTag c a;
     let index = (if numSets c = 1 then 0 else unat index0);
     if index < unat (numSets c) \<and> \<not> (randReplacement c \<and> assoc c = 0 \<and> (ld \<or> writeAlloc c))
     then (case access_row (assoc c) (randReplacement c) (writeAlloc c) rnd tag ld (get_row c index) of
             (isHit, r) \<Rightarrow> Some (isHit, put_row c index r))
     else None
   }"


section \<open>LRU replacement: the invariant of a set\<close>

text \<open>
  \<open>row_inv n k r\<close>: the row has \<open>n\<close> ways, the first \<open>k\<close> of them are valid, the tags of the
  valid ways are distinct, their LRU numbers are the numbers below \<open>k\<close>, each once, and an
  invalid way is clean.
\<close>

definition row_inv :: "nat \<Rightarrow> nat \<Rightarrow> cset \<Rightarrow> bool" where
  "row_inv n k r \<longleftrightarrow>
     length (row_tags r) = n \<and> length (row_valid r) = n \<and>
     length (row_dirty r) = n \<and> length (row_lru r) = n \<and> k \<le> n \<and>
     (\<forall>i < n. row_valid r ! i = (i < k)) \<and>
     (\<forall>i < n. k \<le> i \<longrightarrow> \<not> row_dirty r ! i \<and> row_lru r ! i = 0) \<and>
     (\<forall>i < k. row_lru r ! i < k) \<and>
     (\<forall>i < k. \<forall>j < k. row_lru r ! i = row_lru r ! j \<longrightarrow> i = j) \<and>
     (\<forall>i < k. \<forall>j < k. row_tags r ! i = row_tags r ! j \<longrightarrow> i = j)"

lemma row_invI [case_names tags valid dirty lru le is_valid clean old bound lru_inj tags_inj]:
  assumes "length (row_tags r) = n" "length (row_valid r) = n"
    "length (row_dirty r) = n" "length (row_lru r) = n" "k \<le> n"
    and "\<And>i. i < n \<Longrightarrow> row_valid r ! i = (i < k)"
    and "\<And>i. k \<le> i \<Longrightarrow> i < n \<Longrightarrow> \<not> row_dirty r ! i"
    and "\<And>i. k \<le> i \<Longrightarrow> i < n \<Longrightarrow> row_lru r ! i = 0"
    and "\<And>i. i < k \<Longrightarrow> row_lru r ! i < k"
    and "\<And>i j. i < k \<Longrightarrow> j < k \<Longrightarrow> row_lru r ! i = row_lru r ! j \<Longrightarrow> i = j"
    and "\<And>i j. i < k \<Longrightarrow> j < k \<Longrightarrow> row_tags r ! i = row_tags r ! j \<Longrightarrow> i = j"
  shows "row_inv n k r"
  unfolding row_inv_def using assms by blast

lemma row_inv_lengths:
  assumes "row_inv n k r"
  shows "length (row_tags r) = n" "length (row_valid r) = n"
    "length (row_dirty r) = n" "length (row_lru r) = n" "k \<le> n"
  using assms by (simp_all add: row_inv_def)

lemma row_inv_valid: "row_inv n k r \<Longrightarrow> i < n \<Longrightarrow> row_valid r ! i = (i < k)"
  by (simp add: row_inv_def)

lemma row_inv_clean: "row_inv n k r \<Longrightarrow> k \<le> i \<Longrightarrow> i < n \<Longrightarrow> \<not> row_dirty r ! i \<and> row_lru r ! i = 0"
  by (simp add: row_inv_def)

lemma row_inv_lru_less: "row_inv n k r \<Longrightarrow> i < k \<Longrightarrow> row_lru r ! i < k"
  by (simp add: row_inv_def)

lemma row_inv_lru_inj:
  "row_inv n k r \<Longrightarrow> i < k \<Longrightarrow> j < k \<Longrightarrow> row_lru r ! i = row_lru r ! j \<Longrightarrow> i = j"
  unfolding row_inv_def by blast

lemma row_inv_tags_inj:
  "row_inv n k r \<Longrightarrow> i < k \<Longrightarrow> j < k \<Longrightarrow> row_tags r ! i = row_tags r ! j \<Longrightarrow> i = j"
  unfolding row_inv_def by blast

text \<open>The number of valid ways, and the invariant with that number.\<close>

definition nvalid :: "cset \<Rightarrow> nat" where
  "nvalid r = length (filter id (row_valid r))"

definition row_ok :: "nat \<Rightarrow> cset \<Rightarrow> bool" where
  "row_ok n r \<longleftrightarrow> row_inv n (nvalid r) r"

lemma row_inv_nvalid:
  assumes "row_inv n k r"
  shows "nvalid r = k"
proof -
  from assms have len: "length (row_valid r) = n" and k: "k \<le> n"
    and v: "\<And>i. i < n \<Longrightarrow> row_valid r ! i = (i < k)"
    by (simp_all add: row_inv_lengths row_inv_valid)
  have "row_valid r = replicate k True @ replicate (n - k) False"
    by (rule nth_equalityI) (use len k v in \<open>auto simp: nth_append\<close>)
  then show ?thesis by (simp add: nvalid_def)
qed

lemma row_inv_ok: "row_inv n k r \<Longrightarrow> row_ok n r"
  by (simp add: row_ok_def row_inv_nvalid)

lemma row_inv_lru_surj:
  assumes "row_inv n k r" and "p < k"
  shows "\<exists>i < k. row_lru r ! i = p"
proof -
  let ?f = "\<lambda>i. row_lru r ! i"
  have "inj_on ?f {..<k}" and "?f ` {..<k} \<subseteq> {..<k}"
    using row_inv_lru_inj [OF assms(1)] row_inv_lru_less [OF assms(1)]
    by (auto simp: inj_on_def)
  then have "?f ` {..<k} = {..<k}"
    by (intro endo_inj_surj) simp_all
  with assms(2) show ?thesis by (metis imageE lessThan_iff)
qed

section \<open>LRU replacement: the abstract set\<close>

text \<open>
  The abstract contents of a set: the pairs of tag and dirty bit of the valid ways, most
  recently used first. \<open>lru_access\<close> is what an LRU set of capacity \<open>n\<close> promises: a hit moves
  the block to the front, a miss that allocates puts the new block there and drops the block
  at the end when the set was full, a store marks its block dirty.
\<close>

definition recency :: "cset \<Rightarrow> (u32 \<times> bool) list" where
  "recency r = map (\<lambda>p. case find_first (\<lambda>i. row_lru r ! i = p) (nvalid r) of
       Some i \<Rightarrow> (row_tags r ! i, row_dirty r ! i)
     | None \<Rightarrow> (0, False)) [0..<nvalid r]"

definition lru_access :: "nat \<Rightarrow> bool \<Rightarrow> u32 \<Rightarrow> bool \<Rightarrow> (u32 \<times> bool) list \<Rightarrow> bool \<times> (u32 \<times> bool) list" where
  "lru_access n wa tag ld xs =
     (case map_of xs tag of
        Some d \<Rightarrow> (True, (tag, d \<or> \<not> ld) # filter (\<lambda>x. fst x \<noteq> tag) xs)
      | None \<Rightarrow> (False, if ld \<or> wa then take n ((tag, \<not> ld) # xs) else xs))"

lemma recency_unique:
  assumes inv: "row_inv n k r" and len: "length ys = k"
    and ys: "\<And>i. i < k \<Longrightarrow> ys ! (row_lru r ! i) = (row_tags r ! i, row_dirty r ! i)"
  shows "recency r = ys"
proof (rule nth_equalityI)
  show "length (recency r) = length ys"
    using inv len by (simp add: recency_def row_inv_nvalid)
next
  fix p assume "p < length (recency r)"
  then have p: "p < k" using inv by (simp add: recency_def row_inv_nvalid)
  then obtain i0 where "i0 < k" "row_lru r ! i0 = p" using row_inv_lru_surj [OF inv] by blast
  then obtain i where i: "find_first (\<lambda>i. row_lru r ! i = p) k = Some i" "i < k" "row_lru r ! i = p"
    by (auto elim: find_first_ex [of i0 k "\<lambda>i. row_lru r ! i = p"])
  then have "ys ! p = (row_tags r ! i, row_dirty r ! i)" using ys [of i] by simp
  then show "recency r ! p = ys ! p"
    using p i inv by (simp add: recency_def row_inv_nvalid)
qed

lemma recency_nth:
  assumes inv: "row_inv n k r" and i: "i < k"
  shows "recency r ! (row_lru r ! i) = (row_tags r ! i, row_dirty r ! i)"
proof -
  let ?p = "row_lru r ! i"
  have p: "?p < k" using inv i by (rule row_inv_lru_less)
  obtain j where j: "find_first (\<lambda>j. row_lru r ! j = ?p) k = Some j" "j < k" "row_lru r ! j = ?p"
    using i by (auto elim: find_first_ex [of i k "\<lambda>j. row_lru r ! j = ?p"])
  then have "j = i" using row_inv_lru_inj [OF inv] i by blast
  with p j inv show ?thesis by (simp add: recency_def row_inv_nvalid)
qed

lemma length_recency: "row_inv n k r \<Longrightarrow> length (recency r) = k"
  by (simp add: recency_def row_inv_nvalid)

lemma recency_mem:
  assumes "row_inv n k r" and "x \<in> set (recency r)"
  obtains i where "i < k" "x = (row_tags r ! i, row_dirty r ! i)"
proof -
  from assms(2) obtain p where p: "p < k" "recency r ! p = x"
    by (auto simp: in_set_conv_nth length_recency [OF assms(1)])
  then obtain i where "i < k" "row_lru r ! i = p" using row_inv_lru_surj [OF assms(1)] by blast
  with p that recency_nth [OF assms(1)] show ?thesis by auto
qed

lemma distinct_recency:
  assumes inv: "row_inv n k r"
  shows "distinct (map fst (recency r))"
proof (clarsimp simp: distinct_conv_nth length_recency [OF inv])
  fix p q assume pq: "p < k" "q < k" "p \<noteq> q" "fst (recency r ! p) = fst (recency r ! q)"
  obtain i where i: "i < k" "row_lru r ! i = p" using row_inv_lru_surj [OF inv pq(1)] by blast
  obtain j where j: "j < k" "row_lru r ! j = q" using row_inv_lru_surj [OF inv pq(2)] by blast
  from pq(4) i j have "row_tags r ! i = row_tags r ! j"
    using recency_nth [OF inv i(1)] recency_nth [OF inv j(1)] by simp
  then have "i = j" using row_inv_tags_inj [OF inv i(1) j(1)] by simp
  with i j pq(3) show False by simp
qed

lemma find_way_SomeD:
  assumes "row_inv n k r" and "find_way n tag r = Some i"
  shows "i < k" "i < n" "row_tags r ! i = tag"
  using find_first_SomeD [OF assms(2) [unfolded find_way_def]] row_inv_valid [OF assms(1), of i]
  by auto

lemma find_way_None_iff:
  assumes inv: "row_inv n k r"
  shows "find_way n tag r = None \<longleftrightarrow> (\<forall>i < k. row_tags r ! i \<noteq> tag)"
proof -
  have "i < k \<Longrightarrow> i < n" for i using row_inv_lengths(5) [OF inv] by simp
  then show ?thesis
    using row_inv_valid [OF inv] by (fastforce simp: find_way_def find_first_None)
qed

lemma map_of_recency_Some:
  assumes inv: "row_inv n k r" and f: "find_way n tag r = Some i"
  shows "map_of (recency r) tag = Some (row_dirty r ! i)"
proof -
  note i = find_way_SomeD [OF inv f]
  have "row_lru r ! i < length (recency r)"
    using row_inv_lru_less [OF inv i(1)] by (simp add: length_recency [OF inv])
  then have "recency r ! (row_lru r ! i) \<in> set (recency r)" by (rule nth_mem)
  with recency_nth [OF inv i(1)] i(3) have "(tag, row_dirty r ! i) \<in> set (recency r)" by simp
  then show ?thesis using distinct_recency [OF inv] by simp
qed

lemma map_of_recency_None:
  assumes inv: "row_inv n k r"
  shows "find_way n tag r = None \<longleftrightarrow> map_of (recency r) tag = None"
proof
  assume "find_way n tag r = None"
  then show "map_of (recency r) tag = None"
    using inv by (fastforce simp: find_way_None_iff map_of_eq_None_iff elim: recency_mem)
next
  assume "map_of (recency r) tag = None"
  then show "find_way n tag r = None"
    using map_of_recency_Some [OF inv, of tag] by (cases "find_way n tag r") auto
qed

lemma filter_drop_nth:
  assumes "distinct (map fst xs)" and "p < length xs"
  shows "filter (\<lambda>x. fst x \<noteq> fst (xs ! p)) xs = take p xs @ drop (Suc p) xs"
proof -
  have xs: "xs = take p xs @ xs ! p # drop (Suc p) xs"
    using assms(2) by (simp add: id_take_nth_drop)
  let ?P = "\<lambda>x. fst x \<noteq> fst (xs ! p)"
  have "distinct (map fst (take p xs @ xs ! p # drop (Suc p) xs))"
    using assms(1) xs by metis
  then have "\<forall>x \<in> set (take p xs). ?P x" "\<forall>x \<in> set (drop (Suc p) xs). ?P x"
    by (auto simp: image_iff)
  then have "filter ?P (take p xs @ xs ! p # drop (Suc p) xs) = take p xs @ drop (Suc p) xs"
    by (simp add: filter_id_conv)
  then show ?thesis using xs by metis
qed

subsection \<open>A hit\<close>

lemma hit_loop:
  assumes "m \<le> n" "length (row_lru r) = n" "i < n"
  shows "for_loop m (\<lambda>j r. if row_lru r ! j < row_lru r ! i \<and> row_valid r ! j
             then r\<lparr>row_lru := (row_lru r)[j := row_lru r ! j + 1]\<rparr> else r) r
    = r\<lparr>row_lru := map (\<lambda>j. if j < m \<and> row_lru r ! j < row_lru r ! i \<and> row_valid r ! j
           then row_lru r ! j + 1 else row_lru r ! j) [0..<n]\<rparr>"
  using assms(1)
proof (induction m)
  case 0
  show ?case using assms(2) map_nth [of "row_lru r"] by simp
next
  case (Suc m)
  then have "m < n" by simp
  then show ?case using Suc assms
    by (auto intro!: nth_equalityI cset.equality simp: nth_list_update less_Suc_eq)
qed

lemma hit_row_fields:
  assumes inv: "row_inv n k r" and i: "i < k"
  shows "row_tags (hit_row n False ld i r) = row_tags r"
    "row_valid (hit_row n False ld i r) = row_valid r"
    "row_dirty (hit_row n False ld i r) = (row_dirty r)[i := row_dirty r ! i \<or> \<not> ld]"
    "length (row_lru (hit_row n False ld i r)) = n"
    "j < n \<Longrightarrow> row_lru (hit_row n False ld i r) ! j =
       (if j = i then 0 else if j < k \<and> row_lru r ! j < row_lru r ! i then row_lru r ! j + 1
        else row_lru r ! j)"
proof -
  note len = row_inv_lengths [OF inv]
  have i_n: "i < n" using i len by simp
  have one: "row_lru r ! i = 0" if "\<not> n > 1"
    using row_inv_lru_less [OF inv i] len that by simp
  show "row_tags (hit_row n False ld i r) = row_tags r"
    and "row_valid (hit_row n False ld i r) = row_valid r"
    and "row_dirty (hit_row n False ld i r) = (row_dirty r)[i := row_dirty r ! i \<or> \<not> ld]"
    and "length (row_lru (hit_row n False ld i r)) = n"
    using i_n len by (simp_all add: hit_row_def Let_def hit_loop [where n = n])
  assume "j < n"
  then show "row_lru (hit_row n False ld i r) ! j =
       (if j = i then 0 else if j < k \<and> row_lru r ! j < row_lru r ! i then row_lru r ! j + 1
        else row_lru r ! j)"
    using i_n len one row_inv_valid [OF inv \<open>j < n\<close>]
    by (auto simp: hit_row_def Let_def hit_loop [where n = n] nth_list_update)
qed

lemma row_inv_hit:
  assumes inv: "row_inv n k r" and i: "i < k"
  shows "row_inv n k (hit_row n False ld i r)"
proof -
  note len = row_inv_lengths [OF inv] and f = hit_row_fields [OF inv i]
  let ?l = "\<lambda>j. row_lru r ! j"
  let ?l' = "\<lambda>j. row_lru (hit_row n False ld i r) ! j"
  have l': "?l' j = (if j = i then 0 else if ?l j < ?l i then ?l j + 1 else ?l j)" if "j < k" for j
    using f(5) [of j ld] that len by simp
  have lt: "?l' j < k" if "j < k" for j
    using row_inv_lru_less [OF inv that] row_inv_lru_less [OF inv i] l' [OF that] by auto
  have inj: "j = m" if "j < k" "m < k" "?l' j = ?l' m" for j m
  proof -
    have "?l j = ?l i \<Longrightarrow> j = i" "?l m = ?l i \<Longrightarrow> m = i" "?l j = ?l m \<Longrightarrow> j = m"
      using row_inv_lru_inj [OF inv] that(1,2) i by blast+
    with that(3) show ?thesis
      unfolding l' [OF that(1)] l' [OF that(2)] by (auto split: if_splits)
  qed
  show ?thesis
  proof (rule row_invI)
    show "row_valid (hit_row n False ld i r) ! j = (j < k)" if "j < n" for j
      using that by (simp add: f(2) row_inv_valid [OF inv])
    show "\<not> row_dirty (hit_row n False ld i r) ! j" if "k \<le> j" "j < n" for j
      using that i row_inv_clean [OF inv that] by (simp add: f(3))
    show "?l' j = 0" if "k \<le> j" "j < n" for j
      using that i row_inv_clean [OF inv that] f(5) [of j ld] by simp
    show "j = m" if "j < k" "m < k"
      "row_tags (hit_row n False ld i r) ! j = row_tags (hit_row n False ld i r) ! m" for j m
      using row_inv_tags_inj [OF inv that(1,2)] that(3) by (simp add: f(1))
    show "?l' j < k" if "j < k" for j using that by (rule lt)
    show "j = m" if "j < k" "m < k" "?l' j = ?l' m" for j m using that by (rule inj)
  qed (simp_all add: len f)
qed

lemma recency_hit:
  assumes inv: "row_inv n k r" and i: "i < k" "row_tags r ! i = tag"
  shows "recency (hit_row n False ld i r) =
    (tag, row_dirty r ! i \<or> \<not> ld) # filter (\<lambda>x. fst x \<noteq> tag) (recency r)" (is "_ = ?ys")
proof (rule recency_unique [OF row_inv_hit [OF inv i(1)]])
  let ?p = "row_lru r ! i" and ?xs = "recency r"
  note len = row_inv_lengths [OF inv] and f = hit_row_fields [OF inv i(1)]
  have p: "?p < length ?xs" using row_inv_lru_less [OF inv i(1)] by (simp add: length_recency [OF inv])
  have "fst (?xs ! ?p) = tag" using recency_nth [OF inv i(1)] i(2) by simp
  then have ys: "?ys = (tag, row_dirty r ! i \<or> \<not> ld) # take ?p ?xs @ drop (Suc ?p) ?xs"
    using filter_drop_nth [OF distinct_recency [OF inv] p] by simp
  show "length ?ys = k" using p by (simp add: ys length_recency [OF inv])
  fix j assume j: "j < k"
  have ne: "row_lru r ! j = ?p \<Longrightarrow> j = i" using row_inv_lru_inj [OF inv j i(1)] .
  have xj: "?xs ! (row_lru r ! j) = (row_tags r ! j, row_dirty r ! j)" by (rule recency_nth [OF inv j])
  have lj: "row_lru r ! j < length ?xs"
    using row_inv_lru_less [OF inv j] by (simp add: length_recency [OF inv])
  show "?ys ! (row_lru (hit_row n False ld i r) ! j) =
      (row_tags (hit_row n False ld i r) ! j, row_dirty (hit_row n False ld i r) ! j)"
  proof (cases "j = i")
    case True
    then show ?thesis using f(5) [of i ld] i j len by (simp add: ys f(1,3))
  next
    case False
    with ne consider "row_lru r ! j < ?p" | "?p < row_lru r ! j" by (meson linorder_less_linear)
    then show ?thesis
    proof cases
      case 1
      then show ?thesis using False f(5) [of j ld] j len xj p by (simp add: ys f(1,3) nth_append)
    next
      case 2
      then obtain q where q: "row_lru r ! j = Suc q" "?p \<le> q" by (cases "row_lru r ! j") auto
      then show ?thesis using False f(5) [of j ld] j len xj p lj
        by (simp add: ys f(1,3) nth_append)
    qed
  qed
qed

subsection \<open>A miss with an open spot\<close>

lemma fill_loop:
  assumes "m \<le> n" "length (row_lru r) = n"
  shows "for_loop m (\<lambda>j r. if row_valid r ! j
             then r\<lparr>row_lru := (row_lru r)[j := row_lru r ! j + 1]\<rparr> else r) r
    = r\<lparr>row_lru := map (\<lambda>j. if j < m \<and> row_valid r ! j
           then row_lru r ! j + 1 else row_lru r ! j) [0..<n]\<rparr>"
  using assms(1)
proof (induction m)
  case 0
  show ?case using assms(2) map_nth [of "row_lru r"] by simp
next
  case (Suc m)
  then have "m < n" by simp
  then show ?case using Suc assms
    by (auto intro!: nth_equalityI cset.equality simp: nth_list_update less_Suc_eq)
qed

lemma fill_row_fields:
  assumes inv: "row_inv n k r" and k: "k < n"
  shows "row_tags (fill_row n False ld tag k r) = (row_tags r)[k := tag]"
    "row_valid (fill_row n False ld tag k r) = (row_valid r)[k := True]"
    "row_dirty (fill_row n False ld tag k r) = (row_dirty r)[k := \<not> ld]"
    "length (row_lru (fill_row n False ld tag k r)) = n"
    "j < n \<Longrightarrow> row_lru (fill_row n False ld tag k r) ! j = (if j < k then row_lru r ! j + 1 else 0)"
proof -
  note len = row_inv_lengths [OF inv]
  have d: "(row_dirty r)[k := False] = row_dirty r"
    using row_inv_clean [OF inv, of k] k list_update_id [of "row_dirty r" k] by simp
  show "row_tags (fill_row n False ld tag k r) = (row_tags r)[k := tag]"
    and "row_valid (fill_row n False ld tag k r) = (row_valid r)[k := True]"
    and "row_dirty (fill_row n False ld tag k r) = (row_dirty r)[k := \<not> ld]"
    and "length (row_lru (fill_row n False ld tag k r)) = n"
    using k len d by (simp_all add: fill_row_def Let_def fill_loop [where n = n])
  assume j: "j < n"
  show "row_lru (fill_row n False ld tag k r) ! j = (if j < k then row_lru r ! j + 1 else 0)"
    using j k len row_inv_valid [OF inv j] row_inv_clean [OF inv _ j]
    by (auto simp: fill_row_def Let_def fill_loop [where n = n] nth_list_update)
qed

lemma row_inv_fill:
  assumes inv: "row_inv n k r" and k: "k < n" and new: "\<forall>i < k. row_tags r ! i \<noteq> tag"
  shows "row_inv n (Suc k) (fill_row n False ld tag k r)"
proof -
  note len = row_inv_lengths [OF inv] and f = fill_row_fields [OF inv k]
  let ?r = "fill_row n False ld tag k r"
  show ?thesis
  proof (rule row_invI)
    show "i = j" if "i < Suc k" "j < Suc k" "row_tags ?r ! i = row_tags ?r ! j" for i j
      using that k len new row_inv_tags_inj [OF inv, of i j]
      by (auto simp: f(1) nth_list_update less_Suc_eq split: if_splits)
    show "i = j" if "i < Suc k" "j < Suc k" "row_lru ?r ! i = row_lru ?r ! j" for i j
    proof -
      have "i < n" "j < n" using that k by simp_all
      then have "(if i < k then row_lru r ! i + 1 else 0) = (if j < k then row_lru r ! j + 1 else 0)"
        using that(3) f(5) [of i ld tag] f(5) [of j ld tag] by simp
      then have "i < k \<and> j < k \<and> row_lru r ! i = row_lru r ! j \<or> \<not> i < k \<and> \<not> j < k"
        by (simp split: if_splits)
      then show ?thesis using that(1,2) row_inv_lru_inj [OF inv, of i j] by linarith
    qed
    show "row_lru ?r ! i < Suc k" if "i < Suc k" for i
      using that k f(5) [of i ld tag] row_inv_lru_less [OF inv, of i] by (auto simp: less_Suc_eq)
    show "row_valid ?r ! i = (i < Suc k)" if "i < n" for i
      using that k len row_inv_valid [OF inv that] by (auto simp: f(2) nth_list_update less_Suc_eq)
    show "\<not> row_dirty ?r ! i" if "Suc k \<le> i" "i < n" for i
      using that row_inv_clean [OF inv, of i] by (simp add: f(3))
  qed (use k in \<open>simp_all add: len f\<close>)
qed

lemma recency_fill:
  assumes inv: "row_inv n k r" and k: "k < n" and new: "\<forall>i < k. row_tags r ! i \<noteq> tag"
  shows "recency (fill_row n False ld tag k r) = (tag, \<not> ld) # recency r"
proof (rule recency_unique [OF row_inv_fill [OF inv k new]])
  note len = row_inv_lengths [OF inv] and f = fill_row_fields [OF inv k]
  show "length ((tag, \<not> ld) # recency r) = Suc k" by (simp add: length_recency [OF inv])
  fix i assume i: "i < Suc k"
  show "((tag, \<not> ld) # recency r) ! (row_lru (fill_row n False ld tag k r) ! i) =
      (row_tags (fill_row n False ld tag k r) ! i, row_dirty (fill_row n False ld tag k r) ! i)"
    using i k len f(5) [of i ld tag] recency_nth [OF inv, of i]
    by (auto simp: f(1,3) nth_list_update less_Suc_eq)
qed

subsection \<open>A miss in a full set\<close>

lemma evict_loop:
  assumes "m \<le> n" "length (row_tags r) = n" "length (row_valid r) = n"
    "length (row_dirty r) = n" "length (row_lru r) = n"
  shows "for_loop m (evict_step n ld tag) r =
    r\<lparr>row_tags := map (\<lambda>j. if j < m \<and> row_lru r ! j + 1 = n then tag else row_tags r ! j) [0..<n],
      row_valid := map (\<lambda>j. if j < m \<and> row_lru r ! j + 1 = n then True else row_valid r ! j) [0..<n],
      row_dirty := map (\<lambda>j. if j < m \<and> row_lru r ! j + 1 = n then \<not> ld else row_dirty r ! j) [0..<n],
      row_lru := map (\<lambda>j. if j < m then (if row_lru r ! j + 1 = n then 0 else row_lru r ! j + 1)
                          else row_lru r ! j) [0..<n]\<rparr>"
  using assms(1)
proof (induction m)
  case 0
  show ?case using assms map_nth [of "row_tags r"] map_nth [of "row_valid r"]
    map_nth [of "row_dirty r"] map_nth [of "row_lru r"] by simp
next
  case (Suc m)
  then have m: "m < n" "m \<le> n" by simp_all
  show ?case
    unfolding for_loop_Suc Suc.IH [OF m(2)]
    using m(1) assms(2-5)
    by (cases "row_lru r ! m + 1 = n")
      (auto simp: evict_step_def replace_way_def map_upt_update less_Suc_eq)
qed

text \<open>In a full set the LRU way \<open>v\<close> is the one whose number is \<open>n - 1\<close>.\<close>

lemma evict_row_fields:
  assumes inv: "row_inv n n r" and n: "0 < n" and v: "v < n" "row_lru r ! v + 1 = n"
  shows "row_tags (evict_row n False rnd ld tag r) = (row_tags r)[v := tag]"
    "row_valid (evict_row n False rnd ld tag r) = row_valid r"
    "row_dirty (evict_row n False rnd ld tag r) = (row_dirty r)[v := \<not> ld]"
    "length (row_lru (evict_row n False rnd ld tag r)) = n"
    "j < n \<Longrightarrow> row_lru (evict_row n False rnd ld tag r) ! j = (if j = v then 0 else row_lru r ! j + 1)"
proof -
  note len = row_inv_lengths [OF inv]
  have uniq: "row_lru r ! j + 1 = n \<longleftrightarrow> j = v" if "j < n" for j
    using row_inv_lru_inj [OF inv that v(1)] v(2) by auto
  have val: "(row_valid r)[j := True] = row_valid r" if "j < n" for j
    using row_inv_valid [OF inv that] that list_update_id [of "row_valid r" j] by simp
  have loop: "evict_row n False rnd ld tag r = for_loop n (evict_step n ld tag) r" if "n \<noteq> 1"
    using that by (simp add: evict_row_def)
  have direct: "evict_row n False rnd ld tag r = replace_way ld tag 0 r \<and> v = 0 \<and> row_lru r ! 0 = 0"
    if "n = 1"
    using that v by (simp add: evict_row_def)
  show "row_tags (evict_row n False rnd ld tag r) = (row_tags r)[v := tag]"
  proof (cases "n = 1")
    case True
    with direct show ?thesis by (simp add: replace_way_def)
  next
    case False
    with loop len uniq v(1) show ?thesis
      by (auto intro!: nth_equalityI simp: evict_loop nth_list_update)
  qed
  show "row_valid (evict_row n False rnd ld tag r) = row_valid r"
  proof (cases "n = 1")
    case True
    with direct val [of 0] show ?thesis by (simp add: replace_way_def)
  next
    case False
    with loop len row_inv_valid [OF inv] show ?thesis
      by (auto intro!: nth_equalityI simp: evict_loop)
  qed
  show "row_dirty (evict_row n False rnd ld tag r) = (row_dirty r)[v := \<not> ld]"
  proof (cases "n = 1")
    case True
    with direct show ?thesis by (simp add: replace_way_def)
  next
    case False
    with loop len uniq v(1) show ?thesis
      by (auto intro!: nth_equalityI simp: evict_loop nth_list_update)
  qed
  show "length (row_lru (evict_row n False rnd ld tag r)) = n"
    using direct loop len by (cases "n = 1") (simp_all add: replace_way_def evict_loop)
  assume "j < n"
  then show "row_lru (evict_row n False rnd ld tag r) ! j = (if j = v then 0 else row_lru r ! j + 1)"
    using direct loop len uniq by (cases "n = 1") (auto simp: replace_way_def evict_loop)
qed

lemma row_inv_evict:
  assumes inv: "row_inv n n r" and n: "0 < n" and v: "v < n" "row_lru r ! v + 1 = n"
    and new: "\<forall>i < n. row_tags r ! i \<noteq> tag"
  shows "row_inv n n (evict_row n False rnd ld tag r)"
proof -
  let ?r = "evict_row n False rnd ld tag r"
  note len = row_inv_lengths [OF inv] and f = evict_row_fields [OF inv n v, where rnd = rnd and ld = ld and tag = tag]
  have uniq: "row_lru r ! j + 1 = n \<Longrightarrow> j < n \<Longrightarrow> j = v" for j
    using row_inv_lru_inj [OF inv _ v(1)] v(2) by auto
  show ?thesis
  proof (rule row_invI)
    show "row_lru ?r ! i < n" if "i < n" for i
    proof (cases "i = v")
      case True
      then show ?thesis using f(5) [OF that] n by simp
    next
      case False
      then have "row_lru r ! i + 1 \<noteq> n" using uniq that by blast
      then show ?thesis using f(5) [OF that] False row_inv_lru_less [OF inv that] by simp
    qed
    show "i = j" if "i < n" "j < n" "row_lru ?r ! i = row_lru ?r ! j" for i j
      using that f(5) [OF that(1)] f(5) [OF that(2)] row_inv_lru_inj [OF inv that(1,2)]
      by (simp split: if_splits)
    show "i = j" if "i < n" "j < n" "row_tags ?r ! i = row_tags ?r ! j" for i j
      using that len new row_inv_tags_inj [OF inv that(1,2)]
      by (cases "i = v"; cases "j = v") (auto simp: f(1))
    show "row_valid ?r ! i = (i < n)" if "i < n" for i
      using that row_inv_valid [OF inv that] by (simp add: f(2))
  qed (simp_all add: len f)
qed

lemma recency_evict:
  assumes inv: "row_inv n n r" and n: "0 < n" and v: "v < n" "row_lru r ! v + 1 = n"
    and new: "\<forall>i < n. row_tags r ! i \<noteq> tag"
  shows "recency (evict_row n False rnd ld tag r) = take n ((tag, \<not> ld) # recency r)"
proof (rule recency_unique [OF row_inv_evict [OF inv n v new]])
  note len = row_inv_lengths [OF inv] and f = evict_row_fields [OF inv n v, where rnd = rnd and ld = ld and tag = tag]
  show "length (take n ((tag, \<not> ld) # recency r)) = n" by (simp add: length_recency [OF inv])
  fix i assume i: "i < n"
  show "take n ((tag, \<not> ld) # recency r) ! (row_lru (evict_row n False rnd ld tag r) ! i) =
      (row_tags (evict_row n False rnd ld tag r) ! i, row_dirty (evict_row n False rnd ld tag r) ! i)"
  proof (cases "i = v")
    case True
    then show ?thesis using i n len f(5) [OF i] by (simp add: f(1,3))
  next
    case False
    then have "row_lru r ! i + 1 \<noteq> n" using row_inv_lru_inj [OF inv i v(1)] v(2) by auto
    then have "row_lru r ! i + 1 < n" using row_inv_lru_less [OF inv i] by simp
    then show ?thesis using False i len f(5) [OF i] recency_nth [OF inv i] by (simp add: f(1,3))
  qed
qed

subsection \<open>One access to a set refines the abstract LRU set\<close>

text \<open>Every access keeps the invariant, and the LRU lists before and after are related as
  \<^term>\<open>lru_access\<close> says.\<close>

lemma access_row_refines:
  assumes inv: "row_inv n k r" and n: "0 < n"
  shows "\<exists>k'. row_inv n k' (snd (access_row n False wa rnd tag ld r)) \<and>
    lru_access n wa tag ld (recency r) =
      (fst (access_row n False wa rnd tag ld r), recency (snd (access_row n False wa rnd tag ld r)))"
proof (cases "find_way n tag r")
  case (Some i)
  note i = find_way_SomeD [OF inv Some]
  show ?thesis
    using Some row_inv_hit [OF inv i(1)] recency_hit [OF inv i(1) i(3)] map_of_recency_Some [OF inv Some]
    by (auto simp: access_row_def lru_access_def)
next
  case None
  then have m: "map_of (recency r) tag = None" by (simp add: map_of_recency_None [OF inv])
  have new: "\<forall>i < k. row_tags r ! i \<noteq> tag" using None by (simp add: find_way_None_iff [OF inv])
  show ?thesis
  proof (cases "ld \<or> wa")
    case False
    with None m inv show ?thesis by (auto simp: access_row_def lru_access_def)
  next
    case True
    show ?thesis
    proof (cases "k < n")
      case k: True
      then obtain j where j: "find_first (\<lambda>i. \<not> row_valid r ! i) n = Some j" "j < n"
        "\<not> row_valid r ! j" "\<And>m. m < j \<Longrightarrow> row_valid r ! m"
        using row_inv_valid [OF inv k] by (auto elim!: find_first_ex [of k n "\<lambda>i. \<not> row_valid r ! i"])
      have "j = k"
        using j(2-4) k row_inv_valid [OF inv] by (metis linorder_less_linear order_less_irrefl)
      then show ?thesis
        using None True m j(1) k row_inv_fill [OF inv k new] recency_fill [OF inv k new]
          length_recency [OF inv] by (auto simp: access_row_def lru_access_def)
    next
      case False
      then have kn: "k = n" using row_inv_lengths(5) [OF inv] by simp
      note inv' = inv [unfolded kn] and new' = new [unfolded kn]
      have full: "find_first (\<lambda>i. \<not> row_valid r ! i) n = None"
        using row_inv_valid [OF inv'] by (simp add: find_first_None)
      obtain v where v: "v < n" "row_lru r ! v = n - 1"
        using row_inv_lru_surj [OF inv', of "n - 1"] n by auto
      then have v2: "row_lru r ! v + 1 = n" using n by simp
      show ?thesis
        using None True m full row_inv_evict [OF inv' n v(1) v2 new'] recency_evict [OF inv' n v(1) v2 new']
        by (auto simp: access_row_def lru_access_def)
    qed
  qed
qed

section \<open>The whole cache\<close>

text \<open>
  The geometry on which index and tag are computed without undefined behaviour: a non-zero
  block size, more than one set, and an address that is longer than its offset and index.
\<close>

definition wf_geom :: "cache \<Rightarrow> bool" where
  "wf_geom c \<longleftrightarrow> blockSize c \<noteq> 0 \<and> 1 < unat (numSets c) \<and>
     ilog2 (unat (blockSize c)) + ilog2 (unat (numSets c)) < 32"

abbreviation offset_bits :: "cache \<Rightarrow> nat" where
  "offset_bits c \<equiv> ilog2 (unat (blockSize c))"

abbreviation index_bits :: "cache \<Rightarrow> nat" where
  "index_bits c \<equiv> ilog2 (unat (numSets c))"

definition set_index :: "cache \<Rightarrow> u32 \<Rightarrow> u32" where
  "set_index c a = take_bit (index_bits c) (drop_bit (offset_bits c) a)"

definition block_tag :: "cache \<Rightarrow> u32 \<Rightarrow> u32" where
  "block_tag c a = drop_bit (offset_bits c + index_bits c) a"

lemma index_bits_pos: "1 < n \<Longrightarrow> 0 < ilog2 n"
  by (simp add: ilog2.simps [of n])

lemma shift_pair_take_bit:
  assumes "0 < s" "s < 32"
  shows "drop_bit (32 - s) (push_bit (32 - s) (x :: u32)) = take_bit s x"
  using assms by (auto intro!: bit_word_eqI simp: bit_simps)

lemma getIndex_wf [wf_simps]: "wf_geom c \<Longrightarrow> getIndex c a = Some (set_index c a)"
  using index_bits_pos [of "unat (numSets c)"]
  by (auto simp: wf_geom_def getIndex_def log2_int_def shr32_def shl32_def set_index_def
      shift_pair_take_bit)

lemma getTag_wf [wf_simps]: "wf_geom c \<Longrightarrow> getTag c a = Some (block_tag c a)"
  by (auto simp: wf_geom_def getTag_def log2_int_def shr32_def block_tag_def)

lemma set_index_less:
  assumes "wf_geom c"
  shows "unat (set_index c a) < unat (numSets c)"
proof -
  have "unat (set_index c a) < 2 ^ index_bits c"
    using take_bit_nat_less_exp [of "index_bits c" "unat (drop_bit (offset_bits c) a)"]
    by (simp add: set_index_def unsigned_take_bit_eq)
  also have "\<dots> \<le> unat (numSets c)"
    using assms ilog2_bounds [of "unat (numSets c)"] by (simp add: wf_geom_def)
  finally show ?thesis .
qed

text \<open>
  Two addresses agree in index and tag exactly when they lie in the same block: the pair that
  the cache and the queues compare identifies the block.
\<close>

lemma same_block_iff:
  assumes "wf_geom c"
  shows "set_index c a = set_index c a' \<and> block_tag c a = block_tag c a' \<longleftrightarrow>
    drop_bit (offset_bits c) a = drop_bit (offset_bits c) a'" (is "?l = ?r")
proof
  assume ?r
  then show ?l
    by (metis add.commute block_tag_def drop_bit_drop_bit set_index_def)
next
  assume l: ?l
  let ?x = "drop_bit (offset_bits c) a" and ?y = "drop_bit (offset_bits c) a'"
  have "take_bit (index_bits c) ?x = take_bit (index_bits c) ?y"
    and "drop_bit (index_bits c) ?x = drop_bit (index_bits c) ?y"
    using l by (simp_all add: set_index_def block_tag_def add.commute)
  then show ?r by (metis bits_ident)
qed

definition wf_arrays :: "cache \<Rightarrow> bool" where
  "wf_arrays c \<longleftrightarrow> length (tags c) = unat (numSets c) \<and> length (valid c) = unat (numSets c) \<and>
     length (dirty c) = unat (numSets c) \<and> length (lru c) = unat (numSets c)"

text \<open>The invariant of a cache with LRU replacement.\<close>

definition cache_ok :: "cache \<Rightarrow> bool" where
  "cache_ok c \<longleftrightarrow> wf_geom c \<and> wf_arrays c \<and> 0 < assoc c \<and> \<not> randReplacement c \<and>
     (\<forall>i < unat (numSets c). row_ok (assoc c) (get_row c i))"

lemma get_put_row:
  "wf_arrays c \<Longrightarrow> i < unat (numSets c) \<Longrightarrow> j < unat (numSets c) \<Longrightarrow>
    get_row (put_row c i r) j = (if i = j then r else get_row c j)"
  by (auto simp: get_row_def put_row_def wf_arrays_def)

lemma put_row_fields [simp]:
  "blockSize (put_row c i r) = blockSize c" "assoc (put_row c i r) = assoc c"
  "numSets (put_row c i r) = numSets c" "randReplacement (put_row c i r) = randReplacement c"
  "writeAlloc (put_row c i r) = writeAlloc c" "writeThrough (put_row c i r) = writeThrough c"
  by (simp_all add: put_row_def)

lemma put_row_wf [simp]:
  "wf_geom (put_row c i r) = wf_geom c" "wf_arrays (put_row c i r) = wf_arrays c"
  "set_index (put_row c i r) a = set_index c a" "block_tag (put_row c i r) a = block_tag c a"
  by (simp_all add: wf_geom_def wf_arrays_def set_index_def block_tag_def) (simp_all add: put_row_def)

text \<open>The abstract contents of the whole cache: an LRU list per set.\<close>

definition contents :: "cache \<Rightarrow> nat \<Rightarrow> (u32 \<times> bool) list" where
  "contents c i = recency (get_row c i)"

definition in_cache :: "cache \<Rightarrow> u32 \<Rightarrow> bool" where
  "in_cache c a \<longleftrightarrow> block_tag c a \<in> fst ` set (contents c (unat (set_index c a)))"

lemma cache_ok_row: "cache_ok c \<Longrightarrow> i < unat (numSets c) \<Longrightarrow> row_inv (assoc c) (nvalid (get_row c i)) (get_row c i)"
  by (simp add: cache_ok_def row_ok_def)

lemma check_wf [wf_simps]:
  assumes "cache_ok c"
  shows "check c a ld = Some (in_cache c a)"
proof -
  have g: "wf_geom c" using assms by (simp add: cache_ok_def)
  let ?r = "get_row c (unat (set_index c a))"
  have inv: "row_inv (assoc c) (nvalid ?r) ?r" using assms set_index_less [OF g] by (rule cache_ok_row)
  then show ?thesis
    using set_index_less [OF g] map_of_recency_None [OF inv, of "block_tag c a"]
    by (auto simp: check_def getIndex_wf [OF g] getTag_wf [OF g] in_cache_def contents_def
        map_of_eq_None_iff)
qed

text \<open>The access of a well-formed cache, on its rows.\<close>

definition accessed :: "cache \<Rightarrow> u32 \<Rightarrow> bool \<Rightarrow> cache" where
  "accessed c a ld = put_row c (unat (set_index c a))
     (snd (access_row (assoc c) False (writeAlloc c) 0 (block_tag c a) ld
        (get_row c (unat (set_index c a)))))"

lemma access_row_no_rand: "access_row n False wa rnd tag ld r = access_row n False wa 0 tag ld r"
  by (simp add: access_row_def evict_row_def split: option.split)

lemma accessed_fields [simp]:
  "blockSize (accessed c a ld) = blockSize c" "assoc (accessed c a ld) = assoc c"
  "numSets (accessed c a ld) = numSets c" "randReplacement (accessed c a ld) = randReplacement c"
  "writeAlloc (accessed c a ld) = writeAlloc c" "wf_geom (accessed c a ld) = wf_geom c"
  "set_index (accessed c a ld) b = set_index c b" "block_tag (accessed c a ld) b = block_tag c b"
  by (simp_all add: accessed_def)

lemma lru_access_fst: "fst (lru_access n wa tag ld xs) \<longleftrightarrow> tag \<in> fst ` set xs"
proof (cases "map_of xs tag")
  case None
  then have "tag \<notin> fst ` set xs" by (simp only: map_of_eq_None_iff not_False_eq_True)
  with None show ?thesis by (simp add: lru_access_def)
next
  case (Some d)
  then have "tag \<in> fst ` set xs" by (metis map_of_eq_None_iff option.distinct(1))
  with Some show ?thesis by (simp add: lru_access_def)
qed

lemma accessed_ok:
  assumes ok: "cache_ok c"
  shows "cache_ok (accessed c a ld)"
    and "contents (accessed c a ld) =
      (contents c)(unat (set_index c a) := snd (lru_access (assoc c) (writeAlloc c) (block_tag c a) ld
         (contents c (unat (set_index c a)))))"
    and "fst (access_row (assoc c) False (writeAlloc c) 0 (block_tag c a) ld
           (get_row c (unat (set_index c a)))) = in_cache c a"
proof -
  let ?i = "unat (set_index c a)"
  let ?r = "get_row c ?i"
  let ?acc = "access_row (assoc c) False (writeAlloc c) 0 (block_tag c a) ld ?r"
  have wf: "wf_geom c" "wf_arrays c" "0 < assoc c" "\<not> randReplacement c"
    using ok by (simp_all add: cache_ok_def)
  have i: "?i < unat (numSets c)" using wf(1) by (rule set_index_less)
  have inv: "row_inv (assoc c) (nvalid ?r) ?r" using ok i by (rule cache_ok_row)
  obtain k' where k': "row_inv (assoc c) k' (snd ?acc)"
    and eq: "lru_access (assoc c) (writeAlloc c) (block_tag c a) ld (recency ?r) = (fst ?acc, recency (snd ?acc))"
    using access_row_refines [OF inv wf(3)] by blast
  show "cache_ok (accessed c a ld)"
    using ok wf i row_inv_ok [OF k']
    by (auto simp: cache_ok_def accessed_def get_put_row)
  show "contents (accessed c a ld) = (contents c)(?i := snd (lru_access (assoc c) (writeAlloc c)
      (block_tag c a) ld (contents c ?i)))"
  proof
    fix j
    show "contents (accessed c a ld) j = ((contents c)(?i := snd (lru_access (assoc c) (writeAlloc c)
      (block_tag c a) ld (contents c ?i)))) j"
    proof (cases "j < unat (numSets c)")
      case True
      then show ?thesis using eq i wf(2) by (auto simp: contents_def accessed_def get_put_row)
    next
      case False
      then have "?i \<noteq> j" using i by auto
      then show ?thesis
        by (simp add: contents_def accessed_def get_row_def put_row_def)
    qed
  qed
  show "fst ?acc = in_cache c a"
    using lru_access_fst [of "assoc c" "writeAlloc c" "block_tag c a" ld "recency ?r"] eq
    by (simp add: in_cache_def contents_def)
qed

lemma cache_access_wf [wf_simps]:
  assumes ok: "cache_ok c"
  shows "cache_access c rnd a ld = Some (in_cache c a, accessed c a ld)"
proof -
  have wf: "wf_geom c" "0 < assoc c" "\<not> randReplacement c" "numSets c \<noteq> 1"
    using ok by (auto simp: cache_ok_def wf_geom_def)
  let ?acc = "access_row (assoc c) False (writeAlloc c) 0 (block_tag c a) ld
     (get_row c (unat (set_index c a)))"
  have "access_row (assoc c) False (writeAlloc c) rnd (block_tag c a) ld
     (get_row c (unat (set_index c a))) = (in_cache c a, snd ?acc)"
    using accessed_ok(3) [OF ok, of a ld] by (subst access_row_no_rand) (simp add: prod_eq_iff)
  then show ?thesis
    using wf set_index_less [OF wf(1)]
    by (simp add: cache_access_def getIndex_wf getTag_wf accessed_def Let_def)
qed

section \<open>Construction\<close>

definition empty_cache :: "nat \<Rightarrow> nat \<Rightarrow> cache \<Rightarrow> cache" where
  "empty_cache ns n c = c\<lparr>tags := replicate ns (replicate n 0), valid := replicate ns (replicate n False),
     dirty := replicate ns (replicate n False), lru := replicate ns (replicate n 0)\<rparr>"

lemma reset_list:
  assumes "length xss = ns" and "\<And>i. i < ns \<Longrightarrow> length (xss ! i) = n"
  shows "for_loop ns (\<lambda>i. for_loop n (\<lambda>j ys. ys[i := (ys ! i)[j := z]])) xss = replicate ns (replicate n z)"
proof -
  have inner: "for_loop m (\<lambda>j ys. ys[i := (ys ! i)[j := z]]) ys = ys[i := replicate m z @ drop m (ys ! i)]"
    if "m \<le> n" "i < length ys" "length (ys ! i) = n" for i m and ys :: "'a list list"
    using that(1)
  proof (induction m)
    case 0
    show ?case by simp
  next
    case (Suc m)
    then have "drop m (ys ! i) = ys ! i ! m # drop (Suc m) (ys ! i)"
      using that(3) by (simp add: Cons_nth_drop_Suc)
    with Suc that show ?case
      by (simp add: list_update_append replicate_append_same [symmetric])
  qed
  have "for_loop m (\<lambda>i. for_loop n (\<lambda>j ys. ys[i := (ys ! i)[j := z]])) xss =
      replicate m (replicate n z) @ drop m xss" if "m \<le> ns" for m
    using that
  proof (induction m)
    case 0
    show ?case by simp
  next
    case (Suc m)
    then have m: "m < ns" by simp
    have d: "drop m xss = xss ! m # drop (Suc m) xss"
      using m assms(1) by (simp add: Cons_nth_drop_Suc)
    then have "length ((replicate m (replicate n z) @ drop m xss) ! m) = n"
      using assms(2) [OF m] by (simp add: nth_append)
    with Suc m assms(1) d show ?case
      by (simp add: inner nth_append list_update_append replicate_append_same [symmetric])
  qed
  from this [of ns] show ?thesis using assms(1) by simp
qed

lemma for_loop_fields:
  "for_loop m (\<lambda>j c. c\<lparr>tags := f j (tags c), lru := g j (lru c), dirty := h j (dirty c), valid := v j (valid c)\<rparr>) c
   = c\<lparr>tags := for_loop m f (tags c), lru := for_loop m g (lru c),
       dirty := for_loop m h (dirty c), valid := for_loop m v (valid c)\<rparr>"
  by (induction m) simp_all

text \<open>\<open>reset\<close> clears every way of every set.\<close>

lemma reset_eq:
  assumes "wf_arrays c" and "\<And>i. i < unat (numSets c) \<Longrightarrow> length (tags c ! i) = assoc c \<and>
      length (valid c ! i) = assoc c \<and> length (dirty c ! i) = assoc c \<and> length (lru c ! i) = assoc c"
  shows "reset c = empty_cache (unat (numSets c)) (assoc c) c"
proof -
  let ?clear = "\<lambda>z i. for_loop (assoc c) (\<lambda>j ys. ys[i := (ys ! i)[j := z]])"
  have inner: "for_loop (assoc c) (\<lambda>j c. c\<lparr>tags := (tags c)[i := (tags c ! i)[j := 0]],
       lru := (lru c)[i := (lru c ! i)[j := 0]],
       dirty := (dirty c)[i := (dirty c ! i)[j := False]],
       valid := (valid c)[i := (valid c ! i)[j := False]]\<rparr>) =
     (\<lambda>c. c\<lparr>tags := ?clear 0 i (tags c), lru := ?clear 0 i (lru c),
       dirty := ?clear False i (dirty c), valid := ?clear False i (valid c)\<rparr>)" for i
    by (rule ext) (rule for_loop_fields)
  have "reset c = for_loop (unat (numSets c)) (\<lambda>i c. c\<lparr>tags := ?clear 0 i (tags c),
      lru := ?clear 0 i (lru c), dirty := ?clear False i (dirty c), valid := ?clear False i (valid c)\<rparr>) c"
    unfolding reset_def inner ..
  also have "\<dots> = c\<lparr>tags := for_loop (unat (numSets c)) (?clear 0) (tags c),
      lru := for_loop (unat (numSets c)) (?clear 0) (lru c),
      dirty := for_loop (unat (numSets c)) (?clear False) (dirty c),
      valid := for_loop (unat (numSets c)) (?clear False) (valid c)\<rparr>"
    by (rule for_loop_fields)
  also have "\<dots> = empty_cache (unat (numSets c)) (assoc c) c"
    using assms by (simp add: empty_cache_def wf_arrays_def reset_list)
  finally show ?thesis .
qed

lemma new_cache_eq:
  "new_cache junkW junkN junkB ns as bs rr wa wt =
     \<lparr>tags = replicate (unat ns) (replicate (unat as) 0),
      valid = replicate (unat ns) (replicate (unat as) False),
      dirty = replicate (unat ns) (replicate (unat as) False),
      lru = replicate (unat ns) (replicate (unat as) 0),
      blockSize = bs, assoc = unat as, numSets = ns,
      randReplacement = rr, writeAlloc = wa, writeThrough = wt\<rparr>"
  unfolding new_cache_def
  by (subst reset_eq) (simp_all add: empty_cache_def wf_arrays_def)

lemma new_cache_ok:
  assumes "bs \<noteq> 0" "1 < unat ns" "ilog2 (unat bs) + ilog2 (unat ns) < 32" "0 < unat as"
  shows "cache_ok (new_cache junkW junkN junkB ns as bs False wa wt)"
    and "i < unat ns \<Longrightarrow> contents (new_cache junkW junkN junkB ns as bs False wa wt) i = []"
  using assms
  by (auto simp: new_cache_eq cache_ok_def wf_geom_def wf_arrays_def get_row_def row_ok_def
      row_inv_def nvalid_def contents_def recency_def)

section \<open>Properties\<close>

text \<open>A cache with four sets of two ways and blocks of 16 bytes, for the concrete instances.\<close>

definition small_cache :: "bool \<Rightarrow> cache" where
  "small_cache wa = new_cache (\<lambda>_ _. 7) (\<lambda>_ _. 9) (\<lambda>_ _. True) 4 2 16 False wa (\<not> wa)"

lemma small_cache_ok: "cache_ok (small_cache wa)"
  using ilog2_power [of 2] ilog2_power [of 4]
  unfolding small_cache_def by (intro new_cache_ok(1)) simp_all

text \<open>
  C4: On a well-formed LRU cache \<open>access\<close> is never undefined: it answers and changes the contents of
  the set of the address exactly as the abstract LRU set does, leaves all other sets alone and
  keeps the invariant.
\<close>

theorem cache_access_refines_lru:
  assumes "cache_ok c"
  shows "\<exists>hit c'. cache_access c rnd a ld = Some (hit, c') \<and> cache_ok c' \<and>
    lru_access (assoc c) (writeAlloc c) (block_tag c a) ld (contents c (unat (set_index c a))) =
      (hit, contents c' (unat (set_index c a))) \<and>
    (\<forall>i. i \<noteq> unat (set_index c a) \<longrightarrow> contents c' i = contents c i)"
proof -
  have hit: "fst (lru_access (assoc c) (writeAlloc c) (block_tag c a) ld (contents c (unat (set_index c a)))) = in_cache c a"
    by (simp add: lru_access_fst in_cache_def)
  show ?thesis
    using accessed_ok(1) [OF assms] hit
    by (auto simp: cache_access_wf [OF assms] accessed_ok(2) [OF assms] prod_eq_iff)
qed

theorem cache_access_refines_lru_witness:
  "\<exists>hit c'. cache_access (small_cache True) 0 64 True = Some (hit, c') \<and> cache_ok c' \<and>
    lru_access (assoc (small_cache True)) (writeAlloc (small_cache True)) (block_tag (small_cache True) 64) True
      (contents (small_cache True) (unat (set_index (small_cache True) 64))) =
      (hit, contents c' (unat (set_index (small_cache True) 64))) \<and>
    (\<forall>i. i \<noteq> unat (set_index (small_cache True) 64) \<longrightarrow> contents c' i = contents (small_cache True) i)"
  by (rule cache_access_refines_lru [OF small_cache_ok])

text \<open>
  \<open>check\<close> foretells \<open>access\<close>: on a well-formed cache it is defined, does not depend on the kind
  of the access, and returns what \<open>access\<close> would return.
\<close>

theorem check_foretells_access:
  assumes "cache_ok c"
  shows "\<exists>h c'. check c a ld = Some h \<and> cache_access c rnd a ld' = Some (h, c')"
  by (simp add: check_wf [OF assms] cache_access_wf [OF assms])

theorem check_foretells_access_witness:
  "\<exists>h c'. check (small_cache False) 80 True = Some h \<and> cache_access (small_cache False) 3 80 False = Some (h, c')"
  by (rule check_foretells_access [OF small_cache_ok])

lemma in_cache_accessed:
  assumes ok: "cache_ok c"
  shows "in_cache (accessed c a ld) b \<longleftrightarrow> block_tag c b \<in> fst ` set
    (if set_index c b = set_index c a
     then snd (lru_access (assoc c) (writeAlloc c) (block_tag c a) ld (contents c (unat (set_index c a))))
     else contents c (unat (set_index c b)))"
  by (auto simp: in_cache_def accessed_ok(2) [OF ok] word_unat_eq_iff)

lemma in_cache_accessed_self:
  assumes "cache_ok c" "ld \<or> writeAlloc c"
  shows "in_cache (accessed c a ld) a"
proof -
  have "0 < assoc c" using assms(1) by (simp add: cache_ok_def)
  then show ?thesis using assms(2)
    by (cases "assoc c") (auto simp: in_cache_accessed [OF assms(1)] lru_access_def split: option.split)
qed

lemma lru_access_keeps:
  assumes "t \<in> fst ` set xs" "t \<notin> fst ` set (snd (lru_access n wa tag ld xs))"
  shows "tag \<notin> fst ` set xs" "n \<le> length xs" "t \<in> fst ` set (drop (n - 1) xs)"
proof -
  have none: "map_of xs tag = None"
  proof (rule ccontr)
    assume "map_of xs tag \<noteq> None"
    with assms show False by (cases "t = tag") (force simp: lru_access_def)+
  qed
  then show "tag \<notin> fst ` set xs" by (simp add: map_of_eq_None_iff)
  have al: "ld \<or> wa" and t: "t \<notin> fst ` set (take n ((tag, \<not> ld) # xs))"
    using none assms by (auto simp: lru_access_def split: if_splits)
  show "n \<le> length xs" using assms(1) t by (rule_tac ccontr) force
  show "t \<in> fst ` set (drop (n - 1) xs)"
  proof (cases n)
    case 0
    then show ?thesis using assms(1) by simp
  next
    case (Suc m)
    have "set xs = set (take m xs) \<union> set (drop m xs)" by (metis append_take_drop_id set_append)
    then show ?thesis using assms(1) t Suc by auto
  qed
qed

text \<open>
  C5: After an access that allocates (a load, or any access of a write-allocate cache) every address
  of the block hits, and a block that the access pushed out was the least recently used block
  of a full set, and the access was a miss.
\<close>

theorem access_allocates:
  assumes "cache_ok c" "ld \<or> writeAlloc c" "cache_access c rnd a ld = Some (hit, c')"
  shows "(drop_bit (offset_bits c) b = drop_bit (offset_bits c) a \<longrightarrow> check c' b ld' = Some True) \<and>
    (check c b ld' = Some True \<and> check c' b ld' = Some False \<longrightarrow>
      \<not> hit \<and> length (contents c (unat (set_index c a))) = assoc c \<and> set_index c b = set_index c a \<and>
      block_tag c b = fst (last (contents c (unat (set_index c a)))))"
proof -
  let ?xs = "contents c (unat (set_index c a))"
  note ok = assms(1)
  have c': "c' = accessed c a ld" and hit: "hit = in_cache c a" using assms(3) by (simp_all add: cache_access_wf [OF ok])
  have geom: "wf_geom c" and pos: "0 < assoc c" using ok by (simp_all add: cache_ok_def)
  note ok' = accessed_ok(1) [OF ok, of a ld]
  have tag: "block_tag c a \<in> fst ` set (snd (lru_access (assoc c) (writeAlloc c) (block_tag c a) ld ?xs))"
    using in_cache_accessed_self [OF ok assms(2), of a] by (simp add: in_cache_accessed [OF ok])
  have same: "check c' b ld' = Some True" if "drop_bit (offset_bits c) b = drop_bit (offset_bits c) a"
    using that tag same_block_iff [OF geom, of b a] by (auto simp: c' check_wf [OF ok'] in_cache_accessed [OF ok])
  have inv: "row_inv (assoc c) (nvalid (get_row c (unat (set_index c a)))) (get_row c (unat (set_index c a)))"
    using ok set_index_less [OF geom] by (rule cache_ok_row)
  then have len: "length ?xs \<le> assoc c" using length_recency [OF inv] by (simp add: contents_def row_inv_def)
  have "\<not> hit \<and> length ?xs = assoc c \<and> set_index c b = set_index c a \<and> block_tag c b = fst (last ?xs)"
    if "check c b ld' = Some True \<and> check c' b ld' = Some False"
  proof -
    have b: "in_cache c b" "\<not> in_cache (accessed c a ld) b"
      using that by (simp_all add: c' check_wf [OF ok] check_wf [OF ok'])
    have idx: "set_index c b = set_index c a"
      using b(1) b(2) [unfolded in_cache_accessed [OF ok]] by (auto simp: in_cache_def [of c] split: if_splits)
    note k = lru_access_keeps [of "block_tag c b" ?xs "assoc c" "writeAlloc c" "block_tag c a" ld]
    have k': "block_tag c a \<notin> fst ` set ?xs" "assoc c \<le> length ?xs" "block_tag c b \<in> fst ` set (drop (assoc c - 1) ?xs)"
      using k b(1) b(2) [unfolded in_cache_accessed [OF ok]] idx by (simp_all add: in_cache_def [of c])
    have full: "length ?xs = assoc c" using len k'(2) by simp
    then have "drop (assoc c - 1) ?xs = [last ?xs]"
      using pos by (metis Suc_pred append_butlast_last_id append_eq_conv_conj butlast_conv_take length_0_conv less_numeral_extra(3) diff_Suc_1 length_butlast)
    with k' full idx show "\<not> hit \<and> length ?xs = assoc c \<and> set_index c b = set_index c a \<and> block_tag c b = fst (last ?xs)"
      by (simp add: hit in_cache_def)
  qed
  with same show ?thesis by blast
qed

theorem access_allocates_witness:
  "\<exists>hit c'. cache_access (small_cache False) 0 64 True = Some (hit, c') \<and> check c' 79 False = Some True"
proof -
  obtain hit c' where c': "cache_access (small_cache False) 0 64 True = Some (hit, c')"
    by (simp add: cache_access_wf [OF small_cache_ok])
  have "offset_bits (small_cache False) = 4"
    using ilog2_power [of 4] by (simp add: small_cache_def new_cache_eq)
  then have "drop_bit (offset_bits (small_cache False)) (79 :: u32) = drop_bit (offset_bits (small_cache False)) 64"
    by simp
  then have "check c' 79 False = Some True"
    using access_allocates [OF small_cache_ok _ c', of 79 False] by simp
  with c' show ?thesis by blast
qed

text \<open>
  A new LRU cache of any usable geometry is well-formed and empty, whatever the memory held
  before: no address hits.
\<close>

theorem new_cache_empty:
  assumes "bs \<noteq> 0" "1 < unat ns" "ilog2 (unat bs) + ilog2 (unat ns) < 32" "0 < unat as"
  shows "cache_ok (new_cache junkW junkN junkB ns as bs False wa wt) \<and>
    check (new_cache junkW junkN junkB ns as bs False wa wt) a ld = Some False"
proof -
  let ?c = "new_cache junkW junkN junkB ns as bs False wa wt"
  have ok: "cache_ok ?c" using assms by (rule new_cache_ok(1))
  have "unat (set_index ?c a) < unat ns"
    using set_index_less [of ?c a] ok by (simp add: cache_ok_def new_cache_eq)
  then have "contents ?c (unat (set_index ?c a)) = []" by (rule new_cache_ok(2) [OF assms])
  then show ?thesis using ok by (simp add: check_wf [OF ok] in_cache_def)
qed

theorem new_cache_empty_witness:
  "cache_ok (new_cache (\<lambda>_ _. 1) (\<lambda>_ _. 2) (\<lambda>_ _. True) 1024 2 16 False False True) \<and>
    check (new_cache (\<lambda>_ _. 1) (\<lambda>_ _. 2) (\<lambda>_ _. True) 1024 2 16 False False True) 12345 True = Some False"
  using ilog2_power [of 10] ilog2_power [of 4] by (intro new_cache_empty) simp_all

text \<open>
  On a usable geometry \<open>getTag\<close> and \<open>getIndex\<close> are defined, the index is in range, and the pair
  identifies the block: two addresses have the same tag and index exactly when they differ in
  their offset bits only.
\<close>

theorem tag_index_identify_block:
  assumes "wf_geom c"
  shows "\<exists>t i t' i'. getTag c a = Some t \<and> getIndex c a = Some i \<and> getTag c b = Some t' \<and> getIndex c b = Some i' \<and>
    unat i < unat (numSets c) \<and>
    (t = t' \<and> i = i' \<longleftrightarrow> drop_bit (offset_bits c) a = drop_bit (offset_bits c) b)"
  using same_block_iff [OF assms, of a b] set_index_less [OF assms, of a]
  by (auto simp: getTag_wf [OF assms] getIndex_wf [OF assms])

theorem tag_index_identify_block_witness:
  "\<exists>t i t' i'. getTag (small_cache True) 100 = Some t \<and> getIndex (small_cache True) 100 = Some i \<and>
    getTag (small_cache True) 111 = Some t' \<and> getIndex (small_cache True) 111 = Some i' \<and>
    unat i < unat (numSets (small_cache True)) \<and>
    (t = t' \<and> i = i' \<longleftrightarrow> drop_bit (offset_bits (small_cache True)) (100 :: u32) = drop_bit (offset_bits (small_cache True)) 111)"
  using small_cache_ok [of True] by (intro tag_index_identify_block) (simp add: cache_ok_def)

end
