(* ===== verification/MemQueue.thy ===== *)
theory MemQueue
  imports CacheModel
begin

text \<open>
  The circular request queue of \<open>memQueue.C\<close>: the read queues and the write buffer of the
  simulator. The record has the object's fields; the cache that \<open>_source\<close> points to is an
  argument of \<open>add\<close>, which asks it only for tag and index of an address. Positions and sizes
  are \<open>nat\<close> (they stay at or below the capacity), times are 32-bit words that wrap.
  \<^term>\<open>None\<close> is undefined behaviour (an array access out of range) or, for the two scanning loops,
  a loop that does not end. The second half relates the ring to a plain list of entries.
\<close>

section \<open>State and operations\<close>

record memQueue =
  q_id :: char
  q_capacity :: nat
  q_latency :: u32
  q_write :: bool
  q_pipelined :: bool
  q_front :: nat
  q_rear :: nat
  q_size :: nat
  q_queue :: "Request list"
  q_readyTime :: "u32 list"
  q_tags :: "u32 list"
  q_indexes :: "u32 list"

definition new_memQueue :: "nat \<Rightarrow> u32 \<Rightarrow> bool \<Rightarrow> bool \<Rightarrow> char \<Rightarrow> memQueue" where
  "new_memQueue capacity latency pipelined write name =
     \<lparr>q_id = name, q_capacity = capacity, q_latency = latency, q_write = write,
      q_pipelined = pipelined, q_front = 0, q_rear = 0, q_size = 0,
      q_queue = replicate capacity zero_request, q_readyTime = replicate capacity 0,
      q_tags = replicate capacity 0, q_indexes = replicate capacity 0\<rparr>"

text \<open>\<open>i++; if(i == _capacity) i = 0;\<close>\<close>

definition next_pos :: "memQueue \<Rightarrow> nat \<Rightarrow> nat" where
  "next_pos q i = (if i + 1 = q_capacity q then 0 else i + 1)"

text \<open>What \<open>printQueue\<close> writes: address and ready time of each entry it visits.\<close>

partial_function (option) printQueue_loop :: "memQueue \<Rightarrow> nat \<Rightarrow> (u32 \<times> u32) list \<Rightarrow> (u32 \<times> u32) list option" where
  "printQueue_loop q i out =
     (if i \<noteq> q_rear q
      then if i < length (q_queue q)
           then printQueue_loop q (next_pos q i) (out @ [(addr (q_queue q ! i), q_readyTime q ! i)])
           else None
      else Some out)"

definition printQueue :: "memQueue \<Rightarrow> (u32 \<times> u32) list option" where
  "printQueue q = printQueue_loop q (q_front q) []"

text \<open>The position of the last duplicate in the queue, or \<open>-1\<close>.\<close>

partial_function (option) findDup_loop :: "memQueue \<Rightarrow> u32 \<Rightarrow> u32 \<Rightarrow> nat \<Rightarrow> int \<Rightarrow> int option" where
  "findDup_loop q tag index i dupLoc =
     (if i \<noteq> q_rear q
      then if i < length (q_tags q)
           then findDup_loop q tag index (next_pos q i)
                  (if q_tags q ! i = tag \<and> q_indexes q ! i = index then int i else dupLoc)
           else None
      else Some dupLoc)"

definition findDup :: "memQueue \<Rightarrow> u32 \<Rightarrow> u32 \<Rightarrow> int option" where
  "findDup q tag index = findDup_loop q tag index (q_front q) (-1)"

text \<open>The branch of \<open>add\<close> that appends the request.\<close>

definition enqueue :: "memQueue \<Rightarrow> Request \<Rightarrow> u32 \<Rightarrow> u32 \<Rightarrow> u32 \<Rightarrow> memQueue" where
  "enqueue q req tag index cycle =
     (let rear = q_rear q;
          prev = (if int rear - 1 < 0 then q_capacity q - 1 else rear - 1);
          ready = (if q_pipelined q \<or> q_size q = 0 then cycle + q_latency q
                   else q_latency q + q_readyTime q ! prev)
      in q\<lparr>q_queue := (q_queue q)[rear := req],
           q_tags := (q_tags q)[rear := tag],
           q_indexes := (q_indexes q)[rear := index],
           q_readyTime := (q_readyTime q)[rear := ready],
           q_size := q_size q + 1,
           q_rear := next_pos q rear\<rparr>)"

definition add :: "cache \<Rightarrow> memQueue \<Rightarrow> Request \<Rightarrow> u32 \<Rightarrow> (bool \<times> memQueue) option" where
  "add source q req cycle =
     (if q_size q = q_capacity q then Some (False, q)
      else do {
        index \<leftarrow> getIndex source (addr req);
        tag \<leftarrow> getTag source (addr req);
        dupLoc \<leftarrow> findDup q tag index;
        if dupLoc = -1 \<or> fromCPU (q_queue q ! nat dupLoc)
        then (if q_rear q < length (q_queue q)
              then Some (True, enqueue q req tag index cycle) else None)
        else if fromCPU req
        then Some (True, q\<lparr>q_queue := (q_queue q)[nat dupLoc := req]\<rparr>)
        else Some (True, q)
      })"

definition remove :: "memQueue \<Rightarrow> bool \<times> memQueue" where
  "remove q =
     (if q_size q = 0 then (False, q)
      else (True, q\<lparr>q_size := q_size q - 1, q_front := next_pos q (q_front q)\<rparr>))"

definition getSize :: "memQueue \<Rightarrow> nat" where
  "getSize q = q_size q"

definition frontReady :: "memQueue \<Rightarrow> u32 \<Rightarrow> bool option" where
  "frontReady q cycle =
     (if q_size q > 0
      then (if q_front q < length (q_readyTime q) then Some (q_readyTime q ! q_front q \<le> cycle) else None)
      else Some False)"

definition getFront :: "memQueue \<Rightarrow> Request option" where
  "getFront q = (if q_front q < length (q_queue q) then Some (q_queue q ! q_front q) else None)"

section \<open>The ring invariant and the entries\<close>

definition queue_ok :: "memQueue \<Rightarrow> bool" where
  "queue_ok q \<longleftrightarrow> 0 < q_capacity q \<and>
     length (q_queue q) = q_capacity q \<and> length (q_readyTime q) = q_capacity q \<and>
     length (q_tags q) = q_capacity q \<and> length (q_indexes q) = q_capacity q \<and>
     q_front q < q_capacity q \<and> q_size q \<le> q_capacity q \<and>
     q_rear q = (q_front q + q_size q) mod q_capacity q"

record entry =
  e_req :: Request
  e_ready :: u32
  e_tag :: u32
  e_index :: u32

definition slot :: "memQueue \<Rightarrow> nat \<Rightarrow> nat" where
  "slot q k = (q_front q + k) mod q_capacity q"

definition entry_at :: "memQueue \<Rightarrow> nat \<Rightarrow> entry" where
  "entry_at q i = \<lparr>e_req = q_queue q ! i, e_ready = q_readyTime q ! i,
     e_tag = q_tags q ! i, e_index = q_indexes q ! i\<rparr>"

definition entries :: "memQueue \<Rightarrow> entry list" where
  "entries q = map (\<lambda>k. entry_at q (slot q k)) [0..<q_size q]"

lemma queue_ok_lengths:
  assumes "queue_ok q"
  shows "length (q_queue q) = q_capacity q" "length (q_readyTime q) = q_capacity q"
    "length (q_tags q) = q_capacity q" "length (q_indexes q) = q_capacity q"
    "0 < q_capacity q" "q_size q \<le> q_capacity q" "q_front q < q_capacity q"
  using assms by (simp_all add: queue_ok_def)

lemma slot_less: "queue_ok q \<Longrightarrow> slot q k < q_capacity q"
  by (simp add: slot_def queue_ok_def)

lemma slot_0: "queue_ok q \<Longrightarrow> slot q 0 = q_front q"
  by (simp add: slot_def queue_ok_def)

lemma slot_size: "queue_ok q \<Longrightarrow> slot q (q_size q) = q_rear q"
  by (simp add: slot_def queue_ok_def)

lemma slot_next: "queue_ok q \<Longrightarrow> next_pos q (slot q k) = slot q (Suc k)"
  by (simp add: next_pos_def slot_def queue_ok_def mod_Suc)

lemma slot_inj:
  assumes "queue_ok q" "j < q_capacity q" "k < q_capacity q"
  shows "slot q j = slot q k \<longleftrightarrow> j = k"
proof
  assume "slot q j = slot q k"
  then have "(int (q_front q) + int j) mod int (q_capacity q) = (int (q_front q) + int k) mod int (q_capacity q)"
    by (simp add: slot_def flip: of_nat_add of_nat_mod)
  then have "int j mod int (q_capacity q) = int k mod int (q_capacity q)"
    by (metis add_diff_cancel_left' mod_diff_left_eq mod_diff_eq)
  then show "j = k" using assms by simp
qed simp

lemma slot_rear: "queue_ok q \<Longrightarrow> k < q_size q \<Longrightarrow> q_size q < q_capacity q \<Longrightarrow> slot q k \<noteq> q_rear q"
  using slot_inj [of q k "q_size q"] slot_size [of q] by simp

lemma length_entries [simp]: "length (entries q) = q_size q"
  by (simp add: entries_def)

lemma nth_entries [simp]: "k < q_size q \<Longrightarrow> entries q ! k = entry_at q (slot q k)"
  by (simp add: entries_def)

lemma entries_Nil_iff: "entries q = [] \<longleftrightarrow> q_size q = 0"
  by (simp add: entries_def)

section \<open>The abstract queue\<close>

text \<open>
  What a queue of the simulator promises on its list of entries. A request for a block that a
  prefetch in the queue already fetches is not queued again: a CPU request takes the place of
  the prefetch (and keeps its ready time), a prefetch is dropped. In all other cases the
  request goes to the end; it is ready \<open>latency\<close> cycles after it came (pipelined) or after
  the entry before it.
\<close>

definition same_block :: "u32 \<Rightarrow> u32 \<Rightarrow> entry \<Rightarrow> bool" where
  "same_block tag index e \<longleftrightarrow> e_tag e = tag \<and> e_index e = index"

definition last_dup :: "u32 \<Rightarrow> u32 \<Rightarrow> entry list \<Rightarrow> nat option" where
  "last_dup tag index es = fold (\<lambda>k d. if same_block tag index (es ! k) then Some k else d) [0..<length es] None"

definition ready_time :: "bool \<Rightarrow> u32 \<Rightarrow> u32 \<Rightarrow> entry list \<Rightarrow> u32" where
  "ready_time pipelined latency cycle es =
     (if pipelined \<or> es = [] then cycle + latency else latency + e_ready (last es))"

definition list_add :: "nat \<Rightarrow> bool \<Rightarrow> u32 \<Rightarrow> Request \<Rightarrow> u32 \<Rightarrow> u32 \<Rightarrow> u32 \<Rightarrow> entry list \<Rightarrow> bool \<times> entry list" where
  "list_add capacity pipelined latency req tag index cycle es =
     (if length es = capacity then (False, es)
      else
        let new = \<lparr>e_req = req, e_ready = ready_time pipelined latency cycle es, e_tag = tag, e_index = index\<rparr>
        in (True,
            case last_dup tag index es of
              None \<Rightarrow> es @ [new]
            | Some k \<Rightarrow> if fromCPU (e_req (es ! k)) then es @ [new]
                        else if fromCPU req then es[k := (es ! k)\<lparr>e_req := req\<rparr>]
                        else es))"

lemma fold_last_match:
  "fold (\<lambda>k d. if P k then Some k else d) [0..<n] None =
     (if \<exists>k < n. P k then Some (GREATEST k. k < n \<and> P k) else None)"
proof (induction n)
  case 0
  show ?case by simp
next
  case (Suc n)
  show ?case
  proof (cases "P n")
    case True
    then have "(GREATEST k. k < Suc n \<and> P k) = n" by (intro Greatest_equality) auto
    with True show ?thesis by auto
  next
    case False
    then have "(\<lambda>k. k < Suc n \<and> P k) = (\<lambda>k. k < n \<and> P k)" by (auto simp: less_Suc_eq)
    moreover have "(\<exists>k < Suc n. P k) = (\<exists>k < n. P k)" using False by (auto simp: less_Suc_eq)
    ultimately show ?thesis using False Suc by simp
  qed
qed

lemma last_dup_Some:
  assumes "last_dup tag index es = Some k"
  shows "k < length es" "same_block tag index (es ! k)"
    "\<And>j. k < j \<Longrightarrow> j < length es \<Longrightarrow> \<not> same_block tag index (es ! j)"
proof -
  let ?P = "\<lambda>k. k < length es \<and> same_block tag index (es ! k)"
  have ex: "\<exists>k. ?P k" and k: "k = (GREATEST k. ?P k)"
    using assms by (auto simp: last_dup_def fold_last_match split: if_splits)
  have b: "\<forall>y. ?P y \<longrightarrow> y \<le> length es" by simp
  have "?P k" unfolding k using ex b by (metis (no_types, lifting) GreatestI_ex_nat)
  then show "k < length es" "same_block tag index (es ! k)" by simp_all
  fix j assume "k < j" "j < length es"
  then show "\<not> same_block tag index (es ! j)"
    using Greatest_le_nat [of ?P j "length es"] b k by auto
qed

lemma last_dup_None: "last_dup tag index es = None \<longleftrightarrow> (\<forall>e \<in> set es. \<not> same_block tag index e)"
  by (simp add: last_dup_def fold_last_match all_set_conv_all_nth)

section \<open>The ring refines the abstract queue\<close>

lemma findDup_loop_eq:
  assumes ok: "queue_ok q" and room: "q_size q < q_capacity q" and "k \<le> q_size q"
  shows "findDup_loop q tag index (slot q k) d =
    Some (fold (\<lambda>j d. if same_block tag index (entries q ! j) then int (slot q j) else d) [k..<q_size q] d)"
  using assms(3)
proof (induction "q_size q - k" arbitrary: k d)
  case 0
  then have "k = q_size q" by simp
  then show ?case using ok by (subst findDup_loop.simps) (simp add: slot_size)
next
  case (Suc m)
  then have k: "k < q_size q" "Suc k \<le> q_size q" "m = q_size q - Suc k" by simp_all
  have "findDup_loop q tag index (slot q k) d = findDup_loop q tag index (slot q (Suc k))
      (if same_block tag index (entries q ! k) then int (slot q k) else d)"
    using k ok room slot_rear [OF ok k(1) room] slot_less [OF ok, of k] queue_ok_lengths(3) [OF ok]
    by (subst findDup_loop.simps) (simp add: slot_next same_block_def entry_at_def)
  also have "\<dots> = Some (fold (\<lambda>j d. if same_block tag index (entries q ! j) then int (slot q j) else d)
      [Suc k..<q_size q] (if same_block tag index (entries q ! k) then int (slot q k) else d))"
    by (rule Suc.hyps(1) [OF k(3) k(2)])
  finally show ?case using k by (simp add: upt_conv_Cons)
qed

lemma findDup_eq:
  assumes ok: "queue_ok q" and room: "q_size q < q_capacity q"
  shows "findDup q tag index = Some (case last_dup tag index (entries q) of
      None \<Rightarrow> -1 | Some k \<Rightarrow> int (slot q k))"
proof -
  let ?code = "\<lambda>d. case d of None \<Rightarrow> -1 | Some k \<Rightarrow> int (slot q k)"
  have "fold (\<lambda>j d. if P j then int (slot q j) else d) ks (?code d) =
      ?code (fold (\<lambda>j d. if P j then Some j else d) ks d)" for P ks d
  proof (induction ks arbitrary: d)
    case (Cons a ks)
    from Cons [of "if P a then Some a else d"] show ?case by (cases "P a") simp_all
  qed simp
  from this [of _ _ None] show ?thesis
    using findDup_loop_eq [OF ok room, of 0 tag index "-1"] ok
    by (simp add: findDup_def slot_0 last_dup_def)
qed

lemma entries_enqueue:
  assumes ok: "queue_ok q" and room: "q_size q < q_capacity q"
  shows "queue_ok (enqueue q req tag index cycle)"
    and "entries (enqueue q req tag index cycle) = entries q @
      [\<lparr>e_req = req, e_ready = ready_time (q_pipelined q) (q_latency q) cycle (entries q),
        e_tag = tag, e_index = index\<rparr>]"
proof -
  note len = queue_ok_lengths [OF ok]
  have rear: "q_rear q < q_capacity q" using slot_less [OF ok, of "q_size q"] slot_size [OF ok] by simp
  let ?q = "enqueue q req tag index cycle"
  have slot: "slot ?q = slot q" by (simp add: slot_def enqueue_def Let_def fun_eq_iff)
  show ok': "queue_ok ?q"
    using ok room slot_next [OF ok, of "q_size q"] slot_size [OF ok]
    by (simp add: queue_ok_def enqueue_def Let_def slot_def)
  have "q_readyTime q ! (if int (q_rear q) - 1 < 0 then q_capacity q - 1 else q_rear q - 1) = e_ready (last (entries q))"
    if "q_size q \<noteq> 0"
  proof -
    have "next_pos q (slot q (q_size q - 1)) = q_rear q"
      using slot_next [OF ok, of "q_size q - 1"] slot_size [OF ok] that by simp
    then have "(if int (q_rear q) - 1 < 0 then q_capacity q - 1 else q_rear q - 1) = slot q (q_size q - 1)"
      using slot_less [OF ok, of "q_size q - 1"] by (auto simp: next_pos_def split: if_splits)
    moreover have "last (entries q) = entry_at q (slot q (q_size q - 1))"
      using that by (simp add: last_conv_nth entries_Nil_iff)
    ultimately show ?thesis by (simp add: entry_at_def)
  qed
  then have new: "entry_at ?q (q_rear q) = \<lparr>e_req = req,
      e_ready = ready_time (q_pipelined q) (q_latency q) cycle (entries q), e_tag = tag, e_index = index\<rparr>"
    using rear len by (auto simp: entry_at_def enqueue_def Let_def ready_time_def entries_Nil_iff)
  have old: "entry_at ?q (slot q k) = entry_at q (slot q k)" if "k < q_size q" for k
    using slot_rear [OF ok that room] by (simp add: entry_at_def enqueue_def Let_def)
  have "q_size ?q = Suc (q_size q)" by (simp add: enqueue_def Let_def)
  then show "entries ?q = entries q @
      [\<lparr>e_req = req, e_ready = ready_time (q_pipelined q) (q_latency q) cycle (entries q),
        e_tag = tag, e_index = index\<rparr>]"
    using new old slot_size [OF ok] by (simp add: entries_def slot)
qed

lemma entries_replace:
  assumes ok: "queue_ok q" and k: "k < q_size q"
  shows "queue_ok (q\<lparr>q_queue := (q_queue q)[slot q k := req]\<rparr>)"
    and "entries (q\<lparr>q_queue := (q_queue q)[slot q k := req]\<rparr>) =
      (entries q)[k := (entries q ! k)\<lparr>e_req := req\<rparr>]"
proof -
  note len = queue_ok_lengths [OF ok]
  let ?q = "q\<lparr>q_queue := (q_queue q)[slot q k := req]\<rparr>"
  show "queue_ok ?q" using ok by (simp add: queue_ok_def)
  have slot: "slot ?q = slot q" by (simp add: slot_def fun_eq_iff)
  show "entries ?q = (entries q)[k := (entries q ! k)\<lparr>e_req := req\<rparr>]"
  proof (rule nth_equalityI)
    fix j assume "j < length (entries ?q)"
    then have j: "j < q_size q" by simp
    have "slot q j = slot q k \<longleftrightarrow> j = k" using slot_inj [OF ok, of j k] j k len by simp
    then show "entries ?q ! j = (entries q)[k := (entries q ! k)\<lparr>e_req := req\<rparr>] ! j"
      using j k len slot_less [OF ok] by (auto simp: slot entry_at_def nth_list_update)
  qed simp
qed

lemma add_refines:
  assumes ok: "queue_ok q" and geom: "wf_geom src"
  shows "\<exists>q'. add src q req cycle = Some (fst (list_add (q_capacity q) (q_pipelined q) (q_latency q)
      req (block_tag src (addr req)) (set_index src (addr req)) cycle (entries q)), q') \<and> queue_ok q' \<and>
    entries q' = snd (list_add (q_capacity q) (q_pipelined q) (q_latency q)
      req (block_tag src (addr req)) (set_index src (addr req)) cycle (entries q)) \<and>
    q_capacity q' = q_capacity q \<and> q_pipelined q' = q_pipelined q \<and> q_latency q' = q_latency q"
proof (cases "q_size q = q_capacity q")
  case True
  then show ?thesis using ok by (simp add: add_def list_add_def)
next
  case False
  note len = queue_ok_lengths [OF ok]
  let ?tag = "block_tag src (addr req)" and ?index = "set_index src (addr req)"
  have room: "q_size q < q_capacity q" using False len by simp
  have rear: "q_rear q < length (q_queue q)"
    using slot_less [OF ok, of "q_size q"] slot_size [OF ok] len by simp
  note enq = entries_enqueue [OF ok room]
  have enq_fields: "q_capacity (enqueue q req ?tag ?index cycle) = q_capacity q"
    "q_pipelined (enqueue q req ?tag ?index cycle) = q_pipelined q"
    "q_latency (enqueue q req ?tag ?index cycle) = q_latency q"
    by (simp_all add: enqueue_def Let_def)
  show ?thesis
  proof (cases "last_dup ?tag ?index (entries q)")
    case None
    then show ?thesis using False rear enq enq_fields
      by (simp add: add_def getIndex_wf [OF geom] getTag_wf [OF geom] findDup_eq [OF ok room] list_add_def)
  next
    case (Some k)
    then have k: "k < q_size q" using last_dup_Some(1) by fastforce
    have cpu: "fromCPU (q_queue q ! slot q k) = fromCPU (e_req (entries q ! k))"
      using k by (simp add: entry_at_def)
    show ?thesis using Some False k rear enq enq_fields cpu entries_replace [OF ok k] ok
      by (simp add: add_def getIndex_wf [OF geom] getTag_wf [OF geom] findDup_eq [OF ok room] list_add_def)
  qed
qed

lemma remove_refines:
  assumes ok: "queue_ok q" and ne: "entries q \<noteq> []"
  shows "fst (remove q)" "queue_ok (snd (remove q))" "entries (snd (remove q)) = tl (entries q)"
proof -
  from ne have size: "0 < q_size q" by (simp add: entries_Nil_iff)
  note len = queue_ok_lengths [OF ok]
  let ?q = "q\<lparr>q_size := q_size q - 1, q_front := next_pos q (q_front q)\<rparr>"
  have r: "remove q = (True, ?q)" using size by (simp add: remove_def)
  show "fst (remove q)" using r by simp
  have front: "next_pos q (q_front q) = slot q 1" using slot_next [OF ok, of 0] slot_0 [OF ok] by simp
  obtain m where m: "q_size q = Suc m" using size by (cases "q_size q") auto
  have "(slot q 1 + (q_size q - 1)) mod q_capacity q = (q_front q + q_size q) mod q_capacity q"
    unfolding m by (simp add: slot_def mod_add_left_eq)
  then show "queue_ok (snd (remove q))"
    using ok slot_less [OF ok, of 1] unfolding r by (simp add: queue_ok_def front) linarith
  have slot: "slot ?q k = slot q (Suc k)" for k
    unfolding front by (simp add: slot_def mod_add_left_eq)
  have "entry_at ?q = entry_at q" by (simp add: entry_at_def fun_eq_iff)
  then show "entries (snd (remove q)) = tl (entries q)"
    using size unfolding r
    by (intro nth_equalityI) (simp_all add: nth_tl slot [simplified])
qed

lemma remove_empty: "entries q = [] \<Longrightarrow> remove q = (False, q)"
  by (simp add: entries_Nil_iff remove_def)

lemma frontReady_refines:
  assumes "queue_ok q"
  shows "frontReady q cycle = Some (entries q \<noteq> [] \<and> e_ready (hd (entries q)) \<le> cycle)"
  using assms slot_0 [OF assms]
  by (cases "q_size q")
    (simp_all add: frontReady_def entries_Nil_iff hd_conv_nth queue_ok_def entry_at_def)

lemma getFront_refines:
  assumes "queue_ok q" "entries q \<noteq> []"
  shows "getFront q = Some (e_req (hd (entries q)))"
  using assms slot_0 [OF assms(1)]
  by (simp add: getFront_def entries_Nil_iff hd_conv_nth queue_ok_def entry_at_def)

lemma getSize_refines: "getSize q = length (entries q)"
  by (simp add: getSize_def)

lemma new_memQueue_ok:
  assumes "0 < cap"
  shows "queue_ok (new_memQueue cap lat pip wr nm)" "entries (new_memQueue cap lat pip wr nm) = []"
    "q_capacity (new_memQueue cap lat pip wr nm) = cap" "q_latency (new_memQueue cap lat pip wr nm) = lat"
    "q_pipelined (new_memQueue cap lat pip wr nm) = pip"
  using assms by (simp_all add: new_memQueue_def queue_ok_def entries_def)

text \<open>\<open>printQueue\<close> lists the entries of a queue that is not full, and nothing of a full one.\<close>

lemma printQueue_loop_eq:
  assumes ok: "queue_ok q" and room: "q_size q < q_capacity q" and "k \<le> q_size q"
  shows "printQueue_loop q (slot q k) out =
    Some (out @ map (\<lambda>e. (addr (e_req e), e_ready e)) (drop k (entries q)))"
  using assms(3)
proof (induction "q_size q - k" arbitrary: k out)
  case 0
  then have "k = q_size q" by simp
  then show ?case using ok by (subst printQueue_loop.simps) (simp add: slot_size)
next
  case (Suc m)
  then have k: "k < q_size q" "Suc k \<le> q_size q" "m = q_size q - Suc k" by simp_all
  have "printQueue_loop q (slot q k) out = printQueue_loop q (slot q (Suc k))
      (out @ [(addr (e_req (entries q ! k)), e_ready (entries q ! k))])"
    using k ok room slot_rear [OF ok k(1) room] slot_less [OF ok, of k] queue_ok_lengths(1) [OF ok]
    by (subst printQueue_loop.simps) (simp add: slot_next entry_at_def)
  also have "\<dots> = Some ((out @ [(addr (e_req (entries q ! k)), e_ready (entries q ! k))]) @
      map (\<lambda>e. (addr (e_req e), e_ready e)) (drop (Suc k) (entries q)))"
    by (rule Suc.hyps(1) [OF k(3) k(2)])
  finally show ?case using k by (simp add: Cons_nth_drop_Suc [symmetric])
qed

section \<open>The interface the simulator relies on\<close>

text \<open>
  The simulator only needs the requests of a queue, in order: what an operation does to them,
  and that no operation is undefined while the invariant holds. The lemmas of the locale count
  the CPU loads of a queue and carry predicates on its requests through the operations.
\<close>

locale request_queue =
  fixes src_ok :: "'s \<Rightarrow> bool"
    and inv :: "'q \<Rightarrow> bool"
    and reqs :: "'q \<Rightarrow> Request list"
    and add_op :: "'s \<Rightarrow> 'q \<Rightarrow> Request \<Rightarrow> u32 \<Rightarrow> (bool \<times> 'q) option"
    and remove_op :: "'q \<Rightarrow> bool \<times> 'q"
    and ready_op :: "'q \<Rightarrow> u32 \<Rightarrow> bool option"
    and front_op :: "'q \<Rightarrow> Request option"
  assumes add_defined: "src_ok s \<Longrightarrow> inv q \<Longrightarrow> \<exists>b q'. add_op s q r c = Some (b, q')"
    and add_inv: "src_ok s \<Longrightarrow> inv q \<Longrightarrow> add_op s q r c = Some (b, q') \<Longrightarrow> inv q'"
    and add_full: "src_ok s \<Longrightarrow> inv q \<Longrightarrow> add_op s q r c = Some (False, q') \<Longrightarrow> reqs q' = reqs q"
    and add_done: "src_ok s \<Longrightarrow> inv q \<Longrightarrow> add_op s q r c = Some (True, q') \<Longrightarrow>
      reqs q' = reqs q @ [r] \<or>
      fromCPU r \<and> (\<exists>k < length (reqs q). \<not> fromCPU (reqs q ! k) \<and> reqs q' = (reqs q)[k := r]) \<or>
      \<not> fromCPU r \<and> reqs q' = reqs q"
    and remove_reqs: "inv q \<Longrightarrow> reqs q \<noteq> [] \<Longrightarrow> reqs (snd (remove_op q)) = tl (reqs q)"
    and remove_inv: "inv q \<Longrightarrow> reqs q \<noteq> [] \<Longrightarrow> inv (snd (remove_op q))"
    and ready_defined: "inv q \<Longrightarrow> \<exists>b. ready_op q c = Some b"
    and ready_nonempty: "inv q \<Longrightarrow> ready_op q c = Some True \<Longrightarrow> reqs q \<noteq> []"
    and front_reqs: "inv q \<Longrightarrow> reqs q \<noteq> [] \<Longrightarrow> front_op q = Some (hd (reqs q))"
begin

definition loads :: "'q \<Rightarrow> nat" where
  "loads q = length (filter cpu_load (reqs q))"

lemma loads_0: "loads q = 0 \<longleftrightarrow> (\<forall>x \<in> set (reqs q). \<not> cpu_load x)"
  by (simp add: loads_def filter_empty_conv)

lemma loads_add_full:
  "src_ok s \<Longrightarrow> inv q \<Longrightarrow> add_op s q r c = Some (False, q') \<Longrightarrow> loads q' = loads q"
  by (simp add: loads_def add_full)

lemma loads_add_done:
  assumes "src_ok s" "inv q" "add_op s q r c = Some (True, q')"
  shows "loads q' = loads q + (if cpu_load r then 1 else 0)"
proof -
  consider (append) "reqs q' = reqs q @ [r]"
    | (replace) k where "k < length (reqs q)" "\<not> fromCPU (reqs q ! k)" "reqs q' = (reqs q)[k := r]" "fromCPU r"
    | (drop) "\<not> fromCPU r" "reqs q' = reqs q"
    using add_done [OF assms] by blast
  then show ?thesis
  proof cases
    case replace
    have "reqs q = take k (reqs q) @ reqs q ! k # drop (Suc k) (reqs q)"
      using replace(1) by (simp add: id_take_nth_drop)
    moreover have "reqs q' = take k (reqs q) @ r # drop (Suc k) (reqs q)"
      using replace(1,3) by (simp add: upd_conv_take_nth_drop)
    ultimately have "loads q = length (filter cpu_load (take k (reqs q) @ reqs q ! k # drop (Suc k) (reqs q)))"
      and "loads q' = length (filter cpu_load (take k (reqs q) @ r # drop (Suc k) (reqs q)))"
      by (simp_all only: loads_def)
    then show ?thesis using replace(2,4) by simp
  qed (simp_all add: loads_def)
qed

lemma loads_remove:
  assumes "inv q" "reqs q \<noteq> []"
  shows "loads q = (if cpu_load (hd (reqs q)) then 1 else 0) + loads (snd (remove_op q))"
  using assms by (cases "reqs q") (simp_all add: loads_def remove_reqs)

lemma all_add:
  assumes "src_ok s" "inv q" "add_op s q r c = Some (b, q')" "\<forall>x \<in> set (reqs q). P x" "P r"
  shows "\<forall>x \<in> set (reqs q'). P x"
proof (cases b)
  case True
  with assms(3) have "add_op s q r c = Some (True, q')" by simp
  from add_done [OF assms(1,2) this] assms(4,5) show ?thesis
    using set_update_subset_insert [of "reqs q" _ r] by fastforce
next
  case False
  with assms show ?thesis using add_full [OF assms(1,2)] by simp
qed

lemma all_remove:
  assumes "inv q" "reqs q \<noteq> []" "\<forall>x \<in> set (reqs q). P x"
  shows "\<forall>x \<in> set (reqs (snd (remove_op q))). P x"
  using assms by (cases "reqs q") (auto simp: remove_reqs)

lemma front_sat:
  assumes "inv q" "reqs q \<noteq> []" "\<forall>x \<in> set (reqs q). P x" "front_op q = Some r"
  shows "P r"
  using assms front_reqs [OF assms(1,2)] by auto

end

definition requests :: "memQueue \<Rightarrow> Request list" where
  "requests q = map e_req (entries q)"

interpretation mq: request_queue wf_geom queue_ok requests add remove frontReady getFront
proof (unfold_locales, goal_cases)
  case (1 s q r c)
  then show ?case using add_refines [of q s r c] by blast
next
  case (2 s q r c b q')
  then show ?case using add_refines [of q s r c] by auto
next
  case (3 s q r c q')
  then show ?case using add_refines [of q s r c]
    by (auto simp: requests_def list_add_def Let_def split: if_splits)
next
  case (4 s q r c q')
  let ?t = "block_tag s (addr r)" and ?i = "set_index s (addr r)"
  have eq: "entries q' = snd (list_add (q_capacity q) (q_pipelined q) (q_latency q) r ?t ?i c (entries q))"
    and "fst (list_add (q_capacity q) (q_pipelined q) (q_latency q) r ?t ?i c (entries q))"
    using add_refines [OF 4(2,1), of r c] 4(3) by auto
  then have room: "length (entries q) \<noteq> q_capacity q" by (auto simp: list_add_def)
  show ?case
  proof (cases "last_dup ?t ?i (entries q)")
    case None
    with eq room show ?thesis by (simp add: requests_def list_add_def)
  next
    case (Some k)
    with eq room last_dup_Some(1) [OF Some] show ?thesis
      by (auto simp: requests_def list_add_def map_update intro!: exI [of _ k])
  qed
next
  case (5 q)
  then show ?case by (simp add: requests_def remove_refines map_tl)
next
  case (6 q)
  then show ?case by (simp add: requests_def remove_refines)
next
  case (7 q c)
  then show ?case by (simp add: frontReady_refines)
next
  case (8 q c)
  then show ?case by (simp add: frontReady_refines requests_def)
next
  case (9 q)
  then show ?case by (simp add: getFront_refines requests_def hd_map)
qed

text \<open>
  A queue of bounded capacity that is served at the latest when the cycle counter, before it
  wraps, has its greatest value: what the progress of the simulator rests on.
\<close>

locale served_queue = request_queue +
  fixes cap :: "'b \<Rightarrow> nat"
  assumes cap_pos: "inv q \<Longrightarrow> 0 < cap q"
    and add_cap: "src_ok s \<Longrightarrow> inv q \<Longrightarrow> add_op s q r c = Some (b, q') \<Longrightarrow> cap q' = cap q"
    and remove_cap: "cap (snd (remove_op q)) = cap q"
    and add_refused: "src_ok s \<Longrightarrow> inv q \<Longrightarrow> add_op s q r c = Some (False, q') \<Longrightarrow> length (reqs q) = cap q"
    and ready_at_last: "inv q \<Longrightarrow> reqs q \<noteq> [] \<Longrightarrow> ready_op q (- 1) = Some True"
begin

definition len :: "'b \<Rightarrow> nat" where
  "len q = length (reqs q)"

lemma len_add:
  assumes "src_ok s" "inv q" "add_op s q r c = Some (True, q')"
  shows "len q' \<le> len q + 1"
  using add_done [OF assms] by (auto simp: len_def)

lemma len_add_mono:
  assumes "src_ok s" "inv q" "add_op s q r c = Some (b, q')"
  shows "len q \<le> len q'"
proof (cases b)
  case True
  with assms have "add_op s q r c = Some (True, q')" by simp
  from add_done [OF assms(1,2) this] show ?thesis by (auto simp: len_def)
next
  case False
  with assms show ?thesis using add_full [OF assms(1,2)] by (simp add: len_def)
qed

lemma len_refused:
  assumes "src_ok s" "inv q" "add_op s q r c = Some (False, q')"
  shows "len q' = cap q" "len q = cap q" "len q' > 0"
  using add_full [OF assms] add_refused [OF assms] cap_pos [OF assms(2)] by (simp_all add: len_def)

lemma refused_nonempty:
  "src_ok s \<Longrightarrow> inv q \<Longrightarrow> add_op s q r c = Some (False, q') \<Longrightarrow> reqs q' \<noteq> []"
  using len_refused(3) [of s q r c q'] by (auto simp: len_def)

lemma len_remove: "inv q \<Longrightarrow> reqs q \<noteq> [] \<Longrightarrow> len q = Suc (len (snd (remove_op q)))"
  by (cases "reqs q") (simp_all add: len_def remove_reqs)

lemma len_0: "len q = 0 \<longleftrightarrow> reqs q = []"
  by (simp add: len_def)

lemma loads_le_len: "loads q \<le> len q"
  by (simp add: len_def loads_def)

end

interpretation mq: served_queue wf_geom queue_ok requests add remove frontReady getFront q_capacity
proof (unfold_locales, goal_cases)
  case (1 q)
  then show ?case by (simp add: queue_ok_def)
next
  case (2 s q r c b q')
  then show ?case using add_refines [OF 2(2,1), of r c] by auto
next
  case (3 q)
  then show ?case by (simp add: remove_def)
next
  case (4 s q r c q')
  then show ?case using add_refines [OF 4(2,1), of r c]
    by (auto simp: list_add_def requests_def Let_def split: if_splits)
next
  case (5 q)
  then show ?case by (simp add: frontReady_refines requests_def)
qed

section \<open>Properties\<close>

lemma small_geom: "wf_geom (small_cache wa)"
  using small_cache_ok [of wa] by (simp add: cache_ok_def)

text \<open>
  C6: \<open>add\<close> on a well-formed ring is never undefined, its search for a duplicate ends, it keeps the
  ring well-formed, and it does to the list of entries what the abstract queue does: refuse
  when full, merge with a queued prefetch of the same block, append otherwise.
\<close>

theorem add_refines_list_add:
  assumes "queue_ok q" "wf_geom src"
  shows "\<exists>b q'. add src q req cycle = Some (b, q') \<and> queue_ok q' \<and>
    list_add (q_capacity q) (q_pipelined q) (q_latency q) req (block_tag src (addr req)) (set_index src (addr req))
      cycle (entries q) = (b, entries q') \<and>
    q_capacity q' = q_capacity q \<and> q_pipelined q' = q_pipelined q \<and> q_latency q' = q_latency q"
  using add_refines [OF assms, of req cycle] by (auto simp: prod_eq_iff)

theorem add_refines_list_add_witness:
  "\<exists>b q'. add (small_cache True) (new_memQueue 3 20 True False CHR ''b'') zero_request 7 = Some (b, q') \<and> queue_ok q' \<and>
    list_add 3 True 20 zero_request (block_tag (small_cache True) 0) (set_index (small_cache True) 0) 7 [] = (b, entries q')"
  using add_refines_list_add [OF new_memQueue_ok(1) [of 3 20 True False "CHR ''b''"] small_geom [of True], of zero_request 7]
    new_memQueue_ok [of 3 20 True False "CHR ''b''"]
  by (auto simp: zero_request_def)

text \<open>
  C11: The other operations of the ring are those of the list of entries: \<open>remove\<close> drops the first
  entry and fails on the empty queue, \<open>frontReady\<close> and \<open>getFront\<close> look at the first entry,
  \<open>getSize\<close> is the length.
\<close>

theorem ring_refines_list:
  assumes "queue_ok q"
  shows "queue_ok (snd (remove q)) \<and> entries (snd (remove q)) = tl (entries q) \<and>
    (fst (remove q) \<longleftrightarrow> entries q \<noteq> []) \<and>
    frontReady q cycle = Some (entries q \<noteq> [] \<and> e_ready (hd (entries q)) \<le> cycle) \<and>
    (entries q \<noteq> [] \<longrightarrow> getFront q = Some (e_req (hd (entries q)))) \<and>
    getSize q = length (entries q)"
  using assms remove_refines [OF assms] remove_empty [of q] frontReady_refines [OF assms]
    getFront_refines [OF assms] getSize_refines [of q]
  by (cases "entries q = []") auto

theorem ring_refines_list_witness:
  "entries (snd (remove (new_memQueue 2 50 False False CHR ''c''))) = [] \<and>
    frontReady (new_memQueue 2 50 False False CHR ''c'') 9 = Some False"
  using ring_refines_list [OF new_memQueue_ok(1) [of 2 50 False False "CHR ''c''"], of 9]
    new_memQueue_ok(2) [of 2 50 False False "CHR ''c''"]
  by simp

text \<open>Several removals in a row.\<close>

fun remove_n :: "nat \<Rightarrow> memQueue \<Rightarrow> memQueue" where
  "remove_n 0 q = q"
| "remove_n (Suc n) q = remove_n n (snd (remove q))"

lemma remove_n_entries:
  "queue_ok q \<Longrightarrow> n \<le> length (entries q) \<Longrightarrow> queue_ok (remove_n n q) \<and> entries (remove_n n q) = drop n (entries q)"
proof (induction n arbitrary: q)
  case (Suc n)
  then have ne: "entries q \<noteq> []" by (auto simp: entries_Nil_iff)
  note r = remove_refines [OF Suc.prems(1) ne]
  have "length (entries (snd (remove q))) = length (entries q) - 1" by (simp only: r(3) length_tl)
  then have "n \<le> length (entries (snd (remove q)))" using Suc.prems(2) by linarith
  from Suc.IH [OF r(2) this] show ?case using r(3) by (simp add: drop_Suc)
qed simp

text \<open>
  First in, first out: a request that \<open>add\<close> appends (no entry has its block) is at the front,
  unchanged, after exactly as many removals as there were entries before it, and its ready
  time is \<open>latency\<close> cycles after it came (pipelined) or after the entry before it.
\<close>

lemma queue_fifo:
  assumes "queue_ok q" "wf_geom src" "getSize q < q_capacity q"
    and "\<forall>e \<in> set (entries q). \<not> same_block (block_tag src (addr req)) (set_index src (addr req)) e"
  shows "\<exists>q'. add src q req cycle = Some (True, q') \<and> getFront (remove_n (getSize q) q') = Some req \<and>
    e_ready (hd (entries (remove_n (getSize q) q'))) =
      (if q_pipelined q \<or> entries q = [] then cycle + q_latency q else q_latency q + e_ready (last (entries q)))"
proof -
  obtain b q' where q': "add src q req cycle = Some (b, q')" "queue_ok q'"
    and eq: "list_add (q_capacity q) (q_pipelined q) (q_latency q) req (block_tag src (addr req)) (set_index src (addr req))
      cycle (entries q) = (b, entries q')"
    using add_refines [OF assms(1,2), of req cycle] by (auto simp: prod_eq_iff)
  have "last_dup (block_tag src (addr req)) (set_index src (addr req)) (entries q) = None"
    using assms(4) by (simp add: last_dup_None)
  then have b: "b" and es: "entries q' = entries q @
      [\<lparr>e_req = req, e_ready = ready_time (q_pipelined q) (q_latency q) cycle (entries q),
        e_tag = block_tag src (addr req), e_index = set_index src (addr req)\<rparr>]"
    using eq assms(3) by (auto simp: list_add_def getSize_def)
  have n: "getSize q = length (entries q)" by (rule getSize_refines)
  have "length (entries q) \<le> length (entries q')" using es by simp
  from remove_n_entries [OF q'(2) this] es n
  have r: "queue_ok (remove_n (getSize q) q')" "entries (remove_n (getSize q) q') =
      [\<lparr>e_req = req, e_ready = ready_time (q_pipelined q) (q_latency q) cycle (entries q),
        e_tag = block_tag src (addr req), e_index = set_index src (addr req)\<rparr>]"
    by (simp_all del: length_entries)
  then show ?thesis using q'(1) b getFront_refines [OF r(1)] by (simp add: ready_time_def)
qed

lemma queue_fifo_witness:
  "\<exists>q'. add (small_cache True) (new_memQueue 3 20 False False CHR ''c'') zero_request 7 = Some (True, q') \<and>
    getFront (remove_n 0 q') = Some zero_request"
  using queue_fifo [OF new_memQueue_ok(1) [of 3 20 False False "CHR ''c''"] small_geom [of True], of zero_request 7]
    new_memQueue_ok [of 3 20 False False "CHR ''c''"]
  by (auto simp: getSize_refines)

text \<open>
  \<open>printQueue\<close> ends; it lists address and ready time of all entries of a queue that is not full,
  but of a full queue it lists nothing, because front and rear are then equal.
\<close>

theorem printQueue_lists:
  assumes "queue_ok q"
  shows "printQueue q = Some (if getSize q < q_capacity q
    then map (\<lambda>e. (addr (e_req e), e_ready e)) (entries q) else [])"
proof (cases "q_size q < q_capacity q")
  case True
  then show ?thesis using printQueue_loop_eq [OF assms True, of 0 "[]"] slot_0 [OF assms]
    by (simp add: printQueue_def getSize_def)
next
  case False
  then have "q_size q = q_capacity q" using queue_ok_lengths(6) [OF assms] by simp
  then have "q_front q = q_rear q" using assms by (simp add: queue_ok_def)
  then show ?thesis using False
    by (simp add: printQueue_def getSize_def) (subst printQueue_loop.simps, simp)
qed

theorem printQueue_lists_witness: "printQueue (new_memQueue 2 50 False False CHR ''c'') = Some []"
  using printQueue_lists [OF new_memQueue_ok(1) [of 2 50 False False "CHR ''c''"]]
    new_memQueue_ok(2) [of 2 50 False False "CHR ''c''"]
  by simp

end
