(* ===== verification/CpuModel.thy ===== *)
theory CpuModel
  imports MemSim TextIO
begin

text \<open>
  The trace-driven CPU of \<open>CPU.C\<close>, with the reader of the trace file and the writer of it,
  the recording functions of \<open>memtracer.cpp\<close>. The open trace file is the list of the characters
  that are still to be read. What C++ leaves uninitialised is an argument of the constructor.
\<close>

section \<open>\<open>fscanf(trace, "%c %x %x %u\n")\<close>\<close>

text \<open>
  A white-space directive skips white space; \<open>%c\<close> takes one character; \<open>%x\<close> and \<open>%u\<close> skip
  white space and take an optional sign, for \<open>%x\<close> an optional prefix \<open>0x\<close>, and at least one
  digit. The value is stored in 32 bits.
\<close>

fun drop_0x :: "string \<Rightarrow> string" where
  "drop_0x (z # x # s) = (if z = CHR ''0'' \<and> (x = CHR ''x'' \<or> x = CHR ''X'') then s else z # x # s)"
| "drop_0x s = s"

definition scan_unsigned :: "(char \<Rightarrow> nat option) \<Rightarrow> nat \<Rightarrow> (string \<Rightarrow> string) \<Rightarrow> string \<Rightarrow> string + (u32 \<times> string)" where
  "scan_unsigned dig base prefix s =
     (case drop_sign (skip_space s) of (neg, s1) \<Rightarrow>
        (case scan_nat dig base (prefix s1) of
           Inl rest \<Rightarrow> Inl rest
         | Inr (n, rest) \<Rightarrow> Inr (if neg then - of_nat n else of_nat n, rest)))"

definition scan_x :: "string \<Rightarrow> string + (u32 \<times> string)" where
  "scan_x = scan_unsigned hex_digit 16 drop_0x"

definition scan_u :: "string \<Rightarrow> string + (u32 \<times> string)" where
  "scan_u = scan_unsigned dec_digit 10 (\<lambda>s. s)"

text \<open>The whole format: the four values if all conversions succeed, and the rest of the input.\<close>

definition fscanf_line :: "string \<Rightarrow> (char \<times> u32 \<times> u32 \<times> u32) option \<times> string" where
  "fscanf_line s =
     (case s of [] \<Rightarrow> (None, [])
      | ld # s1 \<Rightarrow>
        (case scan_x (skip_space s1) of Inl rest \<Rightarrow> (None, rest)
         | Inr (pc', s2) \<Rightarrow>
           (case scan_x (skip_space s2) of Inl rest \<Rightarrow> (None, rest)
            | Inr (addr', s3) \<Rightarrow>
              (case scan_u (skip_space s3) of Inl rest \<Rightarrow> (None, rest)
               | Inr (cycles, s4) \<Rightarrow> (Some (ld, pc', addr', cycles), skip_space s4)))))"

section \<open>The CPU\<close>

record cpu =
  trace :: string
  currReq :: Request
  cpu_state :: cpuState
  readyAt :: u32
  cpu_done :: bool
  nRequests :: u32
  hitsL1 :: u32
  hitsL2 :: u32
  totalAccessTime :: u64

definition readNextRequest :: "cpu \<Rightarrow> u32 \<Rightarrow> cpu" where
  "readNextRequest p cycle =
     (case fscanf_line (trace p) of
        (Some (ld, pc', addr', cycles_since_last), rest) \<Rightarrow>
          p\<lparr>trace := rest,
            currReq := (currReq p)\<lparr>addr := addr', load := (ld = CHR ''l''), pc := pc',
              HitL1 := False, HitL2 := False\<rparr>,
            readyAt := cycle + cycles_since_last + 1,
            nRequests := nRequests p + 1\<rparr>
      | (None, rest) \<Rightarrow> p\<lparr>trace := rest, cpu_done := True\<rparr>)"

text \<open>
  The constructor. \<open>_currReq\<close> (but for \<open>fromCPU\<close>) and \<open>_readyAt\<close> are not initialised: \<open>junk\<close>.
\<close>

definition new_cpu :: "Request \<Rightarrow> u32 \<Rightarrow> string \<Rightarrow> cpu" where
  "new_cpu junk junkReady file =
     readNextRequest \<lparr>trace = file, currReq = junk\<lparr>fromCPU := True\<rparr>, cpu_state = IDLE, readyAt = junkReady,
       cpu_done = False, nRequests = 0, hitsL1 = 0, hitsL2 = 0, totalAccessTime = 0\<rparr> 0"

definition isDone :: "cpu \<Rightarrow> bool" where
  "isDone p = cpu_done p"

definition issueRequest :: "cpu \<Rightarrow> u32 \<Rightarrow> Request \<times> cpu" where
  "issueRequest p cycle =
     (let p' = p\<lparr>currReq := (currReq p)\<lparr>issuedAt := cycle\<rparr>\<rparr> in (currReq p', p'))"

definition getRequest :: "cpu \<Rightarrow> Request" where
  "getRequest p = currReq p"

definition completeRequest :: "cpu \<Rightarrow> u32 \<Rightarrow> cpu" where
  "completeRequest p cycle =
     (let p1 = p\<lparr>cpu_state := IDLE,
            totalAccessTime := totalAccessTime p + ucast (cycle - issuedAt (currReq p) + 1)\<rparr>;
          p2 = (if HitL1 (currReq p1) then p1\<lparr>hitsL1 := hitsL1 p1 + 1\<rparr>
                else if HitL2 (currReq p1) then p1\<lparr>hitsL2 := hitsL2 p1 + 1\<rparr> else p1)
      in readNextRequest p2 cycle)"

definition hitL1 :: "cpu \<Rightarrow> bool \<Rightarrow> cpu" where
  "hitL1 p isHit = p\<lparr>currReq := (currReq p)\<lparr>HitL1 := isHit\<rparr>\<rparr>"

definition loadHitL2 :: "cpu \<Rightarrow> bool \<Rightarrow> cpu" where
  "loadHitL2 p isHit = p\<lparr>currReq := (currReq p)\<lparr>HitL2 := isHit\<rparr>\<rparr>"

definition storeHitL2 :: "cpu \<Rightarrow> bool \<Rightarrow> cpu" where
  "storeHitL2 p isHit = (if isHit then p\<lparr>hitsL2 := hitsL2 p + 1\<rparr> else p)"

definition getStatus :: "cpu \<Rightarrow> u32 \<Rightarrow> cpuState \<times> cpu" where
  "getStatus p cycle =
     (let p' = (if cpu_state p = IDLE \<and> cycle \<ge> readyAt p then p\<lparr>cpu_state := READY\<rparr> else p)
      in (cpu_state p', p'))"

definition setStatus :: "cpu \<Rightarrow> cpuState \<Rightarrow> cpu" where
  "setStatus p new_state = p\<lparr>cpu_state := new_state\<rparr>"

text \<open>The reported rates are quotients of these counters; \<open>getHitRateL2\<close> subtracts in 32 bits.\<close>

definition getHitRateL1 :: "cpu \<Rightarrow> nat \<times> nat" where
  "getHitRateL1 p = (unat (hitsL1 p), unat (nRequests p))"

definition getHitRateL2 :: "cpu \<Rightarrow> nat \<times> nat" where
  "getHitRateL2 p = (unat (hitsL2 p), unat (nRequests p - hitsL1 p))"

definition getAMAT :: "cpu \<Rightarrow> nat \<times> nat" where
  "getAMAT p = (unat (totalAccessTime p), unat (nRequests p))"

section \<open>The writer of the trace\<close>

text \<open>
  \<open>RecordMemRead\<close> and \<open>RecordMemWrite\<close> of \<open>memtracer.cpp\<close> write one line per memory
  operation. \<open>%p\<close> prints a non-null pointer as \<open>0x\<close> and lower-case hexadecimal digits.
\<close>

definition show_p :: "u32 \<Rightarrow> string" where
  "show_p w = (if w = 0 then ''(nil)'' else ''0x'' @ show_base 16 (unat w))"

definition show_u :: "u32 \<Rightarrow> string" where
  "show_u w = show_base 10 (unat w)"

definition trace_line :: "char \<Rightarrow> u32 \<Rightarrow> u32 \<Rightarrow> u32 \<Rightarrow> string" where
  "trace_line ld ip a sincelast =
     [ld] @ '' '' @ show_p ip @ '' '' @ show_p a @ '' '' @ show_u sincelast @ [CHR 0x0A]"

section \<open>Reading back what was written\<close>

lemma scan_u_show:
  assumes "s = [] \<or> dec_digit (hd s) = None"
  shows "scan_u (show_u w @ s) = Inr (w, s)"
proof -
  obtain d t where dt: "d < 10" "show_u w = hex_char d # t"
    using show_base_hd [of 10 "unat w"] by (auto simp: show_u_def)
  then have plain: "drop_sign (skip_space (show_u w @ s)) = (False, show_u w @ s)"
    using hex_char_plain [of d] by (simp add: skip_space_def)
  have "scan_digits dec_digit 10 0 (show_u w @ s) = scan_digits dec_digit 10 (unat w) s"
    using show_base_scan [of 10 dec_digit 0 "unat w" s, OF dec_digit_char] by (simp add: show_u_def)
  also have "\<dots> = (unat w, s)" using assms by (cases s) auto
  finally show ?thesis
    using plain dt dec_digit_char [of d] by (simp add: scan_u_def scan_unsigned_def scan_nat_def)
qed

lemma scan_x_show:
  assumes "w \<noteq> 0" and "s = [] \<or> hex_digit (hd s) = None"
  shows "scan_x (show_p w @ s) = Inr (w, s)"
proof -
  obtain d t where dt: "d < 16" "show_base 16 (unat w) = hex_char d # t"
    using show_base_hd [of 16 "unat w"] by auto
  have "scan_digits hex_digit 16 0 (show_base 16 (unat w) @ s) = scan_digits hex_digit 16 (unat w) s"
    using show_base_scan [of 16 hex_digit 0 "unat w" s, OF hex_digit_char] by simp
  also have "\<dots> = (unat w, s)" using assms(2) by (cases s) auto
  finally show ?thesis
    using assms(1) dt hex_digit_char [of d]
    by (simp add: scan_x_def scan_unsigned_def scan_nat_def show_p_def skip_space_def isspace_def)
qed

lemma fscanf_line_show:
  assumes "ip \<noteq> 0" "a \<noteq> 0" and "rest = [] \<or> \<not> isspace (hd rest)"
  shows "fscanf_line (trace_line ld ip a n @ rest) = (Some (ld, ip, a, n), rest)"
proof -
  have sp: "skip_space ('' '' @ show_p w @ s) = show_p w @ s" if "w \<noteq> 0" for w s
    using that by (simp add: skip_space_def show_p_def isspace_def)
  obtain d t where dt: "d < 10" "show_u n = hex_char d # t"
    using show_base_hd [of 10 "unat n"] by (auto simp: show_u_def)
  have spu: "skip_space ('' '' @ show_u n @ s) = show_u n @ s" for s
    using dt hex_char_plain(1) [of d] by (simp add: skip_space_def isspace_blank)
  have nl: "skip_space (CHR 0x0A # rest) = rest"
    using assms(3) by (cases rest) (auto simp: skip_space_def isspace_def)
  show ?thesis
    using scan_x_show [OF assms(1), of "'' '' @ show_p a @ '' '' @ show_u n @ CHR 0x0A # rest"]
      scan_x_show [OF assms(2), of "'' '' @ show_u n @ CHR 0x0A # rest"]
      scan_u_show [of "CHR 0x0A # rest" n] sp [OF assms(1)] sp [OF assms(2)] spu nl
    by (simp add: fscanf_line_def trace_line_def hex_digit_def dec_digit_def)
qed

section \<open>The trace gets shorter with each request\<close>

lemma length_skip_space: "length (skip_space s) \<le> length s"
  by (simp add: skip_space_def length_dropWhile_le)

lemma scan_digits_rest: "length (snd (scan_digits dig b acc s)) \<le> length s"
  by (induction dig b acc s rule: scan_digits.induct) (auto split: option.split)

definition scan_rest :: "string + ('a \<times> string) \<Rightarrow> string" where
  "scan_rest r = (case r of Inl rest \<Rightarrow> rest | Inr (_, rest) \<Rightarrow> rest)"

lemma drop_sign_length: "length (snd (drop_sign s)) \<le> length s"
  by (cases s) auto

lemma scan_unsigned_rest:
  assumes "\<And>s. length (prefix s) \<le> length s"
  shows "length (scan_rest (scan_unsigned dig b prefix s)) \<le> length s"
proof -
  obtain neg s1 where s1: "drop_sign (skip_space s) = (neg, s1)" by force
  then have "length s1 \<le> length s"
    using length_skip_space [of s] drop_sign_length [of "skip_space s"] by simp
  moreover have "length (scan_rest (scan_nat dig b t)) \<le> length t" for t
    using scan_digits_rest [of dig b 0 t]
    by (auto simp: scan_nat_def scan_rest_def split: list.split prod.split)
  ultimately have "length (scan_rest (scan_nat dig b (prefix s1))) \<le> length s"
    using assms [of s1] le_trans by blast
  then show ?thesis
    using s1 by (auto simp: scan_unsigned_def scan_rest_def split: sum.splits prod.splits)
qed

lemma drop_0x_length: "length (drop_0x s) \<le> length s"
  by (cases s rule: drop_0x.cases) auto

lemma scan_x_rest: "scan_rest (scan_x s) = r \<Longrightarrow> length r \<le> length s"
  using scan_unsigned_rest [of drop_0x hex_digit 16 s] drop_0x_length by (auto simp: scan_x_def)

lemma scan_u_rest: "scan_rest (scan_u s) = r \<Longrightarrow> length r \<le> length s"
  using scan_unsigned_rest [of "\<lambda>s. s" dec_digit 10 s] by (auto simp: scan_u_def)

lemma fscanf_line_rest:
  assumes "s \<noteq> []"
  shows "length (snd (fscanf_line s)) < length s"
proof -
  obtain ld s1 where s: "s = ld # s1" using assms by (cases s) auto
  have x: "length r \<le> length t" if "scan_rest (scan_x (skip_space t)) = r" for r t
    using scan_x_rest [OF that] length_skip_space [of t] by simp
  have u: "length r \<le> length t" if "scan_rest (scan_u (skip_space t)) = r" for r t
    using scan_u_rest [OF that] length_skip_space [of t] by simp
  show ?thesis
  proof (cases "scan_x (skip_space s1)")
    case (Inl r1)
    then show ?thesis using x [of s1 r1] by (simp add: s fscanf_line_def scan_rest_def)
  next
    case (Inr a)
    then obtain v2 s2 where 2: "scan_x (skip_space s1) = Inr (v2, s2)" by (cases a) auto
    then have l2: "length s2 \<le> length s1" using x [of s1 s2] by (simp add: scan_rest_def)
    show ?thesis
    proof (cases "scan_x (skip_space s2)")
      case (Inl r)
      then show ?thesis using l2 2 x [of s2 r] by (simp add: s fscanf_line_def scan_rest_def)
    next
      case (Inr a)
      then obtain v3 s3 where 3: "scan_x (skip_space s2) = Inr (v3, s3)" by (cases a) auto
      then have l3: "length s3 \<le> length s2" using x [of s2 s3] by (simp add: scan_rest_def)
      show ?thesis
        using l2 l3 2 3 u [of s3] length_skip_space
        by (auto simp: s fscanf_line_def scan_rest_def split: sum.splits prod.splits)
          (metis le_imp_less_Suc le_trans)+
    qed
  qed
qed

text \<open>Characters still to be read, and one for the end of the file.\<close>

definition trace_left :: "cpu \<Rightarrow> nat" where
  "trace_left p = length (trace p) + (if cpu_done p then 0 else 1)"

lemma readNextRequest_fields [simp]:
  "cpu_state (readNextRequest p c) = cpu_state p"
  "fromCPU (currReq (readNextRequest p c)) = fromCPU (currReq p)"
  by (simp_all add: readNextRequest_def split: prod.split option.split)

lemma completeRequest_fields [simp]:
  "cpu_state (completeRequest p c) = IDLE"
  "fromCPU (currReq (completeRequest p c)) = fromCPU (currReq p)"
  by (simp_all add: completeRequest_def Let_def)

lemma readNextRequest_left:
  assumes "\<not> cpu_done p"
  shows "trace_left (readNextRequest p c) < trace_left p"
proof (cases "trace p = []")
  case True
  then show ?thesis using assms by (simp add: trace_left_def readNextRequest_def fscanf_line_def)
next
  case False
  from fscanf_line_rest [OF this] show ?thesis
    using assms by (auto simp: trace_left_def readNextRequest_def split: prod.split option.split)
qed

lemma completeRequest_left: "\<not> cpu_done p \<Longrightarrow> trace_left (completeRequest p c) < trace_left p"
  unfolding completeRequest_def Let_def
  by (rule less_le_trans [OF readNextRequest_left]) (auto simp: trace_left_def)

lemma cpu_updates [simp]:
  "cpu_state (hitL1 p b) = cpu_state p" "cpu_done (hitL1 p b) = cpu_done p" "trace_left (hitL1 p b) = trace_left p"
  "currReq (hitL1 p b) = (currReq p)\<lparr>HitL1 := b\<rparr>"
  "cpu_state (loadHitL2 p b) = cpu_state p" "cpu_done (loadHitL2 p b) = cpu_done p" "trace_left (loadHitL2 p b) = trace_left p"
  "currReq (loadHitL2 p b) = (currReq p)\<lparr>HitL2 := b\<rparr>"
  "cpu_state (storeHitL2 p b) = cpu_state p" "cpu_done (storeHitL2 p b) = cpu_done p" "trace_left (storeHitL2 p b) = trace_left p"
  "currReq (storeHitL2 p b) = currReq p"
  "cpu_state (setStatus p st) = st" "cpu_done (setStatus p st) = cpu_done p" "trace_left (setStatus p st) = trace_left p"
  "currReq (setStatus p st) = currReq p"
  by (simp_all add: hitL1_def loadHitL2_def storeHitL2_def setStatus_def trace_left_def)

end
