(* ===== verification/BitArray.thy ===== *)
theory BitArray
  imports Prelude
begin

text \<open>
  The bit arrays of the prefetchers: \<open>checkBit\<close>, \<open>markBit\<close> and \<open>unmarkBit\<close> of \<open>prefetcher.C\<close>
  and \<open>checkPrefetched\<close>, \<open>markPrefetched\<close>, \<open>markUnPrefetched\<close>, \<open>bitArrayTest\<close> of
  \<open>tagged/prefetcher.C\<close>. A \<open>char\<close> is a signed 8-bit word, as on the x86 targets of the build; the
  arithmetic is done in \<open>int\<close> and truncated when it is stored in a \<open>char\<close>. The size argument is
  the length of the array in bytes, so every position computed is in range
  (\<open>bit_position_in_range\<close>).
\<close>

type_synonym byte = "8 word"

section \<open>Operations\<close>

definition bit_index :: "u32 \<Rightarrow> nat \<Rightarrow> nat" where
  "bit_index a sz = unat a mod sz"

definition char_index :: "u32 \<Rightarrow> nat \<Rightarrow> nat" where
  "char_index a sz = bit_index a sz div 8"

definition rem_bits :: "u32 \<Rightarrow> nat \<Rightarrow> nat" where
  "rem_bits a sz = bit_index a sz - char_index a sz * 8"

definition selector :: "u32 \<Rightarrow> nat \<Rightarrow> byte" where
  "selector a sz = push_bit (rem_bits a sz) 1"

definition checkBit :: "u32 \<Rightarrow> byte list \<Rightarrow> nat \<Rightarrow> bool" where
  "checkBit a bitArray sz =
     (let section = bitArray ! char_index a sz; result = and section (selector a sz)
      in 0 <s result)"

definition markBit :: "u32 \<Rightarrow> byte list \<Rightarrow> nat \<Rightarrow> byte list" where
  "markBit a bitArray sz =
     bitArray[char_index a sz := or (bitArray ! char_index a sz) (selector a sz)]"

definition unmarkBit :: "u32 \<Rightarrow> byte list \<Rightarrow> nat \<Rightarrow> byte list" where
  "unmarkBit a bitArray sz =
     bitArray[char_index a sz := and (bitArray ! char_index a sz) (not (selector a sz))]"

section \<open>The array as a table of bits\<close>

lemma bit_position_in_range:
  assumes "0 < sz" "length bitArray = sz"
  shows "char_index a sz < length bitArray" "rem_bits a sz < 8"
proof -
  have "bit_index a sz < sz" using assms(1) by (simp add: bit_index_def)
  then show "char_index a sz < length bitArray"
    using assms by (simp add: char_index_def div_less_iff_less_mult)
  show "rem_bits a sz < 8" by (simp add: rem_bits_def char_index_def minus_div_mult_eq_mod)
qed

lemma rem_bits_mod: "rem_bits a sz = bit_index a sz mod 8"
  by (simp add: rem_bits_def char_index_def minus_div_mult_eq_mod)

lemma bit_selector: "bit (selector a sz) n \<longleftrightarrow> n = rem_bits a sz"
  by (auto simp: selector_def bit_simps rem_bits_mod)

text \<open>
  The comparison \<open>result > 0\<close> is signed: the top bit of a byte is stored but never seen.
\<close>

lemma and_selector: "and w (selector a sz) = (if bit w (rem_bits a sz) then selector a sz else 0)"
  by (rule bit_eqI) (auto simp: bit_simps bit_selector)

lemma selector_positive: "0 <s selector a sz \<longleftrightarrow> rem_bits a sz \<noteq> 7"
proof -
  have "rem_bits a sz \<in> {0..<8}" by (simp add: rem_bits_mod)
  then have "rem_bits a sz \<in> set [0, 1, 2, 3, 4, 5, 6, 7]" by auto
  then show ?thesis by (auto simp: selector_def word_sless_alt)
qed

lemma checkBit_iff:
  "checkBit a bitArray sz \<longleftrightarrow>
     bit (bitArray ! char_index a sz) (rem_bits a sz) \<and> rem_bits a sz \<noteq> 7"
  by (simp add: checkBit_def and_selector selector_positive)

lemma same_position:
  "char_index a sz = char_index b sz \<and> rem_bits a sz = rem_bits b sz \<longleftrightarrow>
   bit_index a sz = bit_index b sz"
  by (metis char_index_def div_mult_mod_eq rem_bits_mod)

lemma length_markBit [simp]: "length (markBit a arr sz) = length arr"
  by (simp add: markBit_def)

lemma length_unmarkBit [simp]: "length (unmarkBit a arr sz) = length arr"
  by (simp add: unmarkBit_def)

lemma checkBit_markBit:
  assumes "0 < sz" "length arr = sz"
  shows "checkBit a (markBit b arr sz) sz \<longleftrightarrow>
    (if bit_index a sz = bit_index b sz then bit_index a sz mod 8 \<noteq> 7 else checkBit a arr sz)"
  using bit_position_in_range [OF assms, of b] same_position [of a sz b]
  by (auto simp: checkBit_iff markBit_def nth_list_update bit_simps bit_selector rem_bits_mod)

lemma checkBit_unmarkBit:
  assumes "0 < sz" "length arr = sz"
  shows "checkBit a (unmarkBit b arr sz) sz \<longleftrightarrow>
    bit_index a sz \<noteq> bit_index b sz \<and> checkBit a arr sz"
  using bit_position_in_range [OF assms, of b] same_position [of a sz b]
  by (auto simp: checkBit_iff unmarkBit_def nth_list_update bit_simps bit_selector rem_bits_mod)

lemma checkBit_clear: "0 < sz \<Longrightarrow> \<not> checkBit a (replicate sz 0) sz"
  using bit_position_in_range [of sz "replicate sz 0"] by (simp add: checkBit_iff)

section \<open>Properties\<close>

text \<open>
  The bit arrays are tables of bits addressed modulo the size: \<open>markBit\<close> and \<open>unmarkBit\<close> change what
  \<open>checkBit\<close> sees at their own position only, and a cleared array shows nothing. The test
  \<open>result > 0\<close> on a signed \<open>char\<close> never sees the last bit of a byte: a mark at a position that is
  7 modulo 8 is lost.
\<close>

theorem bit_array_laws:
  assumes "0 < sz" "length arr = sz"
  shows "(checkBit a (markBit b arr sz) sz \<longleftrightarrow>
      (if unat a mod sz = unat b mod sz then unat a mod sz mod 8 \<noteq> 7 else checkBit a arr sz)) \<and>
    (checkBit a (unmarkBit b arr sz) sz \<longleftrightarrow> unat a mod sz \<noteq> unat b mod sz \<and> checkBit a arr sz) \<and>
    \<not> checkBit a (replicate sz 0) sz"
  using checkBit_markBit [OF assms] checkBit_unmarkBit [OF assms] checkBit_clear [OF assms(1)]
  by (simp add: bit_index_def)

theorem bit_array_laws_witness:
  "checkBit 20 (markBit 3 (replicate 17 0) 17) 17 \<and> \<not> checkBit 7 (markBit 7 (replicate 17 0) 17) 17"
  using bit_array_laws [of 17 "replicate 17 0" 20 3] bit_array_laws [of 17 "replicate 17 0" 7 7] by simp

end
