(* ===== verification/Prefetchers.thy ===== *)
theory Prefetchers
  imports BitArray MemSim
begin

text \<open>
  The seven prefetchers: \<open>prefetcher.C\<close> and the variants in \<open>no_prefetch\<close>, \<open>sample-pf\<close>,
  \<open>basic_pf_2blk\<close>, \<open>tagged\<close>, \<open>rpt_pf\<close> and \<open>amalgam\<close>. The records extend each other as the classes do:
  \<open>_ready\<close> and \<open>_nextReq\<close>, then \<open>_req_left\<close>, then the static tables of a file. What a constructor
  leaves uninitialised it takes as an argument (\<open>junk\<close>), as it does the contents of the static
  tables. An \<open>int\<close> is a 32-bit word read as signed; the stores and sums of the sources wrap.
  The prefetchers are then shown to keep one contract, the locale \<open>prefetch_source\<close>.
\<close>

type_synonym i32 = "32 word"

section \<open>State\<close>

record pf_base =
  pf_ready :: bool
  pf_nextReq :: Request

record pf_multi = pf_base +
  pf_req_left :: i32

record rpt_row =
  r_pc :: u32
  r_last_mem :: u32
  r_last_stride :: i32

definition clear_row :: rpt_row where
  "clear_row = \<lparr>r_pc = 0, r_last_mem = 0, r_last_stride = 0\<rparr>"

text \<open>\<open>memset(arr, 0, n)\<close>\<close>

definition memset0 :: "byte list \<Rightarrow> nat \<Rightarrow> byte list" where
  "memset0 arr n = replicate n 0 @ drop n arr"

text \<open>The body of the two observers is the same in all files.\<close>

definition hasRequest :: "'a pf_base_scheme \<Rightarrow> u32 \<Rightarrow> bool" where
  "hasRequest p cycle = pf_ready p"

definition nextRequest :: "'a pf_base_scheme \<Rightarrow> u32 \<Rightarrow> Request" where
  "nextRequest p cycle = pf_nextReq p"

text \<open>\<open>_nextReq.addr = a\<close>\<close>

definition set_next_addr :: "u32 \<Rightarrow> 'a pf_base_scheme \<Rightarrow> 'a pf_base_scheme" where
  "set_next_addr a p = p\<lparr>pf_nextReq := (pf_nextReq p)\<lparr>addr := a\<rparr>\<rparr>"

text \<open>\<open>_ready = true; _req_left = NUM_REQS_PER_MISS - 1\<close>\<close>

definition arm :: "i32 \<Rightarrow> 'a pf_multi_scheme \<Rightarrow> 'a pf_multi_scheme" where
  "arm reqs_per_miss p = p\<lparr>pf_ready := True, pf_req_left := reqs_per_miss - 1\<rparr>"

section \<open>\<open>no_prefetch\<close> and \<open>sample-pf\<close>\<close>

definition new_simple :: "Request \<Rightarrow> pf_base" where
  "new_simple junk = \<lparr>pf_ready = False, pf_nextReq = junk\<rparr>"

definition simple_completeRequest :: "pf_base \<Rightarrow> u32 \<Rightarrow> pf_base" where
  "simple_completeRequest p cycle = p\<lparr>pf_ready := False\<rparr>"

definition no_cpuRequest :: "pf_base \<Rightarrow> Request \<Rightarrow> pf_base" where
  "no_cpuRequest p req = p"

definition sample_cpuRequest :: "pf_base \<Rightarrow> Request \<Rightarrow> pf_base" where
  "sample_cpuRequest p req =
     (if \<not> pf_ready p \<and> \<not> HitL1 req
      then (set_next_addr (addr req + 16) p)\<lparr>pf_ready := True\<rparr>
      else p)"

section \<open>\<open>basic_pf_2blk\<close>\<close>

definition new_basic :: "Request \<Rightarrow> i32 \<Rightarrow> pf_multi" where
  "new_basic junk junkLeft = \<lparr>pf_ready = False, pf_nextReq = junk, pf_req_left = junkLeft\<rparr>"

definition basic_completeRequest :: "pf_multi \<Rightarrow> u32 \<Rightarrow> pf_multi" where
  "basic_completeRequest p cycle =
     (if pf_req_left p = 0 then p\<lparr>pf_ready := False\<rparr>
      else set_next_addr (addr (pf_nextReq p) + 32) (p\<lparr>pf_req_left := pf_req_left p - 1\<rparr>))"

definition basic_cpuRequest :: "pf_multi \<Rightarrow> Request \<Rightarrow> pf_multi" where
  "basic_cpuRequest p req =
     (if \<not> pf_ready p \<and> \<not> HitL1 req
      then arm 1 (set_next_addr (addr req + 32) p)
      else p)"

section \<open>\<open>tagged\<close>\<close>

record tagged_pf = pf_multi +
  tg_tags :: "byte list"

text \<open>\<open>STATE_SIZE\<close> is 4096 bytes and \<open>L2_BLOCK_SIZE\<close> is 16.\<close>

definition checkPrefetched :: "u32 \<Rightarrow> byte list \<Rightarrow> bool" where
  "checkPrefetched a tags = checkBit a tags 4096"

definition markPrefetched :: "u32 \<Rightarrow> byte list \<Rightarrow> byte list" where
  "markPrefetched a tags = markBit a tags 4096"

definition markUnPrefetched :: "u32 \<Rightarrow> byte list \<Rightarrow> byte list" where
  "markUnPrefetched a tags = unmarkBit a tags 4096"

definition new_tagged :: "Request \<Rightarrow> i32 \<Rightarrow> byte list \<Rightarrow> tagged_pf" where
  "new_tagged junk junkLeft tags =
     \<lparr>pf_ready = False, pf_nextReq = junk, pf_req_left = junkLeft, tg_tags = memset0 tags 4096\<rparr>"

definition tagged_completeRequest :: "tagged_pf \<Rightarrow> u32 \<Rightarrow> tagged_pf" where
  "tagged_completeRequest p cycle =
     (if pf_req_left p = 0 then p\<lparr>pf_ready := False\<rparr>
      else
        let p1 = set_next_addr (addr (pf_nextReq p) + 16) (p\<lparr>pf_req_left := pf_req_left p - 1\<rparr>)
        in p1\<lparr>tg_tags := markPrefetched (addr (pf_nextReq p1)) (tg_tags p1)\<rparr>)"

definition tagged_cpuRequest :: "tagged_pf \<Rightarrow> Request \<Rightarrow> tagged_pf" where
  "tagged_cpuRequest p req =
     (let p1 =
        (if HitL1 req \<and> checkPrefetched (addr req) (tg_tags p) \<and> \<not> pf_ready p
         then let q = set_next_addr (addr req + 16) p
              in arm 2 (q\<lparr>tg_tags := markPrefetched (addr (pf_nextReq q)) (tg_tags q)\<rparr>)
         else if \<not> pf_ready p \<and> \<not> HitL1 req
         then arm 2 (set_next_addr (addr req + 16) p)
         else p)
      in p1\<lparr>tg_tags := markUnPrefetched (addr req) (tg_tags p1)\<rparr>)"

text \<open>The self test of the bit array; the loops count up to \<open>sizeof(u_int32_t) * 8\<close>.\<close>

function test_mark :: "nat \<Rightarrow> byte list \<Rightarrow> bool \<times> byte list" where
  "test_mark i tags =
     (if i < 32
      then if checkPrefetched (of_nat i) tags then (False, tags)
           else test_mark (i + 2) (markPrefetched (of_nat i) tags)
      else (True, tags))"
  by pat_completeness auto
termination
  by (relation "measure (\<lambda>(i, tags). 32 - i)") auto

function test_unmark :: "nat \<Rightarrow> byte list \<Rightarrow> byte list" where
  "test_unmark i tags =
     (if i < 32 then test_unmark (i + 3) (markUnPrefetched (of_nat i) tags) else tags)"
  by pat_completeness auto
termination
  by (relation "measure (\<lambda>(i, tags). 32 - i)") auto

function test_check :: "nat \<Rightarrow> byte list \<Rightarrow> bool" where
  "test_check i tags =
     (if i < 32
      then if i mod 2 = 0 \<and> i mod 6 \<noteq> 0
           then (if \<not> checkPrefetched (of_nat i) tags then False else test_check (i + 1) tags)
           else (if checkPrefetched (of_nat i) tags then False else test_check (i + 1) tags)
      else True)"
  by pat_completeness auto
termination
  by (relation "measure (\<lambda>(i, tags). 32 - i)") auto

definition bitArrayTest :: "byte list \<Rightarrow> bool \<times> byte list" where
  "bitArrayTest tags =
     (let tags0 = memset0 (tags[0 := 0xff]) 4096;
          (passed, tags1) = test_mark 0 tags0
      in if \<not> passed then (False, tags1)
         else let tags2 = test_unmark 0 tags1 in (test_check 0 tags2, tags2))"

declare test_mark.simps [simp del] test_unmark.simps [simp del] test_check.simps [simp del]

section \<open>\<open>rpt_pf\<close>\<close>

text \<open>The field \<open>state\<close> of a row and the static \<open>counter\<close> are never used.\<close>

record rpt_pf = pf_multi +
  rp_table :: "rpt_row list"

definition new_rpt :: "Request \<Rightarrow> i32 \<Rightarrow> rpt_row list \<Rightarrow> rpt_pf" where
  "new_rpt junk junkLeft table =
     \<lparr>pf_ready = False, pf_nextReq = junk, pf_req_left = junkLeft,
      rp_table = for_loop 256 (\<lambda>i t. t[i := clear_row]) table\<rparr>"

definition rpt_completeRequest :: "rpt_pf \<Rightarrow> u32 \<Rightarrow> rpt_pf" where
  "rpt_completeRequest p cycle =
     (if pf_req_left p = 0 then p\<lparr>pf_ready := False\<rparr>
      else
        let p1 = p\<lparr>pf_req_left := pf_req_left p - 1\<rparr>;
            n = unat (pc (pf_nextReq p1)) mod 256;
            row = rp_table p1 ! n
        in if r_last_stride row \<noteq> 0
           then let p2 = set_next_addr (addr (pf_nextReq p1) + r_last_stride row) p1
                in p2\<lparr>rp_table := (rp_table p2)[n := row\<lparr>r_last_mem := addr (pf_nextReq p2)\<rparr>]\<rparr>
           else set_next_addr (addr (pf_nextReq p1) + 32) p1)"

definition rpt_cpuRequest :: "rpt_pf \<Rightarrow> Request \<Rightarrow> rpt_pf" where
  "rpt_cpuRequest p req =
     (if \<not> pf_ready p \<and> \<not> HitL1 req
      then
        let n = unat (pc req) mod 256;
            row = rp_table p ! n;
            curr_stride = addr req - r_last_mem row;
            (p1, row1) =
              (if r_pc row = pc req
               then if curr_stride = r_last_stride row \<and> 128 <s curr_stride
                    then (arm 4 (set_next_addr (addr req + curr_stride) p), row)
                    else (arm 4 (set_next_addr (addr req + 32) p), row\<lparr>r_last_stride := curr_stride\<rparr>)
               else (arm 4 (set_next_addr (addr req + 32) p), row\<lparr>r_last_stride := 0\<rparr>))
        in p1\<lparr>rp_table := (rp_table p1)[n := row1\<lparr>r_pc := pc req, r_last_mem := addr req\<rparr>]\<rparr>
      else p)"

section \<open>\<open>amalgam\<close>\<close>

text \<open>
  The results of \<open>rand()\<close> are a sequence that the state carries with the number of calls made.
\<close>

record amalgam_pf = pf_multi +
  am_table :: "rpt_row list"
  am_free :: nat
  am_rand :: "nat \<Rightarrow> nat"
  am_calls :: nat

definition checkInRPT :: "rpt_row list \<Rightarrow> u32 \<Rightarrow> nat option" where
  "checkInRPT table a = find_first (\<lambda>i. r_pc (table ! i) = a) 256"

definition new_amalgam :: "Request \<Rightarrow> i32 \<Rightarrow> rpt_row list \<Rightarrow> (nat \<Rightarrow> nat) \<Rightarrow> amalgam_pf" where
  "new_amalgam junk junkLeft table rands =
     \<lparr>pf_ready = False, pf_nextReq = junk, pf_req_left = junkLeft,
      am_table = for_loop 256 (\<lambda>i t. t[i := clear_row]) table,
      am_free = 256, am_rand = rands, am_calls = 0\<rparr>"

definition amalgam_completeRequest :: "amalgam_pf \<Rightarrow> u32 \<Rightarrow> amalgam_pf" where
  "amalgam_completeRequest p cycle =
     (if pf_req_left p = 0 then p\<lparr>pf_ready := False\<rparr>
      else set_next_addr (addr (pf_nextReq p) + 32) (p\<lparr>pf_req_left := pf_req_left p - 1\<rparr>))"

definition amalgam_cpuRequest :: "amalgam_pf \<Rightarrow> Request \<Rightarrow> amalgam_pf" where
  "amalgam_cpuRequest p req =
     (if \<not> pf_ready p \<and> \<not> HitL1 req
      then
        let (n, p1) =
          (case checkInRPT (am_table p) (pc req) of
             Some n \<Rightarrow>
               let row = am_table p ! n; curr_stride = addr req - r_last_mem row
               in if curr_stride = r_last_stride row \<and> 128 <s curr_stride
                  then (n, arm 4 (set_next_addr (addr req + curr_stride) p))
                  else (n, arm 4 (set_next_addr (addr req + 32)
                             (p\<lparr>am_table := (am_table p)[n := row\<lparr>r_last_stride := curr_stride\<rparr>]\<rparr>)))
           | None \<Rightarrow>
               let (n, p0) = (if 0 < am_free p then (256 - am_free p, p\<lparr>am_free := am_free p - 1\<rparr>)
                              else (am_rand p (am_calls p) mod 256, p\<lparr>am_calls := am_calls p + 1\<rparr>))
               in (n, arm 4 (set_next_addr (addr req + 32)
                        (p0\<lparr>am_table := (am_table p0)[n := (am_table p0 ! n)\<lparr>r_last_stride := 0\<rparr>]\<rparr>))))
        in p1\<lparr>am_table := (am_table p1)[n := (am_table p1 ! n)\<lparr>r_pc := pc req, r_last_mem := addr req\<rparr>]\<rparr>
      else p)"

section \<open>\<open>prefetcher.C\<close>\<close>

text \<open>\<open>STATE_SIZE\<close> is 2048 bytes, \<open>rpt_check\<close> has 17 bytes, the table 128 rows.\<close>

record prefetcher = pf_multi +
  pf_tags :: "byte list"
  pf_rpt_check :: "byte list"
  pf_rpt_table :: "rpt_row list"

definition new_prefetcher :: "Request \<Rightarrow> i32 \<Rightarrow> byte list \<Rightarrow> byte list \<Rightarrow> rpt_row list \<Rightarrow> prefetcher" where
  "new_prefetcher junk junkLeft tags rpt_check table =
     (let (check', table') = for_loop 128
        (\<lambda>i (ch, t). (unmarkBit (of_nat i) ch 17, t[i := clear_row])) (rpt_check, table)
      in \<lparr>pf_ready = False, pf_nextReq = junk, pf_req_left = junkLeft,
          pf_tags = memset0 tags 2048, pf_rpt_check = check', pf_rpt_table = table'\<rparr>)"

definition pf_completeRequest :: "prefetcher \<Rightarrow> u32 \<Rightarrow> prefetcher" where
  "pf_completeRequest p cycle =
     (if pf_req_left p = 0 then p\<lparr>pf_ready := False\<rparr>
      else
        let p1 = p\<lparr>pf_req_left := pf_req_left p - 1\<rparr>;
            n = unat (pc (pf_nextReq p1)) mod 128;
            row = pf_rpt_table p1 ! n;
            p2 = (if r_pc row = pc (pf_nextReq p1) \<and> checkBit (of_nat n) (pf_rpt_check p1) 17
                  then set_next_addr (addr (pf_nextReq p1) + r_last_stride row) p1
                  else set_next_addr (addr (pf_nextReq p1) + 32) p1)
        in p2\<lparr>pf_tags := markBit (addr (pf_nextReq p2)) (pf_tags p2) 2048\<rparr>)"

text \<open>The two branches of \<open>cpuRequest\<close>: a first use of a prefetched block, and a miss.\<close>

definition pf_tagged_hit :: "prefetcher \<Rightarrow> Request \<Rightarrow> prefetcher" where
  "pf_tagged_hit p req =
     (let n = unat (pc req) mod 128;
          row = pf_rpt_table p ! n;
          p1 = (if r_pc row = pc req \<and> checkBit (of_nat n) (pf_rpt_check p) 17
                then set_next_addr (addr req + r_last_stride row) p
                else set_next_addr (addr req + 32) p)
      in arm 3 (p1\<lparr>pf_tags := markBit (addr (pf_nextReq p1)) (pf_tags p1) 2048\<rparr>))"

definition pf_miss :: "prefetcher \<Rightarrow> Request \<Rightarrow> prefetcher" where
  "pf_miss p req =
     (let n = unat (pc req) mod 128;
          row = pf_rpt_table p ! n;
          curr_stride = addr req - r_last_mem row;
          (p1, row1) =
            (if r_pc row = pc req
             then if curr_stride = r_last_stride row \<and> 128 <s curr_stride
                  then (set_next_addr (addr req + curr_stride)
                          (p\<lparr>pf_rpt_check := markBit (of_nat n) (pf_rpt_check p) 17\<rparr>), row)
                  else ((set_next_addr (addr req + 32) p)
                          \<lparr>pf_rpt_check := unmarkBit (of_nat n) (pf_rpt_check p) 17\<rparr>,
                        row\<lparr>r_last_stride := curr_stride\<rparr>)
             else ((set_next_addr (addr req + 32) p)
                     \<lparr>pf_rpt_check := unmarkBit (of_nat n) (pf_rpt_check p) 17\<rparr>,
                   row\<lparr>r_last_stride := 0\<rparr>))
      in arm 3 (p1\<lparr>pf_rpt_table := (pf_rpt_table p1)[n := row1\<lparr>r_pc := pc req, r_last_mem := addr req\<rparr>]\<rparr>))"

definition pf_cpuRequest :: "prefetcher \<Rightarrow> Request \<Rightarrow> prefetcher" where
  "pf_cpuRequest p req =
     (let p1 = (if HitL1 req \<and> checkBit (addr req) (pf_tags p) 2048 \<and> \<not> pf_ready p then pf_tagged_hit p req
                else if \<not> HitL1 req then pf_miss p req
                else p)
      in p1\<lparr>pf_tags := unmarkBit (addr req) (pf_tags p1) 2048\<rparr>)"

section \<open>The contract of a prefetcher\<close>

text \<open>
  The simulator asks a prefetcher whether it has a request, takes it, and reports that the
  request was sent; it tells it of every request of the CPU. \<open>pending p\<close> is the number of
  requests \<open>p\<close> will still make if it hears of no further CPU request, never more than \<open>limit\<close>.
\<close>

datatype pf_event = Told Request | Sent u32

locale prefetch_source =
  fixes has_op :: "'p \<Rightarrow> u32 \<Rightarrow> bool"
    and complete_op :: "'p \<Rightarrow> u32 \<Rightarrow> 'p"
    and told_op :: "'p \<Rightarrow> Request \<Rightarrow> 'p"
    and ok :: "'p \<Rightarrow> bool"
    and pending :: "'p \<Rightarrow> nat"
    and limit :: nat
  assumes has_pending: "ok p \<Longrightarrow> has_op p c \<longleftrightarrow> 0 < pending p"
    and pending_limit: "ok p \<Longrightarrow> pending p \<le> limit"
    and complete_pending: "ok p \<Longrightarrow> 0 < pending p \<Longrightarrow> pending (complete_op p c) = pending p - 1"
    and complete_ok: "ok p \<Longrightarrow> 0 < pending p \<Longrightarrow> ok (complete_op p c)"
    and told_ok: "ok p \<Longrightarrow> ok (told_op p r)"
begin

text \<open>A sequence of events; \<open>None\<close> if a request is reported sent that was not offered.\<close>

fun run :: "'p \<Rightarrow> pf_event list \<Rightarrow> 'p option" where
  "run p [] = Some p"
| "run p (Told r # es) = run (told_op p r) es"
| "run p (Sent c # es) = (if has_op p c then run (complete_op p c) es else None)"

lemma run_ok: "ok p \<Longrightarrow> run p es = Some p' \<Longrightarrow> ok p'"
  by (induction p es rule: run.induct) (auto simp: told_ok complete_ok has_pending split: if_splits)

lemma told_pending: "ok p \<Longrightarrow> pending (told_op p r) \<le> limit"
  by (simp add: pending_limit told_ok)

definition nsent :: "pf_event list \<Rightarrow> nat" where
  "nsent es = length (filter (\<lambda>e. case e of Sent _ \<Rightarrow> True | Told _ \<Rightarrow> False) es)"

definition ntold :: "pf_event list \<Rightarrow> nat" where
  "ntold es = length (filter (\<lambda>e. case e of Told _ \<Rightarrow> True | Sent _ \<Rightarrow> False) es)"

lemma run_traffic:
  assumes "ok p" "run p es = Some p'"
  shows "nsent es + pending p' \<le> limit * ntold es + pending p"
  using assms
proof (induction p es rule: run.induct)
  case (2 p r es)
  then show ?case using told_pending [of p r] told_ok [of p r] by (simp add: nsent_def ntold_def)
next
  case (3 p c es)
  then show ?case
    using has_pending [of p c] complete_pending [of p c] complete_ok [of p c]
    by (auto simp: nsent_def ntold_def split: if_splits)
qed (simp add: nsent_def ntold_def)

lemma complete_decreases: "ok p \<Longrightarrow> has_op p c \<Longrightarrow> pending (complete_op p c) < pending p"
  by (simp add: has_pending complete_pending)

end

text \<open>The prefetchers with one request at a time, and those with a counter.\<close>

definition simple_pending :: "'a pf_base_scheme \<Rightarrow> nat" where
  "simple_pending p = (if pf_ready p then 1 else 0)"

definition multi_pending :: "'a pf_multi_scheme \<Rightarrow> nat" where
  "multi_pending p = (if pf_ready p then Suc (unat (pf_req_left p)) else 0)"

definition multi_ok :: "nat \<Rightarrow> 'a pf_multi_scheme \<Rightarrow> bool" where
  "multi_ok limit p \<longleftrightarrow> multi_pending p \<le> limit"

lemma unat_pred: "w \<noteq> 0 \<Longrightarrow> unat (w - 1 :: 32 word) = unat w - 1"
  by (simp add: unat_minus_one)

lemma pf_updates [simp]:
  "pf_ready (set_next_addr a p) = pf_ready p"
  "pf_req_left (set_next_addr a q) = pf_req_left q"
  "addr (pf_nextReq (set_next_addr a p)) = a"
  "pf_ready (arm n q)"
  "pf_req_left (arm n q) = n - 1"
  "addr (pf_nextReq (arm n q)) = addr (pf_nextReq q)"
  by (simp_all add: set_next_addr_def arm_def)

interpretation no_pf: prefetch_source hasRequest simple_completeRequest no_cpuRequest "\<lambda>_. True" simple_pending 1
  by unfold_locales (auto simp: hasRequest_def simple_completeRequest_def no_cpuRequest_def simple_pending_def)

interpretation sample_pf: prefetch_source hasRequest simple_completeRequest sample_cpuRequest "\<lambda>_. True" simple_pending 1
  by unfold_locales (auto simp: hasRequest_def simple_completeRequest_def sample_cpuRequest_def simple_pending_def)

lemma multi_complete:
  assumes "0 < multi_pending p"
    and "pf_req_left p = 0 \<Longrightarrow> \<not> pf_ready q"
    and "pf_req_left p \<noteq> 0 \<Longrightarrow> pf_ready q = pf_ready p \<and> pf_req_left q = pf_req_left p - 1"
  shows "multi_pending q = multi_pending p - 1"
  using assms by (cases "pf_req_left p = 0") (auto simp: multi_pending_def unat_pred unat_gt_0 split: if_splits)

lemma multi_told:
  assumes "multi_ok n p" "pf_ready q \<longrightarrow> unat (pf_req_left q) < n \<or> pf_req_left q = pf_req_left p \<and> pf_ready p"
  shows "multi_ok n q"
  using assms by (auto simp: multi_ok_def multi_pending_def split: if_splits)

lemma hasRequest_multi: "hasRequest p c \<longleftrightarrow> 0 < multi_pending p"
  by (simp add: hasRequest_def multi_pending_def)

text \<open>Each completion either withdraws the request or counts down.\<close>

lemma complete_counts:
  "0 < multi_pending p \<Longrightarrow> multi_pending (basic_completeRequest p c) = multi_pending p - 1"
  "0 < multi_pending p' \<Longrightarrow> multi_pending (tagged_completeRequest p' c) = multi_pending p' - 1"
  "0 < multi_pending r \<Longrightarrow> multi_pending (rpt_completeRequest r c) = multi_pending r - 1"
  "0 < multi_pending r' \<Longrightarrow> multi_pending (amalgam_completeRequest r' c) = multi_pending r' - 1"
  "0 < multi_pending t \<Longrightarrow> multi_pending (pf_completeRequest t c) = multi_pending t - 1"
  by (erule multi_complete; simp add: basic_completeRequest_def tagged_completeRequest_def
      rpt_completeRequest_def amalgam_completeRequest_def pf_completeRequest_def Let_def)+

lemma told_counts:
  "multi_ok 1 p \<Longrightarrow> multi_ok 1 (basic_cpuRequest p r)"
  "multi_ok 2 p' \<Longrightarrow> multi_ok 2 (tagged_cpuRequest p' r)"
  "multi_ok 4 q \<Longrightarrow> multi_ok 4 (rpt_cpuRequest q r)"
  "multi_ok 4 q' \<Longrightarrow> multi_ok 4 (amalgam_cpuRequest q' r)"
  "multi_ok 3 t \<Longrightarrow> multi_ok 3 (pf_cpuRequest t r)"
  by (erule multi_told; simp add: basic_cpuRequest_def tagged_cpuRequest_def rpt_cpuRequest_def
      amalgam_cpuRequest_def pf_cpuRequest_def pf_miss_def pf_tagged_hit_def Let_def
      split: option.split prod.split)+

lemma multi_source:
  assumes "\<And>p c. 0 < multi_pending p \<Longrightarrow> multi_pending (complete p c) = multi_pending p - 1"
    and "\<And>p r. multi_ok n p \<Longrightarrow> multi_ok n (told p r)"
  shows "prefetch_source hasRequest complete told (multi_ok n) multi_pending n"
proof (unfold_locales, goal_cases)
  case (4 p c)
  then show ?case using assms(1) [of p c] by (simp add: multi_ok_def)
next
  case (5 p r)
  then show ?case by (rule assms(2))
qed (simp_all add: hasRequest_multi assms(1) multi_ok_def)

interpretation basic_pf: prefetch_source hasRequest basic_completeRequest basic_cpuRequest "multi_ok 1" multi_pending 1
  by (rule multi_source, erule complete_counts, erule told_counts)

interpretation tagged_pf: prefetch_source hasRequest tagged_completeRequest tagged_cpuRequest "multi_ok 2" multi_pending 2
  by (rule multi_source, erule complete_counts, erule told_counts)

interpretation rpt_pf: prefetch_source hasRequest rpt_completeRequest rpt_cpuRequest "multi_ok 4" multi_pending 4
  by (rule multi_source, erule complete_counts, erule told_counts)

interpretation amalgam_pf: prefetch_source hasRequest amalgam_completeRequest amalgam_cpuRequest "multi_ok 4" multi_pending 4
  by (rule multi_source, erule complete_counts, erule told_counts)

interpretation main_pf: prefetch_source hasRequest pf_completeRequest pf_cpuRequest "multi_ok 3" multi_pending 3
  by (rule multi_source, erule complete_counts, erule told_counts)

section \<open>The tables\<close>

lemma rows_cleared:
  assumes "length rows = n"
  shows "for_loop n (\<lambda>i t. t[i := clear_row]) rows = replicate n clear_row"
proof -
  have "for_loop m (\<lambda>i t. t[i := clear_row]) rows = replicate m clear_row @ drop m rows" if "m \<le> n" for m
    using that
  proof (induction m)
    case (Suc m)
    then have "drop m rows = rows ! m # drop (Suc m) rows" using assms by (simp add: Cons_nth_drop_Suc)
    with Suc assms show ?case by (simp add: list_update_append replicate_append_same [symmetric])
  qed simp
  from this [of n] show ?thesis using assms by simp
qed

lemma for_loop_pair:
  "for_loop n (\<lambda>i (x, y). (f i x, g i y)) (x, y) = (for_loop n f x, for_loop n g y)"
  by (induction n) simp_all

lemma unmark_all:
  assumes "length ch = 17"
  shows "\<not> checkBit a (for_loop 128 (\<lambda>i ch. unmarkBit (of_nat i) ch 17) ch) 17"
proof -
  have "length (for_loop m (\<lambda>i ch. unmarkBit (of_nat i) ch 17) ch) = 17 \<and>
      (\<forall>i < m. unat a mod 17 = i mod 17 \<longrightarrow> \<not> checkBit a (for_loop m (\<lambda>i ch. unmarkBit (of_nat i) ch 17) ch) 17)"
    if "m \<le> 128" for m
    using that
  proof (induction m)
    case (Suc m)
    then have "unat (of_nat m :: u32) = m" by (simp add: unat_of_nat)
    with Suc show ?case
      by (auto simp: checkBit_unmarkBit bit_index_def less_Suc_eq)
  qed (simp add: assms)
  moreover have "unat a mod 17 < 128" by (rule less_trans [of _ 17]) simp_all
  ultimately show ?thesis by (metis mod_mod_trivial order_refl)
qed

section \<open>The self test of the bit array\<close>

lemma check_after:
  assumes "length tags = 4096" "i < 32" "j < 32"
  shows "checkPrefetched (of_nat j) (markPrefetched (of_nat i) tags) \<longleftrightarrow>
      (if i = j then i mod 8 \<noteq> 7 else checkPrefetched (of_nat j) tags)"
    and "checkPrefetched (of_nat j) (markUnPrefetched (of_nat i) tags) \<longleftrightarrow>
      i \<noteq> j \<and> checkPrefetched (of_nat j) tags"
  using assms
  by (auto simp: checkPrefetched_def markPrefetched_def markUnPrefetched_def checkBit_markBit checkBit_unmarkBit
      bit_index_def unat_of_nat)

lemma length_marked [simp]:
  "length (markPrefetched a tags) = length tags" "length (markUnPrefetched a tags) = length tags"
  by (simp_all add: markPrefetched_def markUnPrefetched_def)

lemma test_mark_ok:
  assumes "length tags = 4096" "even i" "\<forall>j < 32. checkPrefetched (of_nat j) tags \<longleftrightarrow> even j \<and> j < i"
  shows "\<exists>tags'. test_mark i tags = (True, tags') \<and> length tags' = 4096 \<and>
    (\<forall>j < 32. checkPrefetched (of_nat j) tags' \<longleftrightarrow> even j)"
  using assms
proof (induction i tags rule: test_mark.induct)
  case (1 i tags)
  show ?case
  proof (cases "i < 32")
    case True
    have free: "\<not> checkPrefetched (of_nat i) tags" using 1(4) True by simp
    have "\<forall>j < 32. checkPrefetched (of_nat j) (markPrefetched (of_nat i) tags) \<longleftrightarrow> even j \<and> j < i + 2"
    proof (intro allI impI)
      fix j :: nat assume j: "j < 32"
      have "i mod 8 \<noteq> 7" using 1(3) by presburger
      moreover have "even j \<and> j < i + 2 \<longleftrightarrow> j = i \<or> even j \<and> j < i" using 1(3) by presburger
      ultimately show "checkPrefetched (of_nat j) (markPrefetched (of_nat i) tags) \<longleftrightarrow> even j \<and> j < i + 2"
        using 1(4) j by (auto simp: check_after(1) [OF 1(2) True j])
    qed
    from 1(1) [OF True free _ _ this] 1(2,3) show ?thesis
      using True free by (simp add: test_mark.simps [of i])
  next
    case False
    then show ?thesis using 1(2,4) by (simp add: test_mark.simps [of i])
  qed
qed

lemma test_unmark_ok:
  assumes "length tags = 4096" "3 dvd i" "\<forall>j < 32. checkPrefetched (of_nat j) tags \<longleftrightarrow> even j \<and> \<not> (3 dvd j \<and> j < i)"
  shows "length (test_unmark i tags) = 4096 \<and>
    (\<forall>j < 32. checkPrefetched (of_nat j) (test_unmark i tags) \<longleftrightarrow> even j \<and> \<not> 3 dvd j)"
  using assms
proof (induction i tags rule: test_unmark.induct)
  case (1 i tags)
  show ?case
  proof (cases "i < 32")
    case True
    have "\<forall>j < 32. checkPrefetched (of_nat j) (markUnPrefetched (of_nat i) tags) \<longleftrightarrow> even j \<and> \<not> (3 dvd j \<and> j < i + 3)"
    proof (intro allI impI)
      fix j :: nat assume j: "j < 32"
      have "3 dvd j \<and> j < i + 3 \<longleftrightarrow> j = i \<or> 3 dvd j \<and> j < i" using 1(3) by presburger
      then show "checkPrefetched (of_nat j) (markUnPrefetched (of_nat i) tags) \<longleftrightarrow> even j \<and> \<not> (3 dvd j \<and> j < i + 3)"
        using 1(4) j by (auto simp: check_after(2) [OF 1(2) True j])
    qed
    from 1(1) [OF True _ _ this] 1(2,3) show ?thesis
      using True by (simp add: test_unmark.simps [of i])
  next
    case False
    then show ?thesis using 1(2,4) by (auto simp: test_unmark.simps [of i])
  qed
qed

lemma test_check_ok:
  assumes "\<forall>j < 32. checkPrefetched (of_nat j) tags \<longleftrightarrow> even j \<and> \<not> 3 dvd j"
  shows "test_check i tags"
  using assms
proof (induction i tags rule: test_check.induct)
  case (1 i tags)
  have "i mod 2 = 0 \<and> i mod 6 \<noteq> 0 \<longleftrightarrow> even i \<and> \<not> 3 dvd i" by presburger
  then show ?case using 1 by (cases "i < 32") (auto simp: test_check.simps [of i])
qed

section \<open>Properties\<close>

text \<open>
  The self test of the tagged prefetcher's bit array passes, whatever the array held.
\<close>

theorem bitArrayTest_passes:
  assumes "length tags = 4096"
  shows "\<exists>tags'. bitArrayTest tags = (True, tags')"
proof -
  let ?t0 = "memset0 (tags[0 := 0xff]) 4096"
  have t0: "?t0 = replicate 4096 0" using assms by (simp add: memset0_def)
  have "\<forall>j < 32. checkPrefetched (of_nat j) ?t0 \<longleftrightarrow> even j \<and> j < (0 :: nat)"
    unfolding t0 checkPrefetched_def using checkBit_clear [of 4096] by simp
  from test_mark_ok [OF _ _ this]
  obtain t1 where t1: "test_mark 0 ?t0 = (True, t1)" "length t1 = 4096"
      "\<forall>j < 32. checkPrefetched (of_nat j) t1 \<longleftrightarrow> even j"
    using t0 by auto
  then have t2: "\<forall>j < 32. checkPrefetched (of_nat j) (test_unmark 0 t1) \<longleftrightarrow> even j \<and> \<not> 3 dvd j"
    using test_unmark_ok [of t1 0] by simp
  show ?thesis using t1(1) test_check_ok [OF t2] by (simp add: bitArrayTest_def)
qed

theorem bitArrayTest_passes_witness: "\<exists>tags'. bitArrayTest (replicate 4096 0xff) = (True, tags')"
  by (rule bitArrayTest_passes) simp

text \<open>
  C10: The prefetcher cannot flood the L2 cache: whatever the CPU does, the number of requests sent
  for it (each one offered before it is sent) is at most three for every request of the CPU
  it was told of.
\<close>

theorem prefetch_traffic_bound:
  assumes "main_pf.run (new_prefetcher junk left t ch rows) events = Some p"
  shows "main_pf.nsent events \<le> 3 * main_pf.ntold events"
proof -
  have "\<not> pf_ready (new_prefetcher junk left t ch rows)" by (simp add: new_prefetcher_def split: prod.split)
  then have "multi_pending (new_prefetcher junk left t ch rows) = 0" by (simp add: multi_pending_def)
  then show ?thesis using main_pf.run_traffic [OF _ assms] by (simp add: multi_ok_def)
qed

theorem prefetch_traffic_bound_witness:
  "\<exists>p. main_pf.run (new_prefetcher zero_request 0 [] [] []) [Told (zero_request\<lparr>HitL1 := True\<rparr>)] = Some p \<and>
    main_pf.nsent [Told (zero_request\<lparr>HitL1 := True\<rparr>)] \<le> 3 * main_pf.ntold [Told (zero_request\<lparr>HitL1 := True\<rparr>)]"
proof -
  obtain p where p: "main_pf.run (new_prefetcher zero_request 0 [] [] []) [Told (zero_request\<lparr>HitL1 := True\<rparr>)] = Some p"
    by simp
  from p prefetch_traffic_bound [OF p] show ?thesis by blast
qed

text \<open>
  A new prefetcher is clean whatever memory held: it offers nothing, no block is tagged, no row
  of the reference prediction table is marked as strong, and all rows are clear.
\<close>

theorem new_prefetcher_clean:
  assumes "length t = 2048" "length ch = 17" "length rows = 128"
  shows "\<not> hasRequest (new_prefetcher junk left t ch rows) cycle \<and>
    \<not> checkBit a (pf_tags (new_prefetcher junk left t ch rows)) 2048 \<and>
    \<not> checkBit a (pf_rpt_check (new_prefetcher junk left t ch rows)) 17 \<and>
    pf_rpt_table (new_prefetcher junk left t ch rows) = replicate 128 clear_row"
  using unmark_all [OF assms(2), of a] rows_cleared [OF assms(3)] checkBit_clear [of 2048 a] assms(1)
  by (simp add: new_prefetcher_def for_loop_pair hasRequest_def memset0_def)

theorem new_prefetcher_clean_witness:
  "\<not> checkBit 4 (pf_rpt_check (new_prefetcher zero_request 5 (replicate 2048 1) (replicate 17 0xff) (replicate 128 clear_row))) 17"
  using new_prefetcher_clean [of "replicate 2048 1" "replicate 17 0xff" "replicate 128 clear_row" zero_request 5 0 4]
  by simp

text \<open>
  Stride detection: when the same instruction misses at \<open>a\<close>, then \<open>a + d\<close>, then \<open>a + 2d\<close>, with \<open>d\<close>
  above the threshold as a signed number and no other request between, the prefetcher offers
  \<open>a + 3d\<close>, for any state it was in before.
\<close>

lemma stride_detected:
  assumes "length (pf_rpt_table p) = 128" "128 <s d"
    and "\<not> HitL1 r1" "\<not> HitL1 r2" "\<not> HitL1 r3" "pc r2 = pc r1" "pc r3 = pc r1"
    and "addr r2 = addr r1 + d" "addr r3 = addr r2 + d"
  shows "hasRequest (pf_cpuRequest (pf_cpuRequest (pf_cpuRequest p r1) r2) r3) c \<and>
    addr (nextRequest (pf_cpuRequest (pf_cpuRequest (pf_cpuRequest p r1) r2) r3) c) = addr r1 + 3 * d"
proof -
  let ?n = "unat (pc r1) mod 128"
  have n: "?n < length (pf_rpt_table p)" using assms(1) by simp
  define p1 where "p1 = pf_cpuRequest p r1"
  define p2 where "p2 = pf_cpuRequest p1 r2"
  have row1: "?n < length (pf_rpt_table p1)" "r_pc (pf_rpt_table p1 ! ?n) = pc r1" "r_last_mem (pf_rpt_table p1 ! ?n) = addr r1"
    using n assms(3) by (auto simp: p1_def pf_cpuRequest_def pf_miss_def arm_def set_next_addr_def Let_def)
  have row2: "?n < length (pf_rpt_table p2)" "r_pc (pf_rpt_table p2 ! ?n) = pc r1" "r_last_mem (pf_rpt_table p2 ! ?n) = addr r2"
      "r_last_stride (pf_rpt_table p2 ! ?n) = d"
    using row1 assms(4,6,8) by (auto simp: p2_def pf_cpuRequest_def pf_miss_def arm_def set_next_addr_def Let_def)
  have "addr (pf_nextReq (pf_cpuRequest p2 r3)) = addr r3 + d \<and> pf_ready (pf_cpuRequest p2 r3)"
    using row2 assms(2,5,7,9) by (simp add: pf_cpuRequest_def pf_miss_def arm_def set_next_addr_def Let_def)
  then show ?thesis using assms(8,9) by (simp add: p1_def p2_def hasRequest_def nextRequest_def)
qed

lemma stride_detected_witness:
  "addr (nextRequest
     (pf_cpuRequest (pf_cpuRequest (pf_cpuRequest (new_prefetcher zero_request 0 (replicate 2048 0) (replicate 17 0) (replicate 128 clear_row))
        (zero_request\<lparr>addr := 4096, pc := 77\<rparr>)) (zero_request\<lparr>addr := 4396, pc := 77\<rparr>)) (zero_request\<lparr>addr := 4696, pc := 77\<rparr>)) 9)
   = 4996"
  using stride_detected [of "new_prefetcher zero_request 0 (replicate 2048 0) (replicate 17 0) (replicate 128 clear_row)"
      300 "zero_request\<lparr>addr := 4096, pc := 77\<rparr>" "zero_request\<lparr>addr := 4396, pc := 77\<rparr>" "zero_request\<lparr>addr := 4696, pc := 77\<rparr>" 9]
  by (simp add: zero_request_def new_prefetcher_def for_loop_pair rows_cleared word_sless_alt)

text \<open>
  The program counter of the next request is never assigned: no operation of the prefetcher
  changes it, so the table row that \<open>completeRequest\<close> consults is fixed by what memory held when
  the prefetcher was made and has nothing to do with the instruction that missed.
\<close>

theorem next_pc_never_assigned:
  "main_pf.run (new_prefetcher junk left t ch rows) events = Some p \<longrightarrow> pc (nextRequest p c) = pc junk"
proof -
  have keep: "pc (pf_nextReq (pf_cpuRequest q r)) = pc (pf_nextReq q)" "pc (pf_nextReq (pf_completeRequest q c)) = pc (pf_nextReq q)"
    for q r c
    by (simp_all add: pf_cpuRequest_def pf_miss_def pf_tagged_hit_def pf_completeRequest_def arm_def set_next_addr_def Let_def)
  have "main_pf.run q events = Some p \<Longrightarrow> pc (pf_nextReq p) = pc (pf_nextReq q)" for q
    by (induction q events rule: main_pf.run.induct) (auto simp: keep split: if_splits)
  then show ?thesis by (auto simp: nextRequest_def new_prefetcher_def split: prod.splits)
qed

theorem next_pc_never_assigned_witness:
  "\<exists>p. main_pf.run (new_prefetcher (zero_request\<lparr>pc := 9\<rparr>) 0 [] [] []) [Told (zero_request\<lparr>pc := 5\<rparr>)] = Some p \<and>
    pc (nextRequest p 0) = 9"
proof -
  obtain p where p: "main_pf.run (new_prefetcher (zero_request\<lparr>pc := 9\<rparr>) 0 [] [] []) [Told (zero_request\<lparr>pc := 5\<rparr>)] = Some p"
    by simp
  from p next_pc_never_assigned [of "zero_request\<lparr>pc := 9\<rparr>" 0 "[]" "[]" "[]" "[Told (zero_request\<lparr>pc := 5\<rparr>)]" p 0]
  show ?thesis by simp
qed

text \<open>
  The simplest sequential variants offer exactly the blocks that follow a miss: after a miss in
  the idle state the tagged prefetcher offers the next block, and after that was sent the one
  after it, then nothing; \<open>basic_pf_2blk\<close> and \<open>sample-pf\<close> offer one block.
\<close>

theorem sequential_prefetch:
  assumes "\<not> HitL1 r" "\<not> pf_ready p" "\<not> pf_ready q"
  shows "addr (nextRequest (tagged_cpuRequest p r) c) = addr r + 16 \<and> hasRequest (tagged_cpuRequest p r) c \<and>
    addr (nextRequest (tagged_completeRequest (tagged_cpuRequest p r) c) c) = addr r + 32 \<and>
    hasRequest (tagged_completeRequest (tagged_cpuRequest p r) c) c \<and>
    \<not> hasRequest (tagged_completeRequest (tagged_completeRequest (tagged_cpuRequest p r) c) c) c \<and>
    addr (nextRequest (basic_cpuRequest q r) c) = addr r + 32 \<and> hasRequest (basic_cpuRequest q r) c \<and>
    \<not> hasRequest (basic_completeRequest (basic_cpuRequest q r) c) c"
  using assms
  by (simp add: hasRequest_def nextRequest_def tagged_cpuRequest_def tagged_completeRequest_def
      basic_cpuRequest_def basic_completeRequest_def arm_def set_next_addr_def Let_def)

theorem sequential_prefetch_witness:
  "addr (nextRequest (tagged_completeRequest (tagged_cpuRequest (new_tagged zero_request 0 (replicate 4096 0)) (zero_request\<lparr>addr := 100\<rparr>)) 3) 3) = 132"
  using sequential_prefetch [of "zero_request\<lparr>addr := 100\<rparr>" "new_tagged zero_request 0 (replicate 4096 0)" "new_basic zero_request 0" 3]
  by (simp add: zero_request_def new_tagged_def new_basic_def)

end
