(* ===== verification/CacheSim.thy ===== *)
theory CacheSim
  imports MemQueue CpuModel Prefetchers
begin

text \<open>
  The simulator of \<open>main.C\<close>: a CPU that replays a trace, a D-cache, an L2 cache, a prefetcher,
  a write buffer and the queues to the L2 cache and to memory. One turn of the main loop is
  \<open>cycle\<close>, in the order of the code: the CPU or the prefetcher, the L2 queue, the memory queue, the
  statistics, the write buffer. \<^term>\<open>None\<close> is undefined behaviour. The prefetcher is any of the
  files of that name, so its operations are an argument. The caches replace by LRU and never use
  the result of \<open>rand()\<close>, which is 0 here.
\<close>

section \<open>State\<close>

record 'p pf_ops =
  op_has :: "'p \<Rightarrow> u32 \<Rightarrow> bool"
  op_get :: "'p \<Rightarrow> u32 \<Rightarrow> Request"
  op_complete :: "'p \<Rightarrow> u32 \<Rightarrow> 'p"
  op_told :: "'p \<Rightarrow> Request \<Rightarrow> 'p"

record 'p sim =
  dcache :: cache
  l2cache :: cache
  core :: cpu
  pf :: 'p
  writeBuffer :: memQueue
  queueL2 :: memQueue
  queueMem :: memQueue
  nRequestsL2 :: u32
  memCycles :: u32
  memQsize :: u32
  curr_cycle :: u32

section \<open>The main loop\<close>

definition cpu_ready :: "'p pf_ops \<Rightarrow> 'p sim \<Rightarrow> 'p sim option" where
  "cpu_ready ops s = do {
     let (req0, cpu1) = issueRequest (core s) (curr_cycle s);
     isHit \<leftarrow> check (dcache s) (addr req0) (load req0);
     let cpu2 = hitL1 cpu1 isHit;
     let req = req0\<lparr>HitL1 := isHit\<rparr>;
     let s1 = s\<lparr>core := cpu2, pf := op_told ops (pf s) req\<rparr>;
     if isHit then do {
       (_, d) \<leftarrow> cache_access (dcache s1) 0 (addr req) (load req);
       Some (s1\<lparr>dcache := d, core := completeRequest cpu2 (curr_cycle s1)\<rparr>)
     }
     else if load req then do {
       let s2 = s1\<lparr>nRequestsL2 := nRequestsL2 s1 + 1\<rparr>;
       (added, q) \<leftarrow> add (dcache s2) (queueL2 s2) req (curr_cycle s2);
       Some (s2\<lparr>queueL2 := q, core := setStatus cpu2 (if added then WAITING else STALLED_L2)\<rparr>)
     }
     else do {
       let s2 = s1\<lparr>nRequestsL2 := nRequestsL2 s1 + 1\<rparr>;
       (added, q) \<leftarrow> add (dcache s2) (writeBuffer s2) req (curr_cycle s2);
       Some (s2\<lparr>writeBuffer := q,
         core := (if added then completeRequest cpu2 (curr_cycle s2) else setStatus cpu2 STALLED_WB)\<rparr>)
     }
   }"

definition pf_turn :: "'p pf_ops \<Rightarrow> 'p sim \<Rightarrow> 'p sim option" where
  "pf_turn ops s =
     (if op_has ops (pf s) (curr_cycle s)
      then do {
        let s1 = s\<lparr>nRequestsL2 := nRequestsL2 s + 1\<rparr>;
        let req = (op_get ops (pf s1) (curr_cycle s1))\<lparr>fromCPU := False, load := True\<rparr>;
        (added, q) \<leftarrow> add (dcache s1) (queueL2 s1) req (curr_cycle s1);
        Some (s1\<lparr>queueL2 := q, pf := (if added then op_complete ops (pf s1) (curr_cycle s1) else pf s1)\<rparr>)
      }
      else Some s)"

definition retry_wb :: "'p sim \<Rightarrow> 'p sim option" where
  "retry_wb s = do {
     let req = getRequest (core s);
     (added, q) \<leftarrow> add (dcache s) (writeBuffer s) req (curr_cycle s);
     Some (s\<lparr>writeBuffer := q, core := (if added then completeRequest (core s) (curr_cycle s) else core s)\<rparr>)
   }"

definition retry_L2 :: "'p sim \<Rightarrow> 'p sim option" where
  "retry_L2 s = do {
     let req = getRequest (core s);
     (added, q) \<leftarrow> add (dcache s) (queueL2 s) req (curr_cycle s);
     Some (s\<lparr>queueL2 := q, core := (if added then setStatus (core s) WAITING else core s)\<rparr>)
   }"

definition cpu_phase :: "'p pf_ops \<Rightarrow> 'p sim \<Rightarrow> 'p sim option" where
  "cpu_phase ops s =
     (let (cpu_status, cpu') = getStatus (core s) (curr_cycle s); s1 = s\<lparr>core := cpu'\<rparr> in
      if cpu_status = READY then cpu_ready ops s1
      else if cpu_status = WAITING \<or> cpu_status = IDLE \<or> cpu_status = STALLED_WB
      then do {
        s2 \<leftarrow> pf_turn ops s1;
        if cpu_status = STALLED_WB then retry_wb s2 else Some s2
      }
      else if cpu_status = STALLED_L2 then retry_L2 s1
      else Some s1)"

definition l2_phase :: "'p sim \<Rightarrow> 'p sim option" where
  "l2_phase s = do {
     ready \<leftarrow> frontReady (queueL2 s) (curr_cycle s);
     if ready then do {
       req \<leftarrow> getFront (queueL2 s);
       isHit \<leftarrow> check (l2cache s) (addr req) (load req);
       let s1 = s\<lparr>core := loadHitL2 (core s) isHit\<rparr>;
       if isHit then do {
         (_, d) \<leftarrow> cache_access (dcache s1) 0 (addr req) (load req);
         let s2 = s1\<lparr>dcache := d\<rparr>;
         let s3 = (if fromCPU req then s2\<lparr>core := completeRequest (core s2) (curr_cycle s2)\<rparr> else s2);
         Some (s3\<lparr>queueL2 := snd (remove (queueL2 s3))\<rparr>)
       }
       else do {
         (added, q) \<leftarrow> add (l2cache s1) (queueMem s1) req (curr_cycle s1);
         let s2 = s1\<lparr>queueMem := q\<rparr>;
         Some (if added then s2\<lparr>queueL2 := snd (remove (queueL2 s2))\<rparr> else s2)
       }
     }
     else Some s
   }"

definition mem_phase :: "'p sim \<Rightarrow> 'p sim option" where
  "mem_phase s = do {
     ready \<leftarrow> frontReady (queueMem s) (curr_cycle s);
     if ready then do {
       req \<leftarrow> getFront (queueMem s);
       let s1 = s\<lparr>queueMem := snd (remove (queueMem s))\<rparr>;
       (_, l) \<leftarrow> cache_access (l2cache s1) 0 (addr req) (load req);
       let s2 = s1\<lparr>l2cache := l\<rparr>;
       s3 \<leftarrow> (if load req then do {
                 (_, d) \<leftarrow> cache_access (dcache s2) 0 (addr req) (load req);
                 Some (s2\<lparr>dcache := d\<rparr>)
               } else Some s2);
       Some (if fromCPU req \<and> load req then s3\<lparr>core := completeRequest (core s3) (curr_cycle s3)\<rparr> else s3)
     }
     else Some s
   }"

definition stats_phase :: "'p sim \<Rightarrow> 'p sim" where
  "stats_phase s =
     (let s1 = (if getSize (queueMem s) > 0 then s\<lparr>memCycles := memCycles s + 1\<rparr> else s)
      in s1\<lparr>memQsize := memQsize s1 + of_nat (getSize (queueMem s1))\<rparr>)"

definition wb_phase :: "'p sim \<Rightarrow> 'p sim option" where
  "wb_phase s = do {
     ready \<leftarrow> frontReady (writeBuffer s) (curr_cycle s);
     if ready then do {
       req \<leftarrow> getFront (writeBuffer s);
       isHit \<leftarrow> check (l2cache s) (addr req) (load req);
       let s1 = s\<lparr>core := storeHitL2 (core s) isHit\<rparr>;
       if isHit then do {
         (_, l) \<leftarrow> cache_access (l2cache s1) 0 (addr req) (load req);
         Some (s1\<lparr>l2cache := l, writeBuffer := snd (remove (writeBuffer s1))\<rparr>)
       }
       else do {
         (added, q) \<leftarrow> add (l2cache s1) (queueMem s1) req (curr_cycle s1);
         let s2 = s1\<lparr>queueMem := q\<rparr>;
         Some (if added then s2\<lparr>writeBuffer := snd (remove (writeBuffer s2))\<rparr> else s2)
       }
     }
     else Some s
   }"

definition cycle :: "'p pf_ops \<Rightarrow> 'p sim \<Rightarrow> 'p sim option" where
  "cycle ops s = do {
     s1 \<leftarrow> cpu_phase ops s;
     s2 \<leftarrow> l2_phase s1;
     s3 \<leftarrow> mem_phase s2;
     s4 \<leftarrow> wb_phase (stats_phase s3);
     Some (s4\<lparr>curr_cycle := curr_cycle s4 + 1\<rparr>)
   }"

text \<open>The loop; \<open>None\<close> also if it does not end.\<close>

partial_function (option) simulate :: "'p pf_ops \<Rightarrow> 'p sim \<Rightarrow> 'p sim option" where
  "simulate ops s = (if isDone (core s) then Some s else Option.bind (cycle ops s) (simulate ops))"

section \<open>Set-up and results\<close>

text \<open>Number of sets and associativity from the sizes; an associativity of 0 is fully associative.\<close>

definition geometry :: "nat \<Rightarrow> nat \<Rightarrow> nat \<Rightarrow> nat \<times> nat" where
  "geometry totalSize assoc' lineSize =
     (if assoc' \<noteq> 0 then (totalSize * 1024 div (assoc' * lineSize), assoc')
      else (1, totalSize * 1024 div lineSize))"

text \<open>What \<open>malloc\<close> and the stack hold at the start.\<close>

record junk =
  junkW :: "nat \<Rightarrow> nat \<Rightarrow> u32"
  junkN :: "nat \<Rightarrow> nat \<Rightarrow> nat"
  junkB :: "nat \<Rightarrow> nat \<Rightarrow> bool"
  junkReq :: Request
  junkReady :: u32

definition new_sim :: "junk \<Rightarrow> 'p \<Rightarrow> string \<Rightarrow> 'p sim" where
  "new_sim j p file =
     (let accessTimeL2 = 20; accessTimeMem = 50;
          lineSizeL1 = 16; assocL1 = 2; totalSizeL1 = 32;
          lineSizeL2 = 32; assocL2 = 8; totalSizeL2 = 256;
          (numSetsL1, assocL1') = geometry totalSizeL1 assocL1 lineSizeL1;
          (numSetsL2, assocL2') = geometry totalSizeL2 assocL2 lineSizeL2
      in \<lparr>dcache = new_cache (junkW j) (junkN j) (junkB j) (of_nat numSetsL1) (of_nat assocL1')
              (of_nat lineSizeL1) False False True,
          l2cache = new_cache (junkW j) (junkN j) (junkB j) (of_nat numSetsL2) (of_nat assocL2')
              (of_nat lineSizeL2) False True False,
          core = new_cpu (junkReq j) (junkReady j) file,
          pf = p,
          writeBuffer = new_memQueue 10 accessTimeL2 True True CHR ''a'',
          queueL2 = new_memQueue 20 accessTimeL2 True False CHR ''b'',
          queueMem = new_memQueue 10 accessTimeMem False False CHR ''c'',
          nRequestsL2 = 0, memCycles = 0, memQsize = 0, curr_cycle = 1\<rparr>)"

text \<open>The lines of the report: the run time and quotients, as numerator and denominator.\<close>

record report =
  runtime :: u32
  hitRateL1 :: "nat \<times> nat"
  hitRateL2 :: "nat \<times> nat"
  amat :: "nat \<times> nat"
  avgMemQ :: "nat \<times> nat"
  l2BW :: "nat \<times> nat"
  memBW :: "nat \<times> nat"

definition make_report :: "'p sim \<Rightarrow> report" where
  "make_report s =
     (let n = curr_cycle s - 1 in
      \<lparr>runtime = n, hitRateL1 = getHitRateL1 (core s), hitRateL2 = getHitRateL2 (core s),
       amat = getAMAT (core s), avgMemQ = (unat (memQsize s), unat n),
       l2BW = (unat (nRequestsL2 s), unat n), memBW = (unat (memCycles s), unat n)\<rparr>)"

datatype outcome = Usage | Written string report

text \<open>
  \<open>main\<close>: the second command-line argument names the trace; a trace that cannot be opened leaves
  the null pointer that the CPU then reads from.
\<close>

definition sim_main :: "'p pf_ops \<Rightarrow> junk \<Rightarrow> 'p \<Rightarrow> (string \<Rightarrow> string option) \<Rightarrow> string list \<Rightarrow> outcome option" where
  "sim_main ops j p files argv =
     (if length argv \<noteq> 2 then Some Usage
      else do {
        file \<leftarrow> files (argv ! 1);
        s \<leftarrow> simulate ops (new_sim j p file);
        Some (Written (argv ! 1 @ ''.out'') (make_report s))
      })"

end
