(* ===== verification/CacheSimProofs.thy ===== *)
theory CacheSimProofs
  imports CacheSim
begin

text \<open>
  The simulator keeps its invariant, never runs into undefined behaviour and always ends. The
  invariant says which requests can be in which queue and that the CPU waits exactly when one
  load of it is on its way; progress is measured by \<open>work\<close>, a weighted count of what is left to do.
  A cycle never increases it, and it decreases whenever the cycle counter has its greatest
  value, where every queue is served; so the wrap-around of the 32-bit counter can delay the
  program but cannot make it run forever.
\<close>

section \<open>The invariant\<close>

definition hw_ok :: "'p sim \<Rightarrow> bool" where
  "hw_ok s \<longleftrightarrow> cache_ok (dcache s) \<and> cache_ok (l2cache s) \<and>
     queue_ok (writeBuffer s) \<and> queue_ok (queueL2 s) \<and> queue_ok (queueMem s)"

definition traffic_ok :: "'p sim \<Rightarrow> bool" where
  "traffic_ok s \<longleftrightarrow> (\<forall>x \<in> set (requests (queueL2 s)). load x) \<and>
     (\<forall>x \<in> set (requests (writeBuffer s)). fromCPU x \<and> \<not> load x)"

definition core_ok :: "'p sim \<Rightarrow> bool" where
  "core_ok s \<longleftrightarrow> fromCPU (currReq (core s)) \<and>
     (cpu_state (core s) = WAITING \<or> cpu_state (core s) = STALLED_L2 \<longrightarrow> load (currReq (core s))) \<and>
     (cpu_state (core s) = STALLED_WB \<longrightarrow> \<not> load (currReq (core s))) \<and>
     (cpu_done (core s) \<longrightarrow> cpu_state (core s) = IDLE)"

definition same_access :: "Request \<Rightarrow> Request \<Rightarrow> bool" where
  "same_access x r \<longleftrightarrow> addr x = addr r \<and> pc x = pc r \<and> issuedAt x = issuedAt r"

definition in_flight :: "'p sim \<Rightarrow> nat" where
  "in_flight s = mq.loads (queueL2 s) + mq.loads (queueMem s)"

definition flight_ok :: "'p sim \<Rightarrow> bool" where
  "flight_ok s \<longleftrightarrow> in_flight s = (if cpu_state (core s) = WAITING then 1 else 0) \<and>
     (\<forall>x \<in> set (requests (queueL2 s)). cpu_load x \<longrightarrow> same_access x (currReq (core s))) \<and>
     (\<forall>x \<in> set (requests (queueMem s)). cpu_load x \<longrightarrow> same_access x (currReq (core s)))"

definition sim_ok :: "'p sim \<Rightarrow> bool" where
  "sim_ok s \<longleftrightarrow> hw_ok s \<and> traffic_ok s \<and> core_ok s \<and> flight_ok s"

lemmas ok_defs = sim_ok_def hw_ok_def traffic_ok_def core_ok_def flight_ok_def in_flight_def

lemma cache_geom: "cache_ok c \<Longrightarrow> wf_geom c"
  by (simp add: cache_ok_def)

section \<open>What is left to do\<close>

definition cpu_work :: "nat \<Rightarrow> cpuState \<Rightarrow> nat" where
  "cpu_work limit st = (case st of IDLE \<Rightarrow> 3 * limit + 4 | READY \<Rightarrow> 3 * limit + 4 | WAITING \<Rightarrow> 0
     | STALLED_L2 \<Rightarrow> 3 | STALLED_WB \<Rightarrow> 0)"

definition work :: "nat \<Rightarrow> ('p \<Rightarrow> nat) \<Rightarrow> 'p sim \<Rightarrow> nat" where
  "work limit pend s = (6 * limit + 8) * trace_left (core s) + cpu_work limit (cpu_state (core s)) +
     3 * pend (pf s) + 2 * mq.len (queueL2 s) + 2 * mq.len (writeBuffer s) + mq.len (queueMem s)"

lemma cpu_work_le: "cpu_work limit st \<le> 3 * limit + 4"
  by (cases st) (simp_all add: cpu_work_def)

text \<open>A completed request is worth more than all it can cause.\<close>

lemma complete_work:
  assumes "\<not> cpu_done p"
  shows "(6 * limit + 8) * trace_left (completeRequest p c) + cpu_work limit (cpu_state (completeRequest p c)) +
    (3 * limit + 4) \<le> (6 * limit + 8) * trace_left p"
proof -
  have "(6 * limit + 8) * Suc (trace_left (completeRequest p c)) \<le> (6 * limit + 8) * trace_left p"
    using completeRequest_left [OF assms, of c] by (intro mult_le_mono2) simp
  then show ?thesis by (simp add: cpu_work_def)
qed

section \<open>The L2 queue\<close>

text \<open>A completed request leaves nothing in flight.\<close>

lemma ok_complete:
  assumes "hw_ok s" "traffic_ok s" "in_flight s = 0" "core s = completeRequest p c" "fromCPU (currReq p)"
  shows "sim_ok s"
  using assms by (auto simp: ok_defs mq.loads_0)

lemma l2_hit:
  assumes ok: "sim_ok s" and ne: "requests (queueL2 s) \<noteq> []" and r: "r = hd (requests (queueL2 s))"
  defines "s1 \<equiv> s\<lparr>core := loadHitL2 (core s) True, dcache := accessed (dcache s) (addr r) (load r)\<rparr>"
  defines "s2 \<equiv> (if fromCPU r then s1\<lparr>core := completeRequest (core s1) (curr_cycle s1)\<rparr> else s1)"
    and "q \<equiv> snd (remove (queueL2 s))"
  shows "sim_ok (s2\<lparr>queueL2 := q\<rparr>)" "work limit pend (s2\<lparr>queueL2 := q\<rparr>) < work limit pend s"
proof -
  have qok: "queue_ok (queueL2 s)" and hw: "hw_ok s" and tr: "traffic_ok s"
    using ok by (simp_all add: ok_defs)
  have rm: "queue_ok q" "requests q = tl (requests (queueL2 s))" "mq.len (queueL2 s) = Suc (mq.len q)"
    using mq.remove_inv [OF qok ne] mq.remove_reqs [OF qok ne] mq.len_remove [OF qok ne] by (simp_all add: q_def)
  have sub: "set (requests q) \<subseteq> set (requests (queueL2 s))"
    unfolding rm by (metis list.set_sel(2) ne subsetI)
  have ld: "load r" using tr ne by (simp add: r traffic_ok_def)
  have loads: "mq.loads (queueL2 s) = (if fromCPU r then 1 else 0) + mq.loads q"
    using mq.loads_remove [OF qok ne] ld by (simp add: r q_def)
  have hw': "hw_ok (s2\<lparr>queueL2 := q\<rparr>)" and tr': "traffic_ok (s2\<lparr>queueL2 := q\<rparr>)"
    using hw tr rm sub by (auto simp: hw_ok_def traffic_ok_def s1_def s2_def accessed_ok(1))
  show "sim_ok (s2\<lparr>queueL2 := q\<rparr>)"
  proof (cases "fromCPU r")
    case True
    have "in_flight s \<le> 1" using ok by (simp add: ok_defs)
    then have "in_flight (s2\<lparr>queueL2 := q\<rparr>) = 0" using True loads by (simp add: in_flight_def s1_def s2_def)
    then show ?thesis using True ok
      by (intro ok_complete [OF hw' tr', of "core s1" "curr_cycle s1"]) (simp_all add: s2_def s1_def ok_defs)
  next
    case False
    then show ?thesis using ok hw' tr' loads sub
      by (auto simp: ok_defs s2_def s1_def same_access_def)
  qed
  show "work limit pend (s2\<lparr>queueL2 := q\<rparr>) < work limit pend s"
  proof (cases "fromCPU r")
    case True
    then have "cpu_state (core s) = WAITING"
      using ok loads by (auto simp: ok_defs split: if_splits)
    then have "\<not> cpu_done (core s)" using ok by (auto simp: ok_defs)
    then show ?thesis using True rm complete_work [of "core s1" limit "curr_cycle s1"]
      by (simp add: work_def s2_def s1_def)
  next
    case False
    then show ?thesis using rm by (simp add: work_def s2_def s1_def)
  qed
qed

text \<open>A request that moves from the head of one queue to the memory queue.\<close>

lemma l2_miss:
  assumes ok: "sim_ok s" and ne: "requests (queueL2 s) \<noteq> []" and r: "r = hd (requests (queueL2 s))"
    and a: "add (l2cache s) (queueMem s) r (curr_cycle s) = Some (added, m)"
  defines "s1 \<equiv> s\<lparr>core := loadHitL2 (core s) False, queueMem := m\<rparr>"
  defines "s2 \<equiv> (if added then s1\<lparr>queueL2 := snd (remove (queueL2 s))\<rparr> else s1)"
  shows "sim_ok s2" "work limit pend s2 \<le> work limit pend s"
    "added \<Longrightarrow> work limit pend s2 < work limit pend s"
proof -
  have qok: "queue_ok (queueL2 s)" and mok: "queue_ok (queueMem s)" and geom: "wf_geom (l2cache s)"
    using ok by (simp_all add: ok_defs cache_geom)
  let ?q = "snd (remove (queueL2 s))"
  have rm: "queue_ok ?q" "requests ?q = tl (requests (queueL2 s))" "mq.len (queueL2 s) = Suc (mq.len ?q)"
    using mq.remove_inv [OF qok ne] mq.remove_reqs [OF qok ne] mq.len_remove [OF qok ne] by simp_all
  have sub: "set (requests ?q) \<subseteq> set (requests (queueL2 s))"
    unfolding rm by (metis list.set_sel(2) ne subsetI)
  have mok': "queue_ok m" using mq.add_inv [OF geom mok a] .
  have rin: "r \<in> set (requests (queueL2 s))" using ne by (simp add: r)
  let ?P = "\<lambda>x. cpu_load x \<longrightarrow> same_access x (currReq (core s))"
  have all: "\<forall>x \<in> set (requests m). ?P x"
    using mq.all_add [OF geom mok a, where P = ?P] rin ok by (auto simp: ok_defs)
  have acc: "same_access x ((currReq (core s))\<lparr>HitL2 := b\<rparr>) = same_access x (currReq (core s))" for x b
    by (simp add: same_access_def)
  have "in_flight s2 = in_flight s \<and> work limit pend s2 \<le> work limit pend s \<and>
      (added \<longrightarrow> work limit pend s2 < work limit pend s)"
  proof (cases added)
    case True
    with a have a': "add (l2cache s) (queueMem s) r (curr_cycle s) = Some (True, m)" by simp
    show ?thesis
      using mq.loads_add_done [OF geom mok a'] mq.loads_remove [OF qok ne] mq.len_add [OF geom mok a'] rm(3) True
      by (simp add: in_flight_def work_def s2_def s1_def r)
  next
    case False
    with a have a': "add (l2cache s) (queueMem s) r (curr_cycle s) = Some (False, m)" by simp
    show ?thesis
      using mq.loads_add_full [OF geom mok a'] mq.len_refused [OF geom mok a'] False
      by (simp add: in_flight_def work_def s2_def s1_def)
  qed
  then show "work limit pend s2 \<le> work limit pend s" "added \<Longrightarrow> work limit pend s2 < work limit pend s"
    and "sim_ok s2"
    using ok mok' rm(1) sub all
    by (simp_all add: sim_ok_def hw_ok_def core_ok_def)
      (auto simp: hw_ok_def traffic_ok_def core_ok_def flight_ok_def s2_def s1_def acc)
qed

text \<open>What each phase after the CPU's turn promises.\<close>

definition phase_ok :: "nat \<Rightarrow> ('p \<Rightarrow> nat) \<Rightarrow> bool \<Rightarrow> 'p sim \<Rightarrow> 'p sim option \<Rightarrow> bool" where
  "phase_ok limit pend progress s r \<longleftrightarrow>
     (\<exists>s'. r = Some s' \<and> sim_ok s' \<and> curr_cycle s' = curr_cycle s \<and>
        work limit pend s' \<le> work limit pend s \<and>
        (progress \<longrightarrow> curr_cycle s = - 1 \<longrightarrow> work limit pend s' < work limit pend s))"

lemma phase_idle:
  assumes "sim_ok s" "\<not> (progress \<and> curr_cycle s = - 1)"
  shows "phase_ok limit pend progress s (Some s)"
  using assms by (auto simp: phase_ok_def)

lemma not_ready:
  assumes "queue_ok q" "frontReady q c = Some False"
  shows "\<not> (requests q \<noteq> [] \<and> c = - 1)"
  using assms mq.ready_at_last [of q] by auto

lemma phase_not_ready:
  assumes "sim_ok s" "queue_ok q" "frontReady q (curr_cycle s) = Some False" "progress \<Longrightarrow> requests q \<noteq> []"
  shows "phase_ok limit pend progress s (Some s)"
  using assms(4) not_ready [OF assms(2,3)] by (intro phase_idle [OF assms(1)]) blast

lemma l2_phase_ok:
  assumes ok: "sim_ok s"
  shows "phase_ok limit pend (requests (queueL2 s) \<noteq> [] \<and> mq.len (queueMem s) < q_capacity (queueMem s))
      s (l2_phase s)"
proof -
  have qok: "queue_ok (queueL2 s)" "queue_ok (queueMem s)" and c: "cache_ok (dcache s)" "cache_ok (l2cache s)"
    using ok by (simp_all add: ok_defs)
  obtain b where b: "frontReady (queueL2 s) (curr_cycle s) = Some b" using mq.ready_defined [OF qok(1)] by blast
  show ?thesis
  proof (cases b)
    case False
    with b have "l2_phase s = Some s" by (simp add: l2_phase_def)
    then show ?thesis using phase_not_ready [OF ok qok(1)] b False by simp
  next
    case True
    with b have ne: "requests (queueL2 s) \<noteq> []" using mq.ready_nonempty [OF qok(1)] by simp
    let ?r = "hd (requests (queueL2 s))"
    note front = mq.front_reqs [OF qok(1) ne]
    show ?thesis
    proof (cases "in_cache (l2cache s) (addr ?r)")
      case True
      then show ?thesis
        using b \<open>b\<close> front c l2_hit(1) [OF ok ne refl] l2_hit(2) [OF ok ne refl, of limit pend]
        by (auto simp: phase_ok_def l2_phase_def check_wf cache_access_wf Let_def)
    next
      case False
      obtain added m where a: "add (l2cache s) (queueMem s) ?r (curr_cycle s) = Some (added, m)"
        using mq.add_defined [OF cache_geom [OF c(2)] qok(2)] by blast
      have "added" if "mq.len (queueMem s) < q_capacity (queueMem s)"
        using that a mq.len_refused(2) [OF cache_geom [OF c(2)] qok(2), of ?r "curr_cycle s" m] by (cases added) auto
      then show ?thesis
        using b \<open>b\<close> front c False a l2_miss(1) [OF ok ne refl a] l2_miss(2,3) [OF ok ne refl a, of limit pend]
        by (auto simp: phase_ok_def l2_phase_def check_wf cache_access_wf Let_def)
    qed
  qed
qed

lemma l2_phase_frame:
  assumes ok: "sim_ok s" and s': "l2_phase s = Some s'"
  shows "pf s' = pf s" "writeBuffer s' = writeBuffer s" "mq.len (queueMem s) \<le> mq.len (queueMem s')"
proof -
  have "queue_ok (queueMem s)" "wf_geom (l2cache s)" using ok by (simp_all add: ok_defs cache_geom)
  from mq.len_add_mono [OF this(2,1)] s'
  show "pf s' = pf s" "writeBuffer s' = writeBuffer s" "mq.len (queueMem s) \<le> mq.len (queueMem s')"
    by (auto simp: l2_phase_def Let_def bind_eq_Some_conv split: if_splits)
qed

section \<open>The memory queue\<close>

lemma mem_serve:
  assumes ok: "sim_ok s" and ne: "requests (queueMem s) \<noteq> []" and r: "r = hd (requests (queueMem s))"
  defines "s1 \<equiv> s\<lparr>queueMem := snd (remove (queueMem s)), l2cache := accessed (l2cache s) (addr r) (load r)\<rparr>"
  defines "s2 \<equiv> (if load r then s1\<lparr>dcache := accessed (dcache s) (addr r) (load r)\<rparr> else s1)"
  defines "s3 \<equiv> (if fromCPU r \<and> load r then s2\<lparr>core := completeRequest (core s2) (curr_cycle s2)\<rparr> else s2)"
  shows "sim_ok s3" "work limit pend s3 < work limit pend s"
proof -
  have qok: "queue_ok (queueMem s)" using ok by (simp add: ok_defs)
  let ?q = "snd (remove (queueMem s))"
  have rm: "queue_ok ?q" "requests ?q = tl (requests (queueMem s))" "mq.len (queueMem s) = Suc (mq.len ?q)"
    using mq.remove_inv [OF qok ne] mq.remove_reqs [OF qok ne] mq.len_remove [OF qok ne] by simp_all
  have sub: "set (requests ?q) \<subseteq> set (requests (queueMem s))"
    unfolding rm by (metis list.set_sel(2) ne subsetI)
  have loads: "mq.loads (queueMem s) = (if cpu_load r then 1 else 0) + mq.loads ?q"
    using mq.loads_remove [OF qok ne] by (simp add: r)
  have c: "cache_ok (accessed (l2cache s) a ld)" "cache_ok (accessed (dcache s) a ld)" for a ld
    using ok by (auto intro!: accessed_ok(1) simp: sim_ok_def hw_ok_def)
  have hw: "hw_ok s3" "traffic_ok s3"
    using ok rm(1) c by (simp_all add: sim_ok_def hw_ok_def traffic_ok_def s1_def s2_def s3_def)
  show "sim_ok s3"
  proof (cases "cpu_load r")
    case True
    have "in_flight s \<le> 1" using ok by (simp add: ok_defs)
    then have "in_flight s3 = 0" using True loads by (simp add: in_flight_def s3_def s2_def s1_def)
    then show ?thesis using True ok
      by (intro ok_complete [OF hw, of "core s2" "curr_cycle s2"]) (simp_all add: s3_def s2_def s1_def ok_defs)
  next
    case False
    then have same: "core s3 = core s" "queueL2 s3 = queueL2 s" "queueMem s3 = ?q"
      by (auto simp: s3_def s2_def s1_def)
    have "in_flight s3 = in_flight s" using loads False by (simp add: in_flight_def same)
    then have "core_ok s3" "flight_ok s3"
      using ok sub by (auto simp: sim_ok_def core_ok_def flight_ok_def same)
    then show ?thesis using hw by (simp add: sim_ok_def)
  qed
  show "work limit pend s3 < work limit pend s"
  proof (cases "cpu_load r")
    case True
    then have "cpu_state (core s) = WAITING" using ok loads by (auto simp: ok_defs split: if_splits)
    then have "\<not> cpu_done (core s)" using ok by (auto simp: ok_defs)
    then show ?thesis using True rm(3) complete_work [of "core s" limit "curr_cycle s"]
      by (simp add: work_def s3_def s2_def s1_def)
  next
    case False
    then show ?thesis using rm(3) by (auto simp: work_def s3_def s2_def s1_def)
  qed
qed

lemma mem_phase_ok:
  assumes ok: "sim_ok s"
  shows "phase_ok limit pend (requests (queueMem s) \<noteq> []) s (mem_phase s)"
proof -
  have qok: "queue_ok (queueMem s)" and c: "cache_ok (dcache s)" "cache_ok (l2cache s)"
    using ok by (simp_all add: ok_defs)
  obtain b where b: "frontReady (queueMem s) (curr_cycle s) = Some b" using mq.ready_defined [OF qok] by blast
  show ?thesis
  proof (cases b)
    case False
    with b have "mem_phase s = Some s" by (simp add: mem_phase_def)
    then show ?thesis using phase_not_ready [OF ok qok] b False by simp
  next
    case True
    with b have ne: "requests (queueMem s) \<noteq> []" using mq.ready_nonempty [OF qok] by simp
    show ?thesis
      using b True mq.front_reqs [OF qok ne] c mem_serve(1) [OF ok ne refl] mem_serve(2) [OF ok ne refl, of limit pend]
      by (auto simp: phase_ok_def mem_phase_def cache_access_wf Let_def)
  qed
qed

lemma mem_phase_frame:
  assumes "mem_phase s = Some s'"
  shows "pf s' = pf s" "writeBuffer s' = writeBuffer s" "queueL2 s' = queueL2 s"
  using assms by (auto simp: mem_phase_def Let_def bind_eq_Some_conv split: if_splits)

lemma mem_phase_empty: "queue_ok (queueMem s) \<Longrightarrow> requests (queueMem s) = [] \<Longrightarrow> mem_phase s = Some s"
  by (auto simp: mem_phase_def frontReady_refines requests_def)

section \<open>The statistics and the write buffer\<close>

lemma stats_fields [simp]:
  "dcache (stats_phase s) = dcache s" "l2cache (stats_phase s) = l2cache s" "core (stats_phase s) = core s"
  "pf (stats_phase s) = pf s" "writeBuffer (stats_phase s) = writeBuffer s"
  "queueL2 (stats_phase s) = queueL2 s" "queueMem (stats_phase s) = queueMem s"
  "curr_cycle (stats_phase s) = curr_cycle s"
  by (simp_all add: stats_phase_def Let_def)

lemma stats_ok [simp]:
  "sim_ok (stats_phase s) = sim_ok s" "work limit pend (stats_phase s) = work limit pend s"
  by (simp_all add: ok_defs work_def)

lemma wb_hit:
  fixes a :: u32 and ld :: bool
  assumes ok: "sim_ok s" and ne: "requests (writeBuffer s) \<noteq> []"
  defines "s1 \<equiv> s\<lparr>core := storeHitL2 (core s) True, l2cache := accessed (l2cache s) a ld,
    writeBuffer := snd (remove (writeBuffer s))\<rparr>"
  shows "sim_ok s1" "work limit pend s1 < work limit pend s"
proof -
  have qok: "queue_ok (writeBuffer s)" and c: "cache_ok (accessed (l2cache s) a ld)"
    and stores: "\<forall>x \<in> set (requests (writeBuffer s)). fromCPU x \<and> \<not> load x"
    using ok by (auto intro!: accessed_ok(1) simp: sim_ok_def hw_ok_def traffic_ok_def)
  show "sim_ok s1"
    using ok c mq.remove_inv [OF qok ne] mq.all_remove [OF qok ne stores]
    by (simp add: ok_defs s1_def)
  show "work limit pend s1 < work limit pend s"
    using mq.len_remove [OF qok ne] by (simp add: work_def s1_def)
qed

lemma wb_miss:
  assumes ok: "sim_ok s" and ne: "requests (writeBuffer s) \<noteq> []" and r: "r = hd (requests (writeBuffer s))"
    and a: "add (l2cache s) (queueMem s) r (curr_cycle s) = Some (added, m)"
  defines "s1 \<equiv> s\<lparr>core := storeHitL2 (core s) False, queueMem := m\<rparr>"
  defines "s2 \<equiv> (if added then s1\<lparr>writeBuffer := snd (remove (writeBuffer s))\<rparr> else s1)"
  shows "sim_ok s2" "work limit pend s2 \<le> work limit pend s"
    "added \<Longrightarrow> work limit pend s2 < work limit pend s"
proof -
  have qok: "queue_ok (writeBuffer s)" and mok: "queue_ok (queueMem s)" and geom: "wf_geom (l2cache s)"
    and stores: "\<forall>x \<in> set (requests (writeBuffer s)). fromCPU x \<and> \<not> load x"
    using ok by (simp_all add: ok_defs cache_geom)
  have st: "\<not> load r" using stores ne by (simp add: r)
  let ?P = "\<lambda>x. cpu_load x \<longrightarrow> same_access x (currReq (core s))"
  have all: "\<forall>x \<in> set (requests m). ?P x"
    using mq.all_add [OF geom mok a, where P = ?P] st ok by (auto simp: ok_defs)
  note rm = mq.remove_inv [OF qok ne] mq.all_remove [OF qok ne stores] mq.len_remove [OF qok ne]
  have "mq.loads m = mq.loads (queueMem s) \<and> work limit pend s2 \<le> work limit pend s \<and>
      (added \<longrightarrow> work limit pend s2 < work limit pend s)"
  proof (cases added)
    case True
    with a have a': "add (l2cache s) (queueMem s) r (curr_cycle s) = Some (True, m)" by simp
    show ?thesis
      using mq.loads_add_done [OF geom mok a'] mq.len_add [OF geom mok a'] rm(3) True st
      by (simp add: work_def s2_def s1_def)
  next
    case False
    with a have a': "add (l2cache s) (queueMem s) r (curr_cycle s) = Some (False, m)" by simp
    show ?thesis
      using mq.loads_add_full [OF geom mok a'] mq.len_refused [OF geom mok a'] False
      by (simp add: work_def s2_def s1_def)
  qed
  then show "work limit pend s2 \<le> work limit pend s" "added \<Longrightarrow> work limit pend s2 < work limit pend s"
    and "sim_ok s2"
    using ok mq.add_inv [OF geom mok a] rm(1,2) all
    by (simp_all add: ok_defs s2_def s1_def)
qed

lemma wb_phase_ok:
  assumes ok: "sim_ok s"
  shows "phase_ok limit pend (requests (writeBuffer s) \<noteq> [] \<and> mq.len (queueMem s) < q_capacity (queueMem s))
      s (wb_phase s)"
proof -
  have qok: "queue_ok (writeBuffer s)" "queue_ok (queueMem s)" and c: "cache_ok (l2cache s)"
    using ok by (simp_all add: ok_defs)
  obtain b where b: "frontReady (writeBuffer s) (curr_cycle s) = Some b" using mq.ready_defined [OF qok(1)] by blast
  show ?thesis
  proof (cases b)
    case False
    with b have "wb_phase s = Some s" by (simp add: wb_phase_def)
    then show ?thesis using phase_not_ready [OF ok qok(1)] b False by simp
  next
    case True
    with b have ne: "requests (writeBuffer s) \<noteq> []" using mq.ready_nonempty [OF qok(1)] by simp
    let ?r = "hd (requests (writeBuffer s))"
    note front = mq.front_reqs [OF qok(1) ne]
    show ?thesis
    proof (cases "in_cache (l2cache s) (addr ?r)")
      case True
      then show ?thesis
        using b \<open>b\<close> front c wb_hit(1) [OF ok ne, of "addr ?r" "load ?r"]
          wb_hit(2) [OF ok ne, of limit pend "addr ?r" "load ?r"]
        by (auto simp: phase_ok_def wb_phase_def check_wf cache_access_wf Let_def)
    next
      case False
      obtain added m where a: "add (l2cache s) (queueMem s) ?r (curr_cycle s) = Some (added, m)"
        using mq.add_defined [OF cache_geom [OF c] qok(2)] by blast
      have "added" if "mq.len (queueMem s) < q_capacity (queueMem s)"
        using that a mq.len_refused(2) [OF cache_geom [OF c] qok(2), of ?r "curr_cycle s" m] by (cases added) auto
      then show ?thesis
        using b \<open>b\<close> front c False a wb_miss(1) [OF ok ne refl a] wb_miss(2,3) [OF ok ne refl a, of limit pend]
        by (auto simp: phase_ok_def wb_phase_def check_wf cache_access_wf Let_def)
    qed
  qed
qed

lemma wb_phase_frame: "wb_phase s = Some s' \<Longrightarrow> pf s' = pf s"
  by (auto simp: wb_phase_def Let_def bind_eq_Some_conv split: if_splits)

section \<open>The CPU and the prefetcher\<close>

text \<open>The CPU sends its load to the L2 queue, at once or after a stall.\<close>

lemma send_load:
  assumes ok: "sim_ok s" and idle: "in_flight s = 0" and live: "\<not> cpu_done (core s)"
    and r: "cpu_load r" "same_access r (currReq (core s))" "load (currReq (core s))"
    and a: "add (dcache s) (queueL2 s) r (curr_cycle s) = Some (added, q)"
  defines "s' \<equiv> s\<lparr>queueL2 := q, core := setStatus (core s) (if added then WAITING else STALLED_L2)\<rparr>"
  shows "sim_ok s'"
    "work limit pend s' + cpu_work limit (cpu_state (core s)) \<le> work limit pend s + (if added then 2 else 3)"
proof -
  have qok: "queue_ok (queueL2 s)" and geom: "wf_geom (dcache s)" using ok by (simp_all add: ok_defs cache_geom)
  let ?P = "\<lambda>x. load x \<and> (cpu_load x \<longrightarrow> same_access x (currReq (core s)))"
  have "\<forall>x \<in> set (requests (queueL2 s)). ?P x"
    using ok by (auto simp: sim_ok_def traffic_ok_def flight_ok_def)
  then have all: "\<forall>x \<in> set (requests q). ?P x"
    using mq.all_add [OF geom qok a, where P = ?P] r by blast
  have count: "mq.loads q = (if added then 1 else 0) \<and> mq.loads (queueMem s) = 0 \<and>
      mq.len q \<le> mq.len (queueL2 s) + (if added then 1 else 0)"
  proof (cases added)
    case True
    with a have a': "add (dcache s) (queueL2 s) r (curr_cycle s) = Some (True, q)" by simp
    show ?thesis
      using mq.loads_add_done [OF geom qok a'] mq.len_add [OF geom qok a'] True r idle by (simp add: in_flight_def)
  next
    case False
    with a have a': "add (dcache s) (queueL2 s) r (curr_cycle s) = Some (False, q)" by simp
    show ?thesis
      using mq.loads_add_full [OF geom qok a'] mq.len_refused [OF geom qok a'] False idle by (simp add: in_flight_def)
  qed
  have "in_flight s' = (if added then 1 else 0)" using count by (simp add: in_flight_def s'_def)
  then have "flight_ok s'" using ok all by (simp add: sim_ok_def flight_ok_def s'_def)
  then show "sim_ok s'"
    using ok all mq.add_inv [OF geom qok a] live r(3)
    by (simp add: sim_ok_def hw_ok_def traffic_ok_def core_ok_def s'_def)
  show "work limit pend s' + cpu_work limit (cpu_state (core s)) \<le> work limit pend s + (if added then 2 else 3)"
    using count by (auto simp: work_def s'_def cpu_work_def)
qed

text \<open>The CPU sends its store to the write buffer and is done with it.\<close>

lemma send_store:
  assumes ok: "sim_ok s" and idle: "in_flight s = 0" and live: "\<not> cpu_done (core s)"
    and r: "fromCPU r" "\<not> load r" "\<not> load (currReq (core s))"
    and a: "add (dcache s) (writeBuffer s) r (curr_cycle s) = Some (added, q)"
  defines "s' \<equiv> s\<lparr>writeBuffer := q,
    core := (if added then completeRequest (core s) (curr_cycle s) else setStatus (core s) STALLED_WB)\<rparr>"
  shows "sim_ok s'"
    "work limit pend s' + cpu_work limit (cpu_state (core s)) + (if added then 3 * limit + 2 else 0) \<le> work limit pend s"
proof -
  have qok: "queue_ok (writeBuffer s)" and geom: "wf_geom (dcache s)" using ok by (simp_all add: ok_defs cache_geom)
  let ?P = "\<lambda>x. fromCPU x \<and> \<not> load x"
  have "\<forall>x \<in> set (requests (writeBuffer s)). ?P x" using ok by (simp add: sim_ok_def traffic_ok_def)
  then have all: "\<forall>x \<in> set (requests q). ?P x"
    using mq.all_add [OF geom qok a, where P = ?P] r by blast
  have hw: "hw_ok s'" "traffic_ok s'"
    using ok all mq.add_inv [OF geom qok a] by (simp_all add: sim_ok_def hw_ok_def traffic_ok_def s'_def)
  have fl: "in_flight s' = 0" using idle by (simp add: in_flight_def s'_def)
  show "sim_ok s'"
  proof (cases added)
    case True
    then show ?thesis using ok fl
      by (intro ok_complete [OF hw, of "core s" "curr_cycle s"]) (simp_all add: s'_def sim_ok_def core_ok_def)
  next
    case False
    then have "flight_ok s'" "core_ok s'"
      using ok fl live r(3) by (simp_all add: sim_ok_def flight_ok_def core_ok_def s'_def)
    then show ?thesis using hw by (simp add: sim_ok_def)
  qed
  show "work limit pend s' + cpu_work limit (cpu_state (core s)) + (if added then 3 * limit + 2 else 0) \<le> work limit pend s"
  proof (cases added)
    case True
    with a have a': "add (dcache s) (writeBuffer s) r (curr_cycle s) = Some (True, q)" by simp
    show ?thesis
      using mq.len_add [OF geom qok a'] True complete_work [OF live, of limit "curr_cycle s"]
      by (simp add: work_def s'_def)
  next
    case False
    with a have a': "add (dcache s) (writeBuffer s) r (curr_cycle s) = Some (False, q)" by simp
    show ?thesis
      using mq.len_refused [OF geom qok a'] False by (simp add: work_def s'_def cpu_work_def)
  qed
qed

text \<open>The CPU issues its request and the prefetcher hears of it.\<close>

definition issued :: "'p pf_ops \<Rightarrow> 'p sim \<Rightarrow> 'p sim" where
  "issued ops s =
     (let r = (currReq (core s))\<lparr>issuedAt := curr_cycle s, HitL1 := in_cache (dcache s) (addr (currReq (core s)))\<rparr>
      in s\<lparr>core := (core s)\<lparr>currReq := r\<rparr>, pf := op_told ops (pf s) r\<rparr>)"

lemma issued_fields [simp]:
  "dcache (issued ops s) = dcache s" "l2cache (issued ops s) = l2cache s" "queueL2 (issued ops s) = queueL2 s"
  "queueMem (issued ops s) = queueMem s" "writeBuffer (issued ops s) = writeBuffer s"
  "curr_cycle (issued ops s) = curr_cycle s" "cpu_state (core (issued ops s)) = cpu_state (core s)"
  "cpu_done (core (issued ops s)) = cpu_done (core s)" "trace_left (core (issued ops s)) = trace_left (core s)"
  "load (currReq (core (issued ops s))) = load (currReq (core s))"
  "addr (currReq (core (issued ops s))) = addr (currReq (core s))"
  "fromCPU (currReq (core (issued ops s))) = fromCPU (currReq (core s))"
  by (simp_all add: issued_def Let_def trace_left_def)

lemma issued_ok: "sim_ok s \<Longrightarrow> in_flight s = 0 \<Longrightarrow> sim_ok (issued ops s)"
  by (auto simp: ok_defs mq.loads_0)

lemma cpu_ready_eq:
  assumes "cache_ok (dcache s)"
  shows "cpu_ready ops s =
    (let s1 = issued ops s; r = currReq (core s1) in
     if HitL1 r
     then Some (s1\<lparr>dcache := accessed (dcache s1) (addr r) (load r), core := completeRequest (core s1) (curr_cycle s1)\<rparr>)
     else if load r
     then do { (added, q) \<leftarrow> add (dcache s1) (queueL2 s1) r (curr_cycle s1);
               Some (s1\<lparr>nRequestsL2 := nRequestsL2 s1 + 1, queueL2 := q,
                 core := setStatus (core s1) (if added then WAITING else STALLED_L2)\<rparr>) }
     else do { (added, q) \<leftarrow> add (dcache s1) (writeBuffer s1) r (curr_cycle s1);
               Some (s1\<lparr>nRequestsL2 := nRequestsL2 s1 + 1, writeBuffer := q,
                 core := (if added then completeRequest (core s1) (curr_cycle s1) else setStatus (core s1) STALLED_WB)\<rparr>) })"
  using assms
  by (simp add: cpu_ready_def issueRequest_def hitL1_def check_wf cache_access_wf issued_def Let_def
      cong: if_cong)

lemma request_count [simp]:
  "sim_ok (s\<lparr>nRequestsL2 := n, queueL2 := q, core := k\<rparr>) = sim_ok (s\<lparr>queueL2 := q, core := k\<rparr>)"
  "work limit pend (s\<lparr>nRequestsL2 := n, queueL2 := q, core := k\<rparr>) = work limit pend (s\<lparr>queueL2 := q, core := k\<rparr>)"
  "sim_ok (s\<lparr>nRequestsL2 := n, writeBuffer := q, core := k\<rparr>) = sim_ok (s\<lparr>writeBuffer := q, core := k\<rparr>)"
  "work limit pend (s\<lparr>nRequestsL2 := n, writeBuffer := q, core := k\<rparr>) = work limit pend (s\<lparr>writeBuffer := q, core := k\<rparr>)"
  "sim_ok (s\<lparr>nRequestsL2 := n, queueL2 := q, pf := p\<rparr>) = sim_ok (s\<lparr>queueL2 := q, pf := p\<rparr>)"
  "work limit pend (s\<lparr>nRequestsL2 := n, queueL2 := q, pf := p\<rparr>) = work limit pend (s\<lparr>queueL2 := q, pf := p\<rparr>)"
  "sim_ok (s\<lparr>curr_cycle := c\<rparr>) = sim_ok s" "work limit pend (s\<lparr>curr_cycle := c\<rparr>) = work limit pend s"
  by (simp_all add: ok_defs work_def)

locale simulator = prefetch_source +
  fixes get_op :: "'a \<Rightarrow> u32 \<Rightarrow> Request"
begin

definition ops :: "'a pf_ops" where
  "ops = \<lparr>op_has = has_op, op_get = get_op, op_complete = complete_op, op_told = told_op\<rparr>"

lemma ops_simps [simp]:
  "op_has ops = has_op" "op_get ops = get_op" "op_complete ops = complete_op" "op_told ops = told_op"
  by (simp_all add: ops_def)

definition cpu_result :: "'a sim \<Rightarrow> 'a sim \<Rightarrow> bool" where
  "cpu_result s s' \<longleftrightarrow> sim_ok s' \<and> ok (pf s') \<and> curr_cycle s' = curr_cycle s \<and>
     mq.len (queueL2 s) \<le> mq.len (queueL2 s') \<and> mq.len (writeBuffer s) \<le> mq.len (writeBuffer s')"

lemma issued_work:
  assumes "ok (pf s)"
  shows "ok (pf (issued ops s))" "work limit pending (issued ops s) \<le> work limit pending s + 3 * limit"
proof -
  obtain r where r: "pf (issued ops s) = told_op (pf s) r" by (simp add: issued_def Let_def)
  show "ok (pf (issued ops s))" using told_ok [OF assms] by (simp add: r)
  show "work limit pending (issued ops s) \<le> work limit pending s + 3 * limit"
    using told_pending [OF assms, of r] by (simp add: work_def r)
qed

lemma cpu_ready_ok:
  assumes sok: "sim_ok s" and pok: "ok (pf s)" and st: "cpu_state (core s) = READY" and live: "\<not> cpu_done (core s)"
  shows "\<exists>s'. cpu_ready ops s = Some s' \<and> cpu_result s s' \<and> work limit pending s' < work limit pending s"
proof -
  let ?s = "issued ops s"
  let ?r = "currReq (core ?s)"
  have idle: "in_flight s = 0" using sok st by (simp add: sim_ok_def flight_ok_def)
  then have idle': "in_flight ?s = 0" by (simp add: in_flight_def)
  have sok': "sim_ok ?s" using sok idle by (rule issued_ok)
  have c: "cache_ok (dcache s)" "queue_ok (queueL2 s)" "queue_ok (writeBuffer s)" and cpu: "fromCPU ?r"
    using sok by (simp_all add: sim_ok_def hw_ok_def core_ok_def)
  note geom = cache_geom [OF c(1)]
  note w = issued_work [OF pok]
  have live': "\<not> cpu_done (core ?s)" and st': "cpu_state (core ?s) = READY" using live st by simp_all
  have r: "same_access ?r ?r" by (simp add: same_access_def)
  consider (hit) "HitL1 ?r" | (load) "\<not> HitL1 ?r" "load ?r" | (store) "\<not> HitL1 ?r" "\<not> load ?r" by blast
  then show ?thesis
  proof cases
    case hit
    let ?s' = "?s\<lparr>dcache := accessed (dcache ?s) (addr ?r) (load ?r), core := completeRequest (core ?s) (curr_cycle ?s)\<rparr>"
    have "sim_ok ?s'"
      using sok' idle' cpu accessed_ok(1) [OF c(1)]
      by (intro ok_complete [of ?s' "core ?s" "curr_cycle ?s"])
        (simp_all add: sim_ok_def hw_ok_def traffic_ok_def in_flight_def)
    moreover have "work limit pending ?s' < work limit pending s"
      using complete_work [OF live', of limit "curr_cycle ?s"] w(2) st by (simp add: work_def cpu_work_def)
    ultimately show ?thesis using hit w(1) by (simp add: cpu_ready_eq [OF c(1)] Let_def cpu_result_def)
  next
    case load
    obtain added q where a: "add (dcache ?s) (queueL2 ?s) ?r (curr_cycle ?s) = Some (added, q)"
      using mq.add_defined [OF geom c(2)] by force
    from a have a': "add (dcache s) (queueL2 s) ?r (curr_cycle s) = Some (added, q)" by simp
    show ?thesis
      using send_load(1) [OF sok' idle' live' _ r load(2) a] send_load(2) [OF sok' idle' live' _ r load(2) a, of limit pending]
        load cpu w st a' mq.len_add_mono [OF geom c(2) a']
      by (auto simp: cpu_ready_eq [OF c(1)] Let_def cpu_result_def cpu_work_def split: if_splits)
  next
    case store
    obtain added q where a: "add (dcache ?s) (writeBuffer ?s) ?r (curr_cycle ?s) = Some (added, q)"
      using mq.add_defined [OF geom c(3)] by force
    from a have a': "add (dcache s) (writeBuffer s) ?r (curr_cycle s) = Some (added, q)" by simp
    show ?thesis
      using send_store(1) [OF sok' idle' live' cpu store(2) store(2) a]
        send_store(2) [OF sok' idle' live' cpu store(2) store(2) a, of limit pending]
        store w st a' mq.len_add_mono [OF geom c(3) a']
      by (auto simp: cpu_ready_eq [OF c(1)] Let_def cpu_result_def cpu_work_def split: if_splits)
  qed
qed

lemma pf_turn_ok:
  assumes sok: "sim_ok s" and pok: "ok (pf s)"
  shows "\<exists>s'. pf_turn ops s = Some s' \<and> cpu_result s s' \<and> work limit pending s' \<le> work limit pending s \<and>
    core s' = core s \<and> writeBuffer s' = writeBuffer s"
proof (cases "has_op (pf s) (curr_cycle s)")
  case False
  then show ?thesis using assms by (simp add: pf_turn_def cpu_result_def)
next
  case True
  let ?r = "(get_op (pf s) (curr_cycle s))\<lparr>fromCPU := False, load := True\<rparr>"
  have qok: "queue_ok (queueL2 s)" and geom: "wf_geom (dcache s)" using sok by (simp_all add: ok_defs cache_geom)
  obtain added q where a: "add (dcache s) (queueL2 s) ?r (curr_cycle s) = Some (added, q)"
    using mq.add_defined [OF geom qok] by force
  let ?p = "if added then complete_op (pf s) (curr_cycle s) else pf s"
  let ?s = "s\<lparr>queueL2 := q, pf := ?p\<rparr>"
  let ?P = "\<lambda>x. load x \<and> (cpu_load x \<longrightarrow> same_access x (currReq (core s)))"
  have "\<forall>x \<in> set (requests (queueL2 s)). ?P x"
    using sok by (auto simp: sim_ok_def traffic_ok_def flight_ok_def)
  then have all: "\<forall>x \<in> set (requests q). ?P x"
    by (rule mq.all_add [OF geom qok a]) simp
  have pend: "0 < pending (pf s)" using has_pending [OF pok] True by simp
  have "mq.loads q = mq.loads (queueL2 s) \<and> work limit pending ?s \<le> work limit pending s"
  proof (cases added)
    case True
    with a have a': "add (dcache s) (queueL2 s) ?r (curr_cycle s) = Some (True, q)" by simp
    show ?thesis
      using mq.loads_add_done [OF geom qok a'] mq.len_add [OF geom qok a'] complete_pending [OF pok pend] pend True
      by (simp add: work_def)
  next
    case False
    with a have a': "add (dcache s) (queueL2 s) ?r (curr_cycle s) = Some (False, q)" by simp
    show ?thesis
      using mq.loads_add_full [OF geom qok a'] mq.len_refused [OF geom qok a'] False by (simp add: work_def)
  qed
  then have "sim_ok ?s \<and> work limit pending ?s \<le> work limit pending s"
    using sok all mq.add_inv [OF geom qok a]
    by (simp add: sim_ok_def hw_ok_def traffic_ok_def core_ok_def flight_ok_def in_flight_def)
  then show ?thesis
    using True a complete_ok [OF pok pend] pok mq.len_add_mono [OF geom qok a]
    by (auto simp: pf_turn_def cpu_result_def Let_def)
qed

lemma retry_wb_ok:
  assumes sok: "sim_ok s" and pok: "ok (pf s)" and st: "cpu_state (core s) = STALLED_WB"
  shows "\<exists>s'. retry_wb s = Some s' \<and> cpu_result s s' \<and> work limit pending s' \<le> work limit pending s \<and>
    (work limit pending s' < work limit pending s \<or> requests (writeBuffer s') \<noteq> [])"
proof -
  have qok: "queue_ok (writeBuffer s)" and geom: "wf_geom (dcache s)" using sok by (simp_all add: ok_defs cache_geom)
  let ?r = "currReq (core s)"
  obtain added q where a: "add (dcache s) (writeBuffer s) ?r (curr_cycle s) = Some (added, q)"
    using mq.add_defined [OF geom qok] by force
  have r: "in_flight s = 0" "\<not> cpu_done (core s)" "fromCPU ?r" "\<not> load ?r"
    using sok st by (auto simp: sim_ok_def flight_ok_def core_ok_def)
  have stalled: "setStatus (core s) STALLED_WB = core s" using st by (simp add: setStatus_def)
  note send = send_store(1) [OF sok r r(4) a] send_store(2) [OF sok r r(4) a, of limit pending]
  have "requests q \<noteq> []" if "\<not> added"
    using a that mq.refused_nonempty [OF geom qok] by simp
  then show ?thesis
    using send a pok st mq.len_add_mono [OF geom qok a]
    by (auto simp: retry_wb_def getRequest_def cpu_result_def stalled cpu_work_def split: if_splits)
qed

lemma retry_L2_ok:
  assumes sok: "sim_ok s" and pok: "ok (pf s)" and st: "cpu_state (core s) = STALLED_L2"
  shows "\<exists>s'. retry_L2 s = Some s' \<and> cpu_result s s' \<and> work limit pending s' \<le> work limit pending s \<and>
    (work limit pending s' < work limit pending s \<or> requests (queueL2 s') \<noteq> [])"
proof -
  have qok: "queue_ok (queueL2 s)" and geom: "wf_geom (dcache s)" using sok by (simp_all add: ok_defs cache_geom)
  let ?r = "currReq (core s)"
  obtain added q where a: "add (dcache s) (queueL2 s) ?r (curr_cycle s) = Some (added, q)"
    using mq.add_defined [OF geom qok] by force
  have r: "in_flight s = 0" "\<not> cpu_done (core s)" "cpu_load ?r" "same_access ?r ?r" "load ?r"
    using sok st by (auto simp: sim_ok_def flight_ok_def core_ok_def same_access_def)
  have stalled: "setStatus (core s) STALLED_L2 = core s" using st by (simp add: setStatus_def)
  note send = send_load(1) [OF sok r a] send_load(2) [OF sok r a, of limit pending]
  have "requests q \<noteq> []" if "\<not> added"
    using a that mq.refused_nonempty [OF geom qok] by simp
  then show ?thesis
    using send a pok st mq.len_add_mono [OF geom qok a]
    by (auto simp: retry_L2_def getRequest_def cpu_result_def stalled cpu_work_def split: if_splits)
qed

text \<open>At the last value of the counter the CPU's turn makes progress or leaves something to serve.\<close>

definition stuck_free :: "'a sim \<Rightarrow> 'a sim \<Rightarrow> bool" where
  "stuck_free s s' \<longleftrightarrow> work limit pending s' < work limit pending s \<or> cpu_state (core s') = WAITING \<or>
     requests (queueL2 s') \<noteq> [] \<or> requests (writeBuffer s') \<noteq> []"

lemma cpu_result_trans: "cpu_result s s1 \<Longrightarrow> cpu_result s1 s2 \<Longrightarrow> cpu_result s s2"
  by (auto simp: cpu_result_def)

lemma ready_ok:
  assumes "sim_ok s" "cpu_state (core s) = IDLE" "\<not> cpu_done (core s)"
  shows "sim_ok (s\<lparr>core := (core s)\<lparr>cpu_state := READY\<rparr>\<rparr>)"
    "work limit pend (s\<lparr>core := (core s)\<lparr>cpu_state := READY\<rparr>\<rparr>) = work limit pend s"
  using assms by (simp_all add: ok_defs work_def cpu_work_def trace_left_def)

lemma cpu_phase_ok:
  assumes sok: "sim_ok s" and pok: "ok (pf s)" and live: "\<not> cpu_done (core s)"
  shows "\<exists>s'. cpu_phase ops s = Some s' \<and> cpu_result s s' \<and> work limit pending s' \<le> work limit pending s \<and>
    (curr_cycle s = - 1 \<longrightarrow> stuck_free s s')"
proof -
  obtain s1 where s1: "pf_turn ops s = Some s1" "cpu_result s s1" "work limit pending s1 \<le> work limit pending s"
      "core s1 = core s" "writeBuffer s1 = writeBuffer s"
    using pf_turn_ok [OF sok pok] by blast
  then have s1_ok: "sim_ok s1" "ok (pf s1)" by (simp_all add: cpu_result_def)
  have same: "s\<lparr>core := core s\<rparr> = s" by simp
  show ?thesis
  proof (cases "cpu_state (core s)")
    case READY
    then show ?thesis using cpu_ready_ok [OF sok pok READY live]
      by (auto simp: cpu_phase_def getStatus_def same stuck_free_def)
  next
    case IDLE
    let ?s = "s\<lparr>core := (core s)\<lparr>cpu_state := READY\<rparr>\<rparr>"
    note r = ready_ok [OF sok IDLE live]
    show ?thesis
    proof (cases "readyAt (core s) \<le> curr_cycle s")
      case True
      moreover have "\<exists>s'. cpu_ready ops ?s = Some s' \<and> cpu_result ?s s' \<and> work limit pending s' < work limit pending ?s"
        using pok live by (intro cpu_ready_ok r(1)) simp_all
      ultimately show ?thesis using IDLE
        by (auto simp: cpu_phase_def getStatus_def stuck_free_def cpu_result_def r(2))
    next
      case False
      then show ?thesis using IDLE s1 by (auto simp: cpu_phase_def getStatus_def same)
    qed
  next
    case WAITING
    then show ?thesis using s1 by (simp add: cpu_phase_def getStatus_def same stuck_free_def)
  next
    case STALLED_L2
    then show ?thesis using retry_L2_ok [OF sok pok STALLED_L2]
      by (auto simp: cpu_phase_def getStatus_def same stuck_free_def)
  next
    case STALLED_WB
    then have "cpu_state (core s1) = STALLED_WB" using s1 by simp
    then obtain s2 where s2: "retry_wb s1 = Some s2" "cpu_result s1 s2" "work limit pending s2 \<le> work limit pending s1"
        "work limit pending s2 < work limit pending s1 \<or> requests (writeBuffer s2) \<noteq> []"
      using retry_wb_ok [OF s1_ok] by blast
    have "cpu_result s s2" using s1(2) s2(2) by (rule cpu_result_trans)
    then show ?thesis using STALLED_WB s1(1,3) s2(1,3,4)
      by (auto simp: cpu_phase_def getStatus_def same stuck_free_def)
  qed
qed

text \<open>One turn of the loop is defined, keeps the invariant and brings the end nearer.\<close>

definition rank :: "'a sim \<Rightarrow> nat" where
  "rank s = work limit pending s * 2 ^ 32 + unat (- 1 - curr_cycle s)"

lemma cycle_ok:
  assumes sok: "sim_ok s" and pok: "ok (pf s)" and live: "\<not> cpu_done (core s)"
  shows "\<exists>s'. cycle ops s = Some s' \<and> sim_ok s' \<and> ok (pf s') \<and> curr_cycle s' = curr_cycle s + 1 \<and>
    work limit pending s' \<le> work limit pending s \<and>
    (curr_cycle s = - 1 \<longrightarrow> work limit pending s' < work limit pending s)"
proof -
  obtain s1 where s1: "cpu_phase ops s = Some s1" "cpu_result s s1" "work limit pending s1 \<le> work limit pending s"
      "curr_cycle s = - 1 \<longrightarrow> stuck_free s s1"
    using cpu_phase_ok [OF assms] by blast
  then have s1_ok: "sim_ok s1" "ok (pf s1)" "curr_cycle s1 = curr_cycle s" by (simp_all add: cpu_result_def)
  obtain s2 where s2: "l2_phase s1 = Some s2" "sim_ok s2" "curr_cycle s2 = curr_cycle s1"
      "work limit pending s2 \<le> work limit pending s1"
      "requests (queueL2 s1) \<noteq> [] \<and> mq.len (queueMem s1) < q_capacity (queueMem s1) \<longrightarrow>
        curr_cycle s1 = - 1 \<longrightarrow> work limit pending s2 < work limit pending s1"
    using l2_phase_ok [OF s1_ok(1), of limit pending] by (auto simp: phase_ok_def)
  note f2 = l2_phase_frame [OF s1_ok(1) s2(1)]
  obtain s3 where s3: "mem_phase s2 = Some s3" "sim_ok s3" "curr_cycle s3 = curr_cycle s2"
      "work limit pending s3 \<le> work limit pending s2"
      "requests (queueMem s2) \<noteq> [] \<longrightarrow> curr_cycle s2 = - 1 \<longrightarrow> work limit pending s3 < work limit pending s2"
    using mem_phase_ok [OF s2(2), of limit pending] by (auto simp: phase_ok_def)
  note f3 = mem_phase_frame [OF s3(1)]
  have "sim_ok (stats_phase s3)" using s3(2) by simp
  from wb_phase_ok [OF this, of limit pending]
  obtain s4 where s4: "wb_phase (stats_phase s3) = Some s4" "sim_ok s4" "curr_cycle s4 = curr_cycle s3"
      "work limit pending s4 \<le> work limit pending s3"
      "requests (writeBuffer s3) \<noteq> [] \<and> mq.len (queueMem s3) < q_capacity (queueMem s3) \<longrightarrow>
        curr_cycle s3 = - 1 \<longrightarrow> work limit pending s4 < work limit pending s3"
    by (auto simp: phase_ok_def)
  have pf4: "pf s4 = pf s1" using wb_phase_frame [OF s4(1)] f2 f3 by simp
  have le: "work limit pending s4 \<le> work limit pending s" using s1(3) s2(4) s3(4) s4(4) by simp
  have "work limit pending s4 < work limit pending s" if last: "curr_cycle s = - 1"
  proof (rule ccontr)
    assume "\<not> ?thesis"
    then have eq: "work limit pending s1 = work limit pending s" "work limit pending s2 = work limit pending s1"
      "work limit pending s3 = work limit pending s2" "work limit pending s4 = work limit pending s3"
      using s1(3) s2(4) s3(4) s4(4) by simp_all
    have mem2: "requests (queueMem s2) = []" using s3(5) s2(3) s1_ok(3) last eq(3) by auto
    have room: "mq.len (queueMem s') < q_capacity (queueMem s')" if "sim_ok s'" "requests (queueMem s') = []" for s' :: "'a sim"
      using that mq.cap_pos [of "queueMem s'"] by (simp add: sim_ok_def hw_ok_def mq.len_def)
    have mem1: "requests (queueMem s1) = []" using f2(3) mem2 by (simp add: mq.len_def)
    have l2: "requests (queueL2 s1) = []"
      using s2(5) room [OF s1_ok(1) mem1] s1_ok(3) last eq(2) by auto
    have "s3 = s2" using mem_phase_empty [of s2] mem2 s2(2) s3(1) by (simp add: sim_ok_def hw_ok_def)
    then have wb: "requests (writeBuffer s1) = []"
      using s4(5) room [OF s2(2) mem2] s2(3) s1_ok(3) last eq(4) f2(2) by auto
    have "cpu_state (core s1) \<noteq> WAITING"
      using s1_ok(1) l2 mem1 by (auto simp: sim_ok_def flight_ok_def in_flight_def mq.loads_def)
    then show False using s1(4) last eq(1) l2 wb by (simp add: stuck_free_def)
  qed
  then show ?thesis
    using s1 s2(1,3) s3(1,3) s4 s1_ok pf4 le by (simp add: cycle_def)
qed

lemma cycle_rank:
  assumes "sim_ok s" "ok (pf s)" "\<not> cpu_done (core s)" "cycle ops s = Some s'"
  shows "rank s' < rank s"
proof -
  from cycle_ok [OF assms(1-3)] assms(4)
  have s': "curr_cycle s' = curr_cycle s + 1" "work limit pending s' \<le> work limit pending s"
    "curr_cycle s = - 1 \<longrightarrow> work limit pending s' < work limit pending s"
    by auto
  show ?thesis
  proof (cases "curr_cycle s = - 1")
    case True
    have "unat (- 1 - curr_cycle s') < 2 ^ 32" using unsigned_less [of "- 1 - curr_cycle s'", where 'a = nat] by simp
    moreover have "Suc (work limit pending s') * 2 ^ 32 \<le> work limit pending s * 2 ^ 32"
      using True s'(3) by (intro mult_le_mono1) simp
    ultimately show ?thesis by (simp add: rank_def)
  next
    case False
    then have "- 1 - curr_cycle s \<noteq> 0" by (metis eq_iff_diff_eq_0)
    from unat_pred [OF this] unat_gt_0 [of "- 1 - curr_cycle s"] this
    have "unat (- 1 - curr_cycle s - 1) < unat (- 1 - curr_cycle s)" by linarith
    moreover have "- 1 - curr_cycle s' = - 1 - curr_cycle s - 1" by (simp add: s'(1))
    ultimately have "unat (- 1 - curr_cycle s') < unat (- 1 - curr_cycle s)" by (simp only:)
    moreover have "work limit pending s' * 2 ^ 32 \<le> work limit pending s * 2 ^ 32" using s'(2) by simp
    ultimately show ?thesis by (simp add: rank_def)
  qed
qed

lemma simulate_ok:
  assumes "sim_ok s" "ok (pf s)"
  shows "\<exists>s'. simulate ops s = Some s' \<and> sim_ok s' \<and> cpu_done (core s')"
  using assms
proof (induction "rank s" arbitrary: s rule: less_induct)
  case less
  show ?case
  proof (cases "cpu_done (core s)")
    case True
    then show ?thesis using less.prems by (subst simulate.simps) (simp add: isDone_def)
  next
    case False
    obtain s1 where s1: "cycle ops s = Some s1" "sim_ok s1" "ok (pf s1)"
      using cycle_ok [OF less.prems False] by blast
    have "rank s1 < rank s" using cycle_rank [OF less.prems False s1(1)] .
    from less.hyps [OF this s1(2,3)] show ?thesis
      using False s1(1) by (subst simulate.simps) (simp add: isDone_def)
  qed
qed

end

section \<open>The whole program\<close>

lemma unat_num [simp]: "unat (1024 :: u32) = 1024" "unat (32 :: u32) = 32" "unat (16 :: u32) = 16" "unat (8 :: u32) = 8" "unat (2 :: u32) = 2"
  by simp_all

lemma ilog2_sizes: "ilog2 1024 = 10" "ilog2 32 = 5" "ilog2 16 = 4"
  using ilog2_power [of 10] ilog2_power [of 5] ilog2_power [of 4] by simp_all

lemma new_cpu_fields: "cpu_state (new_cpu r c file) = IDLE" "fromCPU (currReq (new_cpu r c file))"
  by (simp_all add: new_cpu_def)

lemma new_sim_ok: "sim_ok (new_sim j p file)" "pf (new_sim j p file) = p"
proof -
  have "requests (new_memQueue n lat pip wr nm) = []" if "0 < n" for n lat pip wr nm
    using that by (simp add: requests_def new_memQueue_ok(2))
  then show "sim_ok (new_sim j p file)"
    by (simp add: new_sim_def geometry_def ok_defs new_cpu_fields new_cache_ok new_memQueue_ok
        ilog2_sizes mq.loads_def)
  show "pf (new_sim j p file) = p" by (simp add: new_sim_def geometry_def)
qed

text \<open>The states between the turns of the loop.\<close>

inductive sim_reach :: "'p pf_ops \<Rightarrow> 'p sim \<Rightarrow> 'p sim \<Rightarrow> bool" for ops s0 where
  start: "sim_reach ops s0 s0"
| turn: "sim_reach ops s0 s \<Longrightarrow> \<not> isDone (core s) \<Longrightarrow> cycle ops s = Some s' \<Longrightarrow> sim_reach ops s0 s'"

text \<open>The state after \<open>n\<close> turns.\<close>

fun turns :: "nat \<Rightarrow> 'p pf_ops \<Rightarrow> 'p sim \<Rightarrow> 'p sim option" where
  "turns 0 ops s = Some s"
| "turns (Suc n) ops s = Option.bind (cycle ops s) (turns n ops)"

context simulator
begin

lemma turns_bound:
  assumes "sim_ok s" "ok (pf s)"
  shows "\<exists>n s'. n \<le> rank s \<and> turns n ops s = Some s' \<and> simulate ops s = Some s' \<and> isDone (core s')"
  using assms
proof (induction "rank s" arbitrary: s rule: less_induct)
  case less
  show ?case
  proof (cases "cpu_done (core s)")
    case True
    then show ?thesis by (intro exI [of _ 0] exI [of _ s]) (simp, subst simulate.simps, simp add: isDone_def)
  next
    case False
    obtain s1 where s1: "cycle ops s = Some s1" "sim_ok s1" "ok (pf s1)"
      using cycle_ok [OF less.prems False] by blast
    have r: "rank s1 < rank s" using cycle_rank [OF less.prems False s1(1)] .
    from less.hyps [OF this s1(2,3)] obtain n s' where n: "n \<le> rank s1" "turns n ops s1 = Some s'"
        "simulate ops s1 = Some s'" "isDone (core s')" by blast
    then have "Suc n \<le> rank s \<and> turns (Suc n) ops s = Some s' \<and> simulate ops s = Some s' \<and> isDone (core s')"
      using r s1(1) False by (subst simulate.simps) (simp add: isDone_def)
    then show ?thesis by blast
  qed
qed

lemma reach_ok: "sim_reach ops s0 s \<Longrightarrow> sim_ok s0 \<Longrightarrow> ok (pf s0) \<Longrightarrow> sim_ok s \<and> ok (pf s)"
proof (induction rule: sim_reach.induct)
  case (turn s s')
  then show ?case using cycle_ok [of s] by (auto simp: isDone_def)
qed simp

lemma reach_defined:
  assumes "sim_reach ops s0 s" "sim_ok s0" "ok (pf s0)" "\<not> isDone (core s)"
  shows "\<exists>s'. cycle ops s = Some s'"
  using reach_ok [OF assms(1-3)] assms(4) cycle_ok [of s] by (auto simp: isDone_def)

lemma main_written:
  assumes "length argv = 2" "files (argv ! 1) = Some file" "ok p"
  shows "\<exists>rep. sim_main ops j p files argv = Some (Written (argv ! 1 @ ''.out'') rep)"
proof -
  obtain s where "simulate ops (new_sim j p file) = Some s"
    using simulate_ok [of "new_sim j p file"] new_sim_ok [of j p "file"] assms(3) by auto
  then show ?thesis using assms by (simp add: sim_main_def)
qed

end

definition ops_of :: "('p \<Rightarrow> u32 \<Rightarrow> 'p) \<Rightarrow> ('p \<Rightarrow> Request \<Rightarrow> 'p) \<Rightarrow> ('p \<Rightarrow> u32 \<Rightarrow> bool) \<Rightarrow> ('p \<Rightarrow> u32 \<Rightarrow> Request) \<Rightarrow> 'p pf_ops" where
  "ops_of complete told has get = \<lparr>op_has = has, op_get = get, op_complete = complete, op_told = told\<rparr>"

definition no_ops where "no_ops = ops_of simple_completeRequest no_cpuRequest hasRequest nextRequest"
definition sample_ops where "sample_ops = ops_of simple_completeRequest sample_cpuRequest hasRequest nextRequest"
definition basic_ops where "basic_ops = ops_of basic_completeRequest basic_cpuRequest hasRequest nextRequest"
definition tagged_ops where "tagged_ops = ops_of tagged_completeRequest tagged_cpuRequest hasRequest nextRequest"
definition rpt_ops where "rpt_ops = ops_of rpt_completeRequest rpt_cpuRequest hasRequest nextRequest"
definition amalgam_ops where "amalgam_ops = ops_of amalgam_completeRequest amalgam_cpuRequest hasRequest nextRequest"
definition main_ops where "main_ops = ops_of pf_completeRequest pf_cpuRequest hasRequest nextRequest"

interpretation no_sim: simulator hasRequest simple_completeRequest no_cpuRequest "\<lambda>_. True" simple_pending 1 nextRequest
  by unfold_locales

interpretation sample_sim: simulator hasRequest simple_completeRequest sample_cpuRequest "\<lambda>_. True" simple_pending 1 nextRequest
  by unfold_locales

interpretation basic_sim: simulator hasRequest basic_completeRequest basic_cpuRequest "multi_ok 1" multi_pending 1 nextRequest
  by unfold_locales

interpretation tagged_sim: simulator hasRequest tagged_completeRequest tagged_cpuRequest "multi_ok 2" multi_pending 2 nextRequest
  by unfold_locales

interpretation rpt_sim: simulator hasRequest rpt_completeRequest rpt_cpuRequest "multi_ok 4" multi_pending 4 nextRequest
  by unfold_locales

interpretation amalgam_sim: simulator hasRequest amalgam_completeRequest amalgam_cpuRequest "multi_ok 4" multi_pending 4 nextRequest
  by unfold_locales

interpretation main_sim: simulator hasRequest pf_completeRequest pf_cpuRequest "multi_ok 3" multi_pending 3 nextRequest
  by unfold_locales

lemma sim_ops:
  "no_sim.ops = no_ops" "sample_sim.ops = sample_ops" "basic_sim.ops = basic_ops" "tagged_sim.ops = tagged_ops"
  "rpt_sim.ops = rpt_ops" "amalgam_sim.ops = amalgam_ops" "main_sim.ops = main_ops"
  by (simp_all add: no_sim.ops_def sample_sim.ops_def basic_sim.ops_def tagged_sim.ops_def rpt_sim.ops_def
      amalgam_sim.ops_def main_sim.ops_def no_ops_def sample_ops_def basic_ops_def tagged_ops_def rpt_ops_def
      amalgam_ops_def main_ops_def ops_of_def)

lemma new_pf_ok:
  "multi_ok 1 (new_basic r n)" "multi_ok 2 (new_tagged r n t)" "multi_ok 4 (new_rpt r n rows)"
  "multi_ok 4 (new_amalgam r n rows rnd)" "multi_ok 3 (new_prefetcher r n t ch rows)"
  by (simp_all add: multi_ok_def multi_pending_def new_basic_def new_tagged_def new_rpt_def new_amalgam_def
      new_prefetcher_def split: prod.split)

text \<open>What is left to do at the start is linear in the length of the trace.\<close>

lemma new_cpu_left: "trace_left (new_cpu r c file) \<le> length file + 1"
proof -
  let ?p = "\<lparr>trace = file, currReq = r\<lparr>fromCPU := True\<rparr>, cpu_state = IDLE, readyAt = c,
       cpu_done = False, nRequests = 0, hitsL1 = 0, hitsL2 = 0, totalAccessTime = 0\<rparr>"
  have "trace_left (readNextRequest ?p 0) < trace_left ?p" by (rule readNextRequest_left) simp
  then show ?thesis by (simp add: new_cpu_def trace_left_def)
qed

lemma new_sim_work:
  assumes "pend p = 0"
  shows "work limit pend (new_sim j p file) \<le> (6 * limit + 8) * (length file + 1) + 3 * limit + 4"
proof -
  have "mq.len (new_memQueue n lat pip wr nm) = 0" if "0 < n" for n lat pip wr nm
    using that by (simp add: mq.len_def requests_def new_memQueue_ok(2))
  moreover have "(6 * limit + 8) * trace_left (new_cpu (junkReq j) (junkReady j) file) \<le> (6 * limit + 8) * (length file + 1)"
    by (rule mult_le_mono2) (rule new_cpu_left)
  ultimately show ?thesis
    using assms by (simp add: work_def new_sim_def geometry_def new_cpu_fields cpu_work_def)
qed

end
