(* ===== verification/MemTracer.thy ===== *)
theory MemTracer
  imports CpuModel
begin

text \<open>
  The Pin tool \<open>memtracer.cpp\<close> that writes the traces the simulator reads. The globals of the
  file are the record; the value of the instruction counter \<open>icount\<close> and what Pin says about an
  instruction are arguments. \<^term>\<open>None\<close> is undefined behaviour or a failed assertion: writing to
  the trace after it was closed, and an event that the handler does not know.
\<close>

section \<open>State and operations\<close>

record tracer =
  t_trace :: string
  t_open :: bool
  icount_lastmem :: u32
  sincelast :: u32
  memrefs :: u32
  doinst :: bool
  detached :: bool

definition MAX_REFS :: u32 where
  "MAX_REFS = 2000000"

text \<open>The counter has 64 bits, the stored values 32: the comparison is made in 64 bits.\<close>

definition note_count :: "u64 \<Rightarrow> tracer \<Rightarrow> tracer" where
  "note_count count t =
     (if count = ucast (icount_lastmem t) then t\<lparr>sincelast := 0\<rparr>
      else t\<lparr>sincelast := ucast (count - ucast (icount_lastmem t) - 1), icount_lastmem := ucast count\<rparr>)"

definition write_line :: "char \<Rightarrow> u32 \<Rightarrow> u32 \<Rightarrow> tracer \<Rightarrow> tracer option" where
  "write_line ld ip a t =
     (if t_open t then Some (t\<lparr>t_trace := t_trace t @ trace_line ld ip a (sincelast t)\<rparr>) else None)"

text \<open>\<open>++memrefs\<close> and the limit\<close>

definition count_ref :: "tracer \<Rightarrow> tracer" where
  "count_ref t =
     (let t1 = t\<lparr>memrefs := memrefs t + 1\<rparr>
      in if memrefs t1 > MAX_REFS then t1\<lparr>t_open := False, detached := True\<rparr> else t1)"

definition RecordMemRead :: "u64 \<Rightarrow> u32 \<Rightarrow> u32 \<Rightarrow> tracer \<Rightarrow> tracer option" where
  "RecordMemRead count ip a t = do {
     let t1 = note_count count t;
     t2 \<leftarrow> write_line CHR ''l'' ip a t1;
     Some (count_ref t2)
   }"

definition RecordMemWrite :: "u64 \<Rightarrow> u32 \<Rightarrow> u32 \<Rightarrow> tracer \<Rightarrow> tracer option" where
  "RecordMemWrite count ip a t = do {
     let t1 = note_count count t;
     t2 \<leftarrow> write_line CHR ''s'' ip a t1;
     Some (count_ref t2)
   }"

text \<open>The calls that are inserted before an instruction, in this order.\<close>

datatype analysis = MemRead | MemWrite

definition Instruction :: "tracer \<Rightarrow> bool \<Rightarrow> bool \<Rightarrow> analysis list" where
  "Instruction t isRead isWrite =
     (if doinst t then (if isRead then [MemRead] else []) @ (if isWrite then [MemWrite] else []) else [])"

datatype control_event = CONTROL_START | CONTROL_STOP | CONTROL_OTHER

definition Handler :: "control_event \<Rightarrow> u64 \<Rightarrow> tracer \<Rightarrow> tracer option" where
  "Handler ev count t =
     (case ev of
        CONTROL_START \<Rightarrow> Some (t\<lparr>doinst := True, icount_lastmem := ucast count\<rparr>)
      | CONTROL_STOP \<Rightarrow> Some (t\<lparr>doinst := False\<rparr>)
      | CONTROL_OTHER \<Rightarrow> None)"

definition Fini :: "tracer \<Rightarrow> tracer option" where
  "Fini t = (if t_open t then Some (t\<lparr>t_open := False\<rparr>) else None)"

definition tracer_main :: "tracer" where
  "tracer_main = \<lparr>t_trace = [], t_open = True, icount_lastmem = 1, sincelast = 0, memrefs = 1,
     doinst = False, detached = False\<rparr>"

section \<open>Sequences of recorded accesses\<close>

record access =
  a_kind :: analysis
  a_count :: u64
  a_ip :: u32
  a_addr :: u32

definition record_access :: "access \<Rightarrow> tracer \<Rightarrow> tracer option" where
  "record_access x t = (case a_kind x of
     MemRead \<Rightarrow> RecordMemRead (a_count x) (a_ip x) (a_addr x) t
   | MemWrite \<Rightarrow> RecordMemWrite (a_count x) (a_ip x) (a_addr x) t)"

fun record_all :: "access list \<Rightarrow> tracer \<Rightarrow> tracer option" where
  "record_all [] t = Some t"
| "record_all (x # xs) t = Option.bind (record_access x t) (record_all xs)"

text \<open>The records that the lines stand for, and their reading with the \<open>fscanf\<close> of the simulator.\<close>

definition kind_char :: "analysis \<Rightarrow> char" where
  "kind_char k = (case k of MemRead \<Rightarrow> CHR ''l'' | MemWrite \<Rightarrow> CHR ''s'')"

fun lines_of :: "access list \<Rightarrow> tracer \<Rightarrow> (char \<times> u32 \<times> u32 \<times> u32) list" where
  "lines_of [] t = []"
| "lines_of (x # xs) t =
     (let t1 = note_count (a_count x) t
      in (kind_char (a_kind x), a_ip x, a_addr x, sincelast t1) # lines_of xs t1)"

fun read_lines :: "nat \<Rightarrow> string \<Rightarrow> (char \<times> u32 \<times> u32 \<times> u32) list \<times> string" where
  "read_lines 0 s = ([], s)"
| "read_lines (Suc n) s =
     (case fscanf_line s of
        (Some r, rest) \<Rightarrow> (case read_lines n rest of (rs, s') \<Rightarrow> (r # rs, s'))
      | (None, rest) \<Rightarrow> ([], rest))"

lemma record_access_eq:
  "record_access x t =
     (if t_open t
      then let t1 = note_count (a_count x) t
           in Some (count_ref (t1\<lparr>t_trace := t_trace t @ trace_line (kind_char (a_kind x)) (a_ip x) (a_addr x) (sincelast t1)\<rparr>))
      else None)"
  by (cases "a_kind x")
    (simp_all add: record_access_def RecordMemRead_def RecordMemWrite_def write_line_def note_count_def
      kind_char_def Let_def)

lemma note_count_cong:
  "icount_lastmem t = icount_lastmem t' \<Longrightarrow>
     icount_lastmem (note_count c t) = icount_lastmem (note_count c t') \<and>
     sincelast (note_count c t) = sincelast (note_count c t')"
  by (simp add: note_count_def)

lemma lines_of_cong: "icount_lastmem t = icount_lastmem t' \<Longrightarrow> lines_of xs t = lines_of xs t'"
proof (induction xs arbitrary: t t')
  case (Cons x xs)
  note eq = note_count_cong [OF Cons.prems, of "a_count x"]
  from Cons.IH [OF conjunct1 [OF eq]] conjunct2 [OF eq] show ?case by (simp add: Let_def)
qed simp

lemma count_ref_fields [simp]:
  "t_trace (count_ref t) = t_trace t" "icount_lastmem (count_ref t) = icount_lastmem t"
  "memrefs (count_ref t) = memrefs t + 1"
  "t_open (count_ref t) = (t_open t \<and> memrefs t + 1 \<le> MAX_REFS)"
  by (auto simp: count_ref_def Let_def)

lemma note_count_fields [simp]:
  "t_trace (note_count c t) = t_trace t" "t_open (note_count c t) = t_open t" "memrefs (note_count c t) = memrefs t"
  by (simp_all add: note_count_def)

lemma memrefs_step:
  "unat m + Suc n \<le> 2000001 \<Longrightarrow> unat (m + 1 :: u32) = Suc (unat m)"
  by (simp add: unat_word_ariths)

text \<open>What a sequence of accesses within the limit writes.\<close>

lemma record_all_trace:
  assumes "t_open t" "unat (memrefs t) + length xs \<le> 2000001"
  shows "\<exists>t'. record_all xs t = Some t' \<and>
    t_trace t' = t_trace t @ concat (map (\<lambda>(ld, ip, a, n). trace_line ld ip a n) (lines_of xs t))"
  using assms
proof (induction xs arbitrary: t)
  case (Cons x xs)
  let ?t1 = "note_count (a_count x) t"
  let ?t2 = "count_ref (?t1\<lparr>t_trace := t_trace t @ trace_line (kind_char (a_kind x)) (a_ip x) (a_addr x) (sincelast ?t1)\<rparr>)"
  have m: "unat (memrefs t + 1) = Suc (unat (memrefs t))" using memrefs_step Cons.prems(2) by simp
  have step: "record_access x t = Some ?t2" using Cons.prems(1) by (simp add: record_access_eq Let_def)
  have l: "lines_of xs ?t2 = lines_of xs ?t1" by (rule lines_of_cong) simp
  show ?case
  proof (cases xs)
    case Nil
    then show ?thesis using step by (simp add: Let_def)
  next
    case (Cons y ys)
    have "t_open ?t2" using Cons.prems(1) m Cons.prems(2) Cons
      by (simp add: MAX_REFS_def word_le_nat_alt)
    moreover have "unat (memrefs ?t2) + length xs \<le> 2000001" using m Cons.prems(2) by simp
    ultimately obtain t' where "record_all xs ?t2 = Some t'"
      "t_trace t' = t_trace ?t2 @ concat (map (\<lambda>(ld, ip, a, n). trace_line ld ip a n) (lines_of xs ?t2))"
      using Cons.IH by blast
    then show ?thesis using step l by (simp add: Let_def)
  qed
qed simp

text \<open>The simulator reads back the records, as many as were written.\<close>

lemma read_lines_concat:
  assumes "\<forall>(ld, ip, a, n) \<in> set rs. ip \<noteq> 0 \<and> a \<noteq> 0 \<and> \<not> isspace ld"
    and "rest = [] \<or> \<not> isspace (hd rest)"
  shows "read_lines (length rs) (concat (map (\<lambda>(ld, ip, a, n). trace_line ld ip a n) rs) @ rest) = (rs, rest)"
  using assms(1)
proof (induction rs)
  case (Cons r rs)
  obtain ld ip a n where r: "r = (ld, ip, a, n)" by (cases r) auto
  let ?s = "concat (map (\<lambda>(ld, ip, a, n). trace_line ld ip a n) rs) @ rest"
  have "?s = [] \<or> \<not> isspace (hd ?s)"
    using assms(2) Cons.prems by (cases rs) (auto simp: trace_line_def)
  then have "fscanf_line (trace_line ld ip a n @ ?s) = (Some (ld, ip, a, n), ?s)"
    using Cons.prems r by (intro fscanf_line_show) auto
  then show ?case using Cons r by simp
qed simp

lemma lines_of_valid:
  "\<forall>x \<in> set xs. a_ip x \<noteq> 0 \<and> a_addr x \<noteq> 0 \<Longrightarrow>
    \<forall>(ld, ip, a, n) \<in> set (lines_of xs t). ip \<noteq> 0 \<and> a \<noteq> 0 \<and> \<not> isspace ld"
  by (induction xs arbitrary: t) (auto simp: Let_def kind_char_def isspace_def split: analysis.split)

lemma length_lines_of [simp]: "length (lines_of xs t) = length xs"
  by (induction xs arbitrary: t) (simp_all add: Let_def)

lemma record_all_count:
  assumes "t_open t" "unat (memrefs t) + length xs \<le> 2000001" "unat (memrefs t) \<le> 2000000"
    and "record_all xs t = Some t'"
  shows "unat (memrefs t') = unat (memrefs t) + length xs \<and> (t_open t' \<longleftrightarrow> unat (memrefs t') \<le> 2000000)"
  using assms
proof (induction xs arbitrary: t)
  case (Cons x xs)
  let ?t1 = "note_count (a_count x) t"
  define t2 where "t2 = count_ref (?t1\<lparr>t_trace := t_trace t @
    trace_line (kind_char (a_kind x)) (a_ip x) (a_addr x) (sincelast ?t1)\<rparr>)"
  have rest: "record_all xs t2 = Some t'"
    using Cons.prems(1,4) by (simp add: record_access_eq Let_def t2_def)
  have m: "unat (memrefs t2) = Suc (unat (memrefs t))"
    using memrefs_step Cons.prems(2) by (simp add: t2_def)
  have op: "t_open t2 \<longleftrightarrow> unat (memrefs t2) \<le> 2000000"
    using Cons.prems(1) by (simp add: MAX_REFS_def word_le_nat_alt t2_def)
  show ?case
  proof (cases "unat (memrefs t2) \<le> 2000000")
    case True
    then have "t_open t2" "unat (memrefs t2) + length xs \<le> 2000001" using op m Cons.prems(2) by simp_all
    from Cons.IH [OF this True rest] m show ?thesis by simp
  next
    case False
    then have "length xs = 0" using m Cons.prems(2) by (simp only: list.size)
    then show ?thesis using rest m op by auto
  qed
qed simp

section \<open>Properties\<close>



text \<open>
  C12: A null pointer breaks the trace: \<open>%p\<close> prints it as \<open>(nil)\<close>, at which the simulator's \<open>fscanf\<close>
  fails, so that the CPU takes the trace for finished.
\<close>

theorem null_pointer_ends_trace:
  assumes "ip \<noteq> 0" "trace p = trace_line ld ip 0 n @ rest"
  shows "isDone (readNextRequest p cycle)"
proof -
  have sp: "skip_space ('' '' @ show_p ip @ s) = show_p ip @ s" for s
    using assms(1) by (simp add: skip_space_def show_p_def isspace_def)
  have "scan_x (skip_space ('' '' @ show_p 0 @ s)) = Inl (''(nil)'' @ s)" for s
    by (simp add: scan_x_def scan_unsigned_def scan_nat_def skip_space_def isspace_def show_p_def hex_digit_def)
  then have "fst (fscanf_line (trace_line ld ip 0 n @ rest)) = None"
    using sp scan_x_show [OF assms(1), of "'' '' @ show_p 0 @ '' '' @ show_u n @ CHR 0x0A # rest"]
    by (simp add: fscanf_line_def trace_line_def hex_digit_def)
  then show ?thesis using assms(2)
    by (cases "fscanf_line (trace_line ld ip 0 n @ rest)") (simp add: isDone_def readNextRequest_def)
qed

theorem null_pointer_ends_trace_witness:
  "isDone (readNextRequest (new_cpu zero_request 0 (trace_line CHR ''l'' 64 64 1 @ trace_line CHR ''l'' 64 0 1)) 9)"
proof -
  have "trace (new_cpu zero_request 0 (trace_line CHR ''l'' 64 64 1 @ trace_line CHR ''l'' 64 0 1)) = trace_line CHR ''l'' 64 0 1 @ []"
    using fscanf_line_show [of 64 64 "trace_line CHR ''l'' 64 0 1" "CHR ''l''" 1]
    by (simp add: new_cpu_def readNextRequest_def trace_line_def isspace_def)
  then show ?thesis by (rule null_pointer_ends_trace [rotated]) simp
qed

text \<open>
  The limit: a tracer that starts as \<open>main\<close> leaves it accepts exactly two million accesses; with
  the last of them it closes the trace, and a further access would write to a closed file.
\<close>

theorem trace_limit:
  assumes "t_open t" "memrefs t = 1" "length xs \<le> 2000000"
  shows "\<exists>t'. record_all xs t = Some t' \<and> (t_open t' \<longleftrightarrow> length xs < 2000000) \<and>
    (record_access x t' = None \<longleftrightarrow> length xs = 2000000)"
proof -
  have m: "unat (memrefs t) + length xs \<le> 2000001" "unat (memrefs t) \<le> 2000000" using assms(2,3) by simp_all
  obtain t' where t': "record_all xs t = Some t'" using record_all_trace [OF assms(1) m(1)] by blast
  note c = record_all_count [OF assms(1) m t']
  show ?thesis using t' c assms by (auto simp: record_access_eq Let_def)
qed

theorem trace_limit_witness:
  "\<exists>t'. record_all [] tracer_main = Some t' \<and> (t_open t' \<longleftrightarrow> length ([] :: access list) < 2000000)"
  using trace_limit [of tracer_main "[]"] by (simp add: tracer_main_def)

text \<open>
  The cycle gaps: below \<open>2\<^sup>3\<^sup>2\<close> instructions the recorded gap is the number of instructions between
  the accesses, and 0 for a second access of the same instruction; from \<open>2\<^sup>3\<^sup>2\<close> on the 64-bit
  counter never equals the 32-bit copy, and the second access of an instruction gets the gap
  \<open>2\<^sup>3\<^sup>2 - 1\<close>.
\<close>

theorem gap_recorded:
  "(unat (icount_lastmem t) < unat count \<and> unat count < 2 ^ 32 \<longrightarrow>
      unat (sincelast (note_count count t)) = unat count - unat (icount_lastmem t) - 1 \<and>
      sincelast (note_count count (note_count count t)) = 0) \<and>
    (2 ^ 32 \<le> unat count \<longrightarrow> sincelast (note_count count (note_count count t)) = - 1)"
proof (intro conjI impI)
  assume c: "unat (icount_lastmem t) < unat count \<and> unat count < 2 ^ 32"
  let ?l = "ucast (icount_lastmem t) :: u64"
  have l: "unat ?l = unat (icount_lastmem t)" by (rule unat_ucast_up)
  then have ne: "count \<noteq> ?l" using c by auto
  have le: "?l \<le> count" "1 \<le> count - ?l" using c l by (auto simp: word_le_nat_alt unat_sub_if_size)
  have "unat (count - ?l - 1) = unat count - unat ?l - 1"
    using le by (simp add: unat_sub)
  moreover from calculation c have "unat (count - ?l - 1) < 2 ^ 32" by linarith
  then have "unat (ucast (count - ?l - 1) :: u32) = unat (count - ?l - 1)"
    by (simp only: unat_ucast_down mod_less)
  ultimately show "unat (sincelast (note_count count t)) = unat count - unat (icount_lastmem t) - 1"
    using ne l by (simp add: note_count_def)
  have "ucast (ucast count :: u32) = count" using c by (intro word_unat_eq_iff [THEN iffD2]) (simp add: unat_ucast_down unat_ucast_up)
  then show "sincelast (note_count count (note_count count t)) = 0"
    using ne by (simp add: note_count_def)
next
  assume c: "2 ^ 32 \<le> unat count"
  have ne: "count \<noteq> ucast (w :: u32)" for w
    using c unsigned_less [of w, where 'a = nat] by (auto simp: unat_ucast_up)
  let ?l = "ucast (ucast count :: u32) :: u64"
  let ?q = "unat count div 2 ^ 32"
  have l: "unat ?l = unat count mod 2 ^ 32" by (simp only: unat_ucast_up unat_ucast_down)
  have q: "unat count - unat count mod 2 ^ 32 = ?q * 2 ^ 32" "1 \<le> ?q"
    using c by (simp_all only: minus_mod_eq_div_mult, simp add: Suc_le_eq div_greater_zero_iff)
  have le: "?l \<le> count" using l by (simp add: word_le_nat_alt)
  then have d: "unat (count - ?l) = ?q * 2 ^ 32" using l q(1) by (simp only: unat_sub)
  then have "1 \<le> count - ?l" using q(2) by (simp add: word_le_nat_alt)
  then have "unat (count - ?l - 1) = ?q * 2 ^ 32 - 1" using d by (simp only: unat_sub unat_1)
  also have "\<dots> = (?q - 1) * 2 ^ 32 + (2 ^ 32 - 1)" using q(2) by (cases ?q) simp_all
  finally have "unat (ucast (count - ?l - 1) :: u32) = unat (- 1 :: u32)"
    by (simp add: unat_ucast_down unsigned_minus_1_eq_mask mask_eq_exp_minus_1)
  then have "(ucast (count - ?l - 1) :: u32) = - 1" by (simp only: word_unat_eq_iff)
  then show "sincelast (note_count count (note_count count t)) = - 1"
    using ne by (simp add: note_count_def)
qed

theorem gap_recorded_witness:
  "sincelast (note_count 4294967301 (note_count 4294967301 tracer_main)) = - 1 \<and>
   unat (sincelast (note_count 10 tracer_main)) = 8"
  using gap_recorded [of tracer_main 4294967301] gap_recorded [of tracer_main 10]
  by (simp add: tracer_main_def)

end
