(* ===== verification/CMemory.thy ===== *)
theory CMemory
  imports Prelude
begin

text \<open>
  The memory of a C program on a 32-bit little-endian machine: bytes by address, 32-bit words over
  them, and the copying and filling functions of the C library. Words at addresses that differ
  by a multiple of four form an array of independent cells.
\<close>

unbundle bit_operations_syntax

type_synonym byte = "8 word"
type_synonym memory = "u32 \<Rightarrow> byte"

definition load32 :: "memory \<Rightarrow> u32 \<Rightarrow> u32" where
  "load32 m a = ucast (m a) OR (push_bit 8 (ucast (m (a + 1))) OR
     (push_bit 16 (ucast (m (a + 2))) OR push_bit 24 (ucast (m (a + 3)))))"

definition store32 :: "memory \<Rightarrow> u32 \<Rightarrow> u32 \<Rightarrow> memory" where
  "store32 m a v = m(a := ucast v, a + 1 := ucast (drop_bit 8 v), a + 2 := ucast (drop_bit 16 v),
     a + 3 := ucast (drop_bit 24 v))"

text \<open>\<open>memcpy(dst, src, n)\<close> for areas that do not overlap, and \<open>memset(p, c, n)\<close>.\<close>

definition copy_bytes :: "memory \<Rightarrow> u32 \<Rightarrow> u32 \<Rightarrow> u32 \<Rightarrow> memory" where
  "copy_bytes m dst src n = (\<lambda>a. if a - dst < n then m (src + (a - dst)) else m a)"

definition fill_bytes :: "memory \<Rightarrow> u32 \<Rightarrow> byte \<Rightarrow> u32 \<Rightarrow> memory" where
  "fill_bytes m p c n = (\<lambda>a. if a - p < n then c else m a)"

section \<open>Words\<close>

lemma load_store_same: "load32 (store32 m a v) a = v"
proof -
  have d: "a + 1 \<noteq> a" "a + 2 \<noteq> a" "a + 3 \<noteq> a" "a + 2 \<noteq> a + 1" "a + 3 \<noteq> a + 1" "a + 3 \<noteq> a + 2" by simp_all
  let ?w = "ucast (ucast v :: byte) OR (push_bit 8 (ucast (ucast (drop_bit 8 v) :: byte)) OR
      (push_bit 16 (ucast (ucast (drop_bit 16 v) :: byte)) OR push_bit 24 (ucast (ucast (drop_bit 24 v) :: byte)))) :: u32"
  have "?w = v"
  proof (rule bit_word_eqI)
    fix n assume "n < LENGTH(32)"
    then consider "n < 8" | "8 \<le> n" "n < 16" | "16 \<le> n" "n < 24" | "24 \<le> n" "n < 32" by force
    then show "bit ?w n = bit v n" by cases (auto simp: bit_simps)
  qed
  then show ?thesis using d by (simp add: load32_def store32_def)
qed

lemma load_store_other:
  assumes "\<forall>i \<in> {0, 1, 2, 3}. \<forall>j \<in> {0, 1, 2, 3}. b + i \<noteq> a + j"
  shows "load32 (store32 m a v) b = load32 m b"
  using assms by (simp add: load32_def store32_def)

lemma store_other: "\<forall>i \<in> {0, 1, 2, 3}. b \<noteq> a + i \<Longrightarrow> store32 m a v b = m b"
  by (simp add: store32_def)

section \<open>Cells\<close>

text \<open>The interface of an array of cells, and the words from an address on as an instance.\<close>

locale cell_array =
  fixes cell :: "'m \<Rightarrow> nat \<Rightarrow> 'v" and put :: "'m \<Rightarrow> nat \<Rightarrow> 'v \<Rightarrow> 'm" and N :: nat
  assumes cell_put: "i < N \<Longrightarrow> j < N \<Longrightarrow> cell (put m i v) j = (if j = i then v else cell m j)"
begin

lemma cell_put_same: "i < N \<Longrightarrow> cell (put m i v) i = v"
  by (simp add: cell_put)

lemma cell_put_twice: "i < N \<Longrightarrow> j < N \<Longrightarrow> cell (put (put m i v) i w) j = cell (put m i w) j"
  by (simp add: cell_put)

end

definition word_cell :: "u32 \<Rightarrow> memory \<Rightarrow> nat \<Rightarrow> u32" where
  "word_cell base m i = load32 m (base + 4 * of_nat i)"

definition put_word :: "u32 \<Rightarrow> memory \<Rightarrow> nat \<Rightarrow> u32 \<Rightarrow> memory" where
  "put_word base m i v = store32 m (base + 4 * of_nat i) v"

lemma cell_addresses:
  assumes "i < 2 ^ 30" "j < 2 ^ 30" "a < 4" "b < 4"
    and "base + 4 * of_nat i + of_nat a = base + 4 * of_nat j + (of_nat b :: u32)"
  shows "i = j \<and> a = b"
proof -
  have eq: "(of_nat (4 * i + a) :: u32) = of_nat (4 * j + b)" using assms(5) by (simp add: algebra_simps)
  have "4 * i + a < 2 ^ LENGTH(32)" "4 * j + b < 2 ^ LENGTH(32)" using assms(1-4) by simp_all
  then have "4 * i + a = 4 * j + b" using arg_cong [OF eq, of unat] unfolding unat_of_nat by (simp only: mod_less)
  then show ?thesis using assms(3,4) by presburger
qed

lemma small_offset: "x \<in> {0, 1, 2, 3} \<Longrightarrow> \<exists>a < 4. x = (of_nat a :: u32)"
  by (elim insertE emptyE) (rule exI [of _ 0] exI [of _ 1] exI [of _ 2] exI [of _ 3], simp)+

interpretation words: cell_array "word_cell base" "put_word base" "2 ^ 30" for base
proof unfold_locales
  fix i j :: nat and m v assume ij: "i < 2 ^ 30" "j < 2 ^ 30"
  show "word_cell base (put_word base m i v) j = (if j = i then v else word_cell base m j)"
  proof (cases "j = i")
    case False
    have "\<forall>x \<in> {0, 1, 2, 3}. \<forall>y \<in> {0, 1, 2, 3}. base + 4 * of_nat j + x \<noteq> base + 4 * of_nat i + (y :: u32)"
      using cell_addresses [OF ij(2,1)] False small_offset by metis
    then show ?thesis using False load_store_other by (simp add: word_cell_def put_word_def)
  qed (simp add: word_cell_def put_word_def load_store_same)
qed

end
