(* ===== verification/Tmalloc.thy ===== *)
theory Tmalloc
  imports CMemory
begin

text \<open>
  The allocator \<open>tmalloc.c\<close>. Its arena of 65536 bytes at the address \<open>arena\<close> holds a doubly linked list
  of chunks; a chunk starts with a header of two pointers, and the low-order bit of the right
  pointer says whether the chunk is free. Following a pointer that leaves the arena is undefined
  (\<^term>\<open>None\<close>). The abstract view of the arena is the list of the sizes and free bits of the chunks.
\<close>

section \<open>Data and macros\<close>

record heap =
  h_bot :: u32
  h_top :: u32
  h_mem :: memory

abbreviation sizeof_CHUNK :: u32 where "sizeof_CHUNK \<equiv> 8"
abbreviation ARENA_CHUNKS :: u32 where "ARENA_CHUNKS \<equiv> 65536 div sizeof_CHUNK"

definition deref_ok :: "u32 \<Rightarrow> u32 \<Rightarrow> bool" where
  "deref_ok arena p \<longleftrightarrow> p - arena \<le> 65536 - sizeof_CHUNK"

text \<open>The fields \<open>s.l\<close> and \<open>s.r\<close> of the chunk at \<open>p\<close>\<close>

definition get_l :: "u32 \<Rightarrow> u32 \<Rightarrow> heap \<Rightarrow> u32 option" where
  "get_l arena p h = (if deref_ok arena p then Some (load32 (h_mem h) p) else None)"

definition get_r :: "u32 \<Rightarrow> u32 \<Rightarrow> heap \<Rightarrow> u32 option" where
  "get_r arena p h = (if deref_ok arena p then Some (load32 (h_mem h) (p + 4)) else None)"

definition set_l :: "u32 \<Rightarrow> u32 \<Rightarrow> u32 \<Rightarrow> heap \<Rightarrow> heap option" where
  "set_l arena p v h = (if deref_ok arena p then Some (h\<lparr>h_mem := store32 (h_mem h) p v\<rparr>) else None)"

definition set_r :: "u32 \<Rightarrow> u32 \<Rightarrow> u32 \<Rightarrow> heap \<Rightarrow> heap option" where
  "set_r arena p v h = (if deref_ok arena p then Some (h\<lparr>h_mem := store32 (h_mem h) (p + 4) v\<rparr>) else None)"

definition SET_FREEBIT :: "u32 \<Rightarrow> u32 \<Rightarrow> heap \<Rightarrow> heap option" where
  "SET_FREEBIT arena p h = do { r \<leftarrow> get_r arena p h; set_r arena p (r OR 1) h }"

definition CLR_FREEBIT :: "u32 \<Rightarrow> u32 \<Rightarrow> heap \<Rightarrow> heap option" where
  "CLR_FREEBIT arena p h = do { r \<leftarrow> get_r arena p h; set_r arena p (r AND NOT 1) h }"

definition GET_FREEBIT :: "u32 \<Rightarrow> u32 \<Rightarrow> heap \<Rightarrow> bool option" where
  "GET_FREEBIT arena p h = do { r \<leftarrow> get_r arena p h; Some (r AND 1 \<noteq> 0) }"

definition RIGHT :: "u32 \<Rightarrow> u32 \<Rightarrow> heap \<Rightarrow> u32 option" where
  "RIGHT arena p h = do { r \<leftarrow> get_r arena p h; Some (NOT 1 AND r) }"

definition CHUNKSIZE :: "u32 \<Rightarrow> u32 \<Rightarrow> heap \<Rightarrow> u32 option" where
  "CHUNKSIZE arena p h = do { q \<leftarrow> RIGHT arena p h; Some (q - p) }"

definition TOCHUNK :: "u32 \<Rightarrow> u32" where "TOCHUNK vp = vp - sizeof_CHUNK"

definition FROMCHUNK :: "u32 \<Rightarrow> u32" where "FROMCHUNK p = p + sizeof_CHUNK"

section \<open>Operations\<close>

definition init :: "u32 \<Rightarrow> heap \<Rightarrow> heap option" where
  "init arena h = do {
     let h = h\<lparr>h_bot := arena, h_top := arena + sizeof_CHUNK * (ARENA_CHUNKS - 1)\<rparr>;
     h \<leftarrow> set_l arena (h_bot h) 0 h;
     h \<leftarrow> set_r arena (h_bot h) (h_top h) h;
     h \<leftarrow> set_l arena (h_top h) (h_bot h) h;
     h \<leftarrow> set_r arena (h_top h) 0 h;
     h \<leftarrow> SET_FREEBIT arena (h_bot h) h;
     CLR_FREEBIT arena (h_top h) h
   }"

text \<open>The loop that looks for the first free chunk of at least \<open>bytes\<close> bytes; \<open>0\<close> if there is none.\<close>

partial_function (option) search :: "u32 \<Rightarrow> u32 \<Rightarrow> heap \<Rightarrow> u32 \<Rightarrow> u32 option" where
  "search arena bytes h p =
     (if p = 0 then Some 0
      else do {
        free \<leftarrow> GET_FREEBIT arena p h;
        fits \<leftarrow> (if free then do { n \<leftarrow> CHUNKSIZE arena p h; Some (bytes \<le> n) } else Some False);
        if fits then Some p else Option.bind (RIGHT arena p h) (search arena bytes h)
      })"

definition request_size :: "u32 \<Rightarrow> u32" where
  "request_size nbytes = sizeof_CHUNK * ((nbytes + sizeof_CHUNK - 1) div sizeof_CHUNK + 1)"

text \<open>The right part of the chunk \<open>p\<close> becomes a chunk of its own, \<open>q\<close>.\<close>

definition split_chunk :: "u32 \<Rightarrow> u32 \<Rightarrow> u32 \<Rightarrow> heap \<Rightarrow> (u32 \<times> heap) option" where
  "split_chunk arena p bytes h = do {
     h \<leftarrow> CLR_FREEBIT arena p h;
     n \<leftarrow> CHUNKSIZE arena p h;
     let q = p + n - bytes;
     pr \<leftarrow> get_r arena p h;
     h \<leftarrow> set_l arena q p h;
     h \<leftarrow> set_r arena q pr h;
     h \<leftarrow> set_r arena p q h;
     h \<leftarrow> set_l arena pr q h;
     h \<leftarrow> SET_FREEBIT arena p h;
     Some (q, h)
   }"

definition tmalloc :: "u32 \<Rightarrow> u32 \<Rightarrow> heap \<Rightarrow> (u32 \<times> heap) option" where
  "tmalloc arena nbytes h = do {
     h \<leftarrow> (if h_bot h = 0 then init arena h else Some h);
     let bytes = request_size nbytes;
     p \<leftarrow> search arena bytes h (h_bot h);
     if p = 0 then Some (0, h)
     else do {
       n \<leftarrow> CHUNKSIZE arena p h;
       (p, h) \<leftarrow> (if n > bytes then split_chunk arena p bytes h else Some (p, h));
       h \<leftarrow> CLR_FREEBIT arena p h;
       Some (FROMCHUNK p, h)
     }
   }"

text \<open>The chunk \<open>p\<close> joins its left neighbour \<open>q\<close>, and the chunk \<open>q\<close> its left neighbour \<open>p\<close>.\<close>

definition join_left :: "u32 \<Rightarrow> u32 \<Rightarrow> u32 \<Rightarrow> heap \<Rightarrow> heap option" where
  "join_left arena p q h = do {
     h \<leftarrow> CLR_FREEBIT arena q h;
     r \<leftarrow> get_r arena p h;
     h \<leftarrow> set_r arena q r h;
     r \<leftarrow> get_r arena p h;
     h \<leftarrow> set_l arena r q h;
     SET_FREEBIT arena q h
   }"

definition join_right :: "u32 \<Rightarrow> u32 \<Rightarrow> u32 \<Rightarrow> heap \<Rightarrow> heap option" where
  "join_right arena p q h = do {
     h \<leftarrow> CLR_FREEBIT arena q h;
     r \<leftarrow> get_r arena q h;
     h \<leftarrow> set_r arena p r h;
     r \<leftarrow> get_r arena q h;
     h \<leftarrow> set_l arena r p h;
     SET_FREEBIT arena q h
   }"

definition free_chunk :: "u32 \<Rightarrow> u32 \<Rightarrow> heap \<Rightarrow> bool option" where
  "free_chunk arena q h = (if q \<noteq> 0 then GET_FREEBIT arena q h else Some False)"

definition tfree :: "u32 \<Rightarrow> u32 \<Rightarrow> heap \<Rightarrow> heap option" where
  "tfree arena vp h =
     (if vp = 0 then Some h
      else do {
        let p = TOCHUNK vp;
        h \<leftarrow> CLR_FREEBIT arena p h;
        q \<leftarrow> get_l arena p h;
        f \<leftarrow> free_chunk arena q h;
        (p, h) \<leftarrow> (if f then map_option (Pair q) (join_left arena p q h) else Some (p, h));
        q \<leftarrow> RIGHT arena p h;
        f \<leftarrow> free_chunk arena q h;
        h \<leftarrow> (if f then join_right arena p q h else Some h);
        SET_FREEBIT arena p h
      })"

text \<open>The areas that \<open>memcpy\<close> and \<open>memset\<close> touch must lie in the arena, and those of \<open>memcpy\<close> apart.\<close>

definition area_ok :: "u32 \<Rightarrow> u32 \<Rightarrow> u32 \<Rightarrow> bool" where
  "area_ok arena p n \<longleftrightarrow> unat (p - arena) + unat n \<le> 65536"

definition trealloc :: "u32 \<Rightarrow> u32 \<Rightarrow> u32 \<Rightarrow> heap \<Rightarrow> (u32 \<times> heap) option" where
  "trealloc arena vp newbytes h =
     (if vp = 0 then tmalloc arena newbytes h
      else if newbytes \<noteq> 0
      then do {
        (newp, h) \<leftarrow> tmalloc arena newbytes h;
        if newp = 0 then Some (0, h)
        else do {
          n \<leftarrow> CHUNKSIZE arena (TOCHUNK vp) h;
          let bytes = n - sizeof_CHUNK;
          let bytes = (if bytes > newbytes then newbytes else bytes);
          h \<leftarrow> (if area_ok arena newp bytes \<and> area_ok arena vp bytes \<and> bytes \<le> newp - vp \<and> bytes \<le> vp - newp
                 then Some (h\<lparr>h_mem := copy_bytes (h_mem h) newp vp bytes\<rparr>) else None);
          map_option (Pair newp) (tfree arena vp h)
        }
      }
      else map_option (Pair 0) (tfree arena vp h))"

definition tcalloc :: "u32 \<Rightarrow> u32 \<Rightarrow> u32 \<Rightarrow> heap \<Rightarrow> (u32 \<times> heap) option" where
  "tcalloc arena nelem elsize h = do {
     let nbytes = nelem * elsize;
     (vp, h) \<leftarrow> tmalloc arena nbytes h;
     if vp = 0 then Some (0, h)
     else if area_ok arena vp nbytes then Some (vp, h\<lparr>h_mem := fill_bytes (h_mem h) vp 0 nbytes\<rparr>) else None
   }"

section \<open>Headers by position\<close>

text \<open>The address of the chunk number \<open>i\<close> of the arena, and the fields of its header.\<close>

definition chunk_at :: "u32 \<Rightarrow> nat \<Rightarrow> u32" where
  "chunk_at A i = A + 8 * of_nat i"

definition left_of :: "u32 \<Rightarrow> heap \<Rightarrow> nat \<Rightarrow> u32" where
  "left_of A h i = load32 (h_mem h) (chunk_at A i)"

definition right_of :: "u32 \<Rightarrow> heap \<Rightarrow> nat \<Rightarrow> u32" where
  "right_of A h i = load32 (h_mem h) (chunk_at A i + 4)"

definition put_left :: "u32 \<Rightarrow> nat \<Rightarrow> u32 \<Rightarrow> heap \<Rightarrow> heap" where
  "put_left A i v h = h\<lparr>h_mem := store32 (h_mem h) (chunk_at A i) v\<rparr>"

definition put_right :: "u32 \<Rightarrow> nat \<Rightarrow> u32 \<Rightarrow> heap \<Rightarrow> heap" where
  "put_right A i v h = h\<lparr>h_mem := store32 (h_mem h) (chunk_at A i + 4) v\<rparr>"

definition arena_ok :: "u32 \<Rightarrow> bool" where
  "arena_ok A \<longleftrightarrow> A \<noteq> 0 \<and> A mod 8 = 0 \<and> unat A + 65536 \<le> 2 ^ 32"

lemma cells: "left_of A h i = word_cell A (h_mem h) (2 * i)" "right_of A h i = word_cell A (h_mem h) (2 * i + 1)"
  "put_left A i v h = h\<lparr>h_mem := put_word A (h_mem h) (2 * i) v\<rparr>" "put_right A i v h = h\<lparr>h_mem := put_word A (h_mem h) (2 * i + 1) v\<rparr>"
  by (simp_all add: left_of_def right_of_def put_left_def put_right_def chunk_at_def word_cell_def put_word_def algebra_simps)

lemma header_laws [simp]:
  assumes "i < 8192" "j < 8192"
  shows "left_of A (put_left A i v h) j = (if j = i then v else left_of A h j)" "right_of A (put_left A i v h) j = right_of A h j"
    "right_of A (put_right A i v h) j = (if j = i then v else right_of A h j)" "left_of A (put_right A i v h) j = left_of A h j"
proof -
  have odd: "2 * x + 1 \<noteq> 2 * (y :: nat)" "2 * y \<noteq> 2 * x + 1" for x y by presburger+
  have less: "2 * i < 2 ^ 30" "2 * j < 2 ^ 30" "2 * i + 1 < 2 ^ 30" "2 * j + 1 < 2 ^ 30" using assms by simp_all
  show "left_of A (put_left A i v h) j = (if j = i then v else left_of A h j)" "right_of A (put_left A i v h) j = right_of A h j"
    "right_of A (put_right A i v h) j = (if j = i then v else right_of A h j)" "left_of A (put_right A i v h) j = left_of A h j"
    using words.cell_put [OF less(1,2)] words.cell_put [OF less(1,4)] words.cell_put [OF less(3,4)] words.cell_put [OF less(3,2)] odd
    by (simp_all add: cells)
qed

lemma write_fields [simp]: "h_bot (put_left A i v h) = h_bot h" "h_top (put_left A i v h) = h_top h" "h_bot (put_right A i v h) = h_bot h" "h_top (put_right A i v h) = h_top h"
  by (simp_all add: put_left_def put_right_def)


section \<open>Pointers into the arena\<close>

lemma chunk_at_unat: "arena_ok A \<Longrightarrow> i < 8192 \<Longrightarrow> unat (chunk_at A i) = unat A + 8 * i"
proof -
  assume a: "arena_ok A" "i < 8192"
  have "unat (of_nat (8 * i) :: u32) = 8 * i" using a(2) by (intro unat_of_nat_small) simp
  moreover have "chunk_at A i = A + of_nat (8 * i)" by (simp add: chunk_at_def)
  ultimately show ?thesis using a by (simp add: arena_ok_def unat_word_ariths del: of_nat_mult)
qed

lemma chunk_at_facts [simp]:
  assumes "arena_ok A" "i < 8192"
  shows "deref_ok A (chunk_at A i)" "chunk_at A i \<noteq> 0" "chunk_at A i AND 1 = 0" "chunk_at A i AND - 2 = chunk_at A i"
    "- 2 AND chunk_at A i = chunk_at A i"
proof -
  have "chunk_at A i - A = of_nat (8 * i)" by (simp add: chunk_at_def)
  moreover have "unat (of_nat (8 * i) :: u32) = 8 * i" using assms(2) by (intro unat_of_nat_small) simp
  ultimately show "deref_ok A (chunk_at A i)"
    using assms(2) by (simp add: deref_ok_def word_le_nat_alt del: of_nat_mult)
  have "unat A \<noteq> 0" using assms(1) by (simp add: arena_ok_def unat_eq_zero)
  then have "unat (chunk_at A i) \<noteq> 0" using chunk_at_unat [OF assms] by simp
  then show "chunk_at A i \<noteq> 0" by auto
  have "even A" using assms(1) by (auto simp: arena_ok_def intro: dvd_trans [of 2 8] simp flip: dvd_eq_mod_eq_0)
  then have e: "even (chunk_at A i)" by (simp add: chunk_at_def)
  then show "chunk_at A i AND 1 = 0" by (simp add: and_one_eq even_iff_mod_2_eq_zero)
  have "chunk_at A i AND NOT 1 = chunk_at A i"
    by (rule bit_word_eqI) (use e in \<open>auto simp: bit_simps bit_0 intro!: gr0I\<close>)
  then show n: "chunk_at A i AND - 2 = chunk_at A i" by simp
  show "- 2 AND chunk_at A i = chunk_at A i" using n by (simp add: and.commute)
qed

lemma chunk_at_inj: "arena_ok A \<Longrightarrow> i < 8192 \<Longrightarrow> j < 8192 \<Longrightarrow> chunk_at A i = chunk_at A j \<longleftrightarrow> i = j"
  using chunk_at_unat [of A i] chunk_at_unat [of A j] by (metis add_left_cancel mult_cancel1 zero_neq_numeral)

lemma chunk_at_0 [simp]: "chunk_at A 0 = A"
  by (simp add: chunk_at_def)

lemma chunk_at_diff: "chunk_at A (i + n) - chunk_at A i = of_nat (8 * n)"
  by (simp add: chunk_at_def algebra_simps)

text \<open>A pointer with a free bit\<close>

definition tagged :: "u32 \<Rightarrow> bool \<Rightarrow> u32" where
  "tagged a f = (if f then a OR 1 else a)"

lemma tagged_False [simp]: "tagged a False = a"
  by (simp add: tagged_def)

lemma tagged_facts [simp]:
  assumes "arena_ok A" "i < 8192"
  shows "- 2 AND tagged (chunk_at A i) f = chunk_at A i" "tagged (chunk_at A i) f AND - 2 = chunk_at A i"
    "tagged (chunk_at A i) f AND 1 = 0 \<longleftrightarrow> \<not> f" "tagged (chunk_at A i) f OR 1 = tagged (chunk_at A i) True"
    "chunk_at A i OR 1 = tagged (chunk_at A i) True"
proof -
  let ?a = "chunk_at A i"
  have o: "(?a OR 1) AND - 2 = ?a" using chunk_at_facts(4) [OF assms] by (simp add: bit.conj_disj_distrib2)
  show 1: "tagged ?a f AND - 2 = ?a" using o assms by (simp add: tagged_def)
  then show "- 2 AND tagged ?a f = ?a" by (simp add: and.commute)
  show "tagged ?a f AND 1 = 0 \<longleftrightarrow> \<not> f" using chunk_at_facts(3) [OF assms] by (simp add: tagged_def bit.conj_disj_distrib2)
  show "tagged ?a f OR 1 = tagged ?a True" "?a OR 1 = tagged ?a True" by (simp_all add: tagged_def or.assoc)
qed

section \<open>The macros on headers\<close>

lemma header_ops [simp]:
  assumes "arena_ok A" "i < 8192"
  shows "get_l A (chunk_at A i) h = Some (left_of A h i)" "get_r A (chunk_at A i) h = Some (right_of A h i)"
    "set_l A (chunk_at A i) v h = Some (put_left A i v h)" "set_r A (chunk_at A i) v h = Some (put_right A i v h)"
    "SET_FREEBIT A (chunk_at A i) h = Some (put_right A i (right_of A h i OR 1) h)"
    "CLR_FREEBIT A (chunk_at A i) h = Some (put_right A i (right_of A h i AND - 2) h)"
    "GET_FREEBIT A (chunk_at A i) h = Some (right_of A h i AND 1 \<noteq> 0)"
    "RIGHT A (chunk_at A i) h = Some (- 2 AND right_of A h i)"
    "CHUNKSIZE A (chunk_at A i) h = Some ((- 2 AND right_of A h i) - chunk_at A i)"
    "free_chunk A (chunk_at A i) h = Some (right_of A h i AND 1 \<noteq> 0)"
  using assms
  by (simp_all add: get_l_def get_r_def set_l_def set_r_def SET_FREEBIT_def CLR_FREEBIT_def GET_FREEBIT_def RIGHT_def
      CHUNKSIZE_def free_chunk_def left_of_def right_of_def put_left_def put_right_def)

section \<open>The list of chunks\<close>

text \<open>The abstract arena: sizes, in units of a chunk header, and free bits, from left to right.\<close>

type_synonym blocks = "(nat \<times> bool) list"

fun linked :: "u32 \<Rightarrow> heap \<Rightarrow> u32 \<Rightarrow> nat \<Rightarrow> blocks \<Rightarrow> bool" where
  "linked A h l i [] \<longleftrightarrow> i = 8191 \<and> left_of A h i = l \<and> right_of A h i = 0"
| "linked A h l i ((n, f) # bs) \<longleftrightarrow> 0 < n \<and> left_of A h i = l \<and> right_of A h i = tagged (chunk_at A (i + n)) f \<and>
     linked A h (chunk_at A i) (i + n) bs"

definition units :: "blocks \<Rightarrow> nat" where
  "units bs = sum_list (map fst bs)"

lemma units_simps [simp]: "units [] = 0" "units ((n, f) # bs) = n + units bs"
  by (simp_all add: units_def)

lemma linked_total: "linked A h l i bs \<Longrightarrow> i + units bs = 8191"
  by (induction A h l i bs rule: linked.induct) auto

lemma linked_bound: "linked A h l i bs \<Longrightarrow> i < 8192" "linked A h l i ((n, f) # bs) \<Longrightarrow> i + n < 8192"
  using linked_total [of A h l i bs] linked_total [of A h l i "(n, f) # bs"] by auto

lemma linked_left: "linked A h l i bs \<Longrightarrow> left_of A h i = l"
  by (cases bs) auto

lemma linked_cong:
  assumes "\<And>j. i \<le> j \<Longrightarrow> j < 8192 \<Longrightarrow> left_of A h' j = left_of A h j \<and> right_of A h' j = right_of A h j" "linked A h l i bs"
  shows "linked A h' l i bs"
  using assms
proof (induction bs arbitrary: l i)
  case (Cons b bs)
  obtain n f where b: "b = (n, f)" by force
  have "linked A h' (chunk_at A i) (i + n) bs" by (rule Cons.IH) (use Cons.prems b in auto)
  then show ?case using Cons.prems(1) [of i] Cons.prems(2) linked_bound(1) [OF Cons.prems(2)] by (simp add: b)
qed simp

text \<open>The list keeps its shape when its first chunk gets another left neighbour.\<close>

lemma linked_move:
  assumes "linked A h l i bs" "left_of A h' i = l'" "right_of A h' i = right_of A h i"
    and same: "\<And>j. i < j \<Longrightarrow> j < 8192 \<Longrightarrow> left_of A h' j = left_of A h j \<and> right_of A h' j = right_of A h j"
  shows "linked A h' l' i bs"
proof (cases bs)
  case (Cons b cs)
  obtain n f where b: "b = (n, f)" by force
  have c: "0 < n" "linked A h (chunk_at A i) (i + n) cs" using assms(1) by (simp_all add: Cons b)
  have "linked A h' (chunk_at A i) (i + n) cs"
    by (rule linked_cong [OF _ c(2)]) (use same c(1) in simp)
  then show ?thesis using assms(1-3) by (simp add: Cons b)
qed (use assms in auto)

text \<open>The positions of all headers, the delimiter's included.\<close>

fun headers :: "nat \<Rightarrow> blocks \<Rightarrow> nat set" where
  "headers i [] = {i}"
| "headers i ((n, f) # bs) = insert i (headers (i + n) bs)"

lemma headers_ge: "j \<in> headers i bs \<Longrightarrow> i \<le> j \<and> j \<le> i + units bs"
  by (induction i bs rule: headers.induct) fastforce+

lemma headers_head [simp]: "i \<in> headers i bs"
  by (cases "(i, bs)" rule: headers.cases) simp_all

section \<open>Allocation\<close>

text \<open>First fit: the position of the first free chunk of at least \<open>n\<close> units.\<close>

fun first_fit :: "nat \<Rightarrow> blocks \<Rightarrow> nat option" where
  "first_fit n [] = None"
| "first_fit n ((k, f) # bs) = (if f \<and> n \<le> k then Some 0 else map_option ((+) k) (first_fit n bs))"

text \<open>What \<open>tmalloc\<close> should do: take the right end of the first chunk that fits.\<close>

fun allocate :: "nat \<Rightarrow> blocks \<Rightarrow> (nat \<times> blocks) option" where
  "allocate n [] = None"
| "allocate n ((k, f) # bs) =
     (if f \<and> n \<le> k then Some (k - n, (if n < k then (k - n, True) # (n, False) # bs else (n, False) # bs))
      else map_option (\<lambda>(d, cs). (k + d, (k, f) # cs)) (allocate n bs))"

lemma unat_units: "n < 8192 \<Longrightarrow> unat (of_nat (8 * n) :: u32) = 8 * n"
  by (intro unat_of_nat_small) simp

lemma search_0 [simp]: "search A bytes h 0 = Some 0"
  by (subst search.simps) simp

lemma search_first_fit:
  assumes "arena_ok A" "linked A h l i bs" "unat bytes = 8 * n"
  shows "search A bytes h (chunk_at A i) = Some (case first_fit n bs of None \<Rightarrow> 0 | Some d \<Rightarrow> chunk_at A (i + d))"
  using assms(2)
proof (induction bs arbitrary: l i)
  case Nil
  then have "i = 8191" "right_of A h 8191 = 0" by auto
  then show ?case using assms(1) by (subst search.simps) simp
next
  case (Cons b bs)
  obtain k f where b: "b = (k, f)" by force
  note bounds = linked_bound(1) [OF Cons.prems] linked_bound(2) [OF Cons.prems [unfolded b]]
  have link: "right_of A h i = tagged (chunk_at A (i + k)) f" "linked A h (chunk_at A i) (i + k) bs"
    using Cons.prems by (simp_all add: b)
  have fit: "bytes \<le> chunk_at A (i + k) - chunk_at A i \<longleftrightarrow> n \<le> k"
    using assms(3) unat_units [of k] bounds(2) by (simp add: chunk_at_diff word_le_nat_alt del: of_nat_mult)
  show ?case
    using Cons.IH [OF link(2)] bounds assms(1) link(1) fit
    by (subst search.simps) (auto simp: b split: option.split, simp_all add: add.assoc)
qed

text \<open>The header writes of \<open>split_chunk\<close> on the free chunk of \<open>k\<close> units at \<open>p\<close>.\<close>

definition split_heap :: "u32 \<Rightarrow> nat \<Rightarrow> nat \<Rightarrow> nat \<Rightarrow> heap \<Rightarrow> heap" where
  "split_heap A p k n h =
     (let q = p + (k - n)
      in put_right A p (tagged (chunk_at A q) True) (put_left A (p + k) (chunk_at A q) (put_right A p (chunk_at A q)
           (put_right A q (chunk_at A (p + k)) (put_left A q (chunk_at A p) (put_right A p (chunk_at A (p + k)) h))))))"

lemma split_chunk_eq:
  assumes "arena_ok A" "0 < n" "n < k" "p + k < 8192" "right_of A h p = tagged (chunk_at A (p + k)) True" "bytes = of_nat (8 * n)"
  shows "split_chunk A (chunk_at A p) bytes h = Some (chunk_at A (p + (k - n)), split_heap A p k n h)"
proof -
  have q: "chunk_at A p + (chunk_at A (p + k) - chunk_at A p) - bytes = chunk_at A (p + (k - n))"
    using assms(3,6) by (simp add: chunk_at_def of_nat_diff algebra_simps)
  show ?thesis using assms q
    by (simp add: split_chunk_def split_heap_def Let_def)
qed

text \<open>The heap after the allocation of \<open>n\<close> units from the chunk of \<open>k\<close> units at \<open>p\<close>.\<close>

definition alloc_heap :: "u32 \<Rightarrow> nat \<Rightarrow> nat \<Rightarrow> nat \<Rightarrow> heap \<Rightarrow> heap" where
  "alloc_heap A p k n h =
     put_right A (p + (k - n)) (chunk_at A (p + k)) (if n < k then split_heap A p k n h else h)"

lemma alloc_linked:
  assumes "arena_ok A" "linked A h l i bs" "allocate n bs = Some (d, cs)" "0 < n"
  shows "\<exists>p k. first_fit n bs = Some p \<and> n \<le> k \<and> i + p + k < 8192 \<and>
    right_of A h (i + p) = tagged (chunk_at A (i + p + k)) True \<and> d = p + (k - n) \<and> linked A (alloc_heap A (i + p) k n h) l i cs \<and>
    {i + p, i + d, i + p + k} \<subseteq> headers i cs"
  using assms(2,3)
proof (induction bs arbitrary: l i d cs)
  case (Cons b bs)
  obtain k f where b: "b = (k, f)" by force
  note link = Cons.prems(1) [unfolded b]
  note bounds = linked_bound(1) [OF link] linked_bound(2) [OF link]
  show ?case
  proof (cases "f \<and> n \<le> k")
    case True
    let ?h = "alloc_heap A i k n h"
    have tail: "linked A h (chunk_at A i) (i + k) bs" "0 < k" using link by simp_all
    have "linked A ?h (chunk_at A (i + (k - n))) (i + k) bs"
      by (rule linked_move [OF tail(1)])
        (use bounds True assms(4) tail linked_left [OF tail(1)] in \<open>auto simp: alloc_heap_def split_heap_def Let_def\<close>)
    then have "linked A ?h l i cs"
      using Cons.prems(2) True link bounds assms(4)
      by (auto simp: b alloc_heap_def split_heap_def Let_def split: if_splits)
    then show ?thesis using Cons.prems(2) True link bounds by (intro exI [of _ 0] exI [of _ k]) (auto simp: b split: if_splits)
  next
    case False
    then obtain d' cs' where a: "allocate n bs = Some (d', cs')" "d = k + d'" "cs = (k, f) # cs'"
      using Cons.prems(2) by (auto simp: b)
    have tail: "linked A h (chunk_at A i) (i + k) bs" "0 < k" using link by simp_all
    obtain p m where p: "first_fit n bs = Some p" "n \<le> m" "i + k + p + m < 8192"
      "right_of A h (i + k + p) = tagged (chunk_at A (i + k + p + m)) True" "d' = p + (m - n)"
      "linked A (alloc_heap A (i + k + p) m n h) (chunk_at A i) (i + k) cs'" "{i + k + p, i + k + d', i + k + p + m} \<subseteq> headers (i + k) cs'"
      using Cons.IH [OF tail(1) a(1)] by blast
    have "left_of A (alloc_heap A (i + k + p) m n h) i = left_of A h i" "right_of A (alloc_heap A (i + k + p) m n h) i = right_of A h i"
      using bounds p(2,3) tail(2) assms(4) by (auto simp: alloc_heap_def split_heap_def Let_def)
    then have "linked A (alloc_heap A (i + (k + p)) m n h) l i cs" using p(6) link a(3) by (simp add: add.assoc)
    then show ?thesis using p a(2,3) False
      by (intro exI [of _ "k + p"] exI [of _ m]) (auto simp: b add.assoc)
  qed
qed simp

section \<open>Which bytes an operation writes\<close>

text \<open>\<open>only_headers A js h h'\<close>: from \<open>h\<close> to \<open>h'\<close> only bytes of the headers at the positions \<open>js\<close> changed.\<close>

definition in_header :: "u32 \<Rightarrow> nat \<Rightarrow> u32 \<Rightarrow> bool" where
  "in_header A j a \<longleftrightarrow> a - chunk_at A j < 8"

definition only_headers :: "u32 \<Rightarrow> nat set \<Rightarrow> heap \<Rightarrow> heap \<Rightarrow> bool" where
  "only_headers A js h h' \<longleftrightarrow> h_bot h' = h_bot h \<and> h_top h' = h_top h \<and>
     (\<forall>a. (\<forall>j \<in> js. \<not> in_header A j a) \<longrightarrow> h_mem h' a = h_mem h a)"

lemma in_header_iff:
  assumes "x < 65536" "j < 8192"
  shows "in_header A j (A + of_nat x) \<longleftrightarrow> x div 8 = j"
proof -
  have u: "uint (of_nat x :: u32) = int x" "uint (of_nat (8 * j) :: u32) = int (8 * j)"
    using assms by (simp_all add: unsigned_of_nat take_bit_eq_mod del: of_nat_mult)
  have "uint (of_nat x - of_nat (8 * j) :: u32) = (int x - int (8 * j)) mod 2 ^ 32"
    using u by (simp add: uint_word_ariths del: of_nat_mult)
  moreover have "A + of_nat x - chunk_at A j = of_nat x - of_nat (8 * j)" by (simp add: chunk_at_def)
  ultimately have "uint (A + of_nat x - chunk_at A j) = (int x - int (8 * j)) mod 2 ^ 32" by (simp only:)
  moreover have "(int x - int (8 * j)) mod 2 ^ 32 = (if 8 * j \<le> x then int x - int (8 * j) else int x - int (8 * j) + 2 ^ 32)"
  proof (cases "8 * j \<le> x")
    case False
    then have "(int x - int (8 * j)) mod 2 ^ 32 = (int x - int (8 * j) + 2 ^ 32) mod 2 ^ 32" by simp
    also have "\<dots> = int x - int (8 * j) + 2 ^ 32" using False assms by (intro mod_pos_pos_trivial) auto
    finally show ?thesis using False by simp
  qed (use assms in simp)
  ultimately show ?thesis using assms by (auto simp: in_header_def word_less_def)
qed

lemma only_headers_refl [simp]: "only_headers A js h h"
  by (simp add: only_headers_def)

lemma only_headers_trans: "only_headers A js h h' \<Longrightarrow> only_headers A js h' h'' \<Longrightarrow> only_headers A js h h''"
  by (simp add: only_headers_def)

lemma only_headers_mono: "only_headers A js h h' \<Longrightarrow> js \<subseteq> ks \<Longrightarrow> only_headers A ks h h'"
  by (auto simp: only_headers_def)

lemma only_headers_put [simp]:
  assumes "i \<in> js"
  shows "only_headers A js h (put_left A i v h')= only_headers A js h h'" "only_headers A js h (put_right A i v h') = only_headers A js h h'"
proof -
  have *: "\<forall>x \<in> {0, 1, 2, 3, 4, 5, 6, 7}. a \<noteq> chunk_at A i + x" if "\<not> in_header A i a" for a
  proof (intro ballI notI)
    fix x :: u32 assume "x \<in> {0, 1, 2, 3, 4, 5, 6, 7}" "a = chunk_at A i + x"
    moreover from this have "x < 8" by auto
    ultimately show False using that by (simp add: in_header_def)
  qed
  have "h_mem (put_left A i v h') a = h_mem h' a" "h_mem (put_right A i v h') a = h_mem h' a" if "\<not> in_header A i a" for a
    using * [OF that] by (simp_all add: put_left_def put_right_def store32_def add.assoc)
  then show "only_headers A js h (put_left A i v h') = only_headers A js h h'"
    "only_headers A js h (put_right A i v h') = only_headers A js h h'"
    using assms by (auto simp: only_headers_def)
qed

lemma header_bytes:
  assumes "only_headers A js h h'" "js \<subseteq> {..<8192}" "j < 8192" "j \<notin> js" "b < 8"
  shows "h_mem h' (chunk_at A j + of_nat b) = h_mem h (chunk_at A j + of_nat b)"
proof -
  have x: "chunk_at A j + of_nat b = A + of_nat (8 * j + b)" by (simp add: chunk_at_def)
  have "\<not> in_header A k (chunk_at A j + of_nat b)" if "k \<in> js" for k
    unfolding x using that assms by (subst in_header_iff) auto
  then show ?thesis using assms(1) by (auto simp: only_headers_def)
qed

lemma only_headers_other:
  assumes "only_headers A js h h'" "js \<subseteq> {..<8192}" "j < 8192" "j \<notin> js"
  shows "left_of A h' j = left_of A h j" "right_of A h' j = right_of A h j"
  using header_bytes [OF assms, of 0] header_bytes [OF assms, of 1] header_bytes [OF assms, of 2] header_bytes [OF assms, of 3]
    header_bytes [OF assms, of 4] header_bytes [OF assms, of 5] header_bytes [OF assms, of 6] header_bytes [OF assms, of 7]
  by (simp_all add: left_of_def right_of_def load32_def add.assoc)

section \<open>Freeing\<close>

text \<open>A freed chunk of \<open>n\<close> units joins the chunk on its right if that is free.\<close>

fun merge_right :: "nat \<Rightarrow> blocks \<Rightarrow> blocks" where
  "merge_right n ((k, True) # bs) = (n + k, True) # bs"
| "merge_right n bs = (n, True) # bs"

text \<open>What \<open>tfree\<close> should do with the chunk at position \<open>d\<close>.\<close>

fun release :: "nat \<Rightarrow> blocks \<Rightarrow> blocks option" where
  "release d [] = None"
| "release d ((n, f) # bs) =
     (if d = 0 then Some (merge_right n bs)
      else if d < n then None
      else if d = n \<and> f then (case bs of [] \<Rightarrow> None | (k, g) # cs \<Rightarrow> Some (merge_right (n + k) cs))
      else map_option ((#) (n, f)) (release (d - n) bs))"

text \<open>The second half of \<open>tfree\<close>: joining rightward and marking the chunk free.\<close>

definition tfree_right :: "u32 \<Rightarrow> u32 \<Rightarrow> heap \<Rightarrow> heap option" where
  "tfree_right A p h = do {
     q \<leftarrow> RIGHT A p h;
     f \<leftarrow> free_chunk A q h;
     h \<leftarrow> (if f then join_right A p q h else Some h);
     SET_FREEBIT A p h
   }"

lemma tfree_right_linked:
  assumes "arena_ok A" "0 < k" "linked A h x (p + k) bs" "left_of A h p = l"
    and r: "right_of A h p = tagged (chunk_at A (p + k)) g" and "x = chunk_at A p"
  shows "\<exists>h'. tfree_right A (chunk_at A p) h = Some h' \<and> linked A h' l p (merge_right k bs) \<and>
    only_headers A (insert p (headers (p + k) bs)) h h'"
proof -
  note b = linked_bound(1) [OF assms(3)]
  have p: "p < 8192" using b by simp
  show ?thesis
  proof (cases "\<exists>m cs. bs = (m, True) # cs")
    case True
    then obtain m cs where bs: "bs = (m, True) # cs" by blast
    note link = assms(3) [unfolded bs]
    have q: "p + k + m < 8192" "0 < m" "right_of A h (p + k) = tagged (chunk_at A (p + k + m)) True"
      "linked A h (chunk_at A (p + k)) (p + k + m) cs" using linked_bound(2) [OF link] link by simp_all
    define h' where "h' = put_right A p (tagged (chunk_at A (p + k + m)) True)
      (put_right A (p + k) (tagged (chunk_at A (p + k + m)) True) (put_left A (p + k + m) (chunk_at A p)
        (put_right A p (chunk_at A (p + k + m)) (put_right A (p + k) (chunk_at A (p + k + m)) h))))"
    have "tfree_right A (chunk_at A p) h = Some h'"
      using assms(1,2) p b q r by (simp add: tfree_right_def join_right_def h'_def)
    moreover have "linked A h' (chunk_at A p) (p + k + m) cs"
      by (rule linked_move [OF q(4)]) (use assms(2) p b q in \<open>auto simp: h'_def\<close>)
    then have "linked A h' l p (merge_right k bs)"
      using assms(2,4) p b q by (simp add: bs h'_def add.assoc)
    moreover have "only_headers A (insert p (headers (p + k) bs)) h h'" by (simp add: bs h'_def)
    ultimately show ?thesis by blast
  next
    case False
    then have m: "merge_right k bs = (k, True) # bs" by (cases "(k, bs)" rule: merge_right.cases) auto
    have f: "right_of A h (p + k) AND 1 = 0"
    proof (cases bs)
      case (Cons c cs)
      then obtain n where "c = (n, False)" using False by (cases c) auto
      then show ?thesis using assms(1,3) linked_bound(2) [of A h x "p + k" n False cs] Cons by simp
    qed (use assms(3) in auto)
    define h' where "h' = put_right A p (tagged (chunk_at A (p + k)) True) h"
    have "tfree_right A (chunk_at A p) h = Some h'"
      using assms(1) p b r f by (simp add: tfree_right_def h'_def)
    moreover have "linked A h' (chunk_at A p) (p + k) bs"
      by (rule linked_cong [OF _ assms(3) [unfolded assms(6)]]) (use assms(2) p in \<open>auto simp: h'_def\<close>)
    then have "linked A h' l p (merge_right k bs)" using assms(2,4) p by (simp add: m h'_def)
    moreover have "only_headers A (insert p (headers (p + k) bs)) h h'" by (simp add: h'_def)
    ultimately show ?thesis by blast
  qed
qed

lemma FROMCHUNK_at [simp]: "FROMCHUNK (chunk_at A p) = chunk_at A (Suc p)" "TOCHUNK (chunk_at A (Suc p)) = chunk_at A p"
  by (simp_all add: FROMCHUNK_def TOCHUNK_def chunk_at_def algebra_simps)

lemma tfree_halves:
  "tfree A vp h = (if vp = 0 then Some h else do {
     h \<leftarrow> CLR_FREEBIT A (TOCHUNK vp) h;
     q \<leftarrow> get_l A (TOCHUNK vp) h;
     f \<leftarrow> free_chunk A q h;
     (p, h) \<leftarrow> (if f then map_option (Pair q) (join_left A (TOCHUNK vp) q h) else Some (TOCHUNK vp, h));
     tfree_right A p h })"
  by (simp add: tfree_def tfree_right_def Let_def)

lemma tfree_eq:
  assumes "arena_ok A" "p < 8191"
  shows "tfree A (chunk_at A (Suc p)) h = do {
    f \<leftarrow> free_chunk A (left_of A h p) (put_right A p (right_of A h p AND - 2) h);
    if f then Option.bind (join_left A (chunk_at A p) (left_of A h p) (put_right A p (right_of A h p AND - 2) h)) (tfree_right A (left_of A h p))
    else tfree_right A (chunk_at A p) (put_right A p (right_of A h p AND - 2) h) }"
proof -
  have "p < 8192" "Suc p < 8192" using assms(2) by simp_all
  then show ?thesis using assms(1)
    by (cases "free_chunk A (left_of A h p) (put_right A p (right_of A h p AND - 2) h)")
      (simp_all add: tfree_halves bind_map_option comp_def)
qed

lemma headers_bound:
  assumes "linked A h l i bs"
  shows "headers i bs \<subseteq> {..<8192}"
  using headers_ge [of _ i bs] linked_total [OF assms] by fastforce

lemma tfree_first:
  assumes "arena_ok A" "linked A h l i ((n, f) # bs)" "\<forall>v. free_chunk A l (put_right A i v h) = Some False"
  shows "\<exists>h'. tfree A (chunk_at A (Suc i)) h = Some h' \<and> linked A h' l i (merge_right n bs) \<and> only_headers A (headers i ((n, f) # bs)) h h'"
proof -
  note bounds = linked_bound(1) [OF assms(2)] linked_bound(2) [OF assms(2)]
  have tail: "linked A h (chunk_at A i) (i + n) bs" "0 < n" "right_of A h i = tagged (chunk_at A (i + n)) f" "left_of A h i = l"
    using assms(2) by simp_all
  have i: "i < 8191" using bounds tail(2) by simp
  define h1 where "h1 = put_right A i (chunk_at A (i + n)) h"
  have "linked A h1 (chunk_at A i) (i + n) bs"
    by (rule linked_cong [OF _ tail(1)]) (use bounds tail(2) in \<open>auto simp: h1_def\<close>)
  moreover have "left_of A h1 i = l" "right_of A h1 i = tagged (chunk_at A (i + n)) False"
    using bounds tail(4) by (simp_all add: h1_def)
  ultimately obtain h' where h': "tfree_right A (chunk_at A i) h1 = Some h'" "linked A h' l i (merge_right n bs)"
    "only_headers A (insert i (headers (i + n) bs)) h1 h'"
    using tfree_right_linked [OF assms(1) tail(2)] by blast
  have "tfree A (chunk_at A (Suc i)) h = Some h'"
    using tfree_eq [OF assms(1) i, of h] assms(1,3) bounds tail(3,4) h'(1) by (simp add: h1_def)
  moreover have "only_headers A (insert i (headers (i + n) bs)) h h'"
    by (rule only_headers_trans [OF _ h'(3)]) (simp add: h1_def)
  ultimately show ?thesis using h'(2) by auto
qed

lemma tfree_second:
  assumes "arena_ok A" "linked A h l i ((n, True) # (k, g) # bs)"
  shows "\<exists>h'. tfree A (chunk_at A (Suc (i + n))) h = Some h' \<and> linked A h' l i (merge_right (n + k) bs)
    \<and> only_headers A (headers i ((n, True) # (k, g) # bs)) h h'"
proof -
  note bounds = linked_bound(1) [OF assms(2)] linked_bound(2) [OF assms(2)]
  have tail: "linked A h (chunk_at A i) (i + n) ((k, g) # bs)" "0 < n" "right_of A h i = tagged (chunk_at A (i + n)) True" "left_of A h i = l"
    using assms(2) by simp_all
  have k: "i + n + k < 8192" "0 < k" "left_of A h (i + n) = chunk_at A i" "right_of A h (i + n) = tagged (chunk_at A (i + n + k)) g"
    "linked A h (chunk_at A (i + n)) (i + n + k) bs" using linked_bound(2) [OF tail(1)] tail(1) by simp_all
  define h1 where "h1 = put_right A (i + n) (chunk_at A (i + n + k)) h"
  define h2 where "h2 = put_right A i (tagged (chunk_at A (i + n + k)) True) (put_left A (i + n + k) (chunk_at A i)
    (put_right A i (chunk_at A (i + n + k)) (put_right A i (chunk_at A (i + n)) h1)))"
  have j: "join_left A (chunk_at A (i + n)) (chunk_at A i) h1 = Some h2"
    using assms(1) bounds k tail(2,3) by (simp add: join_left_def h2_def, simp add: h1_def)
  have "linked A h2 (chunk_at A i) (i + (n + k)) bs"
    using linked_move [OF k(5), of h2 "chunk_at A i"] bounds k(1,2) tail(2) by (simp add: h2_def h1_def add.assoc)
  moreover have "left_of A h2 i = l" "right_of A h2 i = tagged (chunk_at A (i + (n + k))) True"
    using bounds k(1,2) tail(2,4) by (simp_all add: h2_def h1_def add.assoc)
  ultimately obtain h' where h': "tfree_right A (chunk_at A i) h2 = Some h'" "linked A h' l i (merge_right (n + k) bs)"
    "only_headers A (insert i (headers (i + (n + k)) bs)) h2 h'"
    using tfree_right_linked [OF assms(1), of "n + k"] tail(2) by (metis add_gr_0)
  have "tfree A (chunk_at A (Suc (i + n))) h = Some h'"
    using tfree_eq [OF assms(1), of "i + n" h] assms(1) bounds k tail(2,3) j h'(1) by (simp add: h1_def)
  moreover have "only_headers A (headers i ((n, True) # (k, g) # bs)) h h2" by (simp add: h2_def h1_def)
  moreover have "only_headers A (headers i ((n, True) # (k, g) # bs)) h2 h'"
    by (rule only_headers_mono [OF h'(3)]) (auto simp: add.assoc)
  ultimately show ?thesis using h'(2) only_headers_trans by blast
qed

lemma tfree_linked:
  assumes "arena_ok A" "linked A h l i bs" "release d bs = Some cs" "d = 0 \<longrightarrow> (\<forall>v. free_chunk A l (put_right A i v h) = Some False)"
  shows "\<exists>h'. tfree A (chunk_at A (Suc (i + d))) h = Some h' \<and> linked A h' l i cs \<and> only_headers A (headers i bs) h h'"
  using assms(2-4)
proof (induction bs arbitrary: l i d cs)
  case (Cons b bs)
  obtain n f where b: "b = (n, f)" by force
  note link = Cons.prems(1) [unfolded b]
  consider (here) "d = 0" | (left) "d = n" "f" "d \<noteq> 0" | (later) "n \<le> d" "\<not> (d = n \<and> f)" "d \<noteq> 0"
    using Cons.prems(2) by (auto simp: b split: if_splits)
  then show ?case
  proof cases
    case here
    then show ?thesis using tfree_first [OF assms(1) link] Cons.prems(2,3) by (auto simp: b)
  next
    case left
    obtain k g cs' where bs: "bs = (k, g) # cs'" "cs = merge_right (n + k) cs'"
      using Cons.prems(2) left by (auto simp: b split: list.splits)
    then show ?thesis using tfree_second [OF assms(1), of h l i n k g cs'] link left(1,2) by (simp add: b)
  next
    case later
    note bounds = linked_bound(1) [OF link] linked_bound(2) [OF link]
    have tail: "linked A h (chunk_at A i) (i + n) bs" "0 < n" "right_of A h i = tagged (chunk_at A (i + n)) f"
      using link by simp_all
    obtain cs' where c: "release (d - n) bs = Some cs'" "cs = (n, f) # cs'" using Cons.prems(2) later by (auto simp: b)
    have "d - n = 0 \<longrightarrow> (\<forall>v. free_chunk A (chunk_at A i) (put_right A (i + n) v h) = Some False)"
      using later assms(1) bounds tail(2,3) by simp
    from Cons.IH [OF tail(1) c(1) this] obtain h' where h': "tfree A (chunk_at A (Suc (i + n + (d - n)))) h = Some h'"
      "linked A h' (chunk_at A i) (i + n) cs'" "only_headers A (headers (i + n) bs) h h'" by blast
    have "i \<notin> headers (i + n) bs" using headers_ge [of i "i + n" bs] tail(2) by auto
    from only_headers_other [OF h'(3) headers_bound [OF tail(1)] bounds(1) this]
    have "linked A h' l i cs" using h'(2) link c(2) by simp
    moreover have "only_headers A (headers i (b # bs)) h h'" by (rule only_headers_mono [OF h'(3)]) (auto simp: b)
    ultimately show ?thesis using h'(1) later by auto
  qed
qed simp

section \<open>What the abstract operations do\<close>

text \<open>The busy chunks, as positions with sizes; positions count from \<open>i\<close>.\<close>

fun busy :: "nat \<Rightarrow> blocks \<Rightarrow> (nat \<times> nat) set" where
  "busy i [] = {}"
| "busy i ((n, f) # bs) = (if f then {} else {(i, n)}) \<union> busy (i + n) bs"

text \<open>No chunk is empty, and no two neighbours are free.\<close>

definition positive :: "blocks \<Rightarrow> bool" where
  "positive bs \<longleftrightarrow> (\<forall>b \<in> set bs. 0 < fst b)"

fun compact :: "blocks \<Rightarrow> bool" where
  "compact ((n, f) # (k, g) # bs) \<longleftrightarrow> \<not> (f \<and> g) \<and> compact ((k, g) # bs)"
| "compact _ \<longleftrightarrow> True"

lemma positive_simps [simp]: "positive []" "positive ((n, f) # bs) \<longleftrightarrow> 0 < n \<and> positive bs"
  by (simp_all add: positive_def)

lemma linked_positive: "linked A h l i bs \<Longrightarrow> positive bs"
  by (induction A h l i bs rule: linked.induct) auto

lemma compact_Cons: "compact ((n, f) # bs) \<longleftrightarrow> compact bs \<and> \<not> (f \<and> (\<exists>k cs. bs = (k, True) # cs))"
  by (cases "(n, f) # bs" rule: compact.cases) auto

lemma busy_bounds: "(a, n) \<in> busy i bs \<Longrightarrow> i \<le> a \<and> a + n \<le> i + units bs"
  by (induction i bs rule: busy.induct) (fastforce split: if_splits)+

lemma busy_positive: "positive bs \<Longrightarrow> (a, n) \<in> busy i bs \<Longrightarrow> 0 < n"
  by (induction i bs rule: busy.induct) (auto split: if_splits)

lemma busy_disjoint:
  assumes "positive bs" "(a, n) \<in> busy i bs" "(b, m) \<in> busy i bs" "a \<noteq> b \<or> n \<noteq> m"
  shows "a + n \<le> b \<or> b + m \<le> a"
  using assms
proof (induction i bs rule: busy.induct)
  case (2 i k f bs)
  have later: "i + k \<le> x" if "(x, y) \<in> busy (i + k) bs" for x y using busy_bounds [OF that] by simp
  show ?case using 2 later by (auto split: if_splits)
qed simp

lemma busy_headers:
  assumes "(a, n) \<in> busy i bs" "j \<in> headers i bs"
  shows "j \<le> a \<or> a + n \<le> j"
  using assms
proof (induction i bs rule: busy.induct)
  case (2 i k f bs)
  show ?case using 2 busy_bounds [of a n "i + k" bs] headers_ge [of j "i + k" bs] by (fastforce split: if_splits)
qed simp

lemma allocate_spec:
  assumes "allocate n bs = Some (d, cs)" "0 < n"
  shows "busy i cs = insert (i + d, n) (busy i bs) \<and> units cs = units bs \<and> headers i bs \<subseteq> headers i cs \<and> (positive bs \<longrightarrow> positive cs)"
  using assms
proof (induction n bs arbitrary: d cs i rule: allocate.induct)
  case (2 n k f bs)
  show ?case
  proof (cases "f \<and> n \<le> k")
    case True
    then show ?thesis using "2.prems" by (auto split: if_splits)
  next
    case False
    then obtain d' cs' where a: "allocate n bs = Some (d', cs')" "d = k + d'" "cs = (k, f) # cs'" using "2.prems" by auto
    show ?thesis using "2.IH" [OF False a(1) "2.prems"(2), of "i + k"] a by (auto simp: add.assoc)
  qed
qed simp

lemma allocate_fresh:
  assumes "allocate n bs = Some (d, cs)" "0 < n" "positive bs"
  shows "(i + d, m) \<notin> busy i bs"
  using assms
proof (induction n bs arbitrary: d cs i rule: allocate.induct)
  case (2 n k f bs)
  show ?case
  proof (cases "f \<and> n \<le> k")
    case True
    then show ?thesis using "2.prems" busy_bounds [of "i + d" m "i + k" bs] by auto
  next
    case False
    then obtain d' cs' where a: "allocate n bs = Some (d', cs')" "d = k + d'" using "2.prems" by auto
    show ?thesis using "2.IH" [OF False a(1) "2.prems"(2), of "i + k"] a(2) "2.prems"(3) by (auto simp: add.assoc)
  qed
qed simp

lemma busy_unique: "positive bs \<Longrightarrow> (a, n) \<in> busy i bs \<Longrightarrow> (a, m) \<in> busy i bs \<Longrightarrow> n = m"
  using busy_disjoint [of bs a n i a m] busy_positive [of bs a n i] busy_positive [of bs a m i] by auto

lemma allocate_fails: "allocate n bs = None \<longleftrightarrow> (\<forall>(k, f) \<in> set bs. f \<longrightarrow> k < n)"
  by (induction n bs rule: allocate.induct) auto

lemma allocate_compact:
  assumes "allocate n bs = Some (d, cs)" "compact bs"
  shows "compact cs"
  using assms
proof (induction n bs arbitrary: d cs rule: allocate.induct)
  case (2 n k f bs)
  show ?case
  proof (cases "f \<and> n \<le> k")
    case True
    then show ?thesis using 2(2,3) by (auto simp: compact_Cons)
  next
    case False
    then obtain d' cs' where a: "allocate n bs = Some (d', cs')" "cs = (k, f) # cs'" using "2.prems" by auto
    have "compact cs'" using "2.IH" [OF False a(1)] "2.prems"(2) by (simp add: compact_Cons)
    moreover have "\<not> (\<exists>m es. cs' = (m, True) # es)" if free: f
    proof (cases bs)
      case (Cons b es)
      then obtain m where "b = (m, False)" using "2.prems"(2) free by (cases b) (auto simp: compact_Cons)
      then show ?thesis using a(1) Cons by auto
    qed (use a(1) in simp)
    ultimately show ?thesis by (auto simp: a(2) compact_Cons)
  qed
qed simp

lemma merge_right_spec:
  "busy i (merge_right n bs) = busy (i + n) bs" "units (merge_right n bs) = n + units bs"
  "0 < n \<Longrightarrow> positive bs \<Longrightarrow> positive (merge_right n bs)" "compact bs \<Longrightarrow> compact (merge_right n bs)"
  "\<exists>k cs. merge_right n bs = (k, True) # cs"
  by (cases "(n, bs)" rule: merge_right.cases; auto simp: compact_Cons add.assoc)+

lemma merge_right_busy: "\<not> (\<exists>k cs. bs = (k, True) # cs) \<Longrightarrow> merge_right n bs = (n, True) # bs"
  by (cases "(n, bs)" rule: merge_right.cases) auto

lemma release_spec:
  assumes "(i + d, n) \<in> busy i bs" "positive bs"
  shows "\<exists>cs. release d bs = Some cs \<and> busy i cs = busy i bs - {(i + d, n)} \<and> units cs = units bs \<and> positive cs \<and>
    (compact bs \<longrightarrow> compact cs \<and> (d \<noteq> 0 \<longrightarrow> (\<forall>k es. bs = (k, False) # es \<longrightarrow> (\<exists>es'. cs = (k, False) # es'))))"
  using assms
proof (induction bs arbitrary: i d)
  case (Cons b bs)
  obtain k f where b: "b = (k, f)" by force
  have pos: "0 < k" "positive bs" using Cons.prems(2) by (simp_all add: b)
  have beyond: "i + k \<le> x" if "(x, y) \<in> busy (i + k) bs" for x y using busy_bounds [OF that] by simp
  consider (here) "d = 0" | (left) m g es where "d = k" "f" "bs = (m, g) # es" | (later) "k \<le> d" "\<not> (d = k \<and> f)"
  proof (cases "d = k \<and> f")
    case True
    then have "(i + k, n) \<in> busy (i + k) bs" using Cons.prems(1) by (simp add: b)
    then show ?thesis using True that(2) by (cases bs) auto
  next
    case False
    then show ?thesis using that(1,3) Cons.prems(1) beyond [of "i + d" n] by (cases "d = 0") (auto simp: b split: if_splits)
  qed
  then show ?case
  proof cases
    case here
    then have "f = False" "n = k" using Cons.prems(1) pos(1) beyond [of i n] by (auto simp: b split: if_splits)
    then show ?thesis using here pos merge_right_spec(1) [of i k bs] merge_right_spec(2-4) [where n = k and bs = bs] beyond [of i k]
      by (auto simp: b compact_Cons)
  next
    case left
    have "g = False" "n = m" using Cons.prems(1) left pos busy_bounds [of "i + k" n "i + k + m" es]
      by (auto simp: b split: if_splits)
    then show ?thesis using left pos merge_right_spec(1) [of i "k + m" es] merge_right_spec(2-4) [where n = "k + m" and bs = es]
        busy_bounds [of "i + k" n "i + k + m" es]
      by (auto simp: b compact_Cons add.assoc)
  next
    case later
    have "(i + k + (d - k), n) \<in> busy (i + k) bs" using Cons.prems(1) later pos(1) by (auto simp: b split: if_splits)
    from Cons.IH [OF this pos(2)] obtain cs where cs: "release (d - k) bs = Some cs"
      "busy (i + k) cs = busy (i + k) bs - {(i + d, n)}" "units cs = units bs" "positive cs"
      "compact bs \<longrightarrow> compact cs \<and> (d - k \<noteq> 0 \<longrightarrow> (\<forall>k es. bs = (k, False) # es \<longrightarrow> (\<exists>es'. cs = (k, False) # es')))"
      using later by auto
    have "compact ((k, f) # cs)" if c: "compact ((k, f) # bs)"
    proof (cases f)
      case True
      then have "d - k \<noteq> 0" using later by auto
      moreover have "\<exists>m es. bs = (m, False) # es"
        using c True Cons.prems(1) later pos by (cases bs) (auto simp: b compact_Cons)
      ultimately show ?thesis using cs(5) c by (auto simp: compact_Cons)
    qed (use cs(5) c in \<open>simp add: compact_Cons\<close>)
    moreover have "release d (b # bs) = Some ((k, f) # cs)" using cs(1) later pos(1) by (cases f; cases "d = k") (simp_all add: b)
    moreover have "busy i ((k, f) # cs) = busy i (b # bs) - {(i + d, n)}" using cs(2) later(1) pos(1) by (simp add: b insert_Diff_if)
    ultimately show ?thesis using cs(3,4) pos(1) by (intro exI [of _ "(k, f) # cs"]) (simp add: b)
  qed
qed simp

lemma allocate_release:
  assumes "allocate n bs = Some (d, cs)" "compact bs" "0 < n" "positive bs"
  shows "release d cs = Some bs"
  using assms
proof (induction n bs arbitrary: d cs rule: allocate.induct)
  case (2 n k f bs)
  show ?case
  proof (cases "f \<and> n \<le> k")
    case True
    then have "merge_right m bs = (m, True) # bs" for m using "2.prems"(2) by (auto simp: compact_Cons intro: merge_right_busy)
    then show ?thesis using True "2.prems"(1,3) by (auto split: if_splits)
  next
    case False
    then obtain d' cs' where a: "allocate n bs = Some (d', cs')" "d = k + d'" "cs = (k, f) # cs'" using "2.prems" by auto
    have "release d' cs' = Some bs" using "2.IH" [OF False a(1)] "2.prems" by (simp add: compact_Cons)
    moreover have "d' \<noteq> 0" if free: f
    proof (cases bs)
      case (Cons b es)
      then obtain m where "b = (m, False)" "0 < m" using "2.prems"(2,4) free by (cases b) (auto simp: compact_Cons)
      then show ?thesis using a(1) Cons by auto
    qed (use a(1) in simp)
    ultimately show ?thesis using "2.prems"(4) by (auto simp: a(2,3))
  qed
qed simp

lemma all_free: "busy i bs = {} \<Longrightarrow> compact bs \<Longrightarrow> bs \<noteq> [] \<Longrightarrow> bs = [(units bs, True)]"
proof (cases bs rule: compact.cases)
  case (1 n f k g cs)
  assume "busy i bs = {}" "compact bs"
  then show ?thesis using 1 by (auto split: if_splits)
qed (auto split: if_splits)

section \<open>Refinement\<close>

definition represents :: "u32 \<Rightarrow> heap \<Rightarrow> blocks \<Rightarrow> bool" where
  "represents A h bs \<longleftrightarrow> arena_ok A \<and> compact bs \<and> positive bs \<and> units bs = 8191 \<and>
     (if h_bot h = 0 then bs = [(8191, True)] else h_bot h = A \<and> linked A h 0 0 bs)"

text \<open>The bytes that belong to the owner of the busy chunk at \<open>i\<close> of \<open>n\<close> units, and what preserves them all.\<close>

definition in_payload :: "u32 \<Rightarrow> nat \<Rightarrow> nat \<Rightarrow> u32 \<Rightarrow> bool" where
  "in_payload A i n a \<longleftrightarrow> 8 * Suc i \<le> unat (a - A) \<and> unat (a - A) < 8 * (i + n)"

definition data_kept :: "u32 \<Rightarrow> blocks \<Rightarrow> heap \<Rightarrow> heap \<Rightarrow> bool" where
  "data_kept A bs h h' \<longleftrightarrow> (\<forall>(i, n) \<in> busy 0 bs. \<forall>a. in_payload A i n a \<longrightarrow> h_mem h' a = h_mem h a)"

lemma data_kept_trans: "data_kept A bs h h' \<Longrightarrow> data_kept A bs h' h'' \<Longrightarrow> data_kept A bs h h''"
  by (fastforce simp: data_kept_def)

lemma data_kept_mono: "busy 0 bs \<subseteq> busy 0 cs \<Longrightarrow> data_kept A cs h h' \<Longrightarrow> data_kept A bs h h'"
  unfolding data_kept_def by (meson subsetD)

lemma headers_kept:
  assumes "only_headers A (headers 0 bs) h h'" "units bs = 8191" "busy 0 cs \<subseteq> busy 0 bs"
  shows "data_kept A cs h h'"
  unfolding data_kept_def
proof (intro ballI allI impI, clarsimp)
  fix i n a assume b: "(i, n) \<in> busy 0 cs" and p: "in_payload A i n a"
  define x where "x = unat (a - A)"
  have a: "a = A + of_nat x" by (simp add: x_def)
  have x: "8 * Suc i \<le> x" "x < 8 * (i + n)" using p by (simp_all add: in_payload_def x_def)
  have bb: "(i, n) \<in> busy 0 bs" using b assms(3) by blast
  then have "i + n \<le> 8191" using busy_bounds [OF bb] assms(2) by simp
  then have "x < 65536" using x(2) by simp
  have "\<not> in_header A j a" if j: "j \<in> headers 0 bs" for j
  proof -
    have "j < 8192" using headers_ge [OF j] assms(2) by simp
    then have "in_header A j a \<longleftrightarrow> x div 8 = j" unfolding a by (rule in_header_iff [OF \<open>x < 65536\<close>])
    then show ?thesis using busy_headers [OF bb j] x by (auto simp: less_mult_imp_div_less)
  qed
  then show "h_mem h' a = h_mem h a" using assms(1) by (simp add: only_headers_def)
qed

lemma init_linked:
  assumes "arena_ok A"
  shows "\<exists>h'. init A h = Some h' \<and> h_bot h' = A \<and> linked A h' 0 0 [(8191, True)] \<and>
    (\<forall>a. (\<forall>j \<in> {0, 8191}. \<not> in_header A j a) \<longrightarrow> h_mem h' a = h_mem h a)"
proof -
  define h0 where "h0 = h\<lparr>h_bot := A, h_top := chunk_at A 8191\<rparr>"
  define h' where "h' = put_right A 8191 0 (put_right A 0 (tagged (chunk_at A 8191) True)
    (put_right A 8191 0 (put_left A 8191 A (put_right A 0 (chunk_at A 8191) (put_left A 0 0 h0)))))"
  have b0: "h_bot h0 = A" "h_top h0 = chunk_at A 8191" by (simp_all add: h0_def)
  have t: "A + sizeof_CHUNK * (ARENA_CHUNKS - 1) = chunk_at A 8191" by (simp add: chunk_at_def)
  have ops: "set_l A A v x = Some (put_left A 0 v x)" "set_r A A v x = Some (put_right A 0 v x)"
    "SET_FREEBIT A A x = Some (put_right A 0 (right_of A x 0 OR 1) x)" for v x
    using header_ops(3-5) [OF assms, of 0] by simp_all
  have "init A h = Some h'"
    using assms b0 unfolding init_def t h0_def [symmetric] Let_def by (simp add: ops h'_def)
  moreover have "only_headers A {0, 8191} h0 h'" by (simp add: h'_def)
  ultimately show ?thesis using assms by (simp add: only_headers_def) (simp add: h'_def h0_def)
qed

lemma request_size_units:
  assumes "nbytes \<le> 0xFFFFFFF0"
  shows "unat (request_size nbytes) = 8 * ((unat nbytes + 7) div 8 + 1)"
proof -
  have n: "unat nbytes \<le> 0xFFFFFFF0" using assms by (simp add: word_le_nat_alt)
  have "nbytes + sizeof_CHUNK - 1 = 7 + nbytes" by simp
  moreover have "unat (7 + nbytes) = unat nbytes + 7" using n by (simp add: unat_word_ariths)
  ultimately have d: "unat ((nbytes + sizeof_CHUNK - 1) div sizeof_CHUNK) = (unat nbytes + 7) div 8"
    by (simp add: unat_div_distrib)
  have "8 * ((unat nbytes + 7) div 8 + 1) < 2 ^ 32" using n by simp
  then show ?thesis unfolding request_size_def using d by (simp add: unat_word_ariths)
qed

lemma ready_heap:
  assumes "represents A h bs"
  shows "\<exists>h1. (if h_bot h = 0 then init A h else Some h) = Some h1 \<and> h_bot h1 = A \<and> linked A h1 0 0 bs \<and>
    (\<forall>a. (\<forall>j \<in> headers 0 bs. \<not> in_header A j a) \<longrightarrow> h_mem h1 a = h_mem h a)"
proof (cases "h_bot h = 0")
  case True
  then show ?thesis using assms init_linked [of A h] by (auto simp: represents_def)
qed (use assms in \<open>simp add: represents_def\<close>)

lemma tmalloc_ready:
  assumes "arena_ok A" "h_bot h = A" "linked A h 0 0 bs" "unat (request_size nbytes) = 8 * n" "0 < n"
  shows "case allocate n bs of None \<Rightarrow> tmalloc A nbytes h = Some (0, h)
    | Some (d, cs) \<Rightarrow> \<exists>h'. tmalloc A nbytes h = Some (chunk_at A (Suc d), h') \<and> linked A h' 0 0 cs \<and> only_headers A (headers 0 cs) h h'"
proof (cases "allocate n bs")
  case None
  moreover have "allocate n es = None \<Longrightarrow> first_fit n es = None" for es by (induction n es rule: first_fit.induct) auto
  ultimately show ?thesis using search_first_fit [OF assms(1,3,4)] assms(1,2) by (auto simp: tmalloc_def arena_ok_def)
next
  case (Some r)
  obtain d cs where r: "r = (d, cs)" by force
  obtain p k where a: "first_fit n bs = Some p" "n \<le> k" "p + k < 8192" "right_of A h p = tagged (chunk_at A (p + k)) True"
    "d = p + (k - n)" "linked A (alloc_heap A p k n h) 0 0 cs" "{p, d, p + k} \<subseteq> headers 0 cs"
    using alloc_linked [OF assms(1,3) Some [unfolded r] assms(5)] by auto
  have q: "p + (k - n) = d" "p + k - n = d" using a(2,5) by simp_all
  have s: "search A (request_size nbytes) h A = Some (chunk_at A p)" using search_first_fit [OF assms(1,3,4)] a(1) by simp
  have n: "request_size nbytes = of_nat (8 * n)" using arg_cong [OF assms(4), where f = "of_nat :: nat \<Rightarrow> u32"] by simp
  have p: "p < 8192" "d < 8192" using a(3,5) assms(5) a(2) by simp_all
  have c: "request_size nbytes < chunk_at A (p + k) - chunk_at A p \<longleftrightarrow> n < k"
    using assms(4) unat_units [of k] a(3) by (simp add: chunk_at_diff word_less_nat_alt del: of_nat_mult)
  have f: "right_of A (split_heap A p k n h) d = chunk_at A (p + k)" if "n < k"
    using that a(3,5) p assms(5) by (auto simp: split_heap_def Let_def)
  have "tmalloc A nbytes h = Some (chunk_at A (Suc d), alloc_heap A p k n h)"
    using assms(1,2) s p a(2-5) c n split_chunk_eq [OF assms(1,5) _ a(3,4) n] f
    by (cases "n < k") (auto simp: tmalloc_def arena_ok_def alloc_heap_def)
  moreover have "only_headers A (headers 0 cs) h (alloc_heap A p k n h)"
    using a(7) q by (simp add: alloc_heap_def split_heap_def Let_def)
  ultimately show ?thesis using Some r a(6) by simp
qed

text \<open>The two refinement lemmas.\<close>

lemma tmalloc_refines_gen:
  assumes "represents A h bs" "unat (request_size nbytes) = 8 * n" "0 < n"
  shows "case allocate n bs of None \<Rightarrow> \<exists>h'. tmalloc A nbytes h = Some (0, h') \<and> represents A h' bs \<and> data_kept A bs h h'
    | Some (d, cs) \<Rightarrow> \<exists>h'. tmalloc A nbytes h = Some (chunk_at A (Suc d), h') \<and> represents A h' cs \<and> data_kept A bs h h'"
proof -
  have A: "arena_ok A" "A \<noteq> 0" "compact bs" "positive bs" "units bs = 8191" using assms(1) by (auto simp: represents_def arena_ok_def)
  obtain h1 where h1: "(if h_bot h = 0 then init A h else Some h) = Some h1" "h_bot h1 = A" "linked A h1 0 0 bs"
    "\<forall>a. (\<forall>j \<in> headers 0 bs. \<not> in_header A j a) \<longrightarrow> h_mem h1 a = h_mem h a"
    using ready_heap [OF assms(1)] by blast
  have t: "tmalloc A nbytes h = tmalloc A nbytes h1" using h1(1,2) A(2) by (simp add: tmalloc_def)
  define h0 where "h0 = h1\<lparr>h_mem := h_mem h\<rparr>"
  have o: "only_headers A (headers 0 bs) h0 h1" using h1(4) by (simp add: only_headers_def h0_def)
  have kept: "data_kept A bs h h'" if "only_headers A (headers 0 cs) h1 h'" "headers 0 bs \<subseteq> headers 0 cs" "units cs = 8191" "busy 0 bs \<subseteq> busy 0 cs" for cs h'
    using headers_kept [OF only_headers_trans [OF only_headers_mono [OF o that(2)] that(1)] that(3,4)]
    by (simp add: data_kept_def h0_def)
  note ready = tmalloc_ready [OF A(1) h1(2,3) assms(2,3)]
  show ?thesis
  proof (cases "allocate n bs")
    case None
    then show ?thesis using ready t A h1(2,3) kept [of bs h1] by (auto simp: represents_def)
  next
    case (Some r)
    obtain d cs where r: "r = (d, cs)" by force
    note sp = allocate_spec [OF Some [unfolded r] assms(3), of 0] allocate_compact [OF Some [unfolded r]]
    obtain h' where "tmalloc A nbytes h1 = Some (chunk_at A (Suc d), h')" "linked A h' 0 0 cs" "only_headers A (headers 0 cs) h1 h'"
      using ready Some r by auto
    then show ?thesis using Some r t A h1(2) sp kept [of cs h'] by (auto simp: represents_def only_headers_def)
  qed
qed

lemma tfree_refines_gen:
  assumes "represents A h bs" "(d, n) \<in> busy 0 bs"
  shows "\<exists>h' cs. tfree A (chunk_at A (Suc d)) h = Some h' \<and> release d bs = Some cs \<and> represents A h' cs \<and>
    busy 0 cs = busy 0 bs - {(d, n)} \<and> data_kept A bs h h'"
proof -
  have A: "arena_ok A" "compact bs" "positive bs" "units bs = 8191" using assms(1) by (auto simp: represents_def)
  have b: "h_bot h = A" "linked A h 0 0 bs" "A \<noteq> 0" using assms by (auto simp: represents_def arena_ok_def split: if_splits)
  obtain cs where cs: "release d bs = Some cs" "busy 0 cs = busy 0 bs - {(d, n)}" "units cs = units bs" "positive cs" "compact cs"
    using release_spec [of 0 d n bs] assms(2) A by auto
  obtain h' where h': "tfree A (chunk_at A (Suc d)) h = Some h'" "linked A h' 0 0 cs" "only_headers A (headers 0 bs) h h'"
    using tfree_linked [OF A(1) b(2) cs(1)] by (auto simp: free_chunk_def)
  then show ?thesis using cs A b headers_kept [OF h'(3) A(4)] by (auto simp: represents_def only_headers_def)
qed

section \<open>A concrete heap\<close>

definition fresh_heap :: heap where
  "fresh_heap = \<lparr>h_bot = 0, h_top = 0, h_mem = (\<lambda>_. 0)\<rparr>"

lemma fresh_represents: "arena_ok A \<Longrightarrow> represents A fresh_heap [(8191, True)]"
  by (simp add: represents_def fresh_heap_def)

lemma demo_arena [simp]: "arena_ok 0x8000"
  by (simp add: arena_ok_def)

section \<open>The properties of the allocator\<close>

text \<open>
  C21: \<open>tmalloc\<close> is first fit from the right end. On every heap that represents a list of chunks, and
  for every request of at most \<open>2 ^ 32 - 16\<close> bytes, \<open>tmalloc\<close> returns, the search loop and all pointer
  accesses staying in the arena. It returns \<open>NULL\<close> exactly when no free chunk has room for the
  bytes and a header; otherwise it takes the right end of the first chunk that has room. The
  new heap represents the new list, of which no two neighbours are free, and no byte owned by
  another client has changed. This includes the first call, which initialises the arena.
\<close>

theorem tmalloc_refines:
  assumes "represents A h bs" "nbytes \<le> 0xFFFFFFF0"
  shows "case allocate ((unat nbytes + 7) div 8 + 1) bs of
      None \<Rightarrow> (\<forall>(k, f) \<in> set bs. f \<longrightarrow> 8 * (k - 1) < unat nbytes) \<and>
        (\<exists>h'. tmalloc A nbytes h = Some (0, h') \<and> represents A h' bs \<and> data_kept A bs h h')
    | Some (d, cs) \<Rightarrow> \<exists>h'. tmalloc A nbytes h = Some (chunk_at A (Suc d), h') \<and> represents A h' cs \<and> data_kept A bs h h'"
proof -
  let ?n = "(unat nbytes + 7) div 8 + 1"
  have "8 * (k - 1) < unat nbytes" if "allocate ?n bs = None" "(k, True) \<in> set bs" for k
  proof -
    have "k < ?n" using that allocate_fails [of ?n bs] by auto
    moreover have "0 < k" using that(2) assms(1) by (auto simp: represents_def positive_def)
    ultimately show ?thesis by presburger
  qed
  then show ?thesis
    using tmalloc_refines_gen [OF assms(1) request_size_units [OF assms(2)]] by (auto split: option.splits)
qed

theorem tmalloc_refines_witness:
  "\<exists>h'. tmalloc 0x8000 500 fresh_heap = Some (chunk_at 0x8000 8128, h') \<and> represents 0x8000 h' [(8127, True), (64, False)]"
  using tmalloc_refines [OF fresh_represents [OF demo_arena], of 500] by auto

text \<open>
  C22: \<open>tfree\<close> gives the chunk back. For every busy chunk of a represented heap, freeing its pointer
  returns without leaving the arena; the chunk is free, joined with every free neighbour, the
  other busy chunks are the same as before, and no byte owned by any client has changed.
\<close>

theorem tfree_refines:
  assumes "represents A h bs" "(d, n) \<in> busy 0 bs"
  shows "\<exists>h' cs. tfree A (chunk_at A (Suc d)) h = Some h' \<and> release d bs = Some cs \<and> represents A h' cs \<and>
    busy 0 cs = busy 0 bs - {(d, n)} \<and> data_kept A bs h h'"
  by (rule tfree_refines_gen [OF assms])

theorem tfree_refines_witness:
  "\<exists>h1 h2. tmalloc 0x8000 500 fresh_heap = Some (chunk_at 0x8000 8128, h1) \<and>
    tfree 0x8000 (chunk_at 0x8000 8128) h1 = Some h2 \<and> represents 0x8000 h2 [(8191, True)]"
proof -
  obtain h1 where h1: "tmalloc 0x8000 500 fresh_heap = Some (chunk_at 0x8000 8128, h1)" "represents 0x8000 h1 [(8127, True), (64, False)]"
    using tmalloc_refines_gen [OF fresh_represents [OF demo_arena] request_size_units, of 500] by auto
  from tfree_refines [OF this(2), of 8127 64] show ?thesis using h1(1) by auto
qed

text \<open>
  freeing undoes allocating. When the first operation on a represented heap is a successful
  \<open>tmalloc\<close> and the second frees what it returned, the heap represents the list it started with.
\<close>

theorem tmalloc_tfree_roundtrip:
  assumes "represents A h bs" "nbytes \<le> 0xFFFFFFF0" "tmalloc A nbytes h = Some (p, h1)" "p \<noteq> 0"
  shows "\<exists>h2. tfree A p h1 = Some h2 \<and> represents A h2 bs \<and> data_kept A bs h h2"
proof -
  let ?n = "(unat nbytes + 7) div 8 + 1"
  have A: "compact bs" "positive bs" using assms(1) by (simp_all add: represents_def)
  note m = tmalloc_refines_gen [OF assms(1) request_size_units [OF assms(2)]]
  obtain d cs where d: "allocate ?n bs = Some (d, cs)" "p = chunk_at A (Suc d)" "represents A h1 cs" "data_kept A bs h h1"
    using m assms(3,4) by (auto split: option.splits)
  have sp: "busy 0 cs = insert (d, ?n) (busy 0 bs)" using allocate_spec [OF d(1), of 0] by simp
  have "release d cs = Some bs" by (rule allocate_release [OF d(1) A(1) _ A(2)]) simp
  then obtain h2 where "tfree A p h1 = Some h2" "represents A h2 bs" "data_kept A cs h1 h2"
    using tfree_refines_gen [OF d(3), of d ?n] sp d(2) by auto
  then show ?thesis using d(4) sp data_kept_mono [of bs cs A h1 h2] data_kept_trans [of A bs h h1 h2] by auto
qed

theorem tmalloc_tfree_roundtrip_witness:
  "\<exists>p h1 h2. tmalloc 0x8000 7 fresh_heap = Some (p, h1) \<and> p \<noteq> 0 \<and> tfree 0x8000 p h1 = Some h2 \<and> represents 0x8000 h2 [(8191, True)]"
proof -
  obtain h1 where h1: "tmalloc 0x8000 7 fresh_heap = Some (chunk_at 0x8000 8190, h1)"
    using tmalloc_refines_gen [OF fresh_represents [OF demo_arena] request_size_units, of 7] by auto
  moreover have "chunk_at 0x8000 8190 \<noteq> 0" by simp
  ultimately show ?thesis
    using tmalloc_tfree_roundtrip [OF fresh_represents [OF demo_arena] _ h1] by auto
qed

end
