(* ===== verification/TmallocClient.thy ===== *)
theory TmallocClient
  imports Tmalloc
begin

text \<open>
  Clients of the allocator of \<open>tmalloc.c\<close>: what a program that frees only what it holds can rely on,
  whatever it does and in whatever order, and what \<open>trealloc\<close> and \<open>tcalloc\<close> add. Requests close to
  \<open>2 ^ 32\<close> bytes, whose size computation wraps around, are treated at the end.
\<close>

section \<open>Reallocation\<close>

text \<open>Offsets in the payload of the chunk at \<open>i\<close>\<close>

lemma payload_offset:
  assumes "unat (a - chunk_at A (Suc i)) < 8 * (n - 1)" "i + n \<le> 8191"
  shows "unat (a - A) = 8 * Suc i + unat (a - chunk_at A (Suc i))"
proof -
  define w b :: u32 where "w = of_nat (8 * Suc i)" and "b = a - chunk_at A (Suc i)"
  have "unat w = 8 * Suc i" unfolding w_def by (rule unat_units) (use assms in simp)
  moreover have "a - A = w + b" by (simp add: b_def w_def chunk_at_def algebra_simps)
  ultimately show ?thesis using assms by (simp add: unat_word_ariths flip: b_def)
qed

lemma payload_at: "unat (a - chunk_at A (Suc i)) < 8 * (n - 1) \<Longrightarrow> i + n \<le> 8191 \<Longrightarrow> in_payload A i n a"
  using payload_offset [of a A i n] by (auto simp: in_payload_def)

lemma linked_headers:
  assumes "\<And>j. j \<in> headers i bs \<Longrightarrow> left_of A h' j = left_of A h j \<and> right_of A h' j = right_of A h j" "linked A h l i bs"
  shows "linked A h' l i bs"
  using assms by (induction A h l i bs rule: linked.induct) auto

lemma payload_write:
  assumes "represents A h bs" "(i, n) \<in> busy 0 bs" "\<forall>a. \<not> in_payload A i n a \<longrightarrow> m a = h_mem h a"
  shows "represents A (h\<lparr>h_mem := m\<rparr>) bs"
proof -
  have A: "arena_ok A" "units bs = 8191" "linked A h 0 0 bs"
    using assms(1,2) by (auto simp: represents_def split: if_splits)
  have b: "m (chunk_at A j + of_nat b) = h_mem h (chunk_at A j + of_nat b)" if j: "j \<in> headers 0 bs" and b: "b < 8" for j b
  proof -
    have "j < 8192" using headers_ge [OF j] A(2) by simp
    then have "unat (chunk_at A j + of_nat b - A) = 8 * j + b"
      using b unat_of_nat_small [of "8 * j + b", where 'l = 32] by (simp add: chunk_at_def)
    then have "\<not> in_payload A i n (chunk_at A j + of_nat b)"
      using busy_headers [OF assms(2) j] b by (auto simp: in_payload_def)
    then show ?thesis using assms(3) by blast
  qed
  have "linked A (h\<lparr>h_mem := m\<rparr>) 0 0 bs"
  proof (rule linked_headers [OF _ A(3)])
    fix j assume "j \<in> headers 0 bs"
    note e = b [OF this]
    show "left_of A (h\<lparr>h_mem := m\<rparr>) j = left_of A h j \<and> right_of A (h\<lparr>h_mem := m\<rparr>) j = right_of A h j"
      using e [of 0] e [of 1] e [of 2] e [of 3] e [of 4] e [of 5] e [of 6] e [of 7]
      by (simp add: left_of_def right_of_def load32_def add.assoc)
  qed
  then show ?thesis using assms(1,2) by (auto simp: represents_def split: if_splits)
qed

lemma chunk_gap:
  assumes "i < 8192" "j < 8192" "i + k \<le> j \<or> j + l \<le> i" "0 < k" "b \<le> 8 * k" "b \<le> 8 * l"
  shows "b \<le> unat (chunk_at A j - chunk_at A i)"
proof (cases "i \<le> j")
  case True
  then obtain d where d: "j = i + d" using le_Suc_ex by blast
  have "unat (chunk_at A j - chunk_at A i) = 8 * d" unfolding d chunk_at_diff using assms(2) d by (intro unat_units) simp
  then show ?thesis using assms(3-6) d by auto
next
  case False
  then obtain d where d: "i = j + d" "0 < d" using less_imp_add_positive by (metis not_le)
  define w :: u32 where "w = of_nat (8 * d)"
  have w: "unat w = 8 * d" unfolding w_def by (rule unat_units) (use assms(1) d in simp)
  have "chunk_at A j - chunk_at A i = - w" unfolding d w_def by (simp add: chunk_at_def)
  moreover have "2 ^ 32 dvd unat (- w) + unat w" using unat_word_ariths(1) [of "- w" w] by (simp add: dvd_eq_mod_eq_0)
  then have "2 ^ 32 \<le> unat (- w) + unat w" by (rule dvd_imp_le) (use w d(2) in simp)
  ultimately have "2 ^ 32 - 8 * d \<le> unat (chunk_at A j - chunk_at A i)" using w by simp
  then show ?thesis using assms d by auto
qed

lemma linked_busy: "linked A h l i bs \<Longrightarrow> (a, n) \<in> busy i bs \<Longrightarrow> right_of A h a = chunk_at A (a + n)"
  by (induction A h l i bs rule: linked.induct) (auto split: if_splits)

lemma busy_chunk:
  assumes "represents A h bs" "(d, n) \<in> busy 0 bs"
  shows "arena_ok A" "0 < n" "d + n \<le> 8191" "CHUNKSIZE A (chunk_at A d) h = Some (of_nat (8 * n))" "chunk_at A (Suc d) \<noteq> 0"
    "unat (chunk_at A (Suc d) - A) = 8 * Suc d"
proof -
  have r: "positive bs" "units bs = 8191" "linked A h 0 0 bs" and A: "arena_ok A" using assms by (auto simp: represents_def split: if_splits)
  show "arena_ok A" by (fact A)
  show n: "0 < n" "d + n \<le> 8191" using busy_positive [OF r(1) assms(2)] busy_bounds [OF assms(2)] r(2) by simp_all
  have "right_of A h d = chunk_at A (d + n)" by (rule linked_busy [OF r(3) assms(2)])
  then show "CHUNKSIZE A (chunk_at A d) h = Some (of_nat (8 * n))" using A n chunk_at_diff [of A d n] by simp
  show "chunk_at A (Suc d) \<noteq> 0" using A n by simp
  have "chunk_at A (Suc d) - A = of_nat (8 * Suc d)" by (simp add: chunk_at_def)
  then show "unat (chunk_at A (Suc d) - A) = 8 * Suc d" using unat_units [of "Suc d"] n by simp
qed

text \<open>Copying into a busy chunk, and what is there afterwards.\<close>

lemma copy_into:
  assumes "represents A h bs" "(e, N) \<in> busy 0 bs" "unat b \<le> 8 * (N - 1)"
  shows "represents A (h\<lparr>h_mem := copy_bytes (h_mem h) (chunk_at A (Suc e)) vp b\<rparr>) bs"
    "represents A (h\<lparr>h_mem := fill_bytes (h_mem h) (chunk_at A (Suc e)) c b\<rparr>) bs"
proof -
  have "in_payload A e N a" if "a - chunk_at A (Suc e) < b" for a
    by (rule payload_at) (use that assms(3) busy_chunk(3) [OF assms(1,2)] in \<open>auto simp: word_less_nat_alt\<close>)
  then show "represents A (h\<lparr>h_mem := copy_bytes (h_mem h) (chunk_at A (Suc e)) vp b\<rparr>) bs"
    "represents A (h\<lparr>h_mem := fill_bytes (h_mem h) (chunk_at A (Suc e)) c b\<rparr>) bs"
    using payload_write [OF assms(1,2)] by (auto simp: copy_bytes_def fill_bytes_def)
qed

text \<open>The number of units that a request for \<open>nbytes\<close> takes.\<close>

abbreviation request_units :: "u32 \<Rightarrow> nat" where
  "request_units nbytes \<equiv> (unat nbytes + 7) div 8 + 1"

lemma request_room: "unat nbytes \<le> 8 * (request_units nbytes - 1)"
  by presburger

lemma tmalloc_granted:
  assumes "represents A h bs" "nbytes \<le> 0xFFFFFFF0" "allocate (request_units nbytes) bs = Some (e, cs)"
  shows "\<exists>h'. tmalloc A nbytes h = Some (chunk_at A (Suc e), h') \<and> represents A h' cs \<and> data_kept A bs h h'"
    "busy 0 cs = insert (e, request_units nbytes) (busy 0 bs)" "(e, m) \<notin> busy 0 bs" "chunk_at A (Suc e) \<noteq> 0"
proof -
  have pos: "positive bs" using assms(1) by (simp add: represents_def)
  show t: "\<exists>h'. tmalloc A nbytes h = Some (chunk_at A (Suc e), h') \<and> represents A h' cs \<and> data_kept A bs h h'"
    using tmalloc_refines_gen [OF assms(1) request_size_units [OF assms(2)]] assms(3) by simp
  show b: "busy 0 cs = insert (e, request_units nbytes) (busy 0 bs)" using allocate_spec [OF assms(3), of 0] by simp
  show "(e, m) \<notin> busy 0 bs" using allocate_fresh [OF assms(3) _ pos, of 0] by simp
  show "chunk_at A (Suc e) \<noteq> 0" using t b busy_chunk(5) by blast
qed

lemma tmalloc_refused:
  assumes "represents A h bs" "nbytes \<le> 0xFFFFFFF0" "allocate (request_units nbytes) bs = None"
  shows "\<exists>h'. tmalloc A nbytes h = Some (0, h') \<and> represents A h' bs \<and> data_kept A bs h h'"
  using tmalloc_refines_gen [OF assms(1) request_size_units [OF assms(2)]] assms(3) by simp

lemma tmalloc_null:
  assumes "represents A h bs" "nbytes \<le> 0xFFFFFFF0" "tmalloc A nbytes h = Some (p, h')"
  shows "p = 0 \<longleftrightarrow> allocate (request_units nbytes) bs = None"
proof (cases "allocate (request_units nbytes) bs")
  case None
  then show ?thesis using tmalloc_refused [OF assms(1,2) None] assms(3) by auto
next
  case (Some r)
  obtain e cs where "r = (e, cs)" by force
  note g = tmalloc_granted [OF assms(1,2) Some [unfolded this]]
  have "p = chunk_at A (Suc e)" using g(1) assms(3) by auto
  then show ?thesis using g(4) Some by simp
qed

lemma in_payload_chunk: "k < 8 * (n - 1) \<Longrightarrow> d + n \<le> 8191 \<Longrightarrow> in_payload A d n (chunk_at A (Suc d) + of_nat k)"
  using unat_of_nat_small [of k, where 'l = 32] by (intro payload_at) auto

lemma payload_disjoint:
  assumes "positive bs" "(i, n) \<in> busy 0 bs" "(j, k) \<in> busy 0 bs" "in_payload A i n a" "in_payload A j k a"
  shows "i = j \<and> n = k"
  using busy_disjoint [OF assms(1-3)] assms(4,5) by (auto simp: in_payload_def)

text \<open>The copy that \<open>trealloc\<close> makes from the old chunk at \<open>d\<close> into the new one at \<open>e\<close>.\<close>

lemma move_data:
  assumes r: "represents A h bs" and d: "(d, n) \<in> busy 0 bs" and e: "(e, N) \<in> busy 0 bs" and "d \<noteq> e"
    and b: "unat b \<le> 8 * (n - 1)" "unat b \<le> 8 * (N - 1)"
  defines "h' \<equiv> h\<lparr>h_mem := copy_bytes (h_mem h) (chunk_at A (Suc e)) (chunk_at A (Suc d)) b\<rparr>"
  shows "area_ok A (chunk_at A (Suc e)) b" "area_ok A (chunk_at A (Suc d)) b"
    "b \<le> chunk_at A (Suc e) - chunk_at A (Suc d)" "b \<le> chunk_at A (Suc d) - chunk_at A (Suc e)"
    "represents A h' bs" "busy 0 cs \<subseteq> busy 0 bs - {(e, N)} \<Longrightarrow> data_kept A cs h h'"
    "k < unat b \<Longrightarrow> h_mem h' (chunk_at A (Suc e) + of_nat k) = h_mem h (chunk_at A (Suc d) + of_nat k)"
proof -
  have pos: "positive bs" using r by (simp add: represents_def)
  note D = busy_chunk [OF r d] and E = busy_chunk [OF r e]
  show "area_ok A (chunk_at A (Suc e)) b" "area_ok A (chunk_at A (Suc d)) b"
    unfolding area_ok_def D(6) E(6) using b D(2,3) E(2,3) by simp_all
  have apart: "d + n \<le> e \<or> e + N \<le> d" using busy_disjoint [OF pos d e] \<open>d \<noteq> e\<close> by blast
  have "unat b \<le> unat (chunk_at A (Suc e) - chunk_at A (Suc d))" "unat b \<le> unat (chunk_at A (Suc d) - chunk_at A (Suc e))"
    by (rule chunk_gap [of _ _ n N] chunk_gap [of _ _ N n]; use apart b D(2,3) E(2,3) in auto)+
  then show "b \<le> chunk_at A (Suc e) - chunk_at A (Suc d)" "b \<le> chunk_at A (Suc d) - chunk_at A (Suc e)"
    by (simp_all add: word_le_nat_alt)
  show "represents A h' bs" unfolding h'_def by (rule copy_into(1) [OF r e b(2)])
  show "data_kept A cs h h'" if cs: "busy 0 cs \<subseteq> busy 0 bs - {(e, N)}"
    unfolding data_kept_def
  proof (intro ballI allI impI, clarsimp)
    fix i k a assume "(i, k) \<in> busy 0 cs" and p: "in_payload A i k a"
    then have i: "(i, k) \<in> busy 0 bs" "(i, k) \<noteq> (e, N)" using cs by auto
    have "\<not> in_payload A e N a" using payload_disjoint [OF pos i(1) e p] i(2) by blast
    then have "\<not> a - chunk_at A (Suc e) < b" using payload_at [of a A e N] b(2) E(3) by (auto simp: word_less_nat_alt)
    then show "h_mem h' a = h_mem h a" by (simp add: h'_def copy_bytes_def)
  qed
  show "h_mem h' (chunk_at A (Suc e) + of_nat k) = h_mem h (chunk_at A (Suc d) + of_nat k)" if "k < unat b"
  proof -
    have "k < 2 ^ 32" using that b(1) D(2,3) by simp
    then have "(of_nat k :: u32) < b" using that unat_of_nat_small [of k, where 'l = 32] by (simp add: word_less_nat_alt)
    then show ?thesis by (simp add: h'_def copy_bytes_def)
  qed
qed

lemma trealloc_refines_gen:
  assumes "represents A h bs" "(d, n) \<in> busy 0 bs" "0 < newbytes" "newbytes \<le> 0xFFFFFFF0"
    and a: "allocate (request_units newbytes) bs = Some (e, cs)"
  shows "\<exists>h' es. trealloc A (chunk_at A (Suc d)) newbytes h = Some (chunk_at A (Suc e), h') \<and> release d cs = Some es \<and>
    represents A h' es \<and> busy 0 es = insert (e, request_units newbytes) (busy 0 bs - {(d, n)}) \<and> data_kept A bs h h' \<and>
    (\<forall>k < min (8 * (n - 1)) (unat newbytes). h_mem h' (chunk_at A (Suc e) + of_nat k) = h_mem h (chunk_at A (Suc d) + of_nat k))"
proof -
  let ?N = "request_units newbytes" and ?vp = "chunk_at A (Suc d)" and ?np = "chunk_at A (Suc e)"
  obtain h1 where h1: "tmalloc A newbytes h = Some (?np, h1)" "represents A h1 cs" "data_kept A bs h h1"
    using tmalloc_granted(1) [OF assms(1,4) a] by blast
  note g = tmalloc_granted(2-4) [OF assms(1,4) a]
  have d: "(d, n) \<in> busy 0 cs" and e: "(e, ?N) \<in> busy 0 cs" and ne: "d \<noteq> e" using assms(2) g(1) g(2) [of n] by auto
  define b where "b = (let x = of_nat (8 * n) - 8 in if x > newbytes then newbytes else x)"
  have x: "(of_nat (8 * n) - 8 :: u32) = of_nat (8 * (n - 1))" using busy_chunk(2) [OF h1(2) d] by (cases n) simp_all
  have "unat (of_nat (8 * (n - 1)) :: u32) = 8 * (n - 1)" by (rule unat_units) (use busy_chunk(3) [OF h1(2) d] in simp)
  then have b: "unat b = min (8 * (n - 1)) (unat newbytes)"
    unfolding b_def x by (auto simp: Let_def word_less_nat_alt min_def)
  have fits: "unat b \<le> 8 * (n - 1)" "unat b \<le> 8 * (?N - 1)" using b request_room [of newbytes] by simp_all
  note move = move_data [OF h1(2) d e ne fits]
  define h2 where "h2 = h1\<lparr>h_mem := copy_bytes (h_mem h1) ?np ?vp b\<rparr>"
  obtain h3 es where h3: "tfree A ?vp h2 = Some h3" "release d cs = Some es" "represents A h3 es"
    "busy 0 es = busy 0 cs - {(d, n)}" "data_kept A cs h2 h3"
    using tfree_refines_gen [OF move(5) d] by (auto simp: h2_def)
  have bytes: "(if newbytes < 8 * of_nat n - 8 then newbytes else 8 * of_nat n - 8) = b" by (simp add: b_def)
  have nz: "newbytes \<noteq> 0" using assms(3) by auto
  have run: "trealloc A ?vp newbytes h = Some (?np, h3)"
    using nz busy_chunk(4,5) [OF h1(2) d] g(3) h1(1) move(1-4) h3(1)
    by (simp add: trealloc_def Let_def bytes flip: h2_def)
  have "busy 0 bs \<subseteq> busy 0 cs - {(e, ?N)}" using g(1,2) by auto
  then have "data_kept A bs h1 h2" unfolding h2_def by (rule move(6))
  moreover have "data_kept A bs h2 h3" by (rule data_kept_mono [OF _ h3(5)]) (use g(1) in auto)
  ultimately have kept: "data_kept A bs h h3" using h1(3) data_kept_trans by blast
  have "h_mem h3 (?np + of_nat k) = h_mem h (?vp + of_nat k)" if k: "k < unat b" for k
  proof -
    have "in_payload A e ?N (?np + of_nat k)" "in_payload A d n (?vp + of_nat k)"
      by (rule in_payload_chunk; use k fits busy_chunk(3) [OF h1(2) d] busy_chunk(3) [OF h1(2) e] in simp)+
    then have "h_mem h3 (?np + of_nat k) = h_mem h2 (?np + of_nat k)" "h_mem h1 (?vp + of_nat k) = h_mem h (?vp + of_nat k)"
      using h3(5) h1(3) e assms(2) by (auto simp: data_kept_def)
    then show ?thesis using move(7) [OF k] by (simp add: h2_def)
  qed
  then show ?thesis using run h3(2,3,4) kept g(1) ne b by (intro exI [of _ h3] exI [of _ es]) (auto simp: insert_Diff_if)
qed

lemma tcalloc_refines_gen:
  assumes "represents A h bs" "unat nelem * unat elsize \<le> 0xFFFFFFF0"
    and a: "allocate (request_units (nelem * elsize)) bs = Some (e, cs)"
  shows "\<exists>h'. tcalloc A nelem elsize h = Some (chunk_at A (Suc e), h') \<and> represents A h' cs \<and> data_kept A bs h h' \<and>
    (\<forall>k < unat nelem * unat elsize. h_mem h' (chunk_at A (Suc e) + of_nat k) = 0)"
proof -
  let ?b = "nelem * elsize"
  let ?N = "request_units ?b" and ?p = "chunk_at A (Suc e)"
  have u: "unat ?b = unat nelem * unat elsize" using assms(2) by (simp add: unat_word_ariths)
  then have le: "?b \<le> 0xFFFFFFF0" using assms(2) by (simp add: word_le_nat_alt)
  obtain h1 where h1: "tmalloc A ?b h = Some (?p, h1)" "represents A h1 cs" "data_kept A bs h h1"
    using tmalloc_granted(1) [OF assms(1) le a] by blast
  note g = tmalloc_granted(2-4) [OF assms(1) le a]
  have e: "(e, ?N) \<in> busy 0 cs" using g(1) by simp
  note E = busy_chunk [OF h1(2) e]
  have pos: "positive cs" using h1(2) by (simp add: represents_def)
  define h' where "h' = h1\<lparr>h_mem := fill_bytes (h_mem h1) ?p 0 ?b\<rparr>"
  have "area_ok A ?p ?b" unfolding area_ok_def E(6) using request_room [of ?b] E(2,3) by simp
  then have "tcalloc A nelem elsize h = Some (?p, h')" using h1(1) g(3) by (simp add: tcalloc_def h'_def)
  moreover have "represents A h' cs" unfolding h'_def by (rule copy_into(2) [OF h1(2) e request_room])
  moreover have "data_kept A bs h1 h'"
    unfolding data_kept_def
  proof (intro ballI allI impI, clarsimp)
    fix i k a assume i: "(i, k) \<in> busy 0 bs" and p: "in_payload A i k a"
    have "\<not> in_payload A e ?N a" using payload_disjoint [OF pos _ e p] i g(1,2) by auto
    then have "\<not> a - ?p < ?b" using payload_at [of a A e ?N] request_room [of ?b] E(3) by (auto simp: word_less_nat_alt)
    then show "h_mem h' a = h_mem h1 a" by (simp add: h'_def fill_bytes_def)
  qed
  moreover have "h_mem h' (?p + of_nat k) = 0" if "k < unat ?b" for k
  proof -
    have "(of_nat k :: u32) < ?b"
      using that u assms(2) unat_of_nat_small [of k, where 'l = 32] by (simp add: word_less_nat_alt)
    then show ?thesis by (simp add: h'_def fill_bytes_def)
  qed
  ultimately show ?thesis using u data_kept_trans [OF h1(3)] by auto
qed

lemma trealloc_null:
  assumes "represents A h bs" "nbytes \<le> 0xFFFFFFF0" "nbytes \<noteq> 0" "vp \<noteq> 0" "trealloc A vp nbytes h = Some (q, h')"
  shows "q = 0 \<longleftrightarrow> allocate (request_units nbytes) bs = None"
proof -
  obtain x h1 where m: "tmalloc A nbytes h = Some (x, h1)" using assms(3-5) by (auto simp: trealloc_def bind_eq_Some_conv)
  have "q = x" using assms(3-5) m by (auto simp: trealloc_def Let_def bind_eq_Some_conv split: if_splits)
  then show ?thesis using tmalloc_null [OF assms(1,2) m] by simp
qed

lemma tcalloc_null:
  assumes "represents A h bs" "unat nelem * unat elsize \<le> 0xFFFFFFF0" "tcalloc A nelem elsize h = Some (q, h')"
  shows "q = 0 \<longleftrightarrow> allocate (request_units (nelem * elsize)) bs = None"
proof -
  have le: "nelem * elsize \<le> 0xFFFFFFF0" using assms(2) by (simp add: word_le_nat_alt unat_word_ariths)
  obtain x h1 where m: "tmalloc A (nelem * elsize) h = Some (x, h1)" using assms(3) by (auto simp: tcalloc_def Let_def bind_eq_Some_conv)
  have "q = x" using assms(3) m by (auto simp: tcalloc_def Let_def split: if_splits)
  then show ?thesis using tmalloc_null [OF assms(1) le m] by simp
qed

section \<open>Sessions of a client\<close>

text \<open>
  The states that a client reaches which frees and resizes only pointers it holds and writes only
  into the areas it holds: the heap and the set of held pointers with the number of bytes asked for.
\<close>

inductive session :: "u32 \<Rightarrow> heap \<Rightarrow> (u32 \<times> nat) set \<Rightarrow> bool" for A where
  start: "h_bot h = 0 \<Longrightarrow> session A h {}"
| granted: "session A h live \<Longrightarrow> nbytes \<le> 0xFFFFFFF0 \<Longrightarrow> tmalloc A nbytes h = Some (p, h') \<Longrightarrow> p \<noteq> 0 \<Longrightarrow>
    session A h' (insert (p, unat nbytes) live)"
| refused: "session A h live \<Longrightarrow> nbytes \<le> 0xFFFFFFF0 \<Longrightarrow> tmalloc A nbytes h = Some (0, h') \<Longrightarrow> session A h' live"
| zeroed: "session A h live \<Longrightarrow> unat nelem * unat elsize \<le> 0xFFFFFFF0 \<Longrightarrow> tcalloc A nelem elsize h = Some (p, h') \<Longrightarrow> p \<noteq> 0 \<Longrightarrow>
    session A h' (insert (p, unat nelem * unat elsize) live)"
| resized: "session A h live \<Longrightarrow> (p, m) \<in> live \<Longrightarrow> 0 < nbytes \<Longrightarrow> nbytes \<le> 0xFFFFFFF0 \<Longrightarrow>
    trealloc A p nbytes h = Some (q, h') \<Longrightarrow> q \<noteq> 0 \<Longrightarrow> session A h' (insert (q, unat nbytes) (live - {(p, m)}))"
| zero_refused: "session A h live \<Longrightarrow> unat nelem * unat elsize \<le> 0xFFFFFFF0 \<Longrightarrow> tcalloc A nelem elsize h = Some (0, h') \<Longrightarrow>
    session A h' live"
| resize_refused: "session A h live \<Longrightarrow> (p, m) \<in> live \<Longrightarrow> 0 < nbytes \<Longrightarrow> nbytes \<le> 0xFFFFFFF0 \<Longrightarrow>
    trealloc A p nbytes h = Some (0, h') \<Longrightarrow> session A h' live"
| resized_null: "session A h live \<Longrightarrow> nbytes \<le> 0xFFFFFFF0 \<Longrightarrow> trealloc A 0 nbytes h = Some (q, h') \<Longrightarrow>
    session A h' (if q = 0 then live else insert (q, unat nbytes) live)"
| resized_away: "session A h live \<Longrightarrow> (p, m) \<in> live \<Longrightarrow> trealloc A p 0 h = Some (q, h') \<Longrightarrow> session A h' (live - {(p, m)})"
| freed: "session A h live \<Longrightarrow> (p, m) \<in> live \<Longrightarrow> tfree A p h = Some h' \<Longrightarrow> session A h' (live - {(p, m)})"
| freed_null: "session A h live \<Longrightarrow> tfree A 0 h = Some h' \<Longrightarrow> session A h' live"
| written: "session A h live \<Longrightarrow> (p, m) \<in> live \<Longrightarrow> a - p < of_nat m \<Longrightarrow> session A (h\<lparr>h_mem := (h_mem h)(a := v)\<rparr>) live"

text \<open>The held pointers are those of the busy chunks, each with room for its bytes.\<close>

definition holds :: "u32 \<Rightarrow> (u32 \<times> nat) set \<Rightarrow> (nat \<times> nat) set \<Rightarrow> bool" where
  "holds A live B \<longleftrightarrow> (\<exists>f. live = (\<lambda>(i, n). (chunk_at A (Suc i), f i)) ` B \<and> (\<forall>(i, n) \<in> B. f i \<le> 8 * (n - 1)))"

lemma holds_granted:
  assumes "holds A live B" "\<And>k. (d, k) \<notin> B" "m \<le> 8 * (n - 1)"
  shows "holds A (insert (chunk_at A (Suc d), m) live) (insert (d, n) B)"
proof -
  obtain f where f: "live = (\<lambda>(i, n). (chunk_at A (Suc i), f i)) ` B" "\<forall>(i, n) \<in> B. f i \<le> 8 * (n - 1)"
    using assms(1) by (auto simp: holds_def)
  have "i \<noteq> d" if "(i, k) \<in> B" for i k using assms(2) that by blast
  then have "(\<lambda>(i, n). (chunk_at A (Suc i), (f(d := m)) i)) ` B = live" "\<forall>(i, n) \<in> B. (f(d := m)) i \<le> 8 * (n - 1)"
    unfolding f(1) using f(2) by (auto intro!: image_cong)
  then show ?thesis unfolding holds_def using assms(3) by (intro exI [of _ "f(d := m)"]) simp
qed

text \<open>A held pointer is that of a busy chunk; without both, the other pointers are those of the other chunks.\<close>

lemma holds_member:
  assumes r: "represents A h bs" and "holds A live (busy 0 bs)" "(p, m) \<in> live"
  obtains i n where "(i, n) \<in> busy 0 bs" "p = chunk_at A (Suc i)" "m \<le> 8 * (n - 1)" "0 < n" "i + n \<le> 8191"
    "holds A (live - {(p, m)}) (busy 0 bs - {(i, n)})"
proof -
  obtain f where f: "live = (\<lambda>(i, n). (chunk_at A (Suc i), f i)) ` busy 0 bs" "\<forall>(i, n) \<in> busy 0 bs. f i \<le> 8 * (n - 1)"
    using assms(2) by (auto simp: holds_def)
  obtain i n where i: "(i, n) \<in> busy 0 bs" "p = chunk_at A (Suc i)" "m = f i" using assms(3) f(1) by auto
  have small: "Suc j < 8192" if "(j, k) \<in> busy 0 bs" for j k using busy_chunk(2,3) [OF r that] by simp
  let ?g = "\<lambda>(i, n). (chunk_at A (Suc i), f i)"
  have "inj_on ?g (busy 0 bs)"
  proof (rule inj_onI, clarsimp)
    fix a k b l assume *: "(a, k) \<in> busy 0 bs" "(b, l) \<in> busy 0 bs" "chunk_at A (Suc a) = chunk_at A (Suc b)"
    then have "a = b" using chunk_at_inj [OF _ small [OF *(1)] small [OF *(2)]] r by (simp add: represents_def)
    then show "a = b \<and> k = l" using busy_unique [of bs] r * by (auto simp: represents_def)
  qed
  from inj_on_image_set_diff [OF this, of "busy 0 bs" "{(i, n)}"]
  have "live - {(p, m)} = ?g ` (busy 0 bs - {(i, n)})" using i f(1) by simp
  then have "holds A (live - {(p, m)}) (busy 0 bs - {(i, n)})" using f(2) by (auto simp: holds_def intro!: exI [of _ f])
  moreover have "m \<le> 8 * (n - 1)" using i f(2) by auto
  ultimately show ?thesis using that i(1,2) busy_chunk(2,3) [OF r i(1)] by blast
qed

lemma holds_payload:
  assumes "represents A h bs" "holds A live (busy 0 bs)" "(p, m) \<in> live" "a - p < of_nat m"
  obtains i n where "(i, n) \<in> busy 0 bs" "in_payload A i n a"
proof -
  obtain i n where i: "(i, n) \<in> busy 0 bs" "p = chunk_at A (Suc i)" "m \<le> 8 * (n - 1)" "0 < n" "i + n \<le> 8191"
    using holds_member [OF assms(1-3)] by blast
  have "unat (a - p) < m" using assms(4) i(3-5) unat_of_nat_small [of m, where 'l = 32] by (simp add: word_less_nat_alt)
  then have "in_payload A i n a" using i by (intro payload_at) auto
  then show ?thesis using i(1) that by blast
qed

definition tracked :: "u32 \<Rightarrow> heap \<Rightarrow> (u32 \<times> nat) set \<Rightarrow> bool" where
  "tracked A h live \<longleftrightarrow> (\<exists>bs. represents A h bs \<and> holds A live (busy 0 bs))"

lemma tracked_granted:
  assumes "tracked A h live" "nbytes \<le> 0xFFFFFFF0" "tmalloc A nbytes h = Some (p, h')" "p \<noteq> 0"
  shows "tracked A h' (insert (p, unat nbytes) live)"
proof -
  obtain bs where bs: "represents A h bs" "holds A live (busy 0 bs)" using assms(1) by (auto simp: tracked_def)
  obtain d cs where d: "allocate (request_units nbytes) bs = Some (d, cs)"
    using tmalloc_null [OF bs(1) assms(2,3)] assms(4) by auto
  note g = tmalloc_granted [OF bs(1) assms(2) d]
  then have "represents A h' cs" "p = chunk_at A (Suc d)" using assms(3) by auto
  then show ?thesis using holds_granted [OF bs(2) g(3) request_room] g(2) by (auto simp: tracked_def)
qed

lemma tracked_refused:
  assumes "tracked A h live" "nbytes \<le> 0xFFFFFFF0" "tmalloc A nbytes h = Some (0, h')"
  shows "tracked A h' live"
proof -
  obtain bs where bs: "represents A h bs" "holds A live (busy 0 bs)" using assms(1) by (auto simp: tracked_def)
  have "allocate (request_units nbytes) bs = None" using tmalloc_null [OF bs(1) assms(2,3)] by simp
  then show ?thesis using tmalloc_refused [OF bs(1) assms(2)] assms(3) bs(2) by (auto simp: tracked_def)
qed

lemma tracked_zeroed:
  assumes "tracked A h live" "unat nelem * unat elsize \<le> 0xFFFFFFF0" "tcalloc A nelem elsize h = Some (p, h')" "p \<noteq> 0"
  shows "tracked A h' (insert (p, unat nelem * unat elsize) live)"
proof -
  obtain bs where bs: "represents A h bs" "holds A live (busy 0 bs)" using assms(1) by (auto simp: tracked_def)
  have u: "unat (nelem * elsize) = unat nelem * unat elsize" using assms(2) by (simp add: unat_word_ariths)
  then have le: "nelem * elsize \<le> 0xFFFFFFF0" using assms(2) by (simp add: word_le_nat_alt)
  obtain d cs where d: "allocate (request_units (nelem * elsize)) bs = Some (d, cs)"
    using tcalloc_null [OF bs(1) assms(2,3)] assms(4) by auto
  note g = tmalloc_granted(2,3) [OF bs(1) le d]
  have "represents A h' cs" "p = chunk_at A (Suc d)" using tcalloc_refines_gen [OF bs(1) assms(2) d] assms(3) by auto
  then show ?thesis using holds_granted [OF bs(2) g(2) request_room, of "nelem * elsize"] g(1) u by (auto simp: tracked_def)
qed

lemma tracked_resized:
  assumes "tracked A h live" "(p, m) \<in> live" "0 < nbytes" "nbytes \<le> 0xFFFFFFF0" "trealloc A p nbytes h = Some (q, h')" "q \<noteq> 0"
  shows "tracked A h' (insert (q, unat nbytes) (live - {(p, m)}))"
proof -
  obtain bs where bs: "represents A h bs" "holds A live (busy 0 bs)" using assms(1) by (auto simp: tracked_def)
  obtain i n where i: "(i, n) \<in> busy 0 bs" "p = chunk_at A (Suc i)" "holds A (live - {(p, m)}) (busy 0 bs - {(i, n)})"
    using holds_member [OF bs assms(2)] by blast
  have nz: "nbytes \<noteq> 0" "p \<noteq> 0" using assms(3) busy_chunk(5) [OF bs(1) i(1)] i(2) by auto
  obtain e cs where e: "allocate (request_units nbytes) bs = Some (e, cs)"
    using trealloc_null [OF bs(1) assms(4) _ _ assms(5)] assms(6) nz by auto
  obtain es where es: "q = chunk_at A (Suc e)" "represents A h' es" "busy 0 es = insert (e, request_units nbytes) (busy 0 bs - {(i, n)})"
    using trealloc_refines_gen [OF bs(1) i(1) assms(3,4) e] assms(5) i(2) by auto
  have "(e, k) \<notin> busy 0 bs - {(i, n)}" for k using tmalloc_granted(3) [OF bs(1) assms(4) e] by blast
  then show ?thesis using holds_granted [OF i(3) _ request_room, of e nbytes] es by (auto simp: tracked_def)
qed

lemma tracked_freed:
  assumes "tracked A h live" "(p, m) \<in> live" "tfree A p h = Some h'"
  shows "tracked A h' (live - {(p, m)})"
proof -
  obtain bs where bs: "represents A h bs" "holds A live (busy 0 bs)" using assms(1) by (auto simp: tracked_def)
  obtain i n where "(i, n) \<in> busy 0 bs" "p = chunk_at A (Suc i)" "holds A (live - {(p, m)}) (busy 0 bs - {(i, n)})"
    using holds_member [OF bs assms(2)] by blast
  then show ?thesis using tfree_refines_gen [OF bs(1)] assms(3) by (fastforce simp: tracked_def)
qed

lemma tracked_written:
  assumes "tracked A h live" "(p, m) \<in> live" "a - p < of_nat m"
  shows "tracked A (h\<lparr>h_mem := (h_mem h)(a := v)\<rparr>) live"
proof -
  obtain bs where bs: "represents A h bs" "holds A live (busy 0 bs)" using assms(1) by (auto simp: tracked_def)
  obtain i n where i: "(i, n) \<in> busy 0 bs" "in_payload A i n a" using holds_payload [OF bs assms(2,3)] by blast
  then have "represents A (h\<lparr>h_mem := (h_mem h)(a := v)\<rparr>) bs" by (intro payload_write [OF bs(1) i(1)]) auto
  then show ?thesis using bs(2) by (auto simp: tracked_def)
qed

lemma tracked_null:
  assumes "tracked A h live" "(p, m) \<in> live"
  shows "p \<noteq> 0"
proof -
  obtain bs where bs: "represents A h bs" "holds A live (busy 0 bs)" using assms(1) by (auto simp: tracked_def)
  then obtain i n where "(i, n) \<in> busy 0 bs" "p = chunk_at A (Suc i)" using holds_member [OF bs assms(2)] by blast
  then show ?thesis using busy_chunk(5) [OF bs(1)] by simp
qed

lemma tcalloc_refusal:
  "tcalloc A nelem elsize h = Some (0, h') \<Longrightarrow> tmalloc A (nelem * elsize) h = Some (0, h')"
  by (auto simp: tcalloc_def Let_def bind_eq_Some_conv split: if_splits)

lemma trealloc_refusal:
  "trealloc A p nbytes h = Some (0, h') \<Longrightarrow> p \<noteq> 0 \<Longrightarrow> nbytes \<noteq> 0 \<Longrightarrow> tmalloc A nbytes h = Some (0, h')"
  by (auto simp: trealloc_def Let_def bind_eq_Some_conv split: if_splits)

lemma session_tracked:
  assumes "arena_ok A" "session A h live"
  shows "tracked A h live"
  using assms(2)
proof induction
  case (start h)
  then show ?case using assms(1) by (auto simp: tracked_def represents_def holds_def intro!: exI [of _ "[(8191, True)]"])
next
  case (zero_refused h live nelem elsize h')
  then have "nelem * elsize \<le> 0xFFFFFFF0" by (simp add: word_le_nat_alt unat_word_ariths)
  with zero_refused.IH show ?case by (rule tracked_refused) (rule tcalloc_refusal [OF zero_refused.hyps(3)])
next
  case (resize_refused h live p m nbytes h')
  then show ?case
    by (intro tracked_refused [OF resize_refused.IH resize_refused.hyps(4)] trealloc_refusal) (auto dest: tracked_null)
next
  case (resized_null h live nbytes q h')
  then show ?case by (auto simp: trealloc_def intro: tracked_granted tracked_refused)
next
  case (resized_away h live p m q h')
  then have "tfree A p h = Some h'" using tracked_null [OF resized_away.IH resized_away.hyps(2)] by (auto simp: trealloc_def)
  then show ?case by (rule tracked_freed [OF resized_away.IH resized_away.hyps(2)])
next
  case (freed_null h live h')
  then show ?case by (simp add: tfree_halves)
qed (blast intro: tracked_granted tracked_refused tracked_zeroed tracked_resized tracked_freed tracked_written)+

lemmas session_represents = session_tracked [unfolded tracked_def]

section \<open>The properties of clients\<close>

text \<open>No byte of an area that the client holds changes.\<close>

definition held_kept :: "(u32 \<times> nat) set \<Rightarrow> heap \<Rightarrow> heap \<Rightarrow> bool" where
  "held_kept live h h' \<longleftrightarrow> (\<forall>(p, m) \<in> live. \<forall>a. a - p < of_nat m \<longrightarrow> h_mem h' a = h_mem h a)"

lemma data_held_kept:
  assumes "represents A h bs" "holds A live (busy 0 bs)" "data_kept A bs h h'"
  shows "held_kept live h h'"
proof -
  have "h_mem h' a = h_mem h a" if held: "(p, m) \<in> live" "a - p < of_nat m" for p m a
  proof -
    obtain i n where "(i, n) \<in> busy 0 bs" "in_payload A i n a" using holds_payload [OF assms(1,2) held] by blast
    then show ?thesis using assms(3) by (auto simp: data_kept_def)
  qed
  then show ?thesis by (auto simp: held_kept_def)
qed

lemma tmalloc_kept:
  assumes "represents A h bs" "nbytes \<le> 0xFFFFFFF0"
  shows "\<exists>q h'. tmalloc A nbytes h = Some (q, h') \<and> data_kept A bs h h'"
  using tmalloc_refines_gen [OF assms(1) request_size_units [OF assms(2)]] by (auto split: option.splits)

lemma trealloc_kept:
  assumes "represents A h bs" "(i, n) \<in> busy 0 bs" "nbytes \<le> 0xFFFFFFF0"
  shows "\<exists>q h'. trealloc A (chunk_at A (Suc i)) nbytes h = Some (q, h') \<and> data_kept A bs h h'"
proof (cases "nbytes = 0")
  case True
  then show ?thesis using tfree_refines_gen [OF assms(1,2)] busy_chunk(5) [OF assms(1,2)] by (auto simp: trealloc_def)
next
  case False
  then have pos: "0 < nbytes" by (simp add: word_gt_0)
  show ?thesis
  proof (cases "allocate (request_units nbytes) bs")
    case None
    obtain h' where "tmalloc A nbytes h = Some (0, h')" "data_kept A bs h h'" using tmalloc_refused [OF assms(1,3) None] by blast
    then show ?thesis using False busy_chunk(5) [OF assms(1,2)] by (auto simp: trealloc_def)
  next
    case (Some r)
    obtain e cs where r: "r = (e, cs)" by force
    show ?thesis using trealloc_refines_gen [OF assms(1,2) pos assms(3) Some [unfolded r]] by blast
  qed
qed

lemma held_area:
  assumes "represents A h bs" "holds A live (busy 0 bs)" "(p, m) \<in> live"
  shows "8 dvd p \<and> p \<noteq> 0 \<and> unat A \<le> unat p \<and> unat p + m \<le> unat A + 65536 \<and>
    (\<exists>h'. tfree A p h = Some h' \<and> held_kept live h h') \<and>
    (\<forall>nbytes \<le> 0xFFFFFFF0. \<exists>q h'. trealloc A p nbytes h = Some (q, h') \<and> held_kept live h h')"
proof -
  obtain i n where i: "(i, n) \<in> busy 0 bs" "p = chunk_at A (Suc i)" "m \<le> 8 * (n - 1)" "0 < n" "i + n \<le> 8191"
    using holds_member [OF assms] by blast
  have A: "arena_ok A" using assms(1) by (simp add: represents_def)
  then have "8 dvd A" by (simp add: arena_ok_def mod_0_imp_dvd)
  then have "8 dvd p" by (simp add: i(2) chunk_at_def)
  moreover have u: "unat p = unat A + 8 * Suc i" using chunk_at_unat [OF A, of "Suc i"] i(2,4,5) by simp
  moreover have "8 * Suc i + m \<le> 65536" using i(3-5) by simp
  moreover have "p \<noteq> 0" using busy_chunk(5) [OF assms(1) i(1)] i(2) by simp
  moreover have "\<exists>h'. tfree A p h = Some h' \<and> held_kept live h h'"
    using tfree_refines_gen [OF assms(1) i(1)] data_held_kept [OF assms(1,2)] i(2) by blast
  moreover have "\<forall>nbytes \<le> 0xFFFFFFF0. \<exists>q h'. trealloc A p nbytes h = Some (q, h') \<and> held_kept live h h'"
    using trealloc_kept [OF assms(1) i(1)] data_held_kept [OF assms(1,2)] i(2) by blast
  ultimately show ?thesis by simp
qed

lemma held_apart:
  assumes "represents A h bs" "holds A live (busy 0 bs)" "(p, m) \<in> live" "(q, k) \<in> live" "(p, m) \<noteq> (q, k)"
  shows "unat p + m \<le> unat q \<or> unat q + k \<le> unat p"
proof -
  obtain f where f: "live = (\<lambda>(i, n). (chunk_at A (Suc i), f i)) ` busy 0 bs" "\<forall>(i, n) \<in> busy 0 bs. f i \<le> 8 * (n - 1)"
    using assms(2) by (auto simp: holds_def)
  obtain i n where i: "(i, n) \<in> busy 0 bs" "p = chunk_at A (Suc i)" "m = f i" using assms(3) f(1) by auto
  obtain j l where j: "(j, l) \<in> busy 0 bs" "q = chunk_at A (Suc j)" "k = f j" using assms(4) f(1) by auto
  have "i \<noteq> j" using i j assms(5) by auto
  then have "i + n \<le> j \<or> j + l \<le> i" using busy_disjoint [OF _ i(1) j(1)] assms(1) by (auto simp: represents_def)
  moreover have "m \<le> 8 * (n - 1)" "k \<le> 8 * (l - 1)" using f(2) i j by auto
  moreover note I = busy_chunk [OF assms(1) i(1)] and J = busy_chunk [OF assms(1) j(1)]
  moreover have "unat p = unat A + 8 * Suc i" "unat q = unat A + 8 * Suc j"
    using chunk_at_unat [OF I(1), of "Suc i"] chunk_at_unat [OF I(1), of "Suc j"] I(2,3) J(2,3) i(2) j(2) by simp_all
  ultimately show ?thesis by auto
qed

text \<open>
  C20: the allocator is safe for every client that frees and resizes only what it holds and writes
  only into areas it holds, in any order and any number of calls of \<open>tmalloc\<close>, \<open>tcalloc\<close>, \<open>trealloc\<close> and \<open>tfree\<close>,
  refused requests, null pointers and resizing to nothing included:
  the held areas are aligned, lie in the arena and do not overlap; every held pointer can be
  freed and resized, every request of up to \<open>2 ^ 32 - 16\<close> bytes is answered, and none of these calls changes a
  byte of a held area; and when everything has been freed, any
  request of up to 65520 bytes, the whole arena, succeeds again.
\<close>

theorem session_safe:
  assumes "arena_ok A" "session A h live"
  shows "(\<forall>(p, m) \<in> live. 8 dvd p \<and> p \<noteq> 0 \<and> unat A \<le> unat p \<and> unat p + m \<le> unat A + 65536 \<and>
      (\<exists>h'. tfree A p h = Some h' \<and> held_kept live h h') \<and>
      (\<forall>nbytes \<le> 0xFFFFFFF0. \<exists>q h'. trealloc A p nbytes h = Some (q, h') \<and> held_kept live h h')) \<and>
    (\<forall>(p, m) \<in> live. \<forall>(q, k) \<in> live. (p, m) \<noteq> (q, k) \<longrightarrow> unat p + m \<le> unat q \<or> unat q + k \<le> unat p) \<and>
    (\<forall>nbytes \<le> 0xFFFFFFF0. \<exists>p h'. tmalloc A nbytes h = Some (p, h') \<and> held_kept live h h') \<and>
    (live = {} \<longrightarrow> (\<forall>nbytes \<le> 65520. \<exists>p h'. tmalloc A nbytes h = Some (p, h') \<and> p \<noteq> 0))"
proof -
  obtain bs where bs: "represents A h bs" "holds A live (busy 0 bs)" using session_represents [OF assms] by blast
  have answer: "\<exists>p h'. tmalloc A nbytes h = Some (p, h') \<and> held_kept live h h'" if "nbytes \<le> 0xFFFFFFF0" for nbytes
    using tmalloc_kept [OF bs(1) that] data_held_kept [OF bs] by blast
  have "\<exists>p h'. tmalloc A nbytes h = Some (p, h') \<and> p \<noteq> 0" if "live = {}" and n: "nbytes \<le> 65520" for nbytes
  proof -
    have "busy 0 bs = {}" "compact bs" "bs \<noteq> []" "units bs = 8191" using bs that(1) by (auto simp: holds_def represents_def)
    then have one: "bs = [(8191, True)]" using all_free [of 0 bs] by simp
    have le: "nbytes \<le> 0xFFFFFFF0" using n by (simp add: word_le_nat_alt)
    obtain p h' where t: "tmalloc A nbytes h = Some (p, h')" using answer [OF le] by blast
    have "request_units nbytes \<le> 8191" using n by (simp add: word_le_nat_alt)
    then have "allocate (request_units nbytes) bs \<noteq> None" by (simp add: one)
    then have "p \<noteq> 0" using tmalloc_null [OF bs(1) le t] by simp
    then show ?thesis using t by auto
  qed
  then show ?thesis using answer held_area [OF bs] held_apart [OF bs] by blast
qed

text \<open>The state of a client that has asked for 500 bytes\<close>

lemma demo_session:
  "\<exists>h. session 0x8000 h {(chunk_at 0x8000 8128, 500)} \<and> represents 0x8000 h [(8127, True), (64, False)]"
proof -
  obtain h where h: "tmalloc 0x8000 500 fresh_heap = Some (chunk_at 0x8000 8128, h)" "represents 0x8000 h [(8127, True), (64, False)]"
    using tmalloc_refines_gen [OF fresh_represents [OF demo_arena] request_size_units, of 500] by auto
  have "session 0x8000 fresh_heap {}" by (rule session.start) (simp add: fresh_heap_def)
  from session.granted [OF this _ h(1)] show ?thesis using h(2) by auto
qed

theorem session_safe_witness:
  "\<exists>h h'. session 0x8000 h {(chunk_at 0x8000 8128, 500)} \<and> tfree 0x8000 (chunk_at 0x8000 8128) h = Some h' \<and>
    h_mem h' (chunk_at 0x8000 8128 + 499) = h_mem h (chunk_at 0x8000 8128 + 499)"
proof -
  obtain h where h: "session 0x8000 h {(chunk_at 0x8000 8128, 500)}" using demo_session by blast
  from session_safe [OF demo_arena this] show ?thesis using h by (auto simp: held_kept_def)
qed

text \<open>
  \<open>trealloc\<close> moves the data. For a busy chunk of a represented heap and a new size between 1 and
  \<open>2 ^ 32 - 16\<close> bytes, \<open>trealloc\<close> returns \<open>NULL\<close> and keeps the chunk and everything else when there is no room
  for a second chunk; otherwise it returns a fresh chunk that starts with as many bytes of
  the old one as fit, and the old one has been freed.
\<close>

lemma trealloc_refines:
  assumes "represents A h bs" "(d, n) \<in> busy 0 bs" "0 < newbytes" "newbytes \<le> 0xFFFFFFF0"
  shows "case allocate ((unat newbytes + 7) div 8 + 1) bs of
      None \<Rightarrow> \<exists>h'. trealloc A (chunk_at A (Suc d)) newbytes h = Some (0, h') \<and> represents A h' bs \<and> data_kept A bs h h'
    | Some (e, cs) \<Rightarrow> \<exists>h' es. trealloc A (chunk_at A (Suc d)) newbytes h = Some (chunk_at A (Suc e), h') \<and>
        release d cs = Some es \<and> represents A h' es \<and> data_kept A bs h h' \<and>
        (\<forall>k < min (8 * (n - 1)) (unat newbytes). h_mem h' (chunk_at A (Suc e) + of_nat k) = h_mem h (chunk_at A (Suc d) + of_nat k))"
proof (cases "allocate ((unat newbytes + 7) div 8 + 1) bs")
  case None
  have "newbytes \<noteq> 0" "chunk_at A (Suc d) \<noteq> 0" using assms(3) busy_chunk(5) [OF assms(1,2)] by auto
  then show ?thesis using tmalloc_refused [OF assms(1,4) None] None by (auto simp: trealloc_def)
next
  case (Some r)
  obtain e cs where r: "r = (e, cs)" by force
  show ?thesis using trealloc_refines_gen [OF assms Some [unfolded r]] Some r by auto
qed

lemma trealloc_refines_witness:
  "\<exists>h h'. represents 0x8000 h [(8127, True), (64, False)] \<and> trealloc 0x8000 (chunk_at 0x8000 8128) 1000 h = Some (chunk_at 0x8000 8002, h') \<and>
    h_mem h' (chunk_at 0x8000 8002 + 499) = h_mem h (chunk_at 0x8000 8128 + 499)"
proof -
  obtain h where h: "represents 0x8000 h [(8127, True), (64, False)]" using demo_session by blast
  from trealloc_refines [OF this, of 8127 64 1000] obtain h' where
    "trealloc 0x8000 (chunk_at 0x8000 8128) 1000 h = Some (chunk_at 0x8000 8002, h')"
    "\<forall>k < 504. h_mem h' (chunk_at 0x8000 8002 + of_nat k) = h_mem h (chunk_at 0x8000 8128 + of_nat k)" by auto
  then show ?thesis using h by (intro exI [of _ h] exI [of _ h']) (auto dest: spec [of _ 499])
qed

section \<open>Requests whose size wraps around\<close>

lemma request_size_wraps:
  "0xFFFFFFF9 \<le> nbytes \<Longrightarrow> request_size nbytes = 8" "0xFFFFFFF1 \<le> nbytes \<Longrightarrow> nbytes \<le> 0xFFFFFFF8 \<Longrightarrow> request_size nbytes = 0"
proof -
  have e: "nbytes + sizeof_CHUNK - 1 = 7 + nbytes" by simp
  show "request_size nbytes = 8" if "0xFFFFFFF9 \<le> nbytes"
  proof -
    have "unat (7 + nbytes) < 8" using that unsigned_less [of nbytes, where 'a = nat] by (simp add: word_le_nat_alt unat_word_ariths mod_if) linarith
    then have "unat ((7 + nbytes) div 8) = 0" by (simp add: unat_div_distrib)
    then show ?thesis unfolding request_size_def e by (simp add: unat_eq_0)
  qed
  show "request_size nbytes = 0" if "0xFFFFFFF1 \<le> nbytes" "nbytes \<le> 0xFFFFFFF8"
  proof -
    have "unat (7 + nbytes) = unat nbytes + 7" using that by (simp add: word_le_nat_alt unat_word_ariths)
    then have "unat ((7 + nbytes) div 8) = 0x1FFFFFFF" using that by (simp add: unat_div_distrib word_le_nat_alt)
    then have "(7 + nbytes) div 8 = 0x1FFFFFFF" by (simp add: word_unat_eq_iff)
    then show ?thesis unfolding request_size_def e by simp
  qed
qed

text \<open>
  the size computation of \<open>tmalloc\<close> can wrap around. With a first chunk that is free and a busy one
  after it, a request of more than \<open>0xFFFFFFF8\<close> bytes is granted with a chunk that has no room at all: the
  pointer is the address of the busy chunk's header. A request of \<open>0xFFFFFFF1\<close> to \<open>0xFFFFFFF8\<close> bytes returns the pointer
  that the owner of the busy chunk already has, and makes that chunk its own right neighbour.
\<close>

lemma tmalloc_overflow:
  assumes "represents A h ((k, True) # (n, False) # bs)" "0xFFFFFFF1 \<le> nbytes" "1 < k"
  shows "\<exists>h'. if nbytes > 0xFFFFFFF8 then tmalloc A nbytes h = Some (chunk_at A k, h')
    else tmalloc A nbytes h = Some (chunk_at A (Suc k), h') \<and> RIGHT A (chunk_at A k) h' = Some (chunk_at A k)"
proof (cases "nbytes > 0xFFFFFFF8")
  case True
  then have "0xFFFFFFF9 \<le> nbytes" using inc_le [of "0xFFFFFFF8" nbytes] by simp
  then have "unat (request_size nbytes) = 8 * 1" by (simp add: request_size_wraps(1))
  from tmalloc_refines_gen [OF assms(1) this] show ?thesis using True assms(3) by auto
next
  case False
  then have z: "request_size nbytes = 0" using request_size_wraps(2) [OF assms(2)] by simp
  have A: "arena_ok A" "h_bot h = A" "linked A h 0 0 ((k, True) # (n, False) # bs)" "A \<noteq> 0"
    using assms(1) by (auto simp: represents_def arena_ok_def split: if_splits)
  have k: "k < 8192" "0 < k" "right_of A h 0 = tagged (chunk_at A k) True" using linked_bound(2) [OF A(3)] A(3) by simp_all
  have ops: "CHUNKSIZE A A h = Some (chunk_at A k - A)" "CLR_FREEBIT A A x = Some (put_right A 0 (right_of A x 0 AND - 2) x)"
    "CHUNKSIZE A A x = Some ((- 2 AND right_of A x 0) - A)" "get_r A A x = Some (right_of A x 0)"
    "set_r A A v x = Some (put_right A 0 v x)" "SET_FREEBIT A A x = Some (put_right A 0 (right_of A x 0 OR 1) x)" for x v
    using header_ops [OF A(1), of 0] k(1,3) A(1) by simp_all
  have s: "search A 0 h A = Some A" using search_first_fit [OF A(1,3), of 0 0] by simp
  have pos: "0 < chunk_at A k - A" using k(1,2) A(1) chunk_at_inj [OF A(1), of k 0] by (simp add: word_gt_0)
  show ?thesis using False A(1,2,4) k z s pos
    by (simp add: tmalloc_def split_chunk_def Let_def ops)
qed

lemma tmalloc_overflow_witness:
  "\<exists>h h'. session 0x8000 h {(chunk_at 0x8000 8128, 500)} \<and> tmalloc 0x8000 0xFFFFFFF4 h = Some (chunk_at 0x8000 8128, h')"
proof -
  obtain h where h: "session 0x8000 h {(chunk_at 0x8000 8128, 500)}" "represents 0x8000 h [(8127, True), (64, False)]"
    using demo_session by blast
  from tmalloc_overflow [OF h(2), of "0xFFFFFFF4"] show ?thesis using h(1) by auto
qed

end
