(* ===== verification/XvShell.thy ===== *)
theory XvShell
  imports TextIO
begin

text \<open>
  The small shell of \<open>mit6.828/lecture_exercises/01/sh.c\<close>: lexer, parser, the constructors of commands,
  running a command and the loop over the input. A pointer into the input buffer is the rest of the
  text from there on; \<open>*s\<close> at the end of the text is the terminating NUL. Exits with a message are
  values of \<open>perror\<close>. Processes and files of the operating system are a parameter.
\<close>

section \<open>Commands\<close>

abbreviation MAXARGS :: nat where "MAXARGS \<equiv> 10"

datatype oflag = O_RDONLY | O_WRONLY | O_CREAT | O_TRUNC

text \<open>The field \<open>type\<close> of an \<open>execcmd\<close> is \<open>' '\<close> and that of a \<open>pipecmd\<close> is \<open>'|'\<close>: the constructor.\<close>

datatype cmd =
    Exec (exec_argv: "string option list")
  | Redir (redir_type: char) (subcmd: cmd) (file_name: string) (open_mode: "oflag list") (redir_fd: int)
  | Pipe (left_cmd: cmd) (right_cmd: cmd)

datatype perror = Missing_file | Syntax_error | Too_many_args | Leftovers string | Out_of_bounds

fun bind_result :: "'e + 'a \<Rightarrow> ('a \<Rightarrow> 'e + 'b) \<Rightarrow> 'e + 'b" where
  "bind_result (Inl e) f = Inl e"
| "bind_result (Inr x) f = f x"

lemma bind_result_Inr: "bind_result r f = Inr y \<longleftrightarrow> (\<exists>x. r = Inr x \<and> f x = Inr y)"
  by (cases r) simp_all

definition execcmd :: cmd where
  "execcmd = Exec (replicate MAXARGS None)"

definition redircmd :: "cmd \<Rightarrow> string \<Rightarrow> char \<Rightarrow> cmd" where
  "redircmd c f t = Redir t c f (if t = CHR ''<'' then [O_RDONLY] else [O_WRONLY, O_CREAT, O_TRUNC]) (if t = CHR ''<'' then 0 else 1)"

definition pipecmd :: "cmd \<Rightarrow> cmd \<Rightarrow> cmd" where
  "pipecmd l r = Pipe l r"

text \<open>\<open>cmd->argv[i] = v\<close> for the exec command that the redirections so far are wrapped around.\<close>

fun set_argv :: "nat \<Rightarrow> string option \<Rightarrow> cmd \<Rightarrow> perror + cmd" where
  "set_argv i v (Exec a) = (if i < length a then Inr (Exec (a[i := v])) else Inl Out_of_bounds)"
| "set_argv i v (Redir t c f m d) = bind_result (set_argv i v c) (\<lambda>c. Inr (Redir t c f m d))"
| "set_argv i v (Pipe l r) = Inl Out_of_bounds"

section \<open>Lexer\<close>

definition whitespace :: string where
  "whitespace = [CHR '' '', CHR 0x09, CHR 0x0D, CHR 0x0A, CHR 0x0B]"

definition symbols :: string where
  "symbols = ''<|>''"

definition strchr :: "string \<Rightarrow> char \<Rightarrow> bool" where
  "strchr cs c \<longleftrightarrow> c \<in> set cs \<or> c = NUL"

definition deref :: "string \<Rightarrow> char" where
  "deref s = (case s of [] \<Rightarrow> NUL | c # _ \<Rightarrow> c)"

definition skip_white :: "string \<Rightarrow> string" where
  "skip_white s = dropWhile (strchr whitespace) s"

text \<open>The copy of the text from \<open>s\<close> up to \<open>es\<close>\<close>

definition mkcopy :: "string \<Rightarrow> string \<Rightarrow> string" where
  "mkcopy s es = take (length s - length es) s"

text \<open>The results are the kind of the token, the pointers \<open>*q\<close> and \<open>*eq\<close>, and the new \<open>*ps\<close>.\<close>

definition gettoken :: "string \<Rightarrow> char \<times> string \<times> string \<times> string" where
  "gettoken ps =
     (let s = skip_white ps; q = s; c = deref s;
          (ret, s) = (if c = NUL then (c, s)
                      else if c = CHR ''|'' \<or> c = CHR ''<'' then (c, tl s)
                      else if c = CHR ''>'' then (c, tl s)
                      else (CHR ''a'', dropWhile (\<lambda>c. \<not> strchr whitespace c \<and> \<not> strchr symbols c) s))
      in (ret, q, s, skip_white s))"

definition peek :: "string \<Rightarrow> string \<Rightarrow> bool \<times> string" where
  "peek ps toks = (let s = skip_white ps in (deref s \<noteq> NUL \<and> strchr toks (deref s), s))"

lemma skip_white_length: "length (skip_white s) \<le> length s"
  by (simp add: skip_white_def length_dropWhile_le)

lemma skip_white_head: "skip_white s = c # cs \<Longrightarrow> \<not> strchr whitespace c"
  by (simp add: skip_white_def dropWhile_eq_Cons_conv)

lemma gettoken_length:
  assumes "gettoken s = (tok, q, eq, s')"
  shows "length s' \<le> length s" "tok \<noteq> NUL \<Longrightarrow> length s' < length s"
proof -
  let ?s = "skip_white s"
  let ?w = "dropWhile (\<lambda>c. \<not> strchr whitespace c \<and> \<not> strchr symbols c)"
  have tl: "length (skip_white (tl ?s)) < length s" if "deref ?s \<noteq> NUL"
    using that skip_white_length [of s] skip_white_length [of "tl ?s"] by (cases ?s) (simp_all add: deref_def)
  have white: "\<not> strchr whitespace (deref ?s)" if "deref ?s \<noteq> NUL"
    using that skip_white_head [of s] by (cases ?s) (simp_all add: deref_def)
  have w: "length (skip_white (?w ?s)) < length s" if d: "deref ?s \<noteq> NUL" "deref ?s \<notin> {CHR ''|'', CHR ''<'', CHR ''>''}"
  proof -
    have "\<not> strchr symbols (deref ?s)" using d by (auto simp: strchr_def symbols_def)
    then have "length (?w ?s) < length ?s"
      using d(1) white [OF d(1)] by (cases ?s) (auto simp: deref_def intro: le_less_trans [OF length_dropWhile_le])
    then show ?thesis using skip_white_length [of s] skip_white_length [of "?w ?s"] by linarith
  qed
  show "tok \<noteq> NUL \<Longrightarrow> length s' < length s"
    using assms tl w by (auto simp: gettoken_def Let_def split: if_splits)
  then show "length s' \<le> length s"
    using assms skip_white_length [of s] skip_white_length [of ?s] by (cases "tok = NUL") (auto simp: gettoken_def Let_def split: if_splits)
qed

lemma peek_token:
  assumes "peek s toks = (True, s')" "gettoken s' = (tok, q, eq, s'')"
  shows "length s'' < length s"
proof -
  have s': "s' = skip_white s" "deref s' \<noteq> NUL" using assms(1) by (auto simp: peek_def Let_def)
  have "skip_white s' = s'" by (simp add: s'(1) skip_white_def)
  then have "tok \<noteq> NUL" using assms(2) s'(2) by (auto simp: gettoken_def Let_def split: if_splits)
  from gettoken_length(2) [OF assms(2) this] show ?thesis using skip_white_length [of s] unfolding s'(1) by simp
qed

lemma peek_length: "peek s toks = (b, s') \<Longrightarrow> length s' \<le> length s"
  using skip_white_length [of s] by (auto simp: peek_def Let_def)

section \<open>Parser\<close>

function parseredirs :: "cmd \<Rightarrow> string \<Rightarrow> perror + cmd \<times> string" where
  "parseredirs c s =
     (case peek s ''<>'' of (more, s) \<Rightarrow>
        if \<not> more then Inr (c, s)
        else (case gettoken s of (tok, _, _, s) \<Rightarrow>
                case gettoken s of (tok2, q, eq, s) \<Rightarrow>
                  if tok2 \<noteq> CHR ''a'' then Inl Missing_file
                  else parseredirs (if tok = CHR ''<'' then redircmd c (mkcopy q eq) CHR ''<''
                                    else if tok = CHR ''>'' then redircmd c (mkcopy q eq) CHR ''>'' else c) s))"
  by pat_completeness auto

termination parseredirs
proof (relation "measure (\<lambda>(c, s). length s)", simp, clarsimp)
  fix s s1 q1 e1 s2 q2 e2 s3 tok
  assume "(True, s1) = peek s ''<>''" "(tok, q1, e1, s2) = gettoken s1" "(CHR ''a'', q2, e2, s3) = gettoken s2"
  then have "length s2 < length s" "length s3 \<le> length s2" using peek_token gettoken_length(1) by metis+
  then show "length s3 < length s" by simp
qed

declare parseredirs.simps [simp del]

lemma parseredirs_length: "parseredirs c s = Inr (c', s') \<Longrightarrow> length s' \<le> length s"
proof (induction s arbitrary: c rule: length_induct)
  case (1 s)
  obtain more s1 tok q eq s2 tok2 q2 eq2 s3 where
    p: "peek s ''<>'' = (more, s1)" "gettoken s1 = (tok, q, eq, s2)" "gettoken s2 = (tok2, q2, eq2, s3)"
    by (metis prod_cases4 surj_pair)
  note len = peek_length [OF p(1)] gettoken_length(1) [OF p(2)] gettoken_length(1) [OF p(3)]
  have "length s3 < length s" if more using that peek_token [of s _ s1] p gettoken_length(1) [OF p(3)] by fastforce
  then show ?case using "1.prems" "1.IH" len
    by (subst (asm) parseredirs.simps) (fastforce simp: p split: if_splits)
qed

text \<open>The loop of \<open>parseexec\<close> with \<open>argc\<close> arguments stored, and what follows it.\<close>

function exec_loop :: "cmd \<Rightarrow> nat \<Rightarrow> string \<Rightarrow> perror + cmd \<times> string" where
  "exec_loop ret argc s =
     (case peek s ''|'' of (bar, s) \<Rightarrow>
        if bar then bind_result (set_argv argc None ret) (\<lambda>ret. Inr (ret, s))
        else (case gettoken s of (tok, q, eq, s) \<Rightarrow>
                if tok = NUL then bind_result (set_argv argc None ret) (\<lambda>ret. Inr (ret, s))
                else if tok \<noteq> CHR ''a'' then Inl Syntax_error
                else (case set_argv argc (Some (mkcopy q eq)) ret of
                        Inl e \<Rightarrow> Inl e
                      | Inr ret \<Rightarrow>
                          if argc + 1 \<ge> MAXARGS then Inl Too_many_args
                          else (case parseredirs ret s of Inl e \<Rightarrow> Inl e | Inr (ret, s) \<Rightarrow> exec_loop ret (argc + 1) s))))"
  by pat_completeness auto

termination exec_loop
proof (relation "measure (\<lambda>(c, n, s). length s)", simp, clarsimp)
  fix s s1 q eq s2 ret ret' s3
  assume "(False, s1) = peek s ''|''" "(CHR ''a'', q, eq, s2) = gettoken s1" "parseredirs ret s2 = Inr (ret', s3)"
  then have "length s1 \<le> length s" "length s2 < length s1" "length s3 \<le> length s2"
    using peek_length [of s "''|''" False s1] gettoken_length(2) [of s1 "CHR ''a''" q eq s2] parseredirs_length [of ret s2 ret' s3] by simp_all
  then show "length s3 < length s" by simp
qed

declare exec_loop.simps [simp del]

definition parseexec :: "string \<Rightarrow> perror + cmd \<times> string" where
  "parseexec s = bind_result (parseredirs execcmd s) (\<lambda>(ret, s). exec_loop ret 0 s)"


lemma exec_loop_length: "exec_loop ret argc s = Inr (c, s') \<Longrightarrow> length s' \<le> length s"
proof (induction s arbitrary: ret argc rule: length_induct)
  case (1 s)
  obtain bar s1 tok q eq s2 where p: "peek s ''|'' = (bar, s1)" "gettoken s1 = (tok, q, eq, s2)" by (metis prod_cases4 surj_pair)
  note len = peek_length [OF p(1)] gettoken_length [OF p(2)]
  have step: "length s3 < length s" if "parseredirs r s2 = Inr (r', s3)" "tok = CHR ''a''" for r r' s3
    using len that parseredirs_length [OF that(1)] by simp
  show ?case using "1.prems" "1.IH" len step
    apply (subst (asm) exec_loop.simps)
    apply (simp add: p bind_result_Inr split: if_splits sum.splits prod.splits)
    apply fastforce+
    done
qed

lemma parseexec_length: "parseexec s = Inr (c, s') \<Longrightarrow> length s' \<le> length s"
  using parseredirs_length exec_loop_length by (fastforce simp: parseexec_def bind_result_Inr)

function parsepipe :: "string \<Rightarrow> perror + cmd \<times> string" where
  "parsepipe s =
     (case parseexec s of
        Inl e \<Rightarrow> Inl e
      | Inr (c, s) \<Rightarrow>
          (case peek s ''|'' of (bar, s) \<Rightarrow>
             if bar then (case gettoken s of (_, _, _, s) \<Rightarrow>
                            bind_result (parsepipe s) (\<lambda>(r, s). Inr (pipecmd c r, s)))
             else Inr (c, s)))"
  by pat_completeness auto

termination parsepipe
proof (relation "measure length", simp, clarsimp)
  fix s c s1 s2 tok q eq s3
  assume "parseexec s = Inr (c, s1)" "(True, s2) = peek s1 ''|''" "(tok, q, eq, s3) = gettoken s2"
  then show "length s3 < length s" using parseexec_length [of s c s1] peek_token [of s1 "''|''" s2 tok q eq s3] by simp
qed

declare parsepipe.simps [simp del]

definition parseline :: "string \<Rightarrow> perror + cmd \<times> string" where
  "parseline s = parsepipe s"

definition parsecmd :: "string \<Rightarrow> perror + cmd" where
  "parsecmd buf = bind_result (parseline (cstr buf)) (\<lambda>(c, s).
     let s = snd (peek s []) in if s \<noteq> [] then Inl (Leftovers s) else Inr c)"

section \<open>Running commands\<close>

text \<open>
  Where the standard input or output of a process goes, and the calls of interest: opening a file for
  a redirection and \<open>execv\<close>, whether it succeeds or not; a process for which it fails ends at once.
\<close>

datatype port = Inherited | File string | Pipe_end nat | Closed

record process =
  p_in :: port
  p_out :: port

datatype event = Opened char string | Execv string "string list" port port

text \<open>
  The operating system decides which calls succeed: \<open>freopen\<close> by type and name, \<open>pipe\<close>, the \<open>fork\<close> after it and
  the two \<open>dup2\<close> by the number of the pipe, \<open>fork1\<close> by the number of the command line.
\<close>

record xv_os =
  os_open :: "char \<Rightarrow> string \<Rightarrow> bool"
  os_pipe :: "nat \<Rightarrow> bool"
  os_fork :: "nat \<Rightarrow> bool"
  os_dup :: "nat \<Rightarrow> nat \<Rightarrow> bool"
  os_fork1 :: "nat \<Rightarrow> bool"

definition command_path :: "string \<Rightarrow> string" where
  "command_path f = ''/bin/'' @ take 250 f"

text \<open>
  The calls that \<open>runcmd\<close> leads to in a process with the given ports, children included, when \<open>n\<close> pipes were
  made before; the parent in a pipe waits for the child before it goes on. No diagnostic output.
\<close>

fun runcmd :: "xv_os \<Rightarrow> nat \<Rightarrow> process \<Rightarrow> cmd \<Rightarrow> event list \<times> nat" where
  "runcmd os n p (Exec a) =
     (case a of
        Some f # _ \<Rightarrow> ([Execv (command_path f) (map the (takeWhile (\<lambda>x. x \<noteq> None) a)) (p_in p) (p_out p)], n)
      | _ \<Rightarrow> ([], n))"
| "runcmd os n p (Redir t c f m d) =
     (if t = CHR ''>'' \<or> t = CHR ''<'' then
        (let port = (if os_open os t f then File f else Closed);
             p = (if t = CHR ''>'' then p\<lparr>p_out := port\<rparr> else p\<lparr>p_in := port\<rparr>);
             (es, n) = runcmd os n p c
         in (Opened t f # es, n))
      else ([], n))"
| "runcmd os n p (Pipe l r) =
     (if \<not> os_pipe os n then ([], n)
      else
        (let (es, n') = (if os_fork os n \<and> os_dup os n 1 then runcmd os (Suc n) (p\<lparr>p_out := Pipe_end n\<rparr>) l else ([], Suc n));
             (fs, n'') = (if os_dup os n 0 then runcmd os n' (p\<lparr>p_in := Pipe_end n\<rparr>) r else ([], n'))
         in (es @ fs, n'')))"

section \<open>The loop over the input\<close>

definition getcmd :: "nat \<Rightarrow> string \<Rightarrow> (string \<times> string) option" where
  "getcmd nbuf inp = (let (buf, rest) = fgets nbuf inp in if cstr buf = [] then None else Some (buf, rest))"

text \<open>What the loop does for a command line: change the directory, or let a child run it.\<close>

datatype action = Chdir string | Child "perror + event list" | No_child

lemma getcmd_length:
  assumes "getcmd nbuf inp = Some (buf, rest)"
  shows "length rest < length inp"
proof -
  have f: "fgets nbuf inp = (buf, rest)" "cstr buf \<noteq> []" using assms by (auto simp: getcmd_def split: prod.splits if_splits)
  have "inp = buf @ rest" using f(1) by (auto simp: fgets_def Let_def)
  moreover have "buf \<noteq> []" using f(2) by (auto simp: cstr_def)
  ultimately show ?thesis by simp
qed

function shell :: "xv_os \<Rightarrow> nat \<Rightarrow> nat \<Rightarrow> string \<Rightarrow> action list" where
  "shell os k n inp =
     (case getcmd 100 inp of
        None \<Rightarrow> []
      | Some (buf, rest) \<Rightarrow>
          if take 3 buf = ''cd '' then Chdir (drop 3 (butlast (cstr buf))) # shell os (Suc k) n rest
          else if take 4 (cstr buf) = ''exit'' then []
          else if os_fork1 os k
          then (case parsecmd buf of
                  Inl e \<Rightarrow> Child (Inl e) # shell os (Suc k) n rest
                | Inr c \<Rightarrow> (let (es, n') = runcmd os n \<lparr>p_in = Inherited, p_out = Inherited\<rparr> c in Child (Inr es) # shell os (Suc k) n' rest))
          else No_child # shell os (Suc k) n rest)"
  by pat_completeness auto

termination shell
  by (relation "measure (\<lambda>(os, k, n, inp). length inp)") (auto dest: getcmd_length)

declare shell.simps [simp del]

end
