(* ===== verification/XvShellProofs.thy ===== *)
theory XvShellProofs
  imports XvShell
begin

text \<open>
  The grammar that the parser of \<open>sh.c\<close> accepts, stated on lists of tokens, and the proof that it accepts
  exactly that; the meaning of a command line when it is run; sessions of the shell.
\<close>

section \<open>Tokens\<close>

datatype token = Word string | Op char

definition word_char :: "char \<Rightarrow> bool" where
  "word_char c \<longleftrightarrow> \<not> strchr whitespace c \<and> \<not> strchr symbols c"

function tokens :: "string \<Rightarrow> token list" where
  "tokens s = (case skip_white s of
      [] \<Rightarrow> []
    | c # cs \<Rightarrow> if c \<in> set symbols then Op c # tokens cs else Word (takeWhile word_char (c # cs)) # tokens (dropWhile word_char cs))"
  by pat_completeness auto

termination tokens
proof (relation "measure length")
  fix s c cs assume c: "skip_white s = c # cs"
  then have "length cs < length s" using skip_white_length [of s] by simp
  then show "(cs, s) \<in> measure length" "(dropWhile word_char cs, s) \<in> measure length"
    using length_dropWhile_le [of word_char cs] by auto
qed simp

declare tokens.simps [simp del]

definition no_nul :: "string \<Rightarrow> bool" where
  "no_nul s \<longleftrightarrow> NUL \<notin> set s"

lemma no_nul_skip: "no_nul s \<Longrightarrow> no_nul (skip_white s)" and no_nul_drop: "no_nul s \<Longrightarrow> no_nul (dropWhile P s)"
  by (auto simp: no_nul_def skip_white_def dest: set_dropWhileD)

lemma skip_skip [simp]: "skip_white (skip_white s) = skip_white s"
  by (simp add: skip_white_def)

lemma tokens_cases:
  "skip_white s = [] \<Longrightarrow> tokens s = []"
  "skip_white s = c # cs \<Longrightarrow> c \<in> set symbols \<Longrightarrow> tokens s = Op c # tokens cs"
  "skip_white s = c # cs \<Longrightarrow> c \<notin> set symbols \<Longrightarrow> tokens s = Word (takeWhile word_char (c # cs)) # tokens (dropWhile word_char cs)"
  by (simp_all add: tokens.simps [of s])

lemma tokens_skip [simp]: "tokens (skip_white s) = tokens s"
  by (subst (1 2) tokens.simps) simp

lemma tokens_empty: "tokens s = [] \<longleftrightarrow> skip_white s = []"
  by (subst tokens.simps) (simp split: list.splits)

text \<open>One call of \<open>gettoken\<close> takes the first token off, and \<open>peek\<close> looks at it.\<close>

lemma gettoken_tokens:
  assumes "no_nul s"
  shows "case tokens s of
      [] \<Rightarrow> \<exists>q. gettoken s = (NUL, q, [], [])
    | Word w # ts \<Rightarrow> \<exists>q eq s'. gettoken s = (CHR ''a'', q, eq, s') \<and> mkcopy q eq = w \<and> tokens s' = ts \<and> no_nul s'
    | Op c # ts \<Rightarrow> \<exists>q eq s'. gettoken s = (c, q, eq, s') \<and> tokens s' = ts \<and> no_nul s'"
proof (cases "skip_white s")
  case Nil
  then show ?thesis using skip_skip [of s] by (simp add: tokens_cases gettoken_def Let_def deref_def)
next
  case (Cons c cs)
  have n: "no_nul (c # cs)" using no_nul_skip [OF assms] Cons by simp
  then have c: "c \<noteq> NUL" "no_nul cs" by (auto simp: no_nul_def)
  show ?thesis
  proof (cases "c \<in> set symbols")
    case True
    then have "c = CHR ''|'' \<or> c = CHR ''<'' \<or> c = CHR ''>''" by (auto simp: symbols_def)
    then show ?thesis using True c Cons no_nul_skip
      by (auto simp: tokens_cases gettoken_def Let_def deref_def)
  next
    case False
    then have sym: "c \<noteq> CHR ''|''" "c \<noteq> CHR ''<''" "c \<noteq> CHR ''>''" by (auto simp: symbols_def)
    have "\<not> strchr symbols c" using False c(1) by (simp add: strchr_def)
    then have w: "word_char c" using skip_white_head [OF Cons] by (simp add: word_char_def)
    let ?r = "dropWhile word_char cs"
    have copy: "mkcopy (c # cs) ?r = c # takeWhile word_char cs"
    proof -
      have "cs = takeWhile word_char cs @ ?r" by simp
      then have "length cs = length (takeWhile word_char cs) + length ?r" by (metis length_append)
      then show ?thesis using takeWhile_eq_take [of word_char cs] by (simp add: mkcopy_def Suc_diff_le length_dropWhile_le)
    qed
    have g: "gettoken s = (CHR ''a'', c # cs, ?r, skip_white ?r)"
      using Cons c(1) sym w by (simp add: gettoken_def Let_def deref_def word_char_def [abs_def] word_char_def)
    show ?thesis using Cons False w g copy no_nul_skip [OF no_nul_drop [OF c(2)]] by (simp add: tokens_cases)
  qed
qed

lemma peek_tokens:
  assumes "no_nul s" "set toks \<subseteq> set symbols"
  shows "peek s toks = ((case tokens s of Op c # _ \<Rightarrow> c \<in> set toks | _ \<Rightarrow> False), skip_white s)"
proof (cases "skip_white s")
  case Nil
  then show ?thesis by (simp add: tokens_cases peek_def deref_def)
next
  case (Cons c cs)
  then have "c \<noteq> NUL" using no_nul_skip [OF assms(1)] by (auto simp: no_nul_def)
  then show ?thesis using Cons assms(2) by (cases "c \<in> set symbols") (auto simp: tokens_cases peek_def deref_def strchr_def)
qed

section \<open>The grammar\<close>

text \<open>A stage of a pipeline is a list of arguments and redirections.\<close>

datatype item = Arg string | To char string

fun items :: "token list \<Rightarrow> item list option" where
  "items [] = Some []"
| "items (Word w # ts) = map_option ((#) (Arg w)) (items ts)"
| "items (Op c # Word w # ts) = map_option ((#) (To c w)) (items ts)"
| "items (Op c # ts) = None"

fun split_bars :: "token list \<Rightarrow> token list list" where
  "split_bars [] = [[]]"
| "split_bars (t # ts) = (if t = Op CHR ''|'' then [] # split_bars ts else (t # hd (split_bars ts)) # tl (split_bars ts))"

definition args :: "item list \<Rightarrow> string list" where
  "args its = concat (map (\<lambda>it. case it of Arg w \<Rightarrow> [w] | To c f \<Rightarrow> []) its)"

definition redirs :: "item list \<Rightarrow> (char \<times> string) list" where
  "redirs its = concat (map (\<lambda>it. case it of Arg w \<Rightarrow> [] | To c f \<Rightarrow> [(c, f)]) its)"

lemma items_simps [simp]: "args [] = []" "args (Arg w # its) = w # args its" "args (To c f # its) = args its"
  "redirs [] = []" "redirs (Arg w # its) = redirs its" "redirs (To c f # its) = (c, f) # redirs its"
  by (simp_all add: args_def redirs_def)

definition pad :: "string list \<Rightarrow> string option list" where
  "pad as = map Some as @ replicate (MAXARGS - length as) None"

text \<open>The redirections written last are wrapped around the others.\<close>

definition wrap :: "(char \<times> string) list \<Rightarrow> cmd \<Rightarrow> cmd" where
  "wrap rs c = foldl (\<lambda>c (t, f). redircmd c f t) c rs"

definition stage_cmd :: "item list \<Rightarrow> cmd" where
  "stage_cmd its = wrap (redirs its) (Exec (pad (args its)))"

fun pipeline_cmd :: "item list list \<Rightarrow> cmd" where
  "pipeline_cmd [] = execcmd"
| "pipeline_cmd [its] = stage_cmd its"
| "pipeline_cmd (its # rest) = Pipe (stage_cmd its) (pipeline_cmd rest)"

text \<open>The stages of a command line, if every redirection has a file and no stage too many arguments.\<close>

definition stages :: "token list \<Rightarrow> item list list option" where
  "stages ts = (let ss = map items (split_bars ts)
     in if None \<in> set ss \<or> (\<exists>its. Some its \<in> set ss \<and> length (args its) \<ge> MAXARGS) then None else Some (map the ss))"

section \<open>The parser accepts the grammar\<close>

definition first_stage :: "token list \<Rightarrow> token list" where
  "first_stage ts = takeWhile (\<lambda>t. t \<noteq> Op CHR ''|'') ts"

definition after_stage :: "token list \<Rightarrow> token list" where
  "after_stage ts = dropWhile (\<lambda>t. t \<noteq> Op CHR ''|'') ts"

definition ops_ok :: "token list \<Rightarrow> bool" where
  "ops_ok ts \<longleftrightarrow> (\<forall>c. Op c \<in> set ts \<longrightarrow> c = CHR ''|'' \<or> c = CHR ''<'' \<or> c = CHR ''>'')"

lemma tokens_ops: "ops_ok (tokens s)"
proof (induction s rule: tokens.induct)
  case (1 s)
  show ?case
  proof (cases "skip_white s")
    case (Cons c cs)
    then show ?thesis using 1 by (cases "c \<in> set symbols") (auto simp: tokens_cases ops_ok_def symbols_def)
  qed (simp add: tokens_cases ops_ok_def)
qed

lemma ops_ok_simps [simp]: "ops_ok []" "ops_ok (Word w # ts) \<longleftrightarrow> ops_ok ts"
  "ops_ok (Op c # ts) \<longleftrightarrow> (c = CHR ''|'' \<or> c = CHR ''<'' \<or> c = CHR ''>'') \<and> ops_ok ts"
  by (auto simp: ops_ok_def)

lemma stage_simps [simp]:
  "first_stage [] = []" "first_stage (Word w # ts) = Word w # first_stage ts"
  "first_stage (Op c # ts) = (if c = CHR ''|'' then [] else Op c # first_stage ts)"
  "after_stage [] = []" "after_stage (Word w # ts) = after_stage ts"
  "after_stage (Op c # ts) = (if c = CHR ''|'' then Op c # ts else after_stage ts)"
  by (simp_all add: first_stage_def after_stage_def)

lemma split_bars_stage: "split_bars ts = (if after_stage ts = [] then [first_stage ts] else first_stage ts # split_bars (tl (after_stage ts)))"
proof (induction ts)
  case (Cons t ts)
  show ?case using Cons by (cases t) auto
qed simp

lemma stages_unfold:
  "stages ts = (case items (first_stage ts) of None \<Rightarrow> None
    | Some its \<Rightarrow> if length (args its) \<ge> MAXARGS then None
        else if after_stage ts = [] then Some [its] else map_option ((#) its) (stages (tl (after_stage ts))))"
  by (subst stages_def, subst split_bars_stage) (auto simp: stages_def Let_def split: option.splits)

text \<open>The redirections at the front of a list of tokens, as \<open>parseredirs\<close> takes them off\<close>

fun take_redirs :: "token list \<Rightarrow> ((char \<times> string) list \<times> token list) option" where
  "take_redirs [] = Some ([], [])"
| "take_redirs (Word w # ts) = Some ([], Word w # ts)"
| "take_redirs (Op c # Word w # ts) = (if c = CHR ''|'' then Some ([], Op c # Word w # ts)
     else map_option (\<lambda>(rs, ts). ((c, w) # rs, ts)) (take_redirs ts))"
| "take_redirs [Op c] = (if c = CHR ''|'' then Some ([], [Op c]) else None)"
| "take_redirs (Op c # Op d # ts) = (if c = CHR ''|'' then Some ([], Op c # Op d # ts) else None)"

lemma append_Nil_id [simp]: "(@) [] = id"
  by auto

lemma take_redirs_items:
  assumes "ops_ok ts"
  shows "case take_redirs ts of
      None \<Rightarrow> items (first_stage ts) = None
    | Some (rs, ts') \<Rightarrow> items (first_stage ts) = map_option (\<lambda>its. map (\<lambda>(c, f). To c f) rs @ its) (items (first_stage ts')) \<and>
        after_stage ts' = after_stage ts \<and> (\<forall>c us. ts' = Op c # us \<longrightarrow> c = CHR ''|'')"
  using assms
proof (induction ts rule: take_redirs.induct)
  case (3 c w ts)
  show ?case
  proof (cases "c = CHR ''|''")
    case False
    show ?thesis
    proof (cases "take_redirs ts")
      case (Some r)
      then show ?thesis using 3 False by (cases r; cases "items (first_stage (snd r))") auto
    qed (use 3 False in auto)
  qed (simp add: option.map_id)
qed (simp_all add: option.map_id)

lemma wrap_simps [simp]: "wrap [] c = c" "wrap ((t, f) # rs) c = wrap rs (redircmd c f t)" "wrap (rs @ rs') c = wrap rs' (wrap rs c)"
  by (simp_all add: wrap_def)

lemma peek_redirs: "no_nul s \<Longrightarrow> peek s ''<>'' = ((\<exists>d ts. tokens s = Op d # ts \<and> d \<noteq> CHR ''|''), skip_white s)"
  using peek_tokens [of s "''<>''"] tokens_ops [of s] by (auto simp: symbols_def split: list.splits token.splits)

lemma parseredirs_none:
  assumes "no_nul s" "\<And>d ts. tokens s = Op d # ts \<Longrightarrow> d = CHR ''|''"
  shows "parseredirs c s = Inr (c, skip_white s)"
  using peek_redirs [OF assms(1)] assms(2) by (subst parseredirs.simps) auto

lemma parseredirs_some:
  assumes "no_nul s" "tokens s = Op d # ts" "d \<noteq> CHR ''|''"
  shows "case ts of
      Word w # us \<Rightarrow> \<exists>s'. parseredirs c s = parseredirs (redircmd c w d) s' \<and> tokens s' = us \<and> no_nul s'
    | _ \<Rightarrow> parseredirs c s = Inl Missing_file"
proof -
  have p: "peek s ''<>'' = (True, skip_white s)" using peek_redirs [OF assms(1)] assms(2,3) by simp
  have o: "d = CHR ''<'' \<or> d = CHR ''>''" using tokens_ops [of s] assms(2,3) by simp
  obtain q eq s1 where g: "gettoken (skip_white s) = (d, q, eq, s1)" "tokens s1 = ts" "no_nul s1"
    using gettoken_tokens [OF no_nul_skip [OF assms(1)]] assms(2) by auto
  note g2 = gettoken_tokens [OF g(3)]
  have o1: "c' \<noteq> CHR ''a''" if "tokens s1 = Op c' # us" for c' us using tokens_ops [of s1] that by auto
  show ?thesis
  proof (cases ts)
    case Nil
    then show ?thesis using g g2 p by (subst parseredirs.simps) auto
  next
    case (Cons t us)
    show ?thesis
    proof (cases t)
      case (Word w)
      then obtain q2 eq2 s2 where "gettoken s1 = (CHR ''a'', q2, eq2, s2)" "mkcopy q2 eq2 = w" "tokens s2 = us" "no_nul s2"
        using g2 g(2) Cons by auto
      then have "parseredirs c s = parseredirs (redircmd c w d) s2" using p g(1) o by (subst parseredirs.simps) auto
      then show ?thesis using \<open>tokens s2 = us\<close> \<open>no_nul s2\<close> Cons Word by auto
    next
      case (Op e)
      then obtain q2 eq2 s2 where "gettoken s1 = (e, q2, eq2, s2)" using g2 g(2) Cons by auto
      then show ?thesis using p g(1,2) o1 Cons Op by (subst parseredirs.simps) auto
    qed
  qed
qed

lemma parseredirs_spec:
  assumes "no_nul s"
  shows "case take_redirs (tokens s) of
      None \<Rightarrow> parseredirs c s = Inl Missing_file
    | Some (rs, ts) \<Rightarrow> \<exists>s'. parseredirs c s = Inr (wrap rs c, s') \<and> tokens s' = ts \<and> no_nul s'"
  using assms
proof (induction "tokens s" arbitrary: s c rule: take_redirs.induct)
  case (3 d w ts)
  note t = "3.hyps"(2) [symmetric]
  show ?case
  proof (cases "d = CHR ''|''")
    case True
    then show ?thesis using parseredirs_none [OF "3.prems"] no_nul_skip [OF "3.prems"] t by simp
  next
    case False
    obtain s' where s': "parseredirs c s = parseredirs (redircmd c w d) s'" "tokens s' = ts" "no_nul s'"
      using parseredirs_some [OF "3.prems" t False] by auto
    then show ?thesis using "3.hyps"(1) [OF False s'(2) [symmetric] s'(3), of "redircmd c w d"] False t by (auto split: option.splits)
  qed
next
  case (4 d)
  then show ?case
    using parseredirs_none [OF 4(2)] parseredirs_some [OF 4(2), of d "[]"] no_nul_skip [OF 4(2)] 4(1) [symmetric] by auto
next
  case (5 d e us)
  then show ?case
    using parseredirs_none [OF 5(2)] parseredirs_some [OF 5(2), of d "Op e # us"] no_nul_skip [OF 5(2)] 5(1) [symmetric] by auto
next
  case 1
  then show ?case using parseredirs_none [OF 1(2)] no_nul_skip [OF 1(2)] 1(1) [symmetric] by simp
next
  case (2 w ts)
  then show ?case using parseredirs_none [OF 2(2)] no_nul_skip [OF 2(2)] 2(1) [symmetric] by simp
qed

lemma set_argv_wrap: "set_argv i v (wrap rs (Exec a)) = (if i < length a then Inr (wrap rs (Exec (a[i := v]))) else Inl Out_of_bounds)"
proof (induction rs rule: rev_induct)
  case (snoc r rs)
  then show ?case by (cases r) (simp add: redircmd_def)
qed simp

lemma pad_update [simp]: "length as < MAXARGS \<Longrightarrow> (pad as)[length as := None] = pad as"
  "length as < MAXARGS \<Longrightarrow> (pad as)[length as := Some w] = pad (as @ [w])" "length as \<le> MAXARGS \<Longrightarrow> length (pad as) = MAXARGS"
proof -
  have "replicate (MAXARGS - length as) (None :: string option) = None # replicate (MAXARGS - Suc (length as)) None" if "length as < MAXARGS"
    using that by (simp add: Suc_diff_Suc flip: replicate_Suc)
  then show "length as < MAXARGS \<Longrightarrow> (pad as)[length as := None] = pad as" "length as < MAXARGS \<Longrightarrow> (pad as)[length as := Some w] = pad (as @ [w])"
    by (simp_all add: pad_def list_update_append)
  show "length as \<le> MAXARGS \<Longrightarrow> length (pad as) = MAXARGS" by (simp add: pad_def)
qed

lemma peek_bar: "no_nul s \<Longrightarrow> peek s ''|'' = ((\<exists>ts. tokens s = Op CHR ''|'' # ts), skip_white s)"
  using peek_tokens [of s "''|''"] by (auto simp: symbols_def split: list.splits token.splits)

text \<open>The three ways a turn of the loop of \<open>parseexec\<close> goes\<close>

lemma exec_loop_ends:
  assumes "no_nul s" "length as < MAXARGS" "tokens s = [] \<or> (\<exists>ts. tokens s = Op CHR ''|'' # ts)"
  shows "\<exists>s'. exec_loop (wrap rs (Exec (pad as))) (length as) s = Inr (wrap rs (Exec (pad as)), s') \<and> tokens s' = tokens s \<and> no_nul s'"
proof (cases "tokens s = []")
  case True
  then obtain q where g: "gettoken (skip_white s) = (NUL, q, [], [])" using gettoken_tokens [OF no_nul_skip [OF assms(1)]] by auto
  have "tokens [] = []" by (simp add: tokens_cases skip_white_def)
  then show ?thesis using peek_bar [OF assms(1)] True g assms(2)
    by (subst exec_loop.simps) (simp add: set_argv_wrap no_nul_def)
next
  case False
  then show ?thesis using peek_bar [OF assms(1)] assms no_nul_skip [OF assms(1)]
    by (subst exec_loop.simps) (auto simp: set_argv_wrap)
qed

lemma exec_loop_word:
  assumes "no_nul s" "length as < MAXARGS" "tokens s = Word w # ts"
  shows "\<exists>s'. exec_loop (wrap rs (Exec (pad as))) (length as) s =
      (if Suc (length as) \<ge> MAXARGS then Inl Too_many_args
       else (case parseredirs (wrap rs (Exec (pad (as @ [w])))) s' of Inl e \<Rightarrow> Inl e | Inr (ret, s) \<Rightarrow> exec_loop ret (length as + 1) s)) \<and>
    tokens s' = ts \<and> no_nul s'"
proof -
  obtain q eq s' where g: "gettoken (skip_white s) = (CHR ''a'', q, eq, s')" "mkcopy q eq = w" "tokens s' = ts" "no_nul s'"
    using gettoken_tokens [OF no_nul_skip [OF assms(1)]] assms(3) by auto
  show ?thesis using peek_bar [OF assms(1)] assms(2,3) g
    by (intro exI [of _ s'] conjI, subst exec_loop.simps) (auto simp: set_argv_wrap)
qed

lemma args_append [simp]: "args (its @ its') = args its @ args its'" "redirs (its @ its') = redirs its @ redirs its'"
  by (simp_all add: args_def redirs_def)

lemma redirs_first [simp]: "args (map (\<lambda>(c, f). To c f) rs) = []" "redirs (map (\<lambda>(c, f). To c f) rs) = rs"
  by (induction rs) auto

definition exec_result :: "token list \<Rightarrow> (char \<times> string) list \<Rightarrow> string list \<Rightarrow> (perror + cmd \<times> string) \<Rightarrow> bool" where
  "exec_result ts rs as r \<longleftrightarrow> (case items (first_stage ts) of
      None \<Rightarrow> r \<in> {Inl Missing_file, Inl Too_many_args}
    | Some its \<Rightarrow> if length as + length (args its) < MAXARGS
        then \<exists>s'. r = Inr (wrap (rs @ redirs its) (Exec (pad (as @ args its))), s') \<and> tokens s' = after_stage ts \<and> no_nul s'
        else r = Inl Too_many_args)"

lemma exec_loop_next:
  assumes "no_nul s" "length as < MAXARGS" "tokens s = Word w # ts"
  shows "exec_result (tokens s) rs as (exec_loop (wrap rs (Exec (pad as))) (length as) s) \<or>
    (\<exists>rs' s2. length (as @ [w]) < MAXARGS \<and> no_nul s2 \<and> (\<forall>c us. tokens s2 = Op c # us \<longrightarrow> c = CHR ''|'') \<and>
      exec_loop (wrap rs (Exec (pad as))) (length as) s = exec_loop (wrap (rs @ rs') (Exec (pad (as @ [w])))) (length (as @ [w])) s2 \<and>
      items (first_stage (tokens s)) = map_option (\<lambda>its. Arg w # map (\<lambda>(c, f). To c f) rs' @ its) (items (first_stage (tokens s2))) \<and>
      after_stage (tokens s) = after_stage (tokens s2))"
proof -
  obtain s' where s': "exec_loop (wrap rs (Exec (pad as))) (length as) s =
      (if Suc (length as) \<ge> MAXARGS then Inl Too_many_args
       else (case parseredirs (wrap rs (Exec (pad (as @ [w])))) s' of Inl e \<Rightarrow> Inl e | Inr (ret, s) \<Rightarrow> exec_loop ret (length as + 1) s))"
    "tokens s' = ts" "no_nul s'"
    using exec_loop_word [OF assms(1,2), of w ts rs] assms(3) by blast
  have ops: "ops_ok ts" using tokens_ops [of s'] s'(2) by simp
  note r = parseredirs_spec [OF s'(3), of "wrap rs (Exec (pad (as @ [w])))"] and ri = take_redirs_items [OF ops]
  consider (full) "\<not> Suc (length as) < MAXARGS" | (missing) "Suc (length as) < MAXARGS" "take_redirs ts = None"
    | (more) rs' ts' where "Suc (length as) < MAXARGS" "take_redirs ts = Some (rs', ts')" by fastforce
  then show ?thesis
  proof cases
    case full
    then show ?thesis using s'(1) assms(2,3) by (cases "items (first_stage ts)") (auto simp: exec_result_def)
  next
    case missing
    then show ?thesis using r ri s' assms(3) by (simp add: exec_result_def)
  next
    case more
    then obtain s2 where s2: "parseredirs (wrap rs (Exec (pad (as @ [w])))) s' = Inr (wrap (rs @ rs') (Exec (pad (as @ [w]))), s2)"
      "tokens s2 = ts'" "no_nul s2" using r s'(2) by auto
    then have run: "exec_loop (wrap rs (Exec (pad as))) (length as) s = exec_loop (wrap (rs @ rs') (Exec (pad (as @ [w])))) (length (as @ [w])) s2"
      using s'(1) more(1) by simp
    have "items (first_stage (tokens s)) = map_option (\<lambda>its. Arg w # map (\<lambda>(c, f). To c f) rs' @ its) (items (first_stage ts'))"
      "after_stage (tokens s) = after_stage ts'" "\<forall>c us. ts' = Op c # us \<longrightarrow> c = CHR ''|''"
      using ri more(2) assms(3) by (simp_all add: option.map_comp comp_def)
    then show ?thesis using run more(1) s2(2,3) by (intro disjI2 exI [of _ rs'] exI [of _ s2]) simp
  qed
qed

lemma exec_loop_result:
  assumes "no_nul s" "length as < MAXARGS" "\<forall>c us. tokens s = Op c # us \<longrightarrow> c = CHR ''|''"
  shows "exec_result (tokens s) rs as (exec_loop (wrap rs (Exec (pad as))) (length as) s)"
  using assms
proof (induction "10 - length as" arbitrary: as rs s rule: less_induct)
  case less
  consider (ends) "tokens s = [] \<or> (\<exists>ts. tokens s = Op CHR ''|'' # ts)" | (word) w ts where "tokens s = Word w # ts"
    using less.prems(3) by (metis list.exhaust token.exhaust)
  then show ?case
  proof cases
    case ends
    then show ?thesis using exec_loop_ends [OF less.prems(1,2), of rs] less.prems(2) by (auto simp: exec_result_def)
  next
    case word
    from exec_loop_next [OF less.prems(1,2) this, of rs] show ?thesis
    proof (elim disjE exE conjE)
      fix rs' s2
      assume s2: "length (as @ [w]) < MAXARGS" "no_nul s2" "\<forall>c us. tokens s2 = Op c # us \<longrightarrow> c = CHR ''|''"
        and run: "exec_loop (wrap rs (Exec (pad as))) (length as) s = exec_loop (wrap (rs @ rs') (Exec (pad (as @ [w])))) (length (as @ [w])) s2"
        and t: "items (first_stage (tokens s)) = map_option (\<lambda>its. Arg w # map (\<lambda>(c, f). To c f) rs' @ its) (items (first_stage (tokens s2)))"
          "after_stage (tokens s) = after_stage (tokens s2)"
      have "10 - length (as @ [w]) < 10 - length as" using s2(1) by simp
      from less.hyps [OF this s2(2,1,3), of "rs @ rs'"] show ?thesis unfolding run exec_result_def t
        by (cases "items (first_stage (tokens s2))") (simp_all split: if_splits)
    qed
  qed
qed

lemmas exec_loop_spec = exec_loop_result [unfolded exec_result_def]

lemma parseexec_spec:
  assumes "no_nul s"
  shows "case items (first_stage (tokens s)) of
      None \<Rightarrow> parseexec s \<in> {Inl Missing_file, Inl Too_many_args}
    | Some its \<Rightarrow> if length (args its) < MAXARGS
        then \<exists>s'. parseexec s = Inr (stage_cmd its, s') \<and> tokens s' = after_stage (tokens s) \<and> no_nul s'
        else parseexec s = Inl Too_many_args"
proof -
  have e: "execcmd = Exec (pad [])" by (simp add: execcmd_def pad_def)
  note r = parseredirs_spec [OF assms, of execcmd] and ri = take_redirs_items [OF tokens_ops [of s]]
  show ?thesis
  proof (cases "take_redirs (tokens s)")
    case None
    then show ?thesis using r ri by (simp add: parseexec_def)
  next
    case (Some x)
    obtain rs ts where x: "x = (rs, ts)" by force
    obtain s1 where s1: "parseredirs execcmd s = Inr (wrap rs (Exec (pad [])), s1)" "tokens s1 = ts" "no_nul s1"
      using r Some x e by auto
    have t: "items (first_stage (tokens s)) = map_option (\<lambda>its. map (\<lambda>(c, f). To c f) rs @ its) (items (first_stage ts))"
      "after_stage ts = after_stage (tokens s)" "\<forall>c us. ts = Op c # us \<longrightarrow> c = CHR ''|''" using ri Some x by simp_all
    have run: "parseexec s = exec_loop (wrap rs (Exec (pad []))) (length ([] :: string list)) s1" using s1(1) by (simp add: parseexec_def)
    have "case items (first_stage ts) of
        None \<Rightarrow> parseexec s \<in> {Inl Missing_file, Inl Too_many_args}
      | Some its \<Rightarrow> if length ([] :: string list) + length (args its) < MAXARGS
          then \<exists>s'. parseexec s = Inr (wrap (rs @ redirs its) (Exec (pad ([] @ args its))), s') \<and> tokens s' = after_stage ts \<and> no_nul s'
          else parseexec s = Inl Too_many_args"
      unfolding run by (rule exec_loop_spec [OF s1(3), of "[]" rs, unfolded s1(2)]) (use t(3) in simp_all)
    then show ?thesis using t(2) unfolding t(1) by (cases "items (first_stage ts)") (simp_all add: stage_cmd_def split: if_splits)
  qed
qed

lemma after_stage_head: "after_stage ts = [] \<or> (\<exists>us. after_stage ts = Op CHR ''|'' # us \<and> length us < length ts)"
proof (induction ts)
  case (Cons t ts)
  then show ?case by (cases t) auto
qed simp

lemma pipeline_Cons: "ss \<noteq> [] \<Longrightarrow> pipeline_cmd (its # ss) = Pipe (stage_cmd its) (pipeline_cmd ss)"
  by (cases ss) simp_all

lemma stages_nonempty: "stages ts = Some ss \<Longrightarrow> ss \<noteq> []"
  by (subst (asm) stages_unfold) (auto split: option.splits if_splits)

lemma parsepipe_spec:
  assumes "no_nul s"
  shows "case stages (tokens s) of
      None \<Rightarrow> parsepipe s \<in> {Inl Missing_file, Inl Too_many_args}
    | Some ss \<Rightarrow> \<exists>s'. parsepipe s = Inr (pipeline_cmd ss, s') \<and> tokens s' = [] \<and> no_nul s'"
  using assms
proof (induction "length (tokens s)" arbitrary: s rule: less_induct)
  case less
  note e = parseexec_spec [OF less.prems]
  show ?case
  proof (cases "\<exists>its. items (first_stage (tokens s)) = Some its \<and> length (args its) < MAXARGS")
    case False
    then have "stages (tokens s) = None" by (subst stages_unfold) (auto split: option.splits)
    then show ?thesis using e False by (subst parsepipe.simps) (auto split: option.splits)
  next
    case True
    then obtain its where its: "items (first_stage (tokens s)) = Some its" "length (args its) < MAXARGS" by blast
    then obtain s1 where s1: "parseexec s = Inr (stage_cmd its, s1)" "tokens s1 = after_stage (tokens s)" "no_nul s1" using e by auto
    show ?thesis
    proof (cases "after_stage (tokens s) = []")
      case True
      then have "stages (tokens s) = Some [its]" using its by (subst stages_unfold) simp
      moreover have "parsepipe s = Inr (stage_cmd its, skip_white s1)"
        using s1 True peek_bar [OF s1(3)] by (subst parsepipe.simps) simp
      ultimately show ?thesis using s1 True no_nul_skip by simp
    next
      case False
      then obtain us where us: "after_stage (tokens s) = Op CHR ''|'' # us" "length us < length (tokens s)" using after_stage_head by blast
      then obtain q eq s2 where s2: "gettoken (skip_white s1) = (CHR ''|'', q, eq, s2)" "tokens s2 = us" "no_nul s2"
        using gettoken_tokens [OF no_nul_skip [OF s1(3)]] s1(2) by auto
      have run: "parsepipe s = bind_result (parsepipe s2) (\<lambda>(r, s). Inr (pipecmd (stage_cmd its) r, s))"
        using s1 s2(1) us(1) peek_bar [OF s1(3)] by (subst parsepipe.simps) simp
      have st: "stages (tokens s) = map_option ((#) its) (stages us)" using its us(1) by (subst stages_unfold) simp
      note IH = less.hyps [OF _ s2(3)]
      show ?thesis
      proof (cases "stages us")
        case None
        then show ?thesis using IH us(2) s2(2) st run by auto
      next
        case (Some ss)
        then show ?thesis using IH us(2) s2(2) st run pipeline_Cons [OF stages_nonempty [OF Some]] by (auto simp: pipecmd_def)
      qed
    qed
  qed
qed

lemma parsecmd_spec:
  "case stages (tokens (cstr s)) of
      None \<Rightarrow> parsecmd s \<in> {Inl Missing_file, Inl Too_many_args}
    | Some ss \<Rightarrow> parsecmd s = Inr (pipeline_cmd ss)"
proof -
  have n: "no_nul (cstr s)" by (auto simp: no_nul_def cstr_def dest: set_takeWhileD)
  show ?thesis
  proof (cases "stages (tokens (cstr s))")
    case None
    then show ?thesis using parsepipe_spec [OF n] by (auto simp: parsecmd_def parseline_def)
  next
    case (Some ss)
    then obtain s' where s': "parsepipe (cstr s) = Inr (pipeline_cmd ss, s')" "tokens s' = []" using parsepipe_spec [OF n] by auto
    then have "skip_white s' = []" by (simp add: tokens_empty)
    then show ?thesis using Some s' by (simp add: parsecmd_def parseline_def peek_def Let_def)
  qed
qed

section \<open>Writing and reading a command line\<close>

fun show_item :: "item \<Rightarrow> string" where
  "show_item (Arg w) = w @ '' ''"
| "show_item (To c f) = c # f @ '' ''"

definition show_stage :: "item list \<Rightarrow> string" where
  "show_stage its = concat (map show_item its)"

fun show_line :: "item list list \<Rightarrow> string" where
  "show_line [] = []"
| "show_line [its] = show_stage its"
| "show_line (its # rest) = show_stage its @ ''| '' @ show_line rest"

text \<open>Words are not empty and have no white space, symbol or NUL in them; a stage has at most nine.\<close>

definition valid_word :: "string \<Rightarrow> bool" where
  "valid_word w \<longleftrightarrow> w \<noteq> [] \<and> (\<forall>c \<in> set w. word_char c)"

fun valid_item :: "item \<Rightarrow> bool" where
  "valid_item (Arg w) \<longleftrightarrow> valid_word w"
| "valid_item (To c f) \<longleftrightarrow> (c = CHR ''<'' \<or> c = CHR ''>'') \<and> valid_word f"

definition valid_stage :: "item list \<Rightarrow> bool" where
  "valid_stage its \<longleftrightarrow> (\<forall>it \<in> set its. valid_item it) \<and> length (args its) < MAXARGS"

fun item_tokens :: "item \<Rightarrow> token list" where
  "item_tokens (Arg w) = [Word w]"
| "item_tokens (To c f) = [Op c, Word f]"

lemma tokens_white: "strchr whitespace c \<Longrightarrow> tokens (c # s) = tokens s"
  using tokens_skip [of "c # s"] tokens_skip [of s] by (simp add: skip_white_def)

lemma symbol_not_white: "c \<in> set symbols \<Longrightarrow> \<not> strchr whitespace c"
  by (auto simp: symbols_def whitespace_def strchr_def)

lemma tokens_symbol: "c \<in> set symbols \<Longrightarrow> tokens (c # s) = Op c # tokens s"
  using symbol_not_white [of c] tokens_cases(2) [of "c # s" c s] by (simp add: skip_white_def)

lemma tokens_word: "valid_word w \<Longrightarrow> \<not> word_char d \<Longrightarrow> tokens (w @ d # s) = Word w # tokens (d # s)"
proof (cases w)
  case (Cons c cs)
  assume w: "valid_word w" "\<not> word_char d"
  then have c: "word_char c" "\<forall>x \<in> set cs. word_char x" by (simp_all add: valid_word_def Cons)
  then have "skip_white (w @ d # s) = c # cs @ d # s" "c \<notin> set symbols"
    by (auto simp: Cons skip_white_def word_char_def strchr_def)
  from tokens_cases(3) [OF this] show ?thesis using c w(2) by (simp add: Cons)
qed (simp add: valid_word_def)

lemma blank: "strchr whitespace CHR '' ''" "\<not> word_char CHR '' ''" "CHR ''|'' \<in> set symbols" "CHR ''<'' \<in> set symbols" "CHR ''>'' \<in> set symbols"
  by (simp_all add: strchr_def whitespace_def word_char_def symbols_def)

lemma tokens_item: "valid_item it \<Longrightarrow> tokens (show_item it @ s) = item_tokens it @ tokens s"
  using tokens_word blank by (cases it) (auto simp: tokens_symbol tokens_white)

lemma tokens_stage: "\<forall>it \<in> set its. valid_item it \<Longrightarrow> tokens (show_stage its @ s) = concat (map item_tokens its) @ tokens s"
  by (induction its) (simp_all add: show_stage_def tokens_item)

lemma items_tokens: "items (concat (map item_tokens its)) = Some its"
proof (induction its)
  case (Cons it its)
  then show ?case by (cases it) simp_all
qed simp

lemma first_stage_items:
  assumes "\<forall>it \<in> set its. valid_item it"
  shows "first_stage (concat (map item_tokens its) @ ts) = concat (map item_tokens its) @ first_stage ts"
    "after_stage (concat (map item_tokens its) @ ts) = after_stage ts"
proof -
  have "\<forall>t \<in> set (item_tokens it). t \<noteq> Op CHR ''|''" if "valid_item it" for it using that by (cases it) auto
  then have "\<forall>t \<in> set (concat (map item_tokens its)). t \<noteq> Op CHR ''|''" using assms by auto
  then show "first_stage (concat (map item_tokens its) @ ts) = concat (map item_tokens its) @ first_stage ts"
    "after_stage (concat (map item_tokens its) @ ts) = after_stage ts"
    unfolding first_stage_def after_stage_def by (auto simp del: set_concat intro!: takeWhile_append2 dropWhile_append2)
qed

lemma stages_line:
  assumes "ss \<noteq> []" "\<forall>its \<in> set ss. valid_stage its"
  shows "stages (tokens (show_line ss)) = Some ss"
  using assms
proof (induction ss rule: show_line.induct)
  case (2 its)
  have "tokens [] = []" by (simp add: tokens_cases skip_white_def)
  then have "tokens (show_stage its) = concat (map item_tokens its) @ []"
    using tokens_stage [of its "[]"] 2 by (simp add: valid_stage_def)
  then show ?case using 2 first_stage_items [of its "[]"] items_tokens [of its]
    by (subst stages_unfold) (simp add: valid_stage_def)
next
  case (3 its its2 rest)
  let ?l = "show_line (its2 # rest)"
  have v: "\<forall>it \<in> set its. valid_item it" "length (args its) < MAXARGS" using 3(3) by (simp_all add: valid_stage_def)
  have "tokens (''| '' @ ?l) = Op CHR ''|'' # tokens ?l" using blank by (simp add: tokens_symbol tokens_white)
  then have t: "tokens (show_line (its # its2 # rest)) = concat (map item_tokens its) @ Op CHR ''|'' # tokens ?l"
    using tokens_stage [OF v(1), of "''| '' @ ?l"] by simp
  then show ?case using 3 v first_stage_items [OF v(1), of "Op CHR ''|'' # tokens ?l"] items_tokens [of its]
    by (subst stages_unfold) simp
qed simp

lemma valid_no_nul: "\<forall>its \<in> set ss. valid_stage its \<Longrightarrow> cstr (show_line ss) = show_line ss"
proof -
  assume v: "\<forall>its \<in> set ss. valid_stage its"
  have w: "NUL \<notin> set w" if "valid_word w" for w using that by (auto simp: valid_word_def word_char_def strchr_def)
  have i: "NUL \<notin> set (show_item it)" if "valid_item it" for it using that w by (cases it) auto
  have s: "NUL \<notin> set (show_stage its)" if "valid_stage its" for its using that i by (auto simp: show_stage_def valid_stage_def)
  have "NUL \<notin> set (show_line ss)" using v by (induction ss rule: show_line.induct) (auto simp: s)
  then show ?thesis by (auto simp: cstr_def takeWhile_eq_all_conv)
qed

lemma parse_line: "ss \<noteq> [] \<Longrightarrow> \<forall>its \<in> set ss. valid_stage its \<Longrightarrow> parsecmd (show_line ss) = Inr (pipeline_cmd ss)"
  using parsecmd_spec [of "show_line ss"] stages_line [of ss] valid_no_nul [of ss] by simp

section \<open>Running a command line\<close>

definition os_ok :: "xv_os \<Rightarrow> bool" where
  "os_ok os \<longleftrightarrow> (\<forall>t f. os_open os t f) \<and> (\<forall>n. os_pipe os n \<and> os_fork os n \<and> os_dup os n 0 \<and> os_dup os n 1)"

text \<open>The leftmost redirection of a kind decides.\<close>

definition first_file :: "char \<Rightarrow> (char \<times> string) list \<Rightarrow> port \<Rightarrow> port" where
  "first_file t rs d = (case filter (\<lambda>(u, f). u = t) rs of [] \<Rightarrow> d | (u, f) # _ \<Rightarrow> File f)"

text \<open>The program that a stage starts, with its input and output\<close>

definition stage_exec :: "port \<Rightarrow> port \<Rightarrow> item list \<Rightarrow> event list" where
  "stage_exec i out its = (case args its of [] \<Rightarrow> []
     | f # _ \<Rightarrow> [Execv (''/bin/'' @ take 250 f) (args its) (first_file CHR ''<'' (redirs its) i) (first_file CHR ''>'' (redirs its) out)])"

definition execs :: "event list \<Rightarrow> event list" where
  "execs es = filter (\<lambda>e. case e of Execv _ _ _ _ \<Rightarrow> True | _ \<Rightarrow> False) es"

lemma execs_simps [simp]: "execs [] = []" "execs (Opened t f # es) = execs es" "execs (Execv a b c d # es) = Execv a b c d # execs es"
  "execs (es @ fs) = execs es @ execs fs"
  by (simp_all add: execs_def)

lemma first_file_snoc: "first_file t (rs @ [(u, f)]) d = first_file t rs (if u = t then File f else d)"
  by (auto simp: first_file_def split: list.splits)

lemma run_exec:
  assumes "length as < MAXARGS"
  shows "runcmd os n p (Exec (pad as)) = (case as of [] \<Rightarrow> [] | f # _ \<Rightarrow> [Execv (command_path f) as (p_in p) (p_out p)], n)"
proof (cases as)
  case (Cons f fs)
  have "takeWhile (\<lambda>x. x \<noteq> None) (map Some as @ replicate (MAXARGS - length as) None) = map Some as"
    using assms by (subst takeWhile_append2) (auto simp: takeWhile_replicate)
  then show ?thesis by (simp add: Cons pad_def comp_def)
qed (simp add: pad_def numeral_nat)

lemma run_wrap:
  assumes "os_ok os" "\<forall>(t, f) \<in> set rs. t = CHR ''<'' \<or> t = CHR ''>''" "length as < MAXARGS"
  shows "snd (runcmd os n p (wrap rs (Exec (pad as)))) = n \<and>
    execs (fst (runcmd os n p (wrap rs (Exec (pad as))))) = (case as of [] \<Rightarrow> []
      | f # _ \<Rightarrow> [Execv (command_path f) as (first_file CHR ''<'' rs (p_in p)) (first_file CHR ''>'' rs (p_out p))])"
  using assms(2)
proof (induction rs arbitrary: p rule: rev_induct)
  case Nil
  then show ?case using run_exec [OF assms(3)] by (simp add: first_file_def split: list.splits)
next
  case (snoc r rs)
  obtain t f where r: "r = (t, f)" by force
  have t: "t = CHR ''<'' \<or> t = CHR ''>''" "os_open os t f" using snoc.prems assms(1) by (auto simp: r os_ok_def)
  let ?p = "if t = CHR ''>'' then p\<lparr>p_out := File f\<rparr> else p\<lparr>p_in := File f\<rparr>"
  have run: "runcmd os n p (wrap (rs @ [r]) (Exec (pad as))) =
      (Opened t f # fst (runcmd os n ?p (wrap rs (Exec (pad as)))), snd (runcmd os n ?p (wrap rs (Exec (pad as)))))"
    using t by (elim disjE) (auto simp: r redircmd_def Let_def split: prod.splits)
  have "\<forall>(t, f) \<in> set rs. t = CHR ''<'' \<or> t = CHR ''>''" using snoc.prems by simp
  from snoc.IH [OF this, of ?p] show ?case unfolding run unfolding r first_file_snoc using t(1) by (elim disjE; cases as) simp_all
qed

lemma run_stage:
  assumes "os_ok os" "valid_stage its"
  shows "\<exists>es. runcmd os n p (stage_cmd its) = (es, n) \<and> execs es = stage_exec (p_in p) (p_out p) its"
proof -
  have "t = CHR ''<'' \<or> t = CHR ''>''" if "(t, f) \<in> set (redirs its)" for t f
    using that assms(2) by (fastforce simp: redirs_def valid_stage_def split: item.splits)
  then have "\<forall>(t, f) \<in> set (redirs its). t = CHR ''<'' \<or> t = CHR ''>''" by blast
  from run_wrap [OF assms(1) this, of "args its" n p] assms(2) show ?thesis
    by (cases "runcmd os n p (stage_cmd its)")
      (auto simp: stage_cmd_def stage_exec_def command_path_def valid_stage_def split: list.splits)
qed

lemma run_pipeline:
  assumes "os_ok os" "ss \<noteq> []" "\<forall>its \<in> set ss. valid_stage its"
  shows "\<exists>es. runcmd os n p (pipeline_cmd ss) = (es, n + (length ss - 1)) \<and>
    execs es = concat (map (\<lambda>i. stage_exec (if i = 0 then p_in p else Pipe_end (n + i - 1))
      (if Suc i = length ss then p_out p else Pipe_end (n + i)) (ss ! i)) [0..<length ss])"
  using assms(2,3)
proof (induction ss arbitrary: n p rule: pipeline_cmd.induct)
  case (2 its)
  then show ?case using run_stage [OF assms(1), of its n p] by auto
next
  case (3 its its2 rest)
  let ?ss = "its2 # rest"
  obtain es where es: "runcmd os (Suc n) (p\<lparr>p_out := Pipe_end n\<rparr>) (stage_cmd its) = (es, Suc n)" "execs es = stage_exec (p_in p) (Pipe_end n) its"
    using run_stage [OF assms(1), of its "Suc n" "p\<lparr>p_out := Pipe_end n\<rparr>"] 3(3) by auto
  let ?q = "p\<lparr>p_in := Pipe_end n\<rparr>"
  have "\<forall>its \<in> set ?ss. valid_stage its" using 3(3) by simp
  from 3(1) [OF _ this, of "Suc n" ?q]
  obtain fs where fs: "runcmd os (Suc n) ?q (pipeline_cmd ?ss) = (fs, Suc n + (length ?ss - 1))"
    "execs fs = concat (map (\<lambda>i. stage_exec (if i = 0 then p_in ?q else Pipe_end (Suc n + i - 1))
      (if Suc i = length ?ss then p_out ?q else Pipe_end (Suc n + i)) (?ss ! i)) [0..<length ?ss])" by blast
  have run: "runcmd os n p (pipeline_cmd (its # ?ss)) = (es @ fs, n + (length (its # ?ss) - 1))"
    using es(1) fs(1) assms(1) by (simp add: os_ok_def)
  have "[0..<length (its # ?ss)] = 0 # map Suc [0..<length ?ss]" by (simp add: upt_conv_Cons map_Suc_upt del: upt_Suc)
  then have "concat (map (\<lambda>i. stage_exec (if i = 0 then p_in p else Pipe_end (n + i - 1))
      (if Suc i = length (its # ?ss) then p_out p else Pipe_end (n + i)) ((its # ?ss) ! i)) [0..<length (its # ?ss)]) = execs (es @ fs)"
    by (simp add: es(2) fs(2) comp_def del: upt_Suc cong: map_cong) (auto intro!: arg_cong [of _ _ concat] map_cong)
  then show ?case using run by metis
qed simp

section \<open>Reading the lines\<close>

section \<open>The properties of the shell\<close>

text \<open>
  C33: the parser accepts exactly the grammar. Whatever the buffer contains, \<open>parsecmd\<close> returns; it accepts
  the text iff between bars there are only words and redirections with a file, fewer than ten
  words in a stage, and then the command is the one these describe: stages joined from the right
  by pipes, redirections wrapped from left to right around the arguments. The only messages are
  those for a missing file and for too many arguments: the branches for a syntax error and for
  leftovers are never taken, and no argument is stored outside the array.
\<close>

theorem parsecmd_correct:
  "case stages (tokens (cstr s)) of
      None \<Rightarrow> parsecmd s \<in> {Inl Missing_file, Inl Too_many_args}
    | Some ss \<Rightarrow> parsecmd s = Inr (pipeline_cmd ss)"
  by (rule parsecmd_spec)

text \<open>
  a command line means what it says. The text of any pipeline of stages with valid words is parsed,
  and running it, when the system calls succeed, starts for each stage from left to right the program
  \<open>/bin/\<close> and its first word, with its words as arguments; its input comes from the file of its leftmost
  \<open><\<close>, else from the pipe of the stage before, else from the shell's input, and its output goes to the
  file of its leftmost \<open>>\<close>, else to the pipe of the stage after, else to the shell's output.
\<close>

lemma run_line:
  assumes "ss \<noteq> []" "\<forall>its \<in> set ss. valid_stage its" "os_ok os"
  shows "\<exists>c es. parsecmd (show_line ss) = Inr c \<and> runcmd os n p c = (es, n + (length ss - 1)) \<and>
    execs es = concat (map (\<lambda>i. stage_exec (if i = 0 then p_in p else Pipe_end (n + i - 1))
      (if Suc i = length ss then p_out p else Pipe_end (n + i)) (ss ! i)) [0..<length ss])"
  using parse_line [OF assms(1,2)] run_pipeline [OF assms(3,1,2)] by blast

definition good_os :: xv_os where
  "good_os = \<lparr>os_open = \<lambda>_ _. True, os_pipe = \<lambda>_. True, os_fork = \<lambda>_. True, os_dup = \<lambda>_ _. True, os_fork1 = \<lambda>_. True\<rparr>"

lemma run_line_witness:
  "\<exists>c es. parsecmd ''sort <a -r | wc >b >c '' = Inr c \<and> runcmd good_os 0 \<lparr>p_in = Inherited, p_out = Inherited\<rparr> c = (es, 1) \<and>
    execs es = [Execv ''/bin/sort'' [''sort'', ''-r''] (File ''a'') (Pipe_end 0), Execv ''/bin/wc'' [''wc''] (Pipe_end 0) (File ''b'')]"
proof -
  let ?ss = "[[Arg ''sort'', To CHR ''<'' ''a'', Arg ''-r''], [Arg ''wc'', To CHR ''>'' ''b'', To CHR ''>'' ''c'']]"
  have v: "\<forall>its \<in> set ?ss. valid_stage its"
    by (simp add: valid_stage_def valid_word_def word_char_def strchr_def whitespace_def symbols_def)
  have "os_ok good_os" by (simp add: os_ok_def good_os_def)
  from run_line [OF _ v this, of 0 "\<lparr>p_in = Inherited, p_out = Inherited\<rparr>"] show ?thesis
    by (simp add: show_stage_def stage_exec_def first_file_def)
qed



end
