(* ===== verification/NachosLib.thy ===== *)
theory NachosLib
  imports TextIO
begin

text \<open>
  The C library of the Nachos user programs (\<open>cse120/nachos/test\<close>): string functions, \<open>atoi\<close>, \<open>printf\<close> and its
  relatives, \<open>readline\<close>. An array of characters is a list and a pointer into it the rest of the list;
  an access outside, a failed assertion and a wait for input that never comes are \<^term>\<open>None\<close>. The type
  \<open>char\<close> is signed, \<open>int\<close> has 32 bits and wraps around.
\<close>

section \<open>Strings\<close>

definition char_val :: "char \<Rightarrow> int" where
  "char_val c = (let n = int (of_char c) in if n < 128 then n else n - 256)"

fun strlen :: "string \<Rightarrow> nat option" where
  "strlen [] = None"
| "strlen (c # s) = (if c \<noteq> NUL then map_option Suc (strlen s) else Some 0)"

fun strcpy :: "string \<Rightarrow> string \<Rightarrow> string option" where
  "strcpy (d # dst) (c # src) = (if c \<noteq> NUL then map_option ((#) c) (strcpy dst src) else Some (c # dst))"
| "strcpy _ _ = None"

fun strcat :: "string \<Rightarrow> string \<Rightarrow> string option" where
  "strcat [] s2 = None"
| "strcat (d # s1) s2 = (if d \<noteq> NUL then map_option ((#) d) (strcat s1 s2) else strcpy (d # s1) s2)"

fun strcmp :: "string \<Rightarrow> string \<Rightarrow> int option" where
  "strcmp (a # as) (b # bs) =
     (if char_val a < char_val b then Some (- 1)
      else if char_val a > char_val b then Some 1
      else if a \<noteq> NUL \<and> b \<noteq> NUL then strcmp as bs
      else Some 0)"
| "strcmp _ _ = None"

fun strncmp_loop :: "string \<Rightarrow> string \<Rightarrow> nat \<Rightarrow> int option" where
  "strncmp_loop (a # as) (b # bs) n =
     (if char_val a < char_val b then Some (- 1)
      else if char_val a > char_val b then Some 1
      else if n - 1 > 0 then strncmp_loop as bs (n - 1)
      else Some 0)"
| "strncmp_loop _ _ _ = None"

definition strncmp :: "string \<Rightarrow> string \<Rightarrow> int \<Rightarrow> int option" where
  "strncmp a b n = (if n > 0 then strncmp_loop a b (nat n) else None)"

fun memcpy :: "string \<Rightarrow> string \<Rightarrow> nat \<Rightarrow> string option" where
  "memcpy s1 s2 0 = Some s1"
| "memcpy (_ # s1) (c # s2) (Suc n) = map_option ((#) c) (memcpy s1 s2 n)"
| "memcpy _ _ _ = None"

fun memset :: "string \<Rightarrow> char \<Rightarrow> nat \<Rightarrow> string option" where
  "memset s c 0 = Some s"
| "memset (_ # s) c (Suc n) = map_option ((#) c) (memset s c n)"
| "memset [] c (Suc n) = None"

section \<open>Numbers\<close>

definition is_digit :: "char \<Rightarrow> bool" where
  "is_digit c \<longleftrightarrow> char_val c \<ge> char_val CHR ''0'' \<and> char_val c \<le> char_val CHR ''9''"

fun atoi_loop :: "u32 \<Rightarrow> string \<Rightarrow> u32 option" where
  "atoi_loop result [] = None"
| "atoi_loop result (c # s) =
     (if is_digit c then atoi_loop (result * 10 + of_int (char_val c - char_val CHR ''0'')) s else Some result)"

definition atoi :: "string \<Rightarrow> u32 option" where
  "atoi s = (case s of
      [] \<Rightarrow> None
    | c # cs \<Rightarrow> if char_val c = - 1 then map_option (\<lambda>r. r * - 1) (atoi_loop 0 cs) else map_option (\<lambda>r. r * 1) (atoi_loop 0 s))"

definition digittoascii :: "u32 \<Rightarrow> bool \<Rightarrow> char option" where
  "digittoascii n uppercase =
     (if n < 36 then Some (if n \<le> 9 then char_of (48 + unat n)
        else if uppercase then char_of (65 + unat n - 10) else char_of (97 + unat n - 10))
      else None)"

text \<open>The array \<open>buf\<close> of \<open>integerprint\<close> from the index \<open>i\<close> on\<close>

function digits_loop :: "u32 \<Rightarrow> u32 \<Rightarrow> bool \<Rightarrow> string \<Rightarrow> string option" where
  "digits_loop n base upper buf =
     (if n = 0 then Some buf
      else if length buf \<ge> 32 then None
      else (case digittoascii (n mod base) upper of None \<Rightarrow> None | Some c \<Rightarrow> digits_loop (n div base) base upper (c # buf)))"
  by pat_completeness auto

termination digits_loop
  by (relation "measure (\<lambda>(n, base, upper, buf). 32 - length buf)") auto

declare digits_loop.simps [simp del]

definition integerprint :: "u32 \<Rightarrow> u32 \<Rightarrow> int \<Rightarrow> bool \<Rightarrow> bool \<Rightarrow> string option" where
  "integerprint n base width zpad upper =
     (if \<not> (2 \<le> base \<and> base < 36) then None
      else
        (let width = (if width > 32 then 32 else width); pad = (if zpad then CHR ''0'' else CHR '' '')
         in if n = 0 then Some (replicate (nat (width - 1)) pad @ ''0'')
            else
              (let neg = sint n < 0; n = (if neg then n * - 1 else n)
               in do {
                 buf \<leftarrow> digits_loop n base upper [];
                 Some ((if neg then ''-'' else []) @ replicate (nat width - length buf) pad @ buf)
               })))"

section \<open>Formatted output\<close>

datatype vararg = Num u32 | Str string

text \<open>\<open>%s\<close>: the characters of the string that the argument points to\<close>

definition stringprint :: "string \<Rightarrow> string option" where
  "stringprint s = do { n \<leftarrow> strlen s; Some (take n s) }"

text \<open>The conversion that a character after the width asks for, if it is one\<close>

definition convert :: "char \<Rightarrow> int \<Rightarrow> bool \<Rightarrow> vararg list \<Rightarrow> (string \<times> vararg list) option option" where
  "convert c width zpad ap =
     (if c = CHR ''c'' then Some (case ap of Num n # ap \<Rightarrow> Some ([char_of (unat n mod 256)], ap) | _ \<Rightarrow> None)
      else if c = CHR ''d'' then Some (case ap of Num n # ap \<Rightarrow> map_option (\<lambda>s. (s, ap)) (integerprint n 10 width zpad False) | _ \<Rightarrow> None)
      else if c = CHR ''x'' then Some (case ap of Num n # ap \<Rightarrow> map_option (\<lambda>s. (s, ap)) (integerprint n 16 width zpad False) | _ \<Rightarrow> None)
      else if c = CHR ''X'' then Some (case ap of Num n # ap \<Rightarrow> map_option (\<lambda>s. (s, ap)) (integerprint n 16 width zpad True) | _ \<Rightarrow> None)
      else if c = CHR ''s'' then Some (case ap of Str t # ap \<Rightarrow> map_option (\<lambda>s. (s, ap)) (stringprint t) | _ \<Rightarrow> None)
      else None)"

text \<open>\<open>regular\<close> holds the ordinary characters that have not been copied yet, \<open>s\<close> what has been printed.\<close>

function vsprintf_loop :: "string \<Rightarrow> string \<Rightarrow> vararg list \<Rightarrow> string \<Rightarrow> string option" where
  "vsprintf_loop format regular ap s =
     (case format of
        [] \<Rightarrow> None
      | c # format \<Rightarrow>
          if c = NUL then Some (s @ regular)
          else if c \<noteq> CHR ''%'' then vsprintf_loop format (regular @ [c]) ap s
          else (case format of
                  [] \<Rightarrow> None
                | d # _ \<Rightarrow>
                    if d = CHR ''-'' then None
                    else (case dropWhile is_digit format of
                            [] \<Rightarrow> None
                          | t # temp \<Rightarrow>
                              (case atoi format of
                                 None \<Rightarrow> None
                               | Some width \<Rightarrow>
                                   (case convert t (sint width) (d = CHR ''0'') ap of
                                      None \<Rightarrow> vsprintf_loop format [] ap (s @ regular @ ''%'')
                                    | Some None \<Rightarrow> None
                                    | Some (Some (text, ap)) \<Rightarrow> vsprintf_loop temp [] ap (s @ regular @ text))))))"
  by pat_completeness auto

lemma after_digits: "dropWhile P f = t # rest \<Longrightarrow> length rest < length f"
  using length_dropWhile_le [of P f] by simp

termination vsprintf_loop
  by (relation "measure (\<lambda>(format, regular, ap, s). length format)") (auto split: if_splits dest!: after_digits)

declare vsprintf_loop.simps [simp del]

definition vsprintf_text :: "string \<Rightarrow> vararg list \<Rightarrow> string option" where
  "vsprintf_text format ap = vsprintf_loop format [] ap []"

text \<open>\<open>_vsprintf\<close> into an array, \<open>vfprintf\<close> through its array of 256 characters: the text that is written.\<close>

definition vsprintf :: "string \<Rightarrow> string \<Rightarrow> vararg list \<Rightarrow> string option" where
  "vsprintf dst format ap = do {
     text \<leftarrow> vsprintf_text format ap;
     if length text < length dst then Some (text @ NUL # drop (Suc (length text)) dst) else None
   }"

definition vfprintf :: "string \<Rightarrow> vararg list \<Rightarrow> string option" where
  "vfprintf format ap = do {
     buf \<leftarrow> vsprintf (replicate 256 NUL) format ap;
     text \<leftarrow> vsprintf_text format ap;
     if length text < 256 then Some (take (length text) buf) else None
   }"

definition printf :: "string \<Rightarrow> vararg list \<Rightarrow> string option" where
  "printf format ap = vfprintf (format @ [NUL]) ap"

section \<open>Reading a line\<close>

abbreviation backspace :: char where "backspace \<equiv> CHR 0x08"
abbreviation bell :: char where "bell \<equiv> CHR 0x07"

text \<open>The input still to come, the array, the index, and what is printed; the rest of the input, the array and the output.\<close>

fun readline_loop :: "nat \<Rightarrow> string \<Rightarrow> string \<Rightarrow> nat \<Rightarrow> string \<Rightarrow> (string \<times> string \<times> string) option" where
  "readline_loop maxlength [] s i out = None"
| "readline_loop maxlength (c # inp) s i out =
     (if c = newline then (if i < length s then Some (inp, s[i := NUL], out @ [newline]) else None)
      else if c = backspace then
        (if i = 0 then readline_loop maxlength inp s i (out @ [bell])
         else readline_loop maxlength inp s (i - 1) (out @ [backspace, CHR '' '', backspace]))
      else if char_val c < 0x20 \<or> i + 1 = maxlength then readline_loop maxlength inp s i (out @ [bell])
      else if i < length s then readline_loop maxlength inp (s[i := c]) (i + 1) (out @ [c])
      else None)"

definition readline :: "nat \<Rightarrow> string \<Rightarrow> string \<Rightarrow> (string \<times> string \<times> string) option" where
  "readline maxlength inp s = readline_loop maxlength inp s 0 []"

section \<open>C strings\<close>

text \<open>The text of an array, up to the first NUL\<close>

definition text_of :: "string \<Rightarrow> string" where
  "text_of s = takeWhile (\<lambda>c. c \<noteq> NUL) s"

definition terminated :: "string \<Rightarrow> bool" where
  "terminated s \<longleftrightarrow> NUL \<in> set s"

lemma terminated_simps [simp]: "\<not> terminated []" "terminated (c # s) \<longleftrightarrow> c = NUL \<or> terminated s"
  by (auto simp: terminated_def)

lemma text_of_simps [simp]: "text_of [] = []" "text_of (c # s) = (if c = NUL then [] else c # text_of s)"
  by (simp_all add: text_of_def)

lemma text_of_NUL: "NUL \<notin> set (text_of s)"
  by (auto simp: text_of_def dest: set_takeWhileD)

lemma text_of_append: "NUL \<notin> set t \<Longrightarrow> text_of (t @ s) = t @ text_of s"
  by (induction t) auto

lemma terminated_append: "NUL \<notin> set t \<Longrightarrow> terminated (t @ s) \<longleftrightarrow> terminated s"
  by (auto simp: terminated_def)

lemma strlen_text: "strlen s = (if terminated s then Some (length (text_of s)) else None)"
  by (induction s) auto

lemma stringprint_text: "terminated s \<Longrightarrow> stringprint s = Some (text_of s)"
  by (simp add: stringprint_def strlen_text text_of_def flip: takeWhile_eq_take)

lemma strcpy_text:
  assumes "terminated src"
  shows "strcpy dst src = (if length (text_of src) < length dst then Some (text_of src @ NUL # drop (Suc (length (text_of src))) dst) else None)"
  using assms
proof (induction dst src rule: strcpy.induct)
  case (1 d dst c src)
  then show ?case by auto
qed auto

lemma strcat_text:
  assumes "terminated s1" "terminated s2"
  shows "strcat s1 s2 = (let t = text_of s1 @ text_of s2 in if length t < length s1 then Some (t @ NUL # drop (Suc (length t)) s1) else None)"
  using assms(1)
proof (induction s1)
  case (Cons d s1)
  then show ?case by (auto simp: strcpy_text [OF assms(2)] Let_def)
qed simp

lemma char_val_inj: "char_val a = char_val b \<longleftrightarrow> a = b"
proof
  assume eq: "char_val a = char_val b"
  define x y :: nat where "x = of_char a" and "y = of_char b"
  have "x < 256" "y < 256" by (simp_all add: x_def y_def)
  then have "x = y" using eq by (auto simp: char_val_def Let_def simp flip: x_def y_def split: if_splits)
  then show "a = b" by (simp add: x_def y_def)
qed simp

text \<open>\<open>strcmp\<close> compares the texts, in the order of the signed characters.\<close>

fun text_order :: "string \<Rightarrow> string \<Rightarrow> int" where
  "text_order [] [] = 0"
| "text_order [] (b # bs) = (if char_val b > 0 then - 1 else 1)"
| "text_order (a # as) [] = (if char_val a < 0 then - 1 else 1)"
| "text_order (a # as) (b # bs) = (if char_val a < char_val b then - 1 else if char_val b < char_val a then 1 else text_order as bs)"

lemma char_val_NUL: "char_val NUL = 0" "char_val c = 0 \<longleftrightarrow> c = NUL"
  using char_val_inj [of c NUL] by (simp_all add: char_val_def)

lemma strcmp_text: "terminated a \<Longrightarrow> terminated b \<Longrightarrow> strcmp a b = Some (text_order (text_of a) (text_of b))"
proof (induction a b rule: strcmp.induct)
  case (1 a as b bs)
  show ?case
  proof (cases "a = b")
    case True
    then show ?thesis using 1 by auto
  next
    case False
    then have "char_val a < char_val b \<or> char_val b < char_val a" using char_val_inj by (metis linorder_neqE)
    then show ?thesis using False by (cases "a = NUL"; cases "b = NUL") (auto simp: char_val_NUL)
  qed
qed simp_all

lemma text_order_0: "text_order a b = 0 \<longleftrightarrow> a = b"
  by (induction a b rule: text_order.induct) (auto simp: char_val_inj)

end
