(* ===== verification/NachosLibProofs.thy ===== *)
theory NachosLibProofs
  imports NachosLib
begin

text \<open>
  What the library of the Nachos user programs does: printed numbers and reading them back, formatted
  output as the concatenation of its pieces, and line editing.
\<close>

section \<open>Printing numbers\<close>

lemma digittoascii_hex: "n < 16 \<Longrightarrow> digittoascii n False = Some (hex_char (unat n))"
  by (auto simp: digittoascii_def hex_char_def word_less_nat_alt word_le_nat_alt)

lemma show_base_length:
  assumes "2 \<le> b" "n < b ^ Suc k"
  shows "length (show_base b n) \<le> Suc k"
  using assms(2)
proof (induction k arbitrary: n)
  case 0
  then show ?case by (simp add: show_base_small)
next
  case (Suc k)
  show ?case
  proof (cases "n < b")
    case False
    have "n div b < b ^ Suc k" using Suc.prems assms(1) by (simp add: less_mult_imp_div_less mult.commute)
    then show ?thesis using Suc.IH [of "n div b"] False assms(1) by (simp add: show_base_step)
  qed (simp add: show_base_small)
qed

lemma digits_loop_show:
  assumes "2 \<le> base" "base \<le> 16" "n \<noteq> 0" "length (show_base (unat base) (unat n)) + length buf \<le> 32"
  shows "digits_loop n base False buf = Some (show_base (unat base) (unat n) @ buf)"
  using assms(3,4)
proof (induction "unat n" arbitrary: n buf rule: less_induct)
  case less
  have b: "2 \<le> unat base" "unat base \<le> 16" "base \<noteq> 0" using assms(1,2) by (auto simp: word_le_nat_alt)
  have m: "unat (n mod base) = unat n mod unat base" "unat (n div base) = unat n div unat base" by (simp_all add: unat_mod_distrib unat_div_distrib)
  have d: "digittoascii (n mod base) False = Some (hex_char (unat n mod unat base))"
    using b m(1) by (subst digittoascii_hex) (auto simp: word_less_nat_alt intro: less_le_trans [OF mod_less_divisor])
  show ?case
  proof (cases "unat n < unat base")
    case True
    then have "n div base = 0" using m(2) by (simp add: unat_eq_0 flip: unat_eq_zero)
    moreover have "length buf < 32" using less.prems(2) True by (simp add: show_base_small)
    ultimately show ?thesis using less.prems(1) d True
      by (simp add: digits_loop.simps [of n] digits_loop.simps [of 0] show_base_small)
  next
    case False
    then have s: "show_base (unat base) (unat n) = show_base (unat base) (unat (n div base)) @ [hex_char (unat n mod unat base)]"
      using b m(2) by (simp add: show_base_step)
    have "n div base \<noteq> 0" using False b m(2) by (auto simp: div_greater_zero_iff simp flip: unat_eq_0)
    moreover have "unat (n div base) < unat n" using less.prems(1) b m(2) by (simp add: unat_gt_0)
    ultimately have "digits_loop (n div base) base False (hex_char (unat n mod unat base) # buf) =
        Some (show_base (unat base) (unat (n div base)) @ hex_char (unat n mod unat base) # buf)"
      using less.hyps less.prems(2) s by simp
    moreover have "length buf < 32" using less.prems(2) s by simp
    ultimately show ?thesis using less.prems(1) d s by (simp add: digits_loop.simps [of n])
  qed
qed

lemma unat_of_signed: "0 \<le> k \<Longrightarrow> k < 2 ^ 32 \<Longrightarrow> unat (of_int k :: u32) = nat k"
  by (simp add: unsigned_of_int take_bit_eq_mod)

lemma abs_word:
  fixes n :: u32
  shows "sint n < 0 \<Longrightarrow> unat (- n) = nat \<bar>sint n\<bar>" "0 \<le> sint n \<Longrightarrow> unat n = nat \<bar>sint n\<bar>" "sint n = 0 \<longleftrightarrow> n = 0"
proof -
  have r: "- (2 ^ 31) \<le> sint n" "sint n < 2 ^ 31" using sint_ge [of n] sint_lt [of n] by simp_all
  have eq: "(of_int (sint n) :: u32) = n" "(of_int (- sint n) :: u32) = - n" by simp_all
  show "unat (- n) = nat \<bar>sint n\<bar>" if "sint n < 0" using unat_of_signed [of "- sint n"] eq r that by simp
  show "unat n = nat \<bar>sint n\<bar>" if "0 \<le> sint n" using unat_of_signed [of "sint n"] eq r that by simp
  show "sint n = 0 \<longleftrightarrow> n = 0" using eq(1) by (metis of_int_0 sint_0)
qed

text \<open>What \<open>integerprint\<close> prints: a sign, the padding, the digits of the absolute value\<close>

lemma integerprint_show:
  assumes "2 \<le> base" "base \<le> 16"
  shows "integerprint n base width zpad False =
    (let ds = show_base (unat base) (nat \<bar>sint n\<bar>)
     in Some ((if sint n < 0 then ''-'' else []) @
          replicate (nat (min width 32) - length ds) (if zpad then CHR ''0'' else CHR '' '') @ ds))"
proof -
  have b: "2 \<le> unat base" "\<not> \<not> (2 \<le> base \<and> base < 36)" using assms by (auto simp: word_le_nat_alt word_less_nat_alt)
  have len: "length (show_base (unat base) (unat x)) \<le> 32" for x :: u32
  proof -
    have "unat x < 2 ^ 32" using unsigned_less [of x, where 'a = nat] by simp
    also have "(2 :: nat) ^ 32 \<le> unat base ^ Suc 31" using power_mono [OF b(1), of 32] by simp
    finally have "unat x < unat base ^ Suc 31" .
    from show_base_length [OF b(1) this] show ?thesis by simp
  qed
  have w: "(if width > 32 then 32 else width) = min width 32" by simp
  show ?thesis
  proof (cases "n = 0")
    case True
    have "nat (k - 1) = nat k - Suc 0" for k :: int by simp
    moreover have "hex_char 0 = CHR ''0''" by code_simp
    ultimately show ?thesis using True b unfolding integerprint_def w by (simp add: show_base_small Let_def)
  next
    case False
    define m where "m = (if sint n < 0 then n * - 1 else n)"
    have m: "unat m = nat \<bar>sint n\<bar>" "m \<noteq> 0" using abs_word [of n] False by (auto simp: m_def)
    have "digits_loop m base False [] = Some (show_base (unat base) (unat m))"
      using digits_loop_show [OF assms m(2), of "[]"] len [of m] by simp
    then show ?thesis using b False m(1) unfolding integerprint_def w by (simp add: Let_def flip: m_def)
  qed
qed

section \<open>Reading numbers\<close>

lemma is_digit_hex: "d < 10 \<Longrightarrow> is_digit (hex_char d)" "d < 10 \<Longrightarrow> char_val (hex_char d) - char_val CHR ''0'' = int d"
  by (simp_all add: is_digit_def char_val_def hex_char_code)

lemma atoi_loop_show: "atoi_loop r (show_base 10 n @ s) = atoi_loop (r * 10 ^ length (show_base 10 n) + of_nat n) s"
proof (induction n arbitrary: r s rule: less_induct)
  case (less n)
  show ?case
  proof (cases "n < 10")
    case False
    have "n = n div 10 * 10 + n mod 10" by simp
    then have "(of_nat n :: u32) = of_nat (n div 10) * 10 + of_nat (n mod 10)" by (metis of_nat_add of_nat_mult of_nat_numeral)
    then show ?thesis using False less.IH [of "n div 10" r] is_digit_hex [of "n mod 10"]
      by (simp add: show_base_step algebra_simps)
  qed (simp add: show_base_small is_digit_hex)
qed

lemma atoi_show:
  assumes "\<not> is_digit c"
  shows "atoi (show_base 10 n @ c # s) = Some (of_nat n)"
proof -
  obtain d t where d: "d < 10" "show_base 10 n = hex_char d # t" using show_base_hd [of 10 n] by auto
  have "char_val (hex_char d) \<noteq> - 1" using d(1) by (simp add: char_val_def hex_char_code)
  then show ?thesis using atoi_loop_show [of 0 n "c # s"] assms d(2) by (simp add: atoi_def)
qed

text \<open>
  \<open>printf("%d")\<close> and \<open>atoi\<close>. Every \<open>int\<close> is printed as its decimal representation, the smallest one included,
  although it has no negative. Reading the text with \<open>atoi\<close> gives the number back if it is not negative; of
  a negative one it makes 0, because it compares the first character with \<open>-1\<close> instead of \<open>'-'\<close>.
\<close>

lemma atoi_printed:
  "integerprint n 10 0 zpad False = Some (show_int (sint n)) \<and>
    atoi (show_int (sint n) @ [NUL]) = Some (if sint n < 0 then 0 else n)"
proof -
  have p: "integerprint n 10 0 zpad False = Some (show_int (sint n))"
    using integerprint_show [of 10 n 0 zpad] by (auto simp: show_int_def Let_def)
  have "\<not> is_digit NUL" "\<not> is_digit CHR ''-''" "char_val CHR ''-'' \<noteq> - 1" by (simp_all add: is_digit_def char_val_def)
  then have "atoi (show_int (sint n) @ [NUL]) = Some (if sint n < 0 then 0 else n)"
    using atoi_show [of NUL "nat (sint n)" "[]"] by (auto simp: show_int_def atoi_def of_nat_nat)
  then show ?thesis using p by blast
qed

section \<open>Formatted output\<close>

text \<open>A format is a list of pieces: text, or a directive with the digits of its width and its letter.\<close>

datatype piece = Lit string | Dir string char

fun piece_format :: "piece \<Rightarrow> string" where
  "piece_format (Lit t) = t"
| "piece_format (Dir ds c) = CHR ''%'' # ds @ [c]"

fun piece_ok :: "piece \<Rightarrow> bool" where
  "piece_ok (Lit t) \<longleftrightarrow> NUL \<notin> set t \<and> CHR ''%'' \<notin> set t"
| "piece_ok (Dir ds c) \<longleftrightarrow> (\<forall>d \<in> set ds. is_digit d) \<and> c \<in> set ''cdxXs''"

definition dir_width :: "string \<Rightarrow> int" where
  "dir_width ds = sint (the (atoi_loop 0 (ds @ [NUL])))"

fun print_pieces :: "piece list \<Rightarrow> vararg list \<Rightarrow> string option" where
  "print_pieces [] ap = Some []"
| "print_pieces (Lit t # ps) ap = map_option ((@) t) (print_pieces ps ap)"
| "print_pieces (Dir ds c # ps) ap =
     (case convert c (dir_width ds) (take 1 ds = ''0'') ap of
        Some (Some (text, ap')) \<Rightarrow> map_option ((@) text) (print_pieces ps ap')
      | _ \<Rightarrow> None)"

lemma vsprintf_lit:
  "NUL \<notin> set t \<Longrightarrow> CHR ''%'' \<notin> set t \<Longrightarrow> vsprintf_loop (t @ f) reg ap s = vsprintf_loop f (reg @ t) ap s"
proof (induction t arbitrary: reg)
  case (Cons c t)
  then show ?case by (subst vsprintf_loop.simps) auto
qed simp

lemma atoi_loop_digits: "\<forall>d \<in> set ds. is_digit d \<Longrightarrow> \<not> is_digit c \<Longrightarrow> \<exists>w. atoi_loop r (ds @ c # f) = Some w \<and> atoi_loop r (ds @ [NUL]) = Some w"
proof (induction ds arbitrary: r)
  case Nil
  moreover have "\<not> is_digit NUL" by (simp add: is_digit_def char_val_def)
  ultimately show ?case by simp
qed simp

lemma vsprintf_dir:
  assumes "\<forall>d \<in> set ds. is_digit d" "c \<in> set ''cdxXs''"
  shows "vsprintf_loop (CHR ''%'' # ds @ c # f) reg ap s =
    (case convert c (dir_width ds) (take 1 ds = ''0'') ap of
       Some (Some (text, ap')) \<Rightarrow> vsprintf_loop f [] ap' (s @ reg @ text)
     | _ \<Rightarrow> None)"
proof -
  have c: "\<not> is_digit c" "c \<noteq> CHR ''-''" "char_val c \<noteq> - 1" "c \<noteq> CHR ''0''" "convert c w z ap \<noteq> None" for w z
    using assms(2) by (auto simp: is_digit_def char_val_def convert_def)
  obtain h g where h: "ds @ c # f = h # g" by (cases ds) auto
  have hd: "h \<noteq> CHR ''-''" "char_val h \<noteq> - 1" "(h = CHR ''0'') = (take 1 ds = ''0'')"
    using h c assms(1) by (cases ds; auto simp: is_digit_def char_val_def)+
  obtain w where w: "atoi_loop 0 (ds @ c # f) = Some w" "dir_width ds = sint w"
    using atoi_loop_digits [OF assms(1) c(1), of 0 f] by (auto simp: dir_width_def)
  then have "atoi (h # g) = Some w" using h hd(2) by (simp add: atoi_def)
  moreover have "dropWhile is_digit (h # g) = c # f" using assms(1) c(1) by (simp flip: h)
  ultimately show ?thesis using hd(1,3) w(2) c(5) [of "sint w" "take 1 ds = ''0''"]
    by (subst vsprintf_loop.simps) (auto simp: h simp del: dropWhile.simps split: option.splits)
qed

lemma vsprintf_pieces:
  assumes "\<forall>p \<in> set ps. piece_ok p"
  shows "vsprintf_loop (concat (map piece_format ps) @ NUL # f) reg ap s = map_option (\<lambda>t. s @ reg @ t) (print_pieces ps ap)"
  using assms
proof (induction ps ap arbitrary: reg s rule: print_pieces.induct)
  case (1 ap)
  then show ?case by (subst vsprintf_loop.simps) simp
next
  case (2 t ps ap)
  then show ?case by (simp add: vsprintf_lit option.map_comp comp_def)
next
  case (3 ds c ps ap)
  then show ?case by (auto simp: vsprintf_dir option.map_comp comp_def split: option.splits)
qed

lemma printf_pieces_text:
  assumes "\<forall>p \<in> set ps. piece_ok p"
  shows "printf (concat (map piece_format ps)) ap =
    (case print_pieces ps ap of None \<Rightarrow> None | Some t \<Rightarrow> if length t \<le> 255 then Some t else None)"
proof -
  have "vsprintf_text (concat (map piece_format ps) @ [NUL]) ap = print_pieces ps ap"
    using vsprintf_pieces [OF assms, of "[]" "[]" ap "[]"] by (simp add: vsprintf_text_def option.map_ident)
  then show ?thesis by (simp add: printf_def vfprintf_def vsprintf_def less_Suc_eq_le split: option.splits)
qed

text \<open>
  C38: formatted output. For every format made of ordinary text and of the directives \<open>%c\<close>, \<open>%d\<close>, \<open>%x\<close>, \<open>%X\<close> and \<open>%s\<close> with or
  without a width, \<open>printf\<close> writes the concatenation of the texts and of the converted arguments, taken in
  order, as long as that has at most 255 characters; a longer text overruns its buffer before
  the assertion that should catch it.
\<close>

theorem printf_pieces:
  assumes "\<forall>p \<in> set ps. piece_ok p"
  shows "printf (concat (map piece_format ps)) ap =
    (case print_pieces ps ap of None \<Rightarrow> None | Some t \<Rightarrow> if length t \<le> 255 then Some t else None)"
  by (rule printf_pieces_text [OF assms])

theorem printf_pieces_witness: "printf ''[%3d] %s'' [Num 42, Str (''done'' @ [NUL])] = Some ''[ 42] done''"
proof -
  let ?ps = "[Lit ''['', Dir ''3'' CHR ''d'', Lit ''] '', Dir [] CHR ''s'']"
  have ok: "\<forall>p \<in> set ?ps. piece_ok p" by (simp add: is_digit_def char_val_def)
  have "integerprint 42 10 3 False False = Some '' 42''" by code_simp
  moreover have "dir_width ''3'' = 3" by code_simp
  ultimately have "print_pieces ?ps [Num 42, Str (''done'' @ [NUL])] = Some ''[ 42] done''"
    by (simp add: convert_def stringprint_def)
  then show ?thesis using printf_pieces [OF ok, of "[Num 42, Str (''done'' @ [NUL])]"] by simp
qed

section \<open>Line editing\<close>

text \<open>What a key does to the text typed so far, in an array of \<open>m\<close> characters\<close>

definition edit :: "nat \<Rightarrow> string \<Rightarrow> char \<Rightarrow> string" where
  "edit m typed c =
     (if c = backspace then butlast typed
      else if char_val c < 0x20 \<or> length typed + 1 = m then typed
      else typed @ [c])"

lemma edit_length: "length typed < m \<Longrightarrow> length (edit m typed c) < m"
  by (auto simp: edit_def)

lemma edit_NUL: "NUL \<notin> set typed \<Longrightarrow> NUL \<notin> set (edit m typed c)"
  by (auto simp: edit_def char_val_def dest: in_set_butlastD)

lemma readline_loop_edits:
  assumes "newline \<notin> set l" "length typed < m" "m \<le> length typed + length t"
  shows "\<exists>t' out'. readline_loop m (l @ newline # rest) (typed @ t) (length typed) out =
      Some (rest, foldl (edit m) typed l @ NUL # t', out') \<and>
    length (foldl (edit m) typed l) < m \<and> length (foldl (edit m) typed l @ NUL # t') = length (typed @ t)"
  using assms
proof (induction l arbitrary: typed t out)
  case Nil
  then obtain d t' where "t = d # t'" by (cases t) auto
  then show ?case using Nil by simp
next
  case (Cons c l)
  have c: "c \<noteq> newline" using Cons.prems(1) by auto
  have l: "newline \<notin> set l" using Cons.prems(1) by simp
  consider (none) "c = backspace" "typed = []" | (erase) "c = backspace" "typed \<noteq> []"
    | (beep) "c \<noteq> backspace" "char_val c < 0x20 \<or> length typed + 1 = m"
    | (key) "c \<noteq> backspace" "\<not> (char_val c < 0x20 \<or> length typed + 1 = m)" by blast
  then show ?case
  proof cases
    case none
    then show ?thesis using Cons.IH [OF l Cons.prems(2,3)] by (simp add: edit_def)
  next
    case erase
    then obtain ty d where ty: "typed = ty @ [d]" using rev_exhaust by blast
    then show ?thesis using Cons.IH [OF l, of ty "d # t"] Cons.prems(2,3) erase by (simp add: edit_def)
  next
    case beep
    then show ?thesis using Cons.IH [OF l Cons.prems(2,3)] c by (simp add: edit_def)
  next
    case key
    then obtain d t' where t: "t = d # t'" using Cons.prems(2,3) by (cases t) auto
    then show ?thesis using Cons.IH [OF l, of "typed @ [c]" t'] Cons.prems(2,3) key c by (simp add: edit_def)
  qed
qed

lemma foldl_edit_NUL: "NUL \<notin> set typed \<Longrightarrow> NUL \<notin> set (foldl (edit m) typed l)"
  by (induction l arbitrary: typed) (simp_all add: edit_NUL)

text \<open>
  C37: \<open>readline\<close> edits within its array. Given an array of at least \<open>maxlength\<close> characters, it returns at the end
  of the line and leaves the rest of the input; the array then holds, terminated and within
  \<open>maxlength\<close>, the text that results from the keys: printable ones append while there is room, a
  backspace deletes, others do nothing.
\<close>

theorem readline_edits:
  assumes "newline \<notin> set l" "0 < m" "m \<le> length s"
  shows "\<exists>s' out. readline m (l @ newline # rest) s = Some (rest, s', out) \<and> length s' = length s \<and>
    terminated s' \<and> text_of s' = foldl (edit m) [] l \<and> length (text_of s') < m"
proof -
  obtain t' out where r: "readline_loop m (l @ newline # rest) s 0 [] = Some (rest, foldl (edit m) [] l @ NUL # t', out)"
    "length (foldl (edit m) [] l) < m" "length (foldl (edit m) [] l @ NUL # t') = length s"
    using readline_loop_edits [OF assms(1), of "[]" m s rest "[]"] assms(2,3) by auto
  have n: "NUL \<notin> set (foldl (edit m) [] l)" by (rule foldl_edit_NUL) simp
  then have "text_of (foldl (edit m) [] l @ NUL # t') = foldl (edit m) [] l" "terminated (foldl (edit m) [] l @ NUL # t')"
    using text_of_append [OF n, of "NUL # t'"] terminated_append [OF n, of "NUL # t'"] by simp_all
  then show ?thesis using r by (auto simp: readline_def)
qed

theorem readline_edits_witness:
  "\<exists>s out. readline 4 (''lx'' @ [backspace] @ ''sabc'' @ newline # ''rest'') (replicate 8 NUL) = Some (''rest'', s, out) \<and> text_of s = ''lsa''"
  using readline_edits [of "''lx'' @ [backspace] @ ''sabc''" 4 "replicate 8 NUL" "''rest''"] by (auto simp: edit_def char_val_def)

end
