(* ===== verification/NachosShell.thy ===== *)
theory NachosShell
  imports NachosLibProofs
begin

text \<open>
  The shell of the Nachos user programs (\<open>cse120/nachos/test/sh.c\<close>): the tokenizer with quoting, the built-in
  commands, running programs, the loop over the input. The system calls \<open>exec\<close>, \<open>join\<close> and \<open>halt\<close> are a parameter;
  what the shell does is a list of events. Arrays have the sizes of the source, and a write outside
  one is \<^term>\<open>None\<close>.
\<close>

section \<open>Tokens\<close>

abbreviation BUFFERSIZE :: nat where "BUFFERSIZE \<equiv> 64"
abbreviation MAXTOKENS :: nat where "MAXTOKENS \<equiv> 16"
abbreviation backslash :: char where "backslash \<equiv> CHR 0x5C"
abbreviation dquote :: char where "dquote \<equiv> CHR 0x22"
abbreviation tab :: char where "tab \<equiv> CHR 0x09"

text \<open>\<open>*(storage++) = c\<close> in an array of \<open>cap\<close> characters\<close>

definition put :: "nat \<Rightarrow> string \<Rightarrow> char \<Rightarrow> string option" where
  "put cap storage c = (if length storage < cap then Some (storage @ [c]) else None)"

text \<open>
  The loop with the flags \<open>quotingCharacter\<close>, \<open>quotingString\<close> and \<open>startedArg\<close>. Tokens are positions in the storage; the
  result \<open>-1\<close> is \<^term>\<open>Inl\<close> with the message that is printed.
\<close>

fun tokenize_loop :: "nat \<Rightarrow> nat \<Rightarrow> bool \<Rightarrow> bool \<Rightarrow> bool \<Rightarrow> nat list \<Rightarrow> string \<Rightarrow> string \<Rightarrow> (string + nat list \<times> string) option" where
  "tokenize_loop maxTokens cap qc qs sa toks st [] = None"
| "tokenize_loop maxTokens cap qc qs sa toks st (c # command) =
     (if c = NUL then
        (if qc then Some (Inl (''Unmatched '' @ [backslash, CHR ''.'', newline]))
         else if qs then Some (Inl (''Unmatched '' @ [dquote, CHR ''.'', newline]))
         else if sa then do { st \<leftarrow> put cap st NUL; Some (Inr (toks, st)) }
         else Some (Inr (toks, st)))
      else if qc then do {
        st \<leftarrow> put cap st (if c = CHR ''t'' then tab else if c = CHR ''n'' then newline else c);
        tokenize_loop maxTokens cap False qs sa toks st command
      }
      else if qs then
        (if c = backslash then tokenize_loop maxTokens cap True qs sa toks st command
         else if c = dquote then tokenize_loop maxTokens cap qc False sa toks st command
         else do { st \<leftarrow> put cap st c; tokenize_loop maxTokens cap qc qs sa toks st command })
      else if c = CHR '' '' \<or> c = tab \<or> c = newline then
        (if sa then do { st \<leftarrow> put cap st NUL; tokenize_loop maxTokens cap qc qs False toks st command }
         else tokenize_loop maxTokens cap qc qs sa toks st command)
      else if \<not> sa \<and> length toks = maxTokens then Some (Inl [])
      else
        (let toks = (if sa then toks else toks @ [length st])
         in if c = backslash then tokenize_loop maxTokens cap True qs True toks st command
            else if c = dquote then tokenize_loop maxTokens cap qc True True toks st command
            else do { st \<leftarrow> put cap st c; tokenize_loop maxTokens cap qc qs True toks st command }))"

definition tokenizeCommand :: "string \<Rightarrow> nat \<Rightarrow> nat \<Rightarrow> (string + nat list \<times> string) option" where
  "tokenizeCommand command maxTokens cap =
     (if maxTokens > 0 then tokenize_loop maxTokens cap False False False [] [] command else None)"

section \<open>Command lines\<close>

datatype sh_event = Say string | Exec string "string list" | Join u32 | Exit u32 | Halt

record sh_os =
  exec_pid :: "string \<Rightarrow> string list \<Rightarrow> u32"
  join_status :: "u32 \<Rightarrow> u32 \<times> u32"
  halt_returns :: bool

definition say :: "string \<Rightarrow> vararg list \<Rightarrow> sh_event list option" where
  "say format ap = map_option (\<lambda>t. [Say t]) (printf format ap)"

definition line_end :: string where
  "line_end = [newline]"

text \<open>The end of \<open>runline\<close>: waiting for the process, unless it runs in the background\<close>

definition await :: "sh_os \<Rightarrow> bool \<Rightarrow> u32 \<Rightarrow> sh_event list option" where
  "await os background pid =
     (if \<not> background then
        (let (code, status) = join_status os pid
         in map_option ((#) (Join pid))
              (if code = - 1 then say (''join: Invalid process ID.'' @ line_end) []
               else if code = 0 then say (line_end @ ''[%d] Unhandled exception'' @ line_end) [Num pid]
               else if code = 1 then say (line_end @ ''[%d] Done (%d)'' @ line_end) [Num pid, Num status]
               else Some []))
      else say (line_end @ ''[%d]'' @ line_end) [Num pid])"

text \<open>What \<open>runline\<close> does with the arguments; pointers to arguments are the rest of the storage from there on.\<close>

definition run_args :: "sh_os \<Rightarrow> bool \<Rightarrow> string list \<Rightarrow> sh_event list option" where
  "run_args os background argv = do {
     is_exit \<leftarrow> strcmp (argv ! 0) (''exit'' @ [NUL]);
     is_halt \<leftarrow> strcmp (argv ! 0) (''halt'' @ [NUL]);
     is_join \<leftarrow> strcmp (argv ! 0) (''join'' @ [NUL]);
     if is_exit = 0 then
       (if length argv = 1 then Some [Exit 0]
        else if length argv = 2 then do { n \<leftarrow> atoi (argv ! 1); Some [Exit n] }
        else say (''exit: Expression Syntax.'' @ line_end) [])
     else if is_halt = 0 then
       (if length argv = 1 then
          (if halt_returns os then map_option ((#) Halt) (say (''Not the root process!'' @ line_end) []) else Some [Halt])
        else say (''halt: Expression Syntax.'' @ line_end) [])
     else if is_join = 0 then
       (if length argv = 2 then do { pid \<leftarrow> atoi (argv ! 1); await os background pid }
        else say (''join: Expression Syntax.'' @ line_end) [])
     else do {
       prog \<leftarrow> strcpy (replicate BUFFERSIZE NUL) (argv ! 0);
       prog \<leftarrow> strcat prog (''.coff'' @ [NUL]);
       let pid = exec_pid os (text_of prog) (map text_of argv);
       map_option ((#) (Exec (text_of prog) (map text_of argv)))
         (if pid = - 1 then say (''%s: exec failed.'' @ line_end) [Str (argv ! 0)] else await os background pid)
     }
   }"

definition runline :: "sh_os \<Rightarrow> string \<Rightarrow> sh_event list option" where
  "runline os line = do {
     r \<leftarrow> tokenizeCommand line MAXTOKENS BUFFERSIZE;
     case r of
       Inl msg \<Rightarrow> Some (if msg = [] then [] else [Say msg])
     | Inr (toks, st) \<Rightarrow>
         (let argv = map (\<lambda>k. drop k st) toks
          in if argv = [] then Some []
             else do {
               amp \<leftarrow> strcmp (last argv) (''&'' @ [NUL]);
               let argv = (if amp = 0 then butlast argv else argv);
               if argv = [] then Some [] else run_args os (amp = 0) argv
             })
   }"

section \<open>The loop\<close>

definition prompt :: string where
  "prompt = ''nachos% ''"

lemma readline_loop_rest: "readline_loop m inp s i out = Some (rest, s', out') \<Longrightarrow> length rest < length inp"
  by (induction m inp s i out rule: readline_loop.induct) (auto split: if_splits)

definition ends_shell :: "sh_os \<Rightarrow> sh_event \<Rightarrow> bool" where
  "ends_shell os e = (case e of Exit n \<Rightarrow> True | Halt \<Rightarrow> \<not> halt_returns os | _ \<Rightarrow> False)"

text \<open>The loop ends when the shell exits, when \<open>halt\<close> does not return, or in waiting for input.\<close>

function sh_main :: "sh_os \<Rightarrow> string \<Rightarrow> string \<Rightarrow> sh_event list option" where
  "sh_main os inp buffer =
     (if newline \<notin> set inp then Some [Say prompt]
      else (case readline BUFFERSIZE inp buffer of
              None \<Rightarrow> None
            | Some (rest, buffer, out) \<Rightarrow>
                (case runline os buffer of
                   None \<Rightarrow> None
                 | Some es \<Rightarrow>
                     if list_ex (ends_shell os) es then Some ([Say prompt, Say out] @ es)
                     else map_option (\<lambda>fs. [Say prompt, Say out] @ es @ fs) (sh_main os rest buffer))))"
  by pat_completeness auto

termination sh_main
  by (relation "measure (\<lambda>(os, inp, buffer). length inp)") (auto simp: readline_def dest: readline_loop_rest)

declare sh_main.simps [simp del]

section \<open>The tokenizer stays in its array\<close>

text \<open>Tokens start in the storage and, except for the one being read, end there.\<close>

definition tokens_in :: "bool \<Rightarrow> nat list \<Rightarrow> string \<Rightarrow> bool" where
  "tokens_in sa toks st \<longleftrightarrow> (\<forall>k \<in> set toks. k \<le> length st \<and> (sa \<or> terminated (drop k st)))"

lemma tokens_in_put: "tokens_in sa toks st \<Longrightarrow> tokens_in sa toks (st @ [c])" "tokens_in True toks st \<Longrightarrow> tokens_in False toks (st @ [NUL])"
  "tokens_in sa toks st \<Longrightarrow> tokens_in True toks st" "tokens_in sa toks st \<Longrightarrow> tokens_in True (toks @ [length st]) st"
  by (auto simp: tokens_in_def terminated_def)

definition safe_result :: "nat \<Rightarrow> nat \<Rightarrow> (string + nat list \<times> string) option \<Rightarrow> bool" where
  "safe_result maxTokens cap res \<longleftrightarrow> (case res of None \<Rightarrow> False | Some (Inl msg) \<Rightarrow> True
     | Some (Inr (toks, st)) \<Rightarrow> length toks \<le> maxTokens \<and> length st \<le> cap \<and> tokens_in False toks st)"

lemma safe_result_Inl [simp]: "safe_result maxTokens cap (Some (Inl msg))"
  by (simp add: safe_result_def)

lemma tokenize_loop_safe:
  assumes "terminated command" "length st + length (text_of command) < cap" "tokens_in sa toks st" "length toks \<le> maxTokens"
  shows "safe_result maxTokens cap (tokenize_loop maxTokens cap qc qs sa toks st command)"
  using assms
proof (induction command arbitrary: qc qs sa toks st)
  case (Cons c command)
  show ?case
  proof (cases "c = NUL")
    case True
    then show ?thesis using Cons.prems tokens_in_put(2) [of toks st] by (cases sa) (auto simp: put_def safe_result_def)
  next
    case False
    have small: "put cap st d = Some (st @ [d])" for d using Cons.prems(2) by (simp add: put_def)
    have t: "terminated command" "Suc (length st) + length (text_of command) < cap" using Cons.prems False by simp_all
    have next_put: "safe_result maxTokens cap (tokenize_loop maxTokens cap qc' qs' sa' toks' (st @ [d]) command)"
      if "tokens_in sa' toks' (st @ [d])" "length toks' \<le> maxTokens" for qc' qs' sa' toks' d
      using Cons.IH [OF t(1) _ that] t(2) by simp
    have next_skip: "safe_result maxTokens cap (tokenize_loop maxTokens cap qc' qs' sa' toks' st command)"
      if "tokens_in sa' toks' st" "length toks' \<le> maxTokens" for qc' qs' sa' toks'
      using Cons.IH [OF t(1) _ that] t(2) by simp
    note same = next_put [OF tokens_in_put(1) [OF Cons.prems(3)] Cons.prems(4)] next_skip [OF Cons.prems(3,4)]
    consider (char) "qc" | (string) "\<not> qc" "qs" | (white) "\<not> qc" "\<not> qs" "c = CHR '' '' \<or> c = tab \<or> c = newline"
      | (full) "\<not> qc" "\<not> qs" "\<not> (c = CHR '' '' \<or> c = tab \<or> c = newline)" "\<not> sa" "length toks = maxTokens"
      | (word) "\<not> qc" "\<not> qs" "\<not> (c = CHR '' '' \<or> c = tab \<or> c = newline)" "\<not> (\<not> sa \<and> length toks = maxTokens)"
      by blast
    then show ?thesis
    proof cases
      case white
      then show ?thesis using False small next_put [OF tokens_in_put(2) [of toks st] Cons.prems(4)] Cons.prems(3) same(2) by (cases sa) auto
    next
      case word
      let ?toks = "if sa then toks else toks @ [length st]"
      have start: "tokens_in True ?toks st" using tokens_in_put(3,4) [OF Cons.prems(3)] by simp
      have len: "length ?toks \<le> maxTokens" using word(4) Cons.prems(4) by auto
      have eq: "tokenize_loop maxTokens cap qc qs sa toks st (c # command) =
          (if c = backslash then tokenize_loop maxTokens cap True qs True ?toks st command
           else if c = dquote then tokenize_loop maxTokens cap qc True True ?toks st command
           else tokenize_loop maxTokens cap qc qs True ?toks (st @ [c]) command)"
        using word False by (cases sa) (simp_all add: small Let_def)
      show ?thesis unfolding eq using next_put [OF tokens_in_put(1) [OF start] len] next_skip [OF start len] by presburger
    qed (use False small same in auto)
  qed
qed simp

section \<open>Quoting\<close>

text \<open>An argument between double quotes, with a backslash before each quote and backslash in it\<close>

fun escape :: "string \<Rightarrow> string" where
  "escape [] = []"
| "escape (c # cs) = (if c = backslash \<or> c = dquote then [backslash, c] else [c]) @ escape cs"

definition quote_arg :: "string \<Rightarrow> string" where
  "quote_arg a = dquote # escape a @ [dquote]"

fun quote_line :: "string list \<Rightarrow> string" where
  "quote_line [] = []"
| "quote_line [a] = quote_arg a"
| "quote_line (a # rest) = quote_arg a @ '' '' @ quote_line rest"

lemma tokenize_escape:
  assumes "NUL \<notin> set a" "length st + length a \<le> cap"
  shows "tokenize_loop maxTokens cap False True sa toks st (escape a @ rest) = tokenize_loop maxTokens cap False True sa toks (st @ a) rest"
  using assms
proof (induction a arbitrary: st)
  case (Cons c a)
  have p: "put cap st c = Some (st @ [c])" using Cons.prems(2) by (simp add: put_def)
  show ?case using Cons.IH [of "st @ [c]"] Cons.prems p by auto
qed simp

lemma tokenize_arg:
  assumes "NUL \<notin> set a" "length st + length a \<le> cap" "length toks < maxTokens"
  shows "tokenize_loop maxTokens cap False False False toks st (quote_arg a @ rest) =
    tokenize_loop maxTokens cap False False True (toks @ [length st]) (st @ a) rest"
  using tokenize_escape [OF assms(1,2), of maxTokens True "toks @ [length st]" "dquote # rest"] assms(3)
  by (simp add: quote_arg_def)

text \<open>The positions of arguments that are stored one after the other, each with its NUL\<close>

fun positions :: "nat \<Rightarrow> string list \<Rightarrow> nat list" where
  "positions k [] = []"
| "positions k (a # as) = k # positions (k + length a + 1) as"

definition stored :: "string list \<Rightarrow> string" where
  "stored as = concat (map (\<lambda>a. a @ [NUL]) as)"

lemma tokenize_line:
  assumes "as \<noteq> []" "\<forall>a \<in> set as. NUL \<notin> set a" "length st + length (stored as) \<le> cap" "length toks + length as \<le> maxTokens"
  shows "tokenize_loop maxTokens cap False False False toks st (quote_line as @ NUL # rest) =
    Some (Inr (toks @ positions (length st) as, st @ stored as))"
  using assms
proof (induction as arbitrary: toks st rule: quote_line.induct)
  case (2 a)
  then show ?case using tokenize_arg [of a st cap toks maxTokens "NUL # rest"] by (simp add: put_def stored_def)
next
  case (3 a b as)
  have "tokenize_loop maxTokens cap False False False toks st (quote_line (a # b # as) @ NUL # rest) =
      tokenize_loop maxTokens cap False False False (toks @ [length st]) ((st @ a) @ [NUL]) (quote_line (b # as) @ NUL # rest)"
    using tokenize_arg [of a st cap toks maxTokens "'' '' @ quote_line (b # as) @ NUL # rest"] 3(3,4,5) by (simp add: put_def stored_def)
  also have "\<dots> = Some (Inr ((toks @ [length st]) @ positions (length ((st @ a) @ [NUL])) (b # as), ((st @ a) @ [NUL]) @ stored (b # as)))"
    by (rule 3(1)) (use 3(3,4,5) in \<open>auto simp: stored_def\<close>)
  also have "\<dots> = Some (Inr (toks @ positions (length st) (a # b # as), st @ stored (a # b # as)))" by (simp add: stored_def)
  finally show ?case .
qed simp

lemma positions_read:
  assumes "\<forall>a \<in> set as. NUL \<notin> set a"
  shows "map (\<lambda>k. text_of (drop k (st @ stored as))) (positions (length st) as) = as \<and>
    (\<forall>k \<in> set (positions (length st) as). terminated (drop k (st @ stored as)))"
  using assms
proof (induction as arbitrary: st)
  case (Cons a as)
  have IH: "map (\<lambda>k. text_of (drop k ((st @ a @ [NUL]) @ stored as))) (positions (length (st @ a @ [NUL])) as) = as \<and>
      (\<forall>k \<in> set (positions (length (st @ a @ [NUL])) as). terminated (drop k ((st @ a @ [NUL]) @ stored as)))"
    by (rule Cons.IH) (use Cons.prems in simp)
  have e: "st @ stored (a # as) = (st @ a @ [NUL]) @ stored as" "length (st @ a @ [NUL]) = length st + length a + 1" by (simp_all add: stored_def)
  have "drop (length st) (st @ stored (a # as)) = a @ NUL # stored as" by (simp add: stored_def)
  then have h: "text_of (drop (length st) (st @ stored (a # as))) = a" "terminated (drop (length st) (st @ stored (a # as)))"
    using Cons.prems text_of_append [of a "NUL # stored as"] by (simp_all add: terminated_def)
  show ?case using IH h unfolding e(1) [symmetric] e(2) positions.simps by simp
qed simp

text \<open>
  C36: quoting is undone by the tokenizer. For any arguments without NUL, as many as there is room for,
  the command line that quotes each of them is split into exactly these arguments.
\<close>

theorem tokenize_quoted:
  assumes "as \<noteq> []" "\<forall>a \<in> set as. NUL \<notin> set a" "length as \<le> maxTokens" "length (stored as) \<le> cap"
  shows "\<exists>toks st. tokenizeCommand (quote_line as @ [NUL]) maxTokens cap = Some (Inr (toks, st)) \<and>
    map (\<lambda>k. text_of (drop k st)) toks = as"
  using tokenize_line [OF assms(1,2), of "[]" cap "[]" maxTokens "[]"] positions_read [OF assms(2), of "[]"] assms
  by (cases as) (auto simp: tokenizeCommand_def)

theorem tokenize_quoted_witness:
  "\<exists>toks st. tokenizeCommand (quote_line [''a b'', [dquote], []] @ [NUL]) 3 10 = Some (Inr (toks, st)) \<and>
    map (\<lambda>k. text_of (drop k st)) toks = [''a b'', [dquote], []]"
  by (rule tokenize_quoted) (simp_all add: stored_def)

text \<open>
  the tokenizer is safe. On every command line, with an array that is longer than the line, it returns,
  writes only into the array, finds at most \<open>maxTokens\<close> tokens, and each token ends inside the array.
\<close>

lemma tokenize_safe:
  assumes "terminated command" "length (text_of command) < cap" "0 < maxTokens"
  shows "case tokenizeCommand command maxTokens cap of
      None \<Rightarrow> False
    | Some (Inl msg) \<Rightarrow> True
    | Some (Inr (toks, st)) \<Rightarrow> length toks \<le> maxTokens \<and> length st \<le> cap \<and> (\<forall>k \<in> set toks. terminated (drop k st))"
proof -
  have "safe_result maxTokens cap (tokenizeCommand command maxTokens cap)"
    unfolding tokenizeCommand_def using tokenize_loop_safe [OF assms(1), of "[]" cap False "[]"] assms(2,3) by (simp add: tokens_in_def)
  then show ?thesis by (auto simp: safe_result_def tokens_in_def split: option.splits sum.splits)
qed

lemma tokenize_safe_witness:
  "case tokenizeCommand (''ls -l'' @ [NUL]) 16 64 of None \<Rightarrow> False | Some (Inl msg) \<Rightarrow> True
    | Some (Inr (toks, st)) \<Rightarrow> length toks \<le> 16 \<and> length st \<le> 64 \<and> (\<forall>k \<in> set toks. terminated (drop k st))"
  by (rule tokenize_safe) simp_all

section \<open>Running a program\<close>

lemma strcmp_eq: "terminated a \<Longrightarrow> NUL \<notin> set t \<Longrightarrow> \<exists>n. strcmp a (t @ [NUL]) = Some n \<and> (n = 0 \<longleftrightarrow> text_of a = t)"
  using strcmp_text [of a "t @ [NUL]"] text_order_0 [of "text_of a" t] text_of_append [of t "[NUL]"] by (simp add: terminated_def)

lemma program_name:
  assumes "terminated a"
  shows "Option.bind (strcpy (replicate 64 NUL) a) (\<lambda>p. strcat p (''.coff'' @ [NUL])) =
    (if length (text_of a) + 5 < 64 then Some (text_of a @ ''.coff'' @ replicate (64 - length (text_of a) - 5) NUL) else None)"
proof (cases "length (text_of a) < 64")
  case True
  define p where "p = text_of a @ NUL # drop (Suc (length (text_of a))) (replicate 64 NUL)"
  have p: "strcpy (replicate 64 NUL) a = Some p" using strcpy_text [OF assms, of "replicate 64 NUL"] True by (simp add: p_def)
  have t: "terminated p" "text_of p = text_of a" "length p = 64"
    using text_of_append [OF text_of_NUL, of a] True by (simp_all add: p_def terminated_def)
  show ?thesis
  proof (cases "length (text_of a) + 5 < 64")
    case small: True
    have "drop (Suc (length (text_of a @ ''.coff''))) p = replicate (63 - length (text_of a) - 5) NUL"
      using small by (simp add: p_def drop_append)
    moreover have "64 - length (text_of a) - 5 = Suc (63 - length (text_of a) - 5)" using small by simp
    ultimately show ?thesis using p t small strcat_text [OF t(1), of "''.coff'' @ [NUL]"] by (simp add: Let_def)
  next
    case False
    then show ?thesis using p t strcat_text [OF t(1), of "''.coff'' @ [NUL]"] by (simp add: Let_def)
  qed
next
  case False
  then show ?thesis using strcpy_text [OF assms, of "replicate 64 NUL"] by simp
qed

lemma run_program:
  assumes "argv \<noteq> []" "terminated (argv ! 0)" "text_of (argv ! 0) \<notin> {''exit'', ''halt'', ''join''}"
  shows "run_args os background argv =
    (if length (text_of (argv ! 0)) \<le> 58 then
       (let prog = text_of (argv ! 0) @ ''.coff''; args = map text_of argv; pid = exec_pid os prog args
        in map_option ((#) (Exec prog args))
             (if pid = - 1 then say (''%s: exec failed.'' @ line_end) [Str (argv ! 0)] else await os background pid))
     else None)"
proof -
  obtain e h j where "strcmp (argv ! 0) (''exit'' @ [NUL]) = Some e" "strcmp (argv ! 0) (''halt'' @ [NUL]) = Some h"
    "strcmp (argv ! 0) (''join'' @ [NUL]) = Some j" "e \<noteq> 0" "h \<noteq> 0" "j \<noteq> 0"
    using strcmp_eq [OF assms(2), of "''exit''"] strcmp_eq [OF assms(2), of "''halt''"] strcmp_eq [OF assms(2), of "''join''"] assms(3) by auto
  moreover have "text_of (text_of (argv ! 0) @ ''.coff'' @ replicate k NUL) = text_of (argv ! 0) @ ''.coff''" if "0 < k" for k
    using text_of_append [of "text_of (argv ! 0) @ ''.coff''" "replicate k NUL"] text_of_NUL [of "argv ! 0"] that by (cases k) simp_all
  moreover note program_name [OF assms(2)]
  ultimately show ?thesis
    by (cases "length (text_of (argv ! 0)) \<le> 58")
      (auto simp: run_args_def Let_def simp flip: bind_assoc)
qed

text \<open>
  C35: what a command line with a program does. For a line that quotes at most 16 arguments which fit into
  the 64 characters of the shell, the first not being a built-in command and the last not \<open>&\<close>, the
  program named by the first argument and \<open>.coff\<close> is executed with exactly these arguments, and the shell
  waits for it or reports the failure. This requires a name of at most 58 characters: with a longer
  one, which the input buffer does allow, appending \<open>.coff\<close> writes past the end of \<open>prog\<close>.
\<close>

theorem runline_program:
  assumes "as \<noteq> []" "\<forall>a \<in> set as. NUL \<notin> set a" "length as \<le> 16" "length (stored as) \<le> 64"
    and "hd as \<notin> {''exit'', ''halt'', ''join''}" "last as \<noteq> ''&''"
  shows "runline os (quote_line as @ [NUL]) =
    (if length (hd as) \<le> 58 then
       (let prog = hd as @ ''.coff''; pid = exec_pid os prog as
        in map_option ((#) (Exec prog as))
             (if pid = - 1 then say (''%s: exec failed.'' @ line_end) [Str (stored as)] else await os False pid))
     else None)"
proof -
  let ?toks = "positions 0 as" and ?st = "stored as"
  define argv where "argv = map (\<lambda>k. drop k ?st) ?toks"
  have tok: "tokenizeCommand (quote_line as @ [NUL]) 16 64 = Some (Inr (?toks, ?st))"
    using tokenize_line [OF assms(1,2), of "[]" 64 "[]" 16 "[]"] assms(3,4) by (simp add: tokenizeCommand_def)
  have texts: "map text_of argv = as" "\<forall>p \<in> set argv. terminated p"
    using positions_read [OF assms(2), of "[]"] by (simp_all add: argv_def comp_def)
  have ne: "argv \<noteq> []" using texts(1) assms(1) by auto
  have first: "argv ! 0 = ?st" using assms(1) by (cases as) (simp_all add: argv_def)
  have hd: "text_of (argv ! 0) = hd as" "terminated (argv ! 0)" using texts ne by (cases argv; auto)+
  have la: "text_of (last argv) = last as" "terminated (last argv)" using texts ne by (auto simp: last_map)
  obtain amp where amp: "strcmp (last argv) (''&'' @ [NUL]) = Some amp" "amp \<noteq> 0"
    using strcmp_eq [OF la(2), of "''&''"] la(1) assms(6) by auto
  have "runline os (quote_line as @ [NUL]) = run_args os False argv"
    using tok ne amp by (auto simp: runline_def Let_def argv_def [symmetric]) (simp add: argv_def)
  also have "\<dots> = (if length (hd as) \<le> 58 then
       (let prog = hd as @ ''.coff''; pid = exec_pid os prog as
        in map_option ((#) (Exec prog as))
             (if pid = - 1 then say (''%s: exec failed.'' @ line_end) [Str (stored as)] else await os False pid))
     else None)"
    using run_program [OF ne hd(2), of os False] hd(1) assms(5) by (simp add: texts(1) first Let_def)
  finally show ?thesis .
qed

definition demo_sh :: sh_os where
  "demo_sh = \<lparr>exec_pid = \<lambda>_ _. 7, join_status = \<lambda>_. (5, 0), halt_returns = True\<rparr>"

theorem runline_program_witness:
  "runline demo_sh (quote_line [''cat'', ''a b''] @ [NUL]) = Some [Exec ''cat.coff'' [''cat'', ''a b''], Join 7]"
  using runline_program [of "[''cat'', ''a b'']" demo_sh] by (simp add: stored_def demo_sh_def await_def)

end
