(* ===== verification/NachosProgs.thy ===== *)
theory NachosProgs
  imports Prelude "HOL-Library.Multiset"
begin

text \<open>
  The Nachos user programs of \<open>cse120/nachos/test\<close> that compute: \<open>sort.c\<close>, \<open>matmult.c\<close> and \<open>primes.c\<close>. Array elements
  and counters stay far below \<open>2 ^ 31\<close> and are integers.
\<close>

section \<open>Sorting by exchange\<close>

abbreviation SORTSIZE :: nat where "SORTSIZE \<equiv> 256"

definition swap :: "nat \<Rightarrow> nat \<Rightarrow> int list \<Rightarrow> int list" where
  "swap x y a = (let temp = a ! x; a = a[x := a ! y] in a[y := temp])"

function sort_inner :: "nat \<Rightarrow> nat \<Rightarrow> nat \<Rightarrow> int list \<Rightarrow> int list" where
  "sort_inner n i j a = (if j < n then sort_inner n i (Suc j) (if a ! i > a ! j then swap i j a else a) else a)"
  by pat_completeness auto

termination sort_inner
  by (relation "measure (\<lambda>(n, i, j, a). n - j)") auto

function sort_outer :: "nat \<Rightarrow> nat \<Rightarrow> int list \<Rightarrow> int list" where
  "sort_outer n i a = (if i < n - 1 then sort_outer n (Suc i) (sort_inner n i i a) else a)"
  by pat_completeness auto

termination sort_outer
  by (relation "measure (\<lambda>(n, i, a). n - i)") auto

declare sort_inner.simps [simp del] sort_outer.simps [simp del]

definition sort_main :: int where
  "sort_main =
     (let a = map (\<lambda>i. int (SORTSIZE - 1) - int i) [0..<SORTSIZE];
          a = sort_outer SORTSIZE 0 a
      in if \<exists>i \<in> set [0..<SORTSIZE]. a ! i \<noteq> int i then 1 else 0)"

section \<open>Matrices\<close>

definition mult_cell :: "nat \<Rightarrow> (nat \<Rightarrow> nat \<Rightarrow> int) \<Rightarrow> (nat \<Rightarrow> nat \<Rightarrow> int) \<Rightarrow> nat \<Rightarrow> nat \<Rightarrow> (nat \<Rightarrow> nat \<Rightarrow> int) \<Rightarrow> nat \<Rightarrow> nat \<Rightarrow> int" where
  "mult_cell dim A B i j C = fold (\<lambda>k C. C(i := (C i)(j := C i j + A i k * B k j))) [0..<dim] C"

definition mult_all :: "nat \<Rightarrow> (nat \<Rightarrow> nat \<Rightarrow> int) \<Rightarrow> (nat \<Rightarrow> nat \<Rightarrow> int) \<Rightarrow> (nat \<Rightarrow> nat \<Rightarrow> int) \<Rightarrow> nat \<Rightarrow> nat \<Rightarrow> int" where
  "mult_all dim A B C = fold (\<lambda>i C. fold (\<lambda>j C. mult_cell dim A B i j C) [0..<dim] C) [0..<dim] C"

definition matmult_main :: "nat \<Rightarrow> int" where
  "matmult_main dim =
     (let A = (\<lambda>i j. int i); B = (\<lambda>i j. int j); C = (\<lambda>i j. 0)
      in mult_all dim A B C (dim - 1) (dim - 1))"

section \<open>Primes\<close>

abbreviation NPRIMES :: nat where "NPRIMES \<equiv> 1000"

text \<open>The inner loop: \<open>flag\<close> after trying the stored primes\<close>

fun no_divisor :: "nat list \<Rightarrow> nat \<Rightarrow> bool" where
  "no_divisor [] i = True"
| "no_divisor (p # ps) i = (if i mod p \<noteq> 0 then no_divisor ps i else False)"

text \<open>The outer loop from \<open>i\<close> on with the stored primes; the result is what is printed.\<close>

function primes_loop :: "nat \<Rightarrow> nat \<Rightarrow> nat list \<Rightarrow> nat list" where
  "primes_loop n i primes =
     (if i \<le> n then
        (if no_divisor primes i then i # primes_loop n (Suc i) (if length primes < NPRIMES then primes @ [i] else primes)
         else primes_loop n (Suc i) primes)
      else [])"
  by pat_completeness auto

termination primes_loop
  by (relation "measure (\<lambda>(n, i, primes). Suc n - i)") auto

declare primes_loop.simps [simp del]

definition primes_main :: "nat \<Rightarrow> nat list" where
  "primes_main n = primes_loop n 2 []"

section \<open>The array is sorted\<close>

lemma swap_mset: "i < length a \<Longrightarrow> j < length a \<Longrightarrow> mset (swap i j a) = mset a"
  unfolding swap_def Let_def by (rule mset_swap [symmetric, THEN sym])

lemma swap_nth:
  "i < length a \<Longrightarrow> j < length a \<Longrightarrow> swap i j a ! k = (if k = j then a ! i else if k = i then a ! j else a ! k)" "length (swap i j a) = length a"
  by (auto simp: swap_def Let_def nth_list_update)

text \<open>After the inner loop the element at \<open>i\<close> is a least one from there on.\<close>

lemma sort_inner_spec:
  assumes "i < length a" "i \<le> j" "j \<le> length a" "\<forall>k. i \<le> k \<and> k < j \<longrightarrow> a ! i \<le> a ! k"
  shows "mset (sort_inner (length a) i j a) = mset a \<and> (\<forall>k < i. sort_inner (length a) i j a ! k = a ! k) \<and>
    (\<forall>k. i \<le> k \<and> k < length a \<longrightarrow> sort_inner (length a) i j a ! i \<le> sort_inner (length a) i j a ! k)"
  using assms
proof (induction "length a - j" arbitrary: j a)
  case 0
  then show ?case by (simp add: sort_inner.simps)
next
  case (Suc d)
  then have j: "j < length a" by simp
  define b where "b = (if a ! i > a ! j then swap i j a else a)"
  have b: "length b = length a" "mset b = mset a" "\<forall>k < i. b ! k = a ! k"
    using j Suc.prems(1,2) swap_mset [where i = i and j = j and a = a] swap_nth [where i = i and j = j and a = a] by (auto simp: b_def)
  have le: "\<forall>k. i \<le> k \<and> k < Suc j \<longrightarrow> b ! i \<le> b ! k"
  proof (intro allI impI)
    fix k assume k: "i \<le> k \<and> k < Suc j"
    show "b ! i \<le> b ! k"
    proof (cases "k < j")
      case True
      have "a ! i \<le> a ! k" using Suc.prems(4) k True by blast
      then show ?thesis using True k j Suc.prems(1) swap_nth(1) [where i = i and j = j and a = a] by (auto simp: b_def)
    next
      case False
      then have "k = j" using k by simp
      then show ?thesis using j Suc.prems(1) swap_nth(1) [where i = i and j = j and a = a] by (auto simp: b_def)
    qed
  qed
  have "d = length b - Suc j" using Suc.hyps(2) b(1) by simp
  from Suc.hyps(1) [OF this] have IH: "mset (sort_inner (length b) i (Suc j) b) = mset b \<and> (\<forall>k < i. sort_inner (length b) i (Suc j) b ! k = b ! k) \<and>
    (\<forall>k. i \<le> k \<and> k < length b \<longrightarrow> sort_inner (length b) i (Suc j) b ! i \<le> sort_inner (length b) i (Suc j) b ! k)"
    using Suc.prems(1,2) j b(1) le by simp
  have "sort_inner (length a) i j a = sort_inner (length b) i (Suc j) b"
    using j b(1) by (simp add: sort_inner.simps [of _ _ j] b_def)
  then show ?case using IH b by simp
qed

lemma selected_prefix:
  fixes a b :: "'a::linorder list"
  assumes perm: "mset b = mset a" and kept: "\<forall>k < i. b ! k = a ! k"
    and least: "\<forall>k. i \<le> k \<and> k < length a \<longrightarrow> b ! i \<le> b ! k"
    and ordered: "\<forall>k l. k < i \<and> k \<le> l \<and> l < length a \<longrightarrow> a ! k \<le> a ! l"
    and kl: "k < Suc i" "k \<le> l" "l < length b" and i: "i < length a"
  shows "b ! k \<le> b ! l"
proof (cases "k = i")
  case True
  then show ?thesis using least kl mset_eq_length [OF perm] by simp
next
  case False
  then have k: "k < i" using kl by simp
  have "take k b = take k a" using kept k mset_eq_length [OF perm] i by (intro nth_equalityI) auto
  then have "mset (drop k b) = mset (drop k a)" using perm by (metis append_take_drop_id mset_append add_left_cancel)
  then have "set (drop k b) = set (drop k a)" by (rule mset_eq_setD)
  moreover have "a ! k \<le> x" if "x \<in> set (drop k a)" for x
    using that ordered k i by (auto simp: in_set_conv_nth)
  moreover have "b ! l \<in> set (drop k b)" using kl by (auto simp: in_set_conv_nth intro!: exI [of _ "l - k"])
  ultimately show ?thesis using kept k by simp
qed

lemma sort_outer_spec:
  assumes "i \<le> length a" "\<forall>k l. k < i \<and> k \<le> l \<and> l < length a \<longrightarrow> a ! k \<le> a ! l"
  shows "mset (sort_outer (length a) i a) = mset a \<and> sorted (sort_outer (length a) i a)"
  using assms
proof (induction "length a - i" arbitrary: i a rule: less_induct)
  case less
  show ?case
  proof (cases "i < length a - 1")
    case True
    define b where "b = sort_inner (length a) i i a"
    have i: "i < length a" using True by simp
    have b: "mset b = mset a" "\<forall>k < i. b ! k = a ! k" "\<forall>k. i \<le> k \<and> k < length a \<longrightarrow> b ! i \<le> b ! k"
      using sort_inner_spec [OF i, of i] i by (auto simp: b_def)
    have len: "length b = length a" using b(1) by (rule mset_eq_length)
    have le: "\<forall>k l. k < Suc i \<and> k \<le> l \<and> l < length b \<longrightarrow> b ! k \<le> b ! l"
      using selected_prefix [OF b less.prems(2) _ _ _ i] by blast
    have "sort_outer (length a) i a = sort_outer (length b) (Suc i) b" using True by (simp add: sort_outer.simps [of _ i] b_def len [unfolded b_def])
    then show ?thesis using less.hyps [of b "Suc i"] len i le b(1) by simp
  next
    case False
    have "a ! k \<le> a ! l" if "k \<le> l" "l < length a" for k l
    proof (cases "k < i")
      case False
      then have "k = l" using that less.prems(1) \<open>\<not> i < length a - 1\<close> by linarith
      then show ?thesis by simp
    qed (use less.prems(2) that in blast)
    then have "sorted a" by (simp add: sorted_iff_nth_mono)
    then show ?thesis using False by (simp add: sort_outer.simps)
  qed
qed

text \<open>
  The sorting loops of \<open>sort.c\<close> sort any array, so the program, which checks the result, returns 0.
\<close>

lemma exchange_sort_sorts: "sort_outer (length a) 0 a = sort a \<and> sort_main = 0"
proof -
  have s: "sort_outer (length x) 0 x = sort x" for x
    using sort_outer_spec [of 0 x] properties_for_sort [of "sort_outer (length x) 0 x" x] by auto
  let ?a = "map (\<lambda>i. int (SORTSIZE - 1) - int i) [0..<SORTSIZE]"
  have "?a = rev (map int [0..<SORTSIZE])"
  proof (rule nth_equalityI)
    fix i assume "i < length ?a"
    then show "?a ! i = rev (map int [0..<SORTSIZE]) ! i" by (simp add: rev_nth of_nat_diff)
  qed simp
  moreover have "sort (rev (map int [0..<SORTSIZE])) = map int [0..<SORTSIZE]"
    by (rule properties_for_sort) (simp_all add: sorted_iff_nth_mono)
  ultimately have "sort_outer SORTSIZE 0 ?a = map int [0..<SORTSIZE]" using s [of ?a] by simp
  then have "sort_main = 0" unfolding sort_main_def Let_def by simp
  then show ?thesis using s by blast
qed

section \<open>Products of matrices\<close>

lemma mult_cell_eq: "mult_cell dim A B i j C = C(i := (C i)(j := C i j + (\<Sum>k<dim. A i k * B k j)))"
proof -
  define f where "f = (\<lambda>k C. C(i := (C i)(j := C i j + A i k * B k j)))"
  have "fold f [0..<m] C = C(i := (C i)(j := C i j + (\<Sum>k<m. A i k * B k j)))" for m
  proof (induction m)
    case (Suc m)
    have "fold f [0..<Suc m] C = f m (fold f [0..<m] C)" by simp
    also have "\<dots> = C(i := (C i)(j := C i j + (\<Sum>k<Suc m. A i k * B k j)))" unfolding Suc by (simp add: f_def add.assoc)
    finally show ?case .
  qed simp
  then show ?thesis by (simp add: mult_cell_def f_def)
qed

lemma mult_row_eq: "fold (\<lambda>j C. mult_cell dim A B i j C) [0..<m] C =
  C(i := (\<lambda>j. if j < m then C i j + (\<Sum>k<dim. A i k * B k j) else C i j))"
  by (induction m) (auto simp: mult_cell_eq fun_eq_iff less_Suc_eq)

lemma mult_rows_eq: "fold (\<lambda>i C. fold (\<lambda>j C. mult_cell dim A B i j C) [0..<dim] C) [0..<m] C =
  (\<lambda>i j. if i < m \<and> j < dim then C i j + (\<Sum>k<dim. A i k * B k j) else C i j)"
  by (induction m) (auto simp: mult_row_eq fun_eq_iff less_Suc_eq)

text \<open>\<open>matmult.c\<close> computes the matrix product, and returns 7220 for its dimension of 20, as its comment says.\<close>

lemma matmult_product:
  "(i < dim \<and> j < dim \<longrightarrow> mult_all dim A B (\<lambda>i j. 0) i j = (\<Sum>k<dim. A i k * B k j)) \<and> matmult_main 20 = 7220"
  by (simp add: mult_all_def mult_rows_eq matmult_main_def)

section \<open>Primes\<close>

definition is_prime :: "nat \<Rightarrow> bool" where
  "is_prime p \<longleftrightarrow> 2 \<le> p \<and> (\<forall>d. d dvd p \<longrightarrow> d = 1 \<or> d = p)"

definition primes_below :: "nat \<Rightarrow> nat list" where
  "primes_below i = filter is_prime [2..<i]"

lemma prime_divisor: "2 \<le> i \<Longrightarrow> \<exists>p. is_prime p \<and> p dvd i"
proof (induction i rule: less_induct)
  case (less i)
  show ?case
  proof (cases "is_prime i")
    case False
    then obtain d where d: "d dvd i" "d \<noteq> 1" "d \<noteq> i" using less.prems by (auto simp: is_prime_def)
    have "d \<noteq> 0" using d(1) less.prems by (cases d) auto
    then have "2 \<le> d" "d < i" using d less.prems dvd_imp_le [OF d(1)] by auto
    then show ?thesis using less.IH [of d] d(1) dvd_trans by blast
  qed auto
qed

lemma no_divisor_iff: "no_divisor ps i \<longleftrightarrow> (\<forall>p \<in> set ps. \<not> p dvd i)"
  by (induction ps) (auto simp: dvd_eq_mod_eq_0)

lemma no_divisor_prime: "2 \<le> i \<Longrightarrow> no_divisor (primes_below i) i \<longleftrightarrow> is_prime i"
proof
  assume i: "2 \<le> i" "no_divisor (primes_below i) i"
  obtain p where p: "is_prime p" "p dvd i" using prime_divisor [OF i(1)] by blast
  have "p \<le> i" "2 \<le> p" using dvd_imp_le [OF p(2)] i(1) p(1) by (auto simp: is_prime_def)
  moreover have "p \<notin> set (primes_below i)" using i(2) p(2) by (auto simp: no_divisor_iff)
  ultimately have "p = i" using p(1) by (auto simp: primes_below_def)
  then show "is_prime i" using p(1) by simp
next
  assume "2 \<le> i" "is_prime i"
  then show "no_divisor (primes_below i) i" by (fastforce simp: no_divisor_iff primes_below_def is_prime_def)
qed

lemma primes_below_Suc: "2 \<le> i \<Longrightarrow> primes_below (Suc i) = primes_below i @ (if is_prime i then [i] else [])"
  by (simp add: primes_below_def)

lemma primes_loop_spec:
  assumes "2 \<le> i" "i \<le> Suc n" "length (primes_below (Suc n)) \<le> NPRIMES"
  shows "primes_below i @ primes_loop n i (primes_below i) = primes_below (Suc n)"
  using assms(1,2)
proof (induction "Suc n - i" arbitrary: i)
  case 0
  then show ?case by (simp add: primes_loop.simps)
next
  case (Suc d)
  then have i: "i \<le> n" by simp
  have room: "length (primes_below i) < NPRIMES" if "is_prime i"
  proof -
    have "[2..<Suc n] = [2..<Suc i] @ [Suc i..<Suc n]" using i Suc.prems(1) upt_add_eq_append [of 2 "Suc i" "n - i"] by simp
    then have "length (primes_below (Suc i)) \<le> length (primes_below (Suc n))" by (simp add: primes_below_def del: upt_Suc)
    then show ?thesis using assms(3) primes_below_Suc [OF Suc.prems(1)] that by simp
  qed
  have IH: "primes_below (Suc i) @ primes_loop n (Suc i) (primes_below (Suc i)) = primes_below (Suc n)"
    using Suc.hyps(1) [of "Suc i"] Suc.hyps(2) Suc.prems i by simp
  show ?case using IH i room no_divisor_prime [OF Suc.prems(1)] primes_below_Suc [OF Suc.prems(1)]
    by (cases "is_prime i"; subst primes_loop.simps) simp_all
qed

text \<open>
  \<open>primes.c\<close> prints exactly the primes up to \<open>n\<close>, as long as there are no more of them than its array holds.
\<close>

lemma primes_printed:
  assumes "length (primes_below (Suc n)) \<le> NPRIMES" "1 \<le> n"
  shows "primes_main n = primes_below (Suc n)"
  using primes_loop_spec [of 2 n] assms by (simp add: primes_main_def primes_below_def)

end
