(* ===== verification/NachosFiles.thy ===== *)
theory NachosFiles
  imports NachosLibProofs
begin

text \<open>
  The Nachos user programs that work on files: \<open>cat.c\<close>, \<open>cp.c\<close>, \<open>mv.c\<close>, \<open>rm.c\<close>, and \<open>echo.c\<close>. The system calls for files
  are a parameter over an arbitrary world; \<open>read\<close> gives its result and the bytes it has stored. A program
  yields its status, what it printed and the world, or \<^term>\<open>None\<close> if it does not end.
\<close>

section \<open>The programs\<close>

abbreviation BUFSIZE :: nat where "BUFSIZE \<equiv> 1024"

record 'w file_os =
  f_creat :: "string \<Rightarrow> 'w \<Rightarrow> int \<times> 'w"
  f_open :: "string \<Rightarrow> 'w \<Rightarrow> int \<times> 'w"
  f_read :: "int \<Rightarrow> nat \<Rightarrow> 'w \<Rightarrow> (int \<times> string) \<times> 'w"
  f_write :: "int \<Rightarrow> string \<Rightarrow> 'w \<Rightarrow> int \<times> 'w"
  f_close :: "int \<Rightarrow> 'w \<Rightarrow> int \<times> 'w"
  f_unlink :: "string \<Rightarrow> 'w \<Rightarrow> int \<times> 'w"

partial_function (option) copy_loop :: "'w file_os \<Rightarrow> int \<Rightarrow> int \<Rightarrow> 'w \<Rightarrow> 'w option" where
  "copy_loop F src dst w =
     (case f_read F src BUFSIZE w of ((amount, buf), w) \<Rightarrow>
        if amount > 0 then copy_loop F src dst (snd (f_write F dst buf w)) else Some w)"

text \<open>A program that ends with a message and status 1\<close>

definition complain :: "string \<Rightarrow> vararg list \<Rightarrow> 'w \<Rightarrow> (int \<times> string \<times> 'w) option" where
  "complain format ap w = map_option (\<lambda>t. (1, t, w)) (printf (format @ [newline]) ap)"

definition cat_main :: "'w file_os \<Rightarrow> string list \<Rightarrow> 'w \<Rightarrow> (int \<times> string \<times> 'w) option" where
  "cat_main F argv w =
     (if length argv \<noteq> 2 then complain ''Usage: cat <file>'' [] w
      else
        (let (fd, w) = f_open F (text_of (argv ! 1)) w
         in if fd = - 1 then complain ''Unable to open %s'' [Str (argv ! 1)] w
            else do {
              w \<leftarrow> copy_loop F fd 1 w;
              Some (0, [], snd (f_close F fd w))
            }))"

text \<open>\<open>cp\<close> and \<open>mv\<close> up to the end of the copying: an early end, or both descriptors and the world.\<close>

definition copy_file :: "string \<Rightarrow> 'w file_os \<Rightarrow> string list \<Rightarrow> 'w \<Rightarrow> ((int \<times> string \<times> 'w) + (int \<times> int \<times> 'w)) option" where
  "copy_file cannot_open F argv w =
     (if length argv \<noteq> 3 then map_option Inl (complain ''Usage: cp <src> <dst>'' [] w)
      else
        (let (src, w) = f_open F (text_of (argv ! 1)) w
         in if src = - 1 then map_option Inl (complain cannot_open [Str (argv ! 1)] w)
            else
              (let (_, w) = f_creat F (text_of (argv ! 2)) w; (dst, w) = f_open F (text_of (argv ! 2)) w
               in if dst = - 1 then map_option Inl (complain ''Unable to create %s'' [Str (argv ! 2)] w)
                  else map_option (\<lambda>w. Inr (src, dst, w)) (copy_loop F src dst w))))"

definition cp_main :: "'w file_os \<Rightarrow> string list \<Rightarrow> 'w \<Rightarrow> (int \<times> string \<times> 'w) option" where
  "cp_main F argv w = map_option (\<lambda>r. case r of
      Inl x \<Rightarrow> x
    | Inr (src, dst, w) \<Rightarrow> (0, [], snd (f_close F dst (snd (f_close F src w))))) (copy_file ''Unable to open %s'' F argv w)"

definition mv_main :: "'w file_os \<Rightarrow> string list \<Rightarrow> 'w \<Rightarrow> (int \<times> string \<times> 'w) option" where
  "mv_main F argv w = map_option (\<lambda>r. case r of
      Inl x \<Rightarrow> x
    | Inr (src, dst, w) \<Rightarrow> (0, [], snd (f_unlink F (text_of (argv ! 1)) (snd (f_close F dst (snd (f_close F src w)))))))
      (copy_file ''Open to open %s'' F argv w)"

definition rm_main :: "'w file_os \<Rightarrow> string list \<Rightarrow> 'w \<Rightarrow> (int \<times> string \<times> 'w) option" where
  "rm_main F argv w =
     (if length argv \<noteq> 2 then complain ''Usage: rm <file>'' [] w
      else
        (let (r, w) = f_unlink F (text_of (argv ! 1)) w
         in if r \<noteq> 0 then complain ''Unable to remove %s'' [Str (argv ! 1)] w else Some (0, [], w)))"

fun echo_loop :: "nat \<Rightarrow> string list \<Rightarrow> string option" where
  "echo_loop i [] = Some []"
| "echo_loop i (a # argv) = do {
     t \<leftarrow> printf (''arg %d: %s'' @ [newline]) [Num (of_nat i), Str a];
     map_option ((@) t) (echo_loop (Suc i) argv)
   }"

definition echo_main :: "string list \<Rightarrow> string option" where
  "echo_main argv = do {
     t \<leftarrow> printf (''%d arguments'' @ [newline]) [Num (of_nat (length argv))];
     map_option ((@) t) (echo_loop 0 argv)
   }"

text \<open>\<open>tester.c\<close>: copy a fixed file and append a buffer of one letter. The message names the first argument, not the file.\<close>

definition tester_main :: "'w file_os \<Rightarrow> string list \<Rightarrow> 'w \<Rightarrow> (int \<times> string \<times> 'w) option" where
  "tester_main F argv w =
     (let (src, w) = f_open F ''testsrc.txt'' w
      in if src = - 1 then (if length argv < 2 then None else complain ''Unable to open %s'' [Str (argv ! 1)] w)
         else
           (let (_, w) = f_creat F ''testdest.txt'' w; (dst, w) = f_open F ''testdest.txt'' w
            in if dst = - 1 then complain ''Unable to create %s'' [Str (''testdest.txt'' @ [NUL])] w
               else do {
                 w \<leftarrow> copy_loop F src dst w;
                 let w = snd (f_write F dst (replicate BUFSIZE CHR ''a'') w);
                 let w = snd (f_close F src w);
                 Some (0, [], snd (f_close F dst w))
               }))"

text \<open>\<open>halt.c\<close>: one system call\<close>

definition halt_main :: "('w \<Rightarrow> 'w) \<Rightarrow> 'w \<Rightarrow> 'w" where
  "halt_main sys_halt w = sys_halt w"

section \<open>Characters and strings on descriptors\<close>

text \<open>\<open>stdio.c\<close>: \<open>fgetc\<close> asks again until a byte has come.\<close>

partial_function (option) fgetc :: "'w file_os \<Rightarrow> int \<Rightarrow> 'w \<Rightarrow> (char \<times> 'w) option" where
  "fgetc F fd w =
     (case f_read F fd 1 w of ((n, buf), w) \<Rightarrow> if n \<noteq> 1 then fgetc F fd w else Some (hd buf, w))"

definition fputc :: "'w file_os \<Rightarrow> char \<Rightarrow> int \<Rightarrow> 'w \<Rightarrow> 'w" where
  "fputc F c fd w = snd (f_write F fd [c] w)"

definition fputs :: "'w file_os \<Rightarrow> string \<Rightarrow> int \<Rightarrow> 'w \<Rightarrow> 'w" where
  "fputs F s fd w = snd (f_write F fd (text_of s) w)"

text \<open>The other members of the \<open>printf\<close> family, and the failed assertion\<close>

definition sprintf :: "string \<Rightarrow> string \<Rightarrow> vararg list \<Rightarrow> string option" where
  "sprintf dst format ap = vsprintf dst (format @ [NUL]) ap"

definition fprintf :: "'w file_os \<Rightarrow> int \<Rightarrow> string \<Rightarrow> vararg list \<Rightarrow> 'w \<Rightarrow> 'w option" where
  "fprintf F fd format ap w = map_option (\<lambda>t. snd (f_write F fd t w)) (vfprintf (format @ [NUL]) ap)"

definition assert_failed :: "string \<Rightarrow> u32 \<Rightarrow> (int \<times> string) option" where
  "assert_failed file line =
     map_option (Pair 1) (printf ([newline] @ ''Assertion failed: line %d file %s'' @ [newline]) [Num line, Str file])"

text \<open>Characters arrive however often the kernel has nothing to give at first.\<close>

lemma fgetc_waits:
  assumes "\<forall>i < k. fst (fst (f_read F fd 1 (ws i))) \<noteq> 1 \<and> snd (f_read F fd 1 (ws i)) = ws (Suc i)"
    and "f_read F fd 1 (ws k) = ((1, [c]), w')"
  shows "fgetc F fd (ws 0) = Some (c, w')"
proof -
  have "fgetc F fd (ws (k - i)) = Some (c, w')" if "i \<le> k" for i
    using that
  proof (induction i)
    case 0
    then show ?case using assms(2) by (subst fgetc.simps) simp
  next
    case (Suc i)
    then have "k - Suc i < k" "Suc (k - Suc i) = k - i" by simp_all
    then have "fst (fst (f_read F fd 1 (ws (k - Suc i)))) \<noteq> 1" "snd (f_read F fd 1 (ws (k - Suc i))) = ws (k - i)"
      using assms(1) by metis+
    then show ?case using Suc by (subst fgetc.simps) (simp add: case_prod_beta')
  qed
  from this [of k] show ?thesis by simp
qed

text \<open>The format is expanded in the same way, whether it goes to a string or to a descriptor.\<close>

lemma sprintf_fprintf:
  assumes "vsprintf_text (format @ [NUL]) ap = Some t" "length t < 256" "length t < length dst"
  shows "sprintf dst format ap = Some (t @ NUL # drop (Suc (length t)) dst)" "fprintf F fd format ap w = Some (snd (f_write F fd t w))"
    "printf format ap = Some t"
  using assms by (simp_all add: sprintf_def fprintf_def printf_def vfprintf_def vsprintf_def)

section \<open>Copying\<close>

text \<open>
  What the copying needs of the kernel: reading delivers at least one byte of what is \<open>left\<close> of the source,
  in order, until nothing is left; writing appends to what the destination has \<open>got\<close>.
\<close>

definition copies_ok :: "'w file_os \<Rightarrow> int \<Rightarrow> int \<Rightarrow> ('w \<Rightarrow> string) \<Rightarrow> ('w \<Rightarrow> string) \<Rightarrow> bool" where
  "copies_ok F src dst left got \<longleftrightarrow>
     (\<forall>w. case f_read F src BUFSIZE w of ((amount, buf), w') \<Rightarrow>
        amount = int (length buf) \<and> left w = buf @ left w' \<and> (left w \<noteq> [] \<longrightarrow> buf \<noteq> []) \<and> got w' = got w) \<and>
     (\<forall>w buf. left (snd (f_write F dst buf w)) = left w \<and> got (snd (f_write F dst buf w)) = got w @ buf)"

lemma copy_loop_copies:
  assumes "copies_ok F src dst left got"
  shows "\<exists>w'. copy_loop F src dst w = Some w' \<and> got w' = got w @ left w \<and> left w' = []"
proof (induction "length (left w)" arbitrary: w rule: less_induct)
  case less
  obtain amount buf w1 where f: "f_read F src BUFSIZE w = ((amount, buf), w1)" by (metis surj_pair)
  have k: "amount = int (length buf) \<and> left w = buf @ left w1 \<and> (left w \<noteq> [] \<longrightarrow> buf \<noteq> []) \<and> got w1 = got w"
    using conjunct1 [OF assms [unfolded copies_ok_def], THEN spec, of w] unfolding f prod.case .
  then have r: "f_read F src BUFSIZE w = ((int (length buf), buf), w1)" "left w = buf @ left w1" "left w \<noteq> [] \<longrightarrow> buf \<noteq> []" "got w1 = got w"
    using f by blast+
  define w2 where "w2 = snd (f_write F dst buf w1)"
  have w2: "left w2 = left w1" "got w2 = got w1 @ buf" using assms by (simp_all add: copies_ok_def w2_def)
  show ?case
  proof (cases "buf = []")
    case True
    then have "copy_loop F src dst w = Some w1" using r(1) by (subst copy_loop.simps) simp
    then show ?thesis using r True by auto
  next
    case False
    then have "copy_loop F src dst w = copy_loop F src dst w2" using r(1) by (subst copy_loop.simps) (simp add: w2_def)
    then show ?thesis using less.hyps [of w2] w2 r False by auto
  qed
qed

text \<open>
  \<open>cp\<close> and \<open>mv\<close> copy: when both files can be opened and the kernel reads and writes as it should, they end
  with status 0 after appending the whole source to the destination, \<open>mv\<close> having removed the source.
  Neither looks at the results of its writes.
\<close>

lemma cp_mv_copy:
  assumes "f_open F (text_of a) w = (src, w1)" "src \<noteq> - 1" "f_creat F (text_of b) w1 = (c, w2)" "f_open F (text_of b) w2 = (dst, w3)" "dst \<noteq> - 1"
    and "copies_ok F src dst left got"
  shows "\<exists>w4. got w4 = got w3 @ left w3 \<and>
    cp_main F [prog, a, b] w = Some (0, [], snd (f_close F dst (snd (f_close F src w4)))) \<and>
    mv_main F [prog, a, b] w = Some (0, [], snd (f_unlink F (text_of a) (snd (f_close F dst (snd (f_close F src w4))))))"
proof -
  obtain w4 where w4: "copy_loop F src dst w3 = Some w4" "got w4 = got w3 @ left w3" using copy_loop_copies [OF assms(6)] by blast
  show ?thesis by (rule exI [of _ w4]) (use w4 assms(1-5) in \<open>simp add: cp_main_def mv_main_def copy_file_def\<close>)
qed

text \<open>\<open>cat\<close> writes the whole file to its standard output.\<close>

lemma cat_copies:
  assumes "f_open F (text_of a) w = (fd, w1)" "fd \<noteq> - 1" "copies_ok F fd 1 left got"
  shows "\<exists>w2. cat_main F [prog, a] w = Some (0, [], snd (f_close F fd w2)) \<and> got w2 = got w1 @ left w1"
proof -
  obtain w2 where w2: "copy_loop F fd 1 w1 = Some w2" "got w2 = got w1 @ left w1" using copy_loop_copies [OF assms(3)] by blast
  show ?thesis by (rule exI [of _ w2]) (use w2 assms(1,2) in \<open>simp add: cat_main_def\<close>)
qed

text \<open>\<open>echo\<close> prints the number of arguments and one line for each, as long as these are short.\<close>

lemma echo_line:
  assumes "terminated a" "length (text_of a) \<le> 200" "i < 2 ^ 31"
  shows "printf (''arg %d: %s'' @ [newline]) [Num (of_nat i), Str a] = Some (''arg '' @ show_base 10 i @ '': '' @ text_of a @ [newline])"
proof -
  let ?ps = "[Lit ''arg '', Dir [] CHR ''d'', Lit '': '', Dir [] CHR ''s'', Lit [newline]]"
  have s: "sint (of_nat i :: u32) = int i" using assms(3) by (simp add: signed_of_nat signed_take_bit_int_eq_self)
  have len: "length (show_base 10 i) \<le> Suc 31" by (rule show_base_length) (use assms(3) in simp_all)
  have "integerprint (of_nat i) 10 0 False False = Some (show_base 10 i)" using integerprint_show [of 10 "of_nat i" 0 False] s by simp
  moreover have "dir_width [] = 0" by code_simp
  ultimately have "print_pieces ?ps [Num (of_nat i), Str a] = Some (''arg '' @ show_base 10 i @ '': '' @ text_of a @ [newline])"
    using stringprint_text [OF assms(1)] by (simp add: convert_def)
  moreover have "\<forall>p \<in> set ?ps. piece_ok p" by simp
  ultimately show ?thesis using printf_pieces_text [of ?ps "[Num (of_nat i), Str a]"] len assms(2) by simp
qed


lemma tester_copies:
  assumes "f_open F ''testsrc.txt'' w = (src, w1)" "src \<noteq> - 1" "f_creat F ''testdest.txt'' w1 = (c, w2)"
    "f_open F ''testdest.txt'' w2 = (dst, w3)" "dst \<noteq> - 1" "copies_ok F src dst left got"
  shows "\<exists>w4. got w4 = got w3 @ left w3 @ replicate BUFSIZE CHR ''a'' \<and>
    tester_main F argv w = Some (0, [], snd (f_close F dst (snd (f_close F src w4))))"
proof -
  obtain w4 where w4: "copy_loop F src dst w3 = Some w4" "got w4 = got w3 @ left w3" using copy_loop_copies [OF assms(6)] by blast
  let ?w = "snd (f_write F dst (replicate BUFSIZE CHR ''a'') w4)"
  have "got ?w = got w4 @ replicate BUFSIZE CHR ''a''" using assms(6) by (simp add: copies_ok_def)
  then show ?thesis using w4 assms(1-5) by (intro exI [of _ ?w]) (simp add: tester_main_def Let_def)
qed

end
