(* ===== verification/BufferTargets.thy ===== *)
theory BufferTargets
  imports TmallocClient TextIO
begin

text \<open>
  The target programs of the buffer-overflow exercise (\<open>cse127/pp1/targets/target1.c\<close> to \<open>target5.c\<close>). A store
  outside an array or a read past the end of an argument is undefined (\<^term>\<open>None\<close>); otherwise a program
  returns its exit status. The theory says exactly for which arguments each program is defined. The fourth
  target is a client of the allocator of \<open>tmalloc.c\<close> that frees a pointer twice. An array on the stack holds
  some bytes before it is written, the parameter \<open>junk\<close>.
\<close>

abbreviation EXIT_FAILURE :: nat where "EXIT_FAILURE \<equiv> 1"

definition store_at :: "string \<Rightarrow> nat \<Rightarrow> char \<Rightarrow> string option" where
  "store_at xs i c = (if i < length xs then Some (xs[i := c]) else None)"

text \<open>The character of a string at an index, the NUL at its end included\<close>

definition char_at :: "string \<Rightarrow> nat \<Rightarrow> char option" where
  "char_at s i = (if i < length s then Some (s ! i) else if i = length s then Some NUL else None)"

section \<open>Target 1: an unbounded copy\<close>

text \<open>\<open>strcpy\<close> of the C library\<close>

fun lib_strcpy :: "string \<Rightarrow> nat \<Rightarrow> string \<Rightarrow> string option" where
  "lib_strcpy out i [] = store_at out i NUL"
| "lib_strcpy out i (c # s) = Option.bind (store_at out i c) (\<lambda>out. lib_strcpy out (Suc i) s)"

definition target1_foo :: "string \<Rightarrow> string \<Rightarrow> string option" where
  "target1_foo junk a = lib_strcpy junk 0 a"

definition target1_main :: "string \<Rightarrow> string list \<Rightarrow> nat option" where
  "target1_main junk argv =
     (if length argv \<noteq> 2 then Some EXIT_FAILURE else Option.bind (target1_foo junk (argv ! 1)) (\<lambda>_. Some 0))"

lemma lib_strcpy_result:
  "lib_strcpy out i s = (if i + length s < length out then Some (take i out @ s @ NUL # drop (Suc (i + length s)) out) else None)"
proof (induction s arbitrary: out i)
  case Nil
  show ?case by (simp add: store_at_def upd_conv_take_nth_drop)
next
  case (Cons c s)
  show ?case
  proof (cases "i < length out")
    case True
    then have "take (Suc i) (out[i := c]) = take i out @ [c]" by (simp add: take_Suc_conv_app_nth)
    with Cons [of "out[i := c]" "Suc i"] True show ?thesis by (simp add: store_at_def)
  qed (simp add: store_at_def)
qed

lemma target1_safe: "length junk = 200 \<Longrightarrow> target1_main junk [p, a] = (if length a \<le> 199 then Some 0 else None)"
  by (auto simp: target1_main_def target1_foo_def lib_strcpy_result)

section \<open>Target 2: a copy that is one too long\<close>

text \<open>The loop of \<open>nstrcpy\<close> from index \<open>i\<close> on, with \<open>k\<close> rounds left\<close>

fun nstrcpy_loop :: "string \<Rightarrow> string \<Rightarrow> nat \<Rightarrow> nat \<Rightarrow> string option" where
  "nstrcpy_loop out inp i 0 = Some out"
| "nstrcpy_loop out inp i (Suc k) = do { c \<leftarrow> char_at inp i; out \<leftarrow> store_at out i c; nstrcpy_loop out inp (Suc i) k }"

definition nstrcpy :: "string \<Rightarrow> int \<Rightarrow> string \<Rightarrow> string option" where
  "nstrcpy out outl inp =
     (let len = sint (of_nat (length inp) :: u32);
          len = (if len > outl then outl else len)
      in nstrcpy_loop out inp 0 (nat (len + 1)))"

definition bar :: "string \<Rightarrow> string \<Rightarrow> string option" where
  "bar junk a = nstrcpy junk 200 a"

definition target2_foo :: "string \<Rightarrow> string \<Rightarrow> string option" where
  "target2_foo junk a = bar junk a"

definition target2_main :: "string \<Rightarrow> string list \<Rightarrow> nat option" where
  "target2_main junk argv =
     (if length argv \<noteq> 2 then Some EXIT_FAILURE else Option.bind (target2_foo junk (argv ! 1)) (\<lambda>_. Some 0))"

lemma nstrcpy_loop_defined:
  "i + k \<le> Suc (length inp) \<Longrightarrow> (\<exists>r. nstrcpy_loop out inp i k = Some r) = (k = 0 \<or> i + k \<le> length out)"
proof (induction k arbitrary: out i)
  case (Suc k)
  obtain c where c: "char_at inp i = Some c" using Suc.prems by (cases "i < length inp") (auto simp: char_at_def)
  show ?case using Suc.IH [of "Suc i" "out[i := c]"] Suc.prems by (auto simp: c store_at_def)
qed simp

lemma sint_length: "n < 2 ^ 31 \<Longrightarrow> sint (of_nat n :: u32) = int n"
  by (simp add: signed_of_nat signed_take_bit_int_eq_self)

text \<open>The terminating byte of an argument of 200 characters or more is stored behind the array.\<close>

lemma target2_safe:
  assumes "length junk = 200" "length a < 2 ^ 31"
  shows "target2_main junk [p, a] = (if length a \<le> 199 then Some 0 else None)"
proof -
  have "(\<exists>r. bar junk a = Some r) = (length a \<le> 199)"
    using nstrcpy_loop_defined [of 0 "Suc (min 200 (length a))" a junk] assms
    by (auto simp: bar_def nstrcpy_def Let_def sint_length min_def nat_add_distrib)
  then show ?thesis by (cases "bar junk a") (auto simp: target2_main_def target2_foo_def)
qed

section \<open>Target 3: a size that wraps around\<close>

text \<open>\<open>strtoul(s, &in, 10)\<close> on a machine with 32-bit \<open>unsigned long\<close>\<close>

definition strtoul :: "string \<Rightarrow> u32 \<times> string" where
  "strtoul s =
     (let (neg, u) = drop_sign (skip_space s)
      in case scan_nat dec_digit 10 u of
           Inl _ \<Rightarrow> (0, s)
         | Inr (n, rest) \<Rightarrow> (if n \<ge> 2 ^ 32 then - 1 else if neg then - of_nat n else of_nat n, rest))"

abbreviation MAX_WIDGETS :: nat where "MAX_WIDGETS \<equiv> 200"
abbreviation sizeof_widget :: nat where "sizeof_widget \<equiv> 28"

definition copy_size :: "int \<Rightarrow> nat" where
  "copy_size count = unat (of_int count * of_nat sizeof_widget :: u32)"

definition target3_foo :: "string \<Rightarrow> string \<Rightarrow> int \<Rightarrow> string option" where
  "target3_foo junk inp count =
     (if count < int MAX_WIDGETS then
        let n = copy_size count; src = inp @ [NUL]
        in if n \<le> length junk \<and> n \<le> length src then Some (take n src @ drop n junk) else None
      else Some junk)"

definition target3_main :: "string \<Rightarrow> string list \<Rightarrow> nat option" where
  "target3_main junk argv =
     (if length argv \<noteq> 2 then Some EXIT_FAILURE
      else
        let (v, inp) = strtoul (argv ! 1); count = sint v
        in case inp of [] \<Rightarrow> Some EXIT_FAILURE
           | c # rest \<Rightarrow> if c \<noteq> CHR '','' then Some EXIT_FAILURE else Option.bind (target3_foo junk rest count) (\<lambda>_. Some 0))"

lemma copy_size_small: "0 \<le> count \<Longrightarrow> count < 200 \<Longrightarrow> copy_size count = 28 * nat count"
proof -
  assume c: "0 \<le> count" "count < 200"
  then have "nat count < 200" by simp
  then have "unat (of_nat (28 * nat count) :: u32) = 28 * nat count" by (intro unat_of_nat_small) simp
  moreover have "of_int count * of_nat sizeof_widget = (of_nat (28 * nat count) :: u32)" using c by simp
  ultimately show ?thesis unfolding copy_size_def by metis
qed

text \<open>A count that is not negative never overflows the array; a negative one passes the test and may.\<close>

lemma target3_count:
  "length junk = 5600 \<Longrightarrow> 0 \<le> count \<Longrightarrow> 28 * count \<le> int (length inp) + 1 \<Longrightarrow> \<exists>b. target3_foo junk inp count = Some b"
  by (cases "count < 200") (auto simp: target3_foo_def copy_size_small Let_def nat_le_iff)

lemma target3_read: "strtoul (''2147483849,'' @ x) = (2147483849, CHR '','' # x)" "copy_size (sint (2147483849 :: u32)) = 5628"
proof -
  have "dec_digit (CHR '','') = None" by code_simp
  then show "strtoul (''2147483849,'' @ x) = (2147483849, CHR '','' # x)"
    by (simp add: strtoul_def skip_space_def isspace_def scan_nat_def dec_digit_def Let_def)
  show "copy_size (sint (2147483849 :: u32)) = 5628" by code_simp
qed

lemma target3_overflow: "length junk = 5600 \<Longrightarrow> target3_main junk [p, ''2147483849,'' @ x] = None"
  using target3_read by (simp add: target3_main_def target3_foo_def Let_def)

section \<open>Target 4: a pointer freed twice\<close>

text \<open>
  The copying loop of \<open>obsd_strlcpy\<close>: where the next byte goes, the index of the next byte of the source and
  how many bytes may still be stored. The source is defined up to its NUL.
\<close>

definition src_byte :: "string \<Rightarrow> nat \<Rightarrow> byte" where
  "src_byte s i = (if i < length s then of_char (s ! i) else 0)"

function lcpy_loop :: "memory \<Rightarrow> u32 \<Rightarrow> string \<Rightarrow> nat \<Rightarrow> u32 \<Rightarrow> memory \<times> u32 \<times> nat \<times> u32" where
  "lcpy_loop m d s i n =
     (let c = src_byte s i; m = m(d := c); d = d + 1; i' = Suc i
      in if c = 0 then (m, d, i', n)
         else let n = n - 1 in if n \<noteq> 0 then lcpy_loop m d s i' n else (m, d, i', n))"
  by pat_completeness auto

termination
proof (relation "measure (\<lambda>(m, d, s, i, n). length s - i)", simp)
  fix m :: memory and d :: u32 and s :: string and i :: nat and n :: u32 and c m' d' i' n'
  assume "c = src_byte s i" "i' = Suc i" "c \<noteq> 0"
  then show "((m', d', s, i', n'), m, d, s, i, n) \<in> measure (\<lambda>(m, d, s, i, n). length s - i)"
    by (auto simp: src_byte_def split: if_splits)
qed

declare lcpy_loop.simps [simp del]

text \<open>\<open>while (*s++);\<close>\<close>

function skip_rest :: "string \<Rightarrow> nat \<Rightarrow> nat" where
  "skip_rest s i = (if src_byte s i \<noteq> 0 then skip_rest s (Suc i) else Suc i)"
  by pat_completeness auto

termination
  by (relation "measure (\<lambda>(s, i). length s - i)") (auto simp: src_byte_def split: if_splits)

declare skip_rest.simps [simp del]

definition obsd_strlcpy :: "u32 \<Rightarrow> string \<Rightarrow> u32 \<Rightarrow> memory \<Rightarrow> memory \<times> nat" where
  "obsd_strlcpy dst s siz m =
     (let (m, d, i, n) = (if siz \<noteq> 0 \<and> siz - 1 \<noteq> 0 then lcpy_loop m dst s 0 (siz - 1)
                          else (m, dst, 0, if siz \<noteq> 0 then siz - 1 else siz))
      in if n = 0 then (if siz \<noteq> 0 then m(d := 0) else m, skip_rest s i - 1) else (m, i - 1))"

definition target4_foo :: "u32 \<Rightarrow> string \<Rightarrow> heap \<Rightarrow> (nat \<times> heap) option" where
  "target4_foo arena a h = do {
     (p, h) \<leftarrow> tmalloc arena 500 h;
     if p = 0 then Some (EXIT_FAILURE, h)
     else do {
       (q, h) \<leftarrow> tmalloc arena 300 h;
       if q = 0 then Some (EXIT_FAILURE, h)
       else do {
         h \<leftarrow> tfree arena p h;
         h \<leftarrow> tfree arena q h;
         (p, h) \<leftarrow> tmalloc arena 1000 h;
         if p = 0 then Some (EXIT_FAILURE, h)
         else do {
           let (m, r) = obsd_strlcpy p a 1000 (h_mem h);
           h \<leftarrow> tfree arena q (h\<lparr>h_mem := m\<rparr>);
           Some (0, h)
         }
       }
     }
   }"

definition target4_main :: "u32 \<Rightarrow> string list \<Rightarrow> nat option" where
  "target4_main arena argv =
     (if length argv \<noteq> 2 then Some EXIT_FAILURE else map_option fst (target4_foo arena (argv ! 1) fresh_heap))"

text \<open>What the loop has stored after \<open>k\<close> bytes\<close>

definition copied :: "u32 \<Rightarrow> string \<Rightarrow> nat \<Rightarrow> memory \<Rightarrow> memory" where
  "copied dst s k m = (\<lambda>a. if unat (a - dst) < k then src_byte s (unat (a - dst)) else m a)"

lemma copied_0 [simp]: "copied dst s 0 m = m"
  by (simp add: copied_def)

lemma offset_iff: "k < 2 ^ 32 \<Longrightarrow> a = dst + of_nat k \<longleftrightarrow> unat (a - dst) = k" for a dst :: u32
proof -
  assume k: "k < 2 ^ 32"
  have u: "unat (of_nat k :: u32) = k" using k by (intro unat_of_nat_small) simp
  have "a = dst + of_nat k \<longleftrightarrow> a - dst = of_nat k" by (auto simp: algebra_simps)
  also have "\<dots> \<longleftrightarrow> unat (a - dst) = k" by (simp add: word_unat_eq_iff u)
  finally show ?thesis .
qed

lemma copied_Suc: "k < 2 ^ 32 \<Longrightarrow> (copied dst s k m)(dst + of_nat k := src_byte s k) = copied dst s (Suc k) m"
  by (rule ext) (auto simp: copied_def less_Suc_eq offset_iff)

lemma src_byte_zero: "NUL \<notin> set s \<Longrightarrow> src_byte s i = 0 \<longleftrightarrow> length s \<le> i"
proof -
  assume s: "NUL \<notin> set s"
  have z: "of_char c = (0 :: byte) \<longleftrightarrow> c = NUL" for c
  proof -
    have "(of_char c :: byte) = of_nat (of_char c)" by (rule of_nat_of_char [symmetric])
    moreover have "(of_char c :: nat) < 2 ^ 8" by simp
    ultimately have "unat (of_char c :: byte) = of_char c" using unat_of_nat_small [of "of_char c", where 'l = 8] by simp
    then have "of_char c = (0 :: byte) \<longleftrightarrow> of_char c = (0 :: nat)" using unat_eq_zero [of "of_char c :: byte"] by simp
    also have "\<dots> \<longleftrightarrow> c = NUL" using of_char_eq_iff [of c NUL, where 'a = nat] by simp
    finally show ?thesis .
  qed
  show ?thesis
  proof (cases "i < length s")
    case True
    then have "s ! i \<noteq> NUL" using s nth_mem [of i s] by metis
    with True show ?thesis by (simp add: src_byte_def z)
  qed (simp add: src_byte_def)
qed

lemma lcpy_loop_result:
  assumes "NUL \<notin> set s" "i \<le> length s" "n \<noteq> 0" "i + unat n < 2 ^ 32"
  shows "lcpy_loop (copied dst s i m) (dst + of_nat i) s i n =
    (if length s < i + unat n then (copied dst s (Suc (length s)) m, dst + of_nat (Suc (length s)), Suc (length s), n - of_nat (length s - i))
     else (copied dst s (i + unat n) m, dst + of_nat (i + unat n), i + unat n, 0))"
  using assms(2-4)
proof (induction "length s - i" arbitrary: i n)
  case 0
  then have i: "i = length s" by simp
  then show ?case using 0 assms(1) copied_Suc [of i dst s m]
    by (subst lcpy_loop.simps) (simp add: src_byte_def Let_def unat_gt_0 algebra_simps)
next
  case (Suc x)
  then have i: "i < length s" by simp
  have c: "src_byte s i \<noteq> 0" using src_byte_zero [OF assms(1)] i by simp
  have step: "(copied dst s i m)(dst + of_nat i := src_byte s i) = copied dst s (Suc i) m" using Suc.prems by (intro copied_Suc) simp
  have un: "unat (n - 1) = unat n - 1" using Suc.prems(2) by (metis unat_minus_one)
  have pos: "0 < unat n" using Suc.prems(2) by (simp add: unat_gt_0)
  show ?case
  proof (cases "n - 1 = 0")
    case True
    then have n: "n = 1" by simp
    show ?thesis using i c step by (subst lcpy_loop.simps) (simp add: n Let_def add.assoc)
  next
    case False
    have "lcpy_loop (copied dst s i m) (dst + of_nat i) s i n = lcpy_loop (copied dst s (Suc i) m) (dst + of_nat (Suc i)) s (Suc i) (n - 1)"
      using False c step by (subst lcpy_loop.simps) (simp add: Let_def ac_simps)
    also have "\<dots> = (if length s < Suc i + unat (n - 1)
        then (copied dst s (Suc (length s)) m, dst + of_nat (Suc (length s)), Suc (length s), n - 1 - of_nat (length s - Suc i))
        else (copied dst s (Suc i + unat (n - 1)) m, dst + of_nat (Suc i + unat (n - 1)), Suc i + unat (n - 1), 0))"
      using Suc.hyps(2) Suc.prems False i pos by (intro Suc.hyps(1)) (simp_all add: un)
    also have "Suc i + unat (n - 1) = i + unat n" using un pos by simp
    also have "n - 1 - of_nat (length s - Suc i) = n - of_nat (length s - i)"
    proof -
      have "length s - i = Suc (length s - Suc i)" using i by simp
      then show ?thesis by simp
    qed
    finally show ?thesis .
  qed
qed

lemma skip_rest_length: "NUL \<notin> set s \<Longrightarrow> i \<le> length s \<Longrightarrow> skip_rest s i = Suc (length s)"
proof (induction s i rule: skip_rest.induct)
  case (1 s i)
  then show ?case using src_byte_zero [of s i] by (subst skip_rest.simps) (auto simp: not_le)
qed

text \<open>The memory after the copy, and the value returned\<close>

lemma strlcpy_result:
  assumes "NUL \<notin> set s"
  shows "obsd_strlcpy dst s siz m =
    (if siz = 0 then m
     else (\<lambda>a. if unat (a - dst) < min (length s) (unat siz - 1) then of_char (s ! unat (a - dst))
               else if unat (a - dst) = min (length s) (unat siz - 1) then 0 else m a),
     length s)"
proof -
  let ?n = "unat siz - 1" and ?k = "min (length s) (unat siz - 1)"
  let ?spec = "\<lambda>a. if unat (a - dst) < ?k then of_char (s ! unat (a - dst)) else if unat (a - dst) = ?k then 0 else m a"
  have cut: "copied dst s (Suc (length s)) m = ?spec" if "length s \<le> ?n"
    using that by (auto simp: copied_def src_byte_def fun_eq_iff)
  have full: "(copied dst s ?n m)(dst + of_nat ?n := 0) = ?spec" if "?n \<le> length s" "siz \<noteq> 0"
  proof
    fix a
    have "?n < 2 ^ 32" using unsigned_less [of siz, where 'a = nat] by simp
    then have "a = dst + of_nat ?n \<longleftrightarrow> unat (a - dst) = ?n" by (rule offset_iff)
    then show "((copied dst s ?n m)(dst + of_nat ?n := 0)) a = ?spec a" using that by (auto simp: copied_def src_byte_def)
  qed
  show ?thesis
  proof (cases "siz = 0 \<or> siz = 1")
    case True
    then show ?thesis using full skip_rest_length [OF assms, of 0] by (auto simp: obsd_strlcpy_def)
  next
    case False
    then have u: "unat (siz - 1) = ?n" by (metis unat_minus_one)
    have nz: "siz - 1 \<noteq> 0" "siz \<noteq> 0" using False by auto
    note loop = lcpy_loop_result [OF assms, of 0 "siz - 1" dst m, simplified u, simplified]
    show ?thesis
    proof (cases "length s < ?n")
      case True
      have "siz - 1 - of_nat (length s) \<noteq> 0"
      proof
        assume "siz - 1 - of_nat (length s) = 0"
        then have "siz - 1 = of_nat (length s)" by simp
        then have "?n = unat (of_nat (length s) :: u32)" using u by simp
        also have "\<dots> \<le> length s" by (simp add: unat_of_nat)
        finally show False using True by simp
      qed
      then show ?thesis using True nz loop cut u unsigned_less [of siz, where 'a = nat] by (simp add: obsd_strlcpy_def)
    next
      case ge: False
      then show ?thesis using nz loop full skip_rest_length [OF assms, of ?n] u unsigned_less [of siz, where 'a = nat] by (simp add: obsd_strlcpy_def)
    qed
  qed
qed

text \<open>
  C30: \<open>obsd_strlcpy\<close> keeps the contract in its comment: nothing is stored outside the \<open>siz\<close> bytes of the destination;
  unless \<open>siz\<close> is 0, the destination then holds a prefix of the source of at most \<open>siz - 1\<close> characters and a NUL behind
  it; the value returned is the length of the source, and it is at least \<open>siz\<close> exactly if characters are missing.
\<close>

theorem strlcpy_contract:
  assumes "NUL \<notin> set s" "obsd_strlcpy dst s siz m = (m', r)"
  shows "r = length s \<and> (\<forall>a. unat siz \<le> unat (a - dst) \<longrightarrow> m' a = m a) \<and>
    (siz \<noteq> 0 \<longrightarrow> (let k = min (length s) (unat siz - 1) in
       m' (dst + of_nat k) = 0 \<and> (\<forall>j < k. m' (dst + of_nat j) = of_char (s ! j)) \<and> (unat siz \<le> r \<longleftrightarrow> k < length s)))"
proof -
  have u: "unat (of_nat j :: u32) = j" if "j < unat siz" for j
    using that unsigned_less [of siz, where 'a = nat] by (intro unat_of_nat_small) simp
  let ?k = "min (length s) (unat siz - 1)"
  have "unat siz \<noteq> 0" if "siz \<noteq> 0" using that by (simp add: unat_eq_zero)
  then have "siz \<noteq> 0 \<Longrightarrow> ?k < unat siz" by (auto simp: min_def)
  then show ?thesis
    using assms(2) u unfolding strlcpy_result [OF assms(1)] by (auto simp: Let_def split: if_splits)
qed

theorem strlcpy_contract_witness:
  "\<exists>m' r. obsd_strlcpy 0x8000 ''over'' 3 (\<lambda>_. 7) = (m', r) \<and> r = 4 \<and> (\<forall>a. unat (3 :: u32) \<le> unat (a - 0x8000) \<longrightarrow> m' a = 7)"
proof -
  obtain m' r where o: "obsd_strlcpy 0x8000 ''over'' 3 (\<lambda>_. 7) = (m', r)" by force
  have "NUL \<notin> set ''over''" by simp
  from strlcpy_contract [OF this o] o show ?thesis by auto
qed

text \<open>Freeing a chunk between two free ones, whatever the rest of the arena looks like\<close>

lemma tfree_between:
  assumes "arena_ok A" "distinct [i, p, j, k]" "i < 8192" "p < 8191" "j < 8192" "k < 8192"
    "left_of A h p = chunk_at A i" "right_of A h p = chunk_at A j" "x < 8192" "right_of A h i = tagged (chunk_at A x) True"
    "right_of A h j = tagged (chunk_at A k) True"
  shows "\<exists>h'. tfree A (chunk_at A (Suc p)) h = Some h' \<and> h_bot h' = h_bot h \<and>
    left_of A h' p = chunk_at A i \<and> right_of A h' p = chunk_at A j \<and> right_of A h' j = tagged (chunk_at A k) True \<and>
    left_of A h' i = left_of A h i \<and> right_of A h' i = tagged (chunk_at A k) True \<and>
    left_of A h' k = chunk_at A i \<and> right_of A h' k = right_of A h k"
proof -
  have p: "p < 8192" using assms(4) by simp
  show ?thesis
    using assms p by (simp add: tfree_eq join_left_def join_right_def tfree_right_def)
qed

text \<open>The blocks of the arena when the pointer is freed for the second time\<close>

lemma target4_before:
  assumes "arena_ok A" "NUL \<notin> set a"
  shows "\<exists>h. represents A h [(8065, True), (126, False)] \<and>
    left_of A h 8088 = A \<and> right_of A h 8088 = chunk_at A 8127 \<and> right_of A h 8127 = tagged (chunk_at A 8191) True \<and>
    target4_foo A a fresh_heap =
      map_option (Pair 0) (tfree A (chunk_at A 8089) (h\<lparr>h_mem := fst (obsd_strlcpy (chunk_at A 8066) a 1000 (h_mem h))\<rparr>))"
proof -
  have nz: "chunk_at A i \<noteq> 0" if "i < 8192" for i using chunk_at_facts(2) [OF assms(1) that] .
  obtain h1 where h1: "tmalloc A 500 fresh_heap = Some (chunk_at A 8128, h1)" "represents A h1 [(8127, True), (64, False)]"
    using tmalloc_refines_gen [OF fresh_represents [OF assms(1)] request_size_units, of 500] by auto
  obtain h2 where h2: "tmalloc A 300 h1 = Some (chunk_at A 8089, h2)" "represents A h2 [(8088, True), (39, False), (64, False)]"
    using tmalloc_refines_gen [OF h1(2) request_size_units, of 300] by auto
  obtain h3 where h3: "tfree A (chunk_at A 8128) h2 = Some h3" "represents A h3 [(8088, True), (39, False), (64, True)]"
    using tfree_refines_gen [OF h2(2), of 8127 64] by auto
  obtain h4 where h4: "tfree A (chunk_at A 8089) h3 = Some h4" "represents A h4 [(8191, True)]"
    using tfree_refines_gen [OF h3(2), of 8088 39] by auto
  have "linked A h3 0 0 [(8088, True), (39, False), (64, True)]" using h3(2) by (auto simp: represents_def split: if_splits)
  then have s4: "left_of A h4 8088 = A" "right_of A h4 8088 = chunk_at A 8127" "right_of A h4 8127 = tagged (chunk_at A 8191) True" "h_bot h4 = h_bot h3"
    using tfree_between [OF assms(1), of 0 8088 8127 8191 h3 8088] h4(1) by auto
  have b: "h_bot h4 = A" using s4(4) h3(2) by (auto simp: represents_def split: if_splits)
  then have l4: "linked A h4 0 0 [(8191, True)]" using h4(2) assms(1) by (auto simp: represents_def arena_ok_def split: if_splits)
  obtain h5 where h5: "tmalloc A 1000 h4 = Some (chunk_at A 8066, h5)" "linked A h5 0 0 [(8065, True), (126, False)]" "only_headers A {0, 8065, 8191} h4 h5"
    using tmalloc_ready [OF assms(1) b l4 request_size_units, of 1000] by auto
  have r5: "represents A h5 [(8065, True), (126, False)]"
    using tmalloc_refines_gen [OF h4(2) request_size_units, of 1000] h5(1) by auto
  have "left_of A h5 8088 = A" "right_of A h5 8088 = chunk_at A 8127" "right_of A h5 8127 = tagged (chunk_at A 8191) True"
    using only_headers_other [OF h5(3), of 8088] only_headers_other [OF h5(3), of 8127] s4 by simp_all
  moreover have "target4_foo A a fresh_heap =
      map_option (Pair 0) (tfree A (chunk_at A 8089) (h5\<lparr>h_mem := fst (obsd_strlcpy (chunk_at A 8066) a 1000 (h_mem h5))\<rparr>))"
    using nz [of 8128] nz [of 8089] nz [of 8066]
    by (simp add: target4_foo_def h1 h2 h3 h4 h5 split_def map_option_case split: option.splits)
  ultimately show ?thesis using r5 by blast
qed

lemma header_offset:
  assumes "8066 \<le> j" "j < 8192" "b < 8"
  shows "unat (chunk_at A j + of_nat b - chunk_at A 8066) = 8 * (j - 8066) + b"
proof -
  have "chunk_at A j + of_nat b - chunk_at A 8066 = of_nat (8 * (j - 8066) + b)" using assms(1) by (simp add: chunk_at_def of_nat_diff)
  then show ?thesis using assms unat_of_nat_small [of "8 * (j - 8066) + b", where 'l = 32] by (simp del: of_nat_add of_nat_mult)
qed

text \<open>A text at the start of \<open>p\<close> that ends before the header of \<open>q\<close> leaves the stale headers inside \<open>p\<close> alone.\<close>

lemma short_text_header:
  assumes "NUL \<notin> set a" "length a < 176" "j \<in> {8088, 8127}"
  shows "left_of A (h\<lparr>h_mem := fst (obsd_strlcpy (chunk_at A 8066) a 1000 (h_mem h))\<rparr>) j = left_of A h j"
    "right_of A (h\<lparr>h_mem := fst (obsd_strlcpy (chunk_at A 8066) a 1000 (h_mem h))\<rparr>) j = right_of A h j"
proof -
  have e: "fst (obsd_strlcpy (chunk_at A 8066) a 1000 (h_mem h)) (chunk_at A j + of_nat b) = h_mem h (chunk_at A j + of_nat b)" if "b < 8" for b
    using header_offset [of j b A] that assms(2,3) unfolding strlcpy_result [OF assms(1)] by auto
  show "left_of A (h\<lparr>h_mem := fst (obsd_strlcpy (chunk_at A 8066) a 1000 (h_mem h))\<rparr>) j = left_of A h j"
    "right_of A (h\<lparr>h_mem := fst (obsd_strlcpy (chunk_at A 8066) a 1000 (h_mem h))\<rparr>) j = right_of A h j"
    using e [of 0] e [of 1] e [of 2] e [of 3] e [of 4] e [of 5] e [of 6] e [of 7]
    by (simp_all add: left_of_def right_of_def load32_def add.assoc)
qed

text \<open>
  Even a short argument does harm: the stale header of \<open>q\<close> makes the second \<open>tfree(q)\<close> mark the whole arena as
  free, the block \<open>p\<close> that is still in use included.
\<close>

lemma target4_short:
  assumes "arena_ok A" "NUL \<notin> set a" "length a < 176"
  shows "\<exists>h. target4_foo A a fresh_heap = Some (0, h) \<and> represents A h [(8191, True)]"
proof -
  obtain h where h: "represents A h [(8065, True), (126, False)]" "left_of A h 8088 = A" "right_of A h 8088 = chunk_at A 8127"
    "right_of A h 8127 = tagged (chunk_at A 8191) True"
    "target4_foo A a fresh_heap =
      map_option (Pair 0) (tfree A (chunk_at A 8089) (h\<lparr>h_mem := fst (obsd_strlcpy (chunk_at A 8066) a 1000 (h_mem h))\<rparr>))"
    using target4_before [OF assms(1,2)] by blast
  define g where "g = h\<lparr>h_mem := fst (obsd_strlcpy (chunk_at A 8066) a 1000 (h_mem h))\<rparr>"
  have "\<forall>x. \<not> in_payload A 8065 126 x \<longrightarrow> fst (obsd_strlcpy (chunk_at A 8066) a 1000 (h_mem h)) x = h_mem h x"
    using assms(3) payload_at [of _ A 8065 126] unfolding strlcpy_result [OF assms(2)] by auto
  then have "represents A g [(8065, True), (126, False)]"
    unfolding g_def by (intro payload_write [OF h(1)]) auto
  then have g: "linked A g 0 0 [(8065, True), (126, False)]" "h_bot g = A" by (auto simp: represents_def split: if_splits)
  have "left_of A g 8088 = A" "right_of A g 8088 = chunk_at A 8127" "right_of A g 8127 = tagged (chunk_at A 8191) True"
    using short_text_header [OF assms(2,3), of 8088 A h] short_text_header [OF assms(2,3), of 8127 A h] h(2-4) unfolding g_def by simp_all
  then obtain h' where h': "tfree A (chunk_at A 8089) g = Some h'" "h_bot h' = A" "linked A h' 0 0 [(8191, True)]"
    using tfree_between [OF assms(1), of 0 8088 8127 8191 g 8065] g by auto
  then have "represents A h' [(8191, True)]" using assms(1) by (simp add: represents_def arena_ok_def)
  then show ?thesis using h'(1) h(5) unfolding g_def by simp
qed
text \<open>
  C31: The second \<open>tfree(q)\<close> of the fourth target takes its header from the argument of the program. When it is
  called, the arena consists of a free chunk and the block \<open>p\<close> of 126 units; the header of \<open>q\<close> is none of theirs but
  lies inside \<open>p\<close>, and its eight bytes are the characters 176 to 183 of the argument. If the first four of them
  form a pointer out of the arena, following it is undefined.
\<close>

theorem target4_double_free:
  assumes "arena_ok A" "NUL \<notin> set a" "184 \<le> length a" "length a \<le> 999"
  shows "\<exists>h m. represents A h [(8065, True), (126, False)] \<and> m = fst (obsd_strlcpy (chunk_at A 8066) a 1000 (h_mem h)) \<and>
    target4_foo A a fresh_heap = map_option (Pair 0) (tfree A (chunk_at A 8089) (h\<lparr>h_mem := m\<rparr>)) \<and>
    (\<forall>k < 8. in_payload A 8065 126 (TOCHUNK (chunk_at A 8089) + of_nat k) \<and> m (TOCHUNK (chunk_at A 8089) + of_nat k) = of_char (a ! (176 + k))) \<and>
    (load32 m (TOCHUNK (chunk_at A 8089)) \<noteq> 0 \<and> \<not> deref_ok A (load32 m (TOCHUNK (chunk_at A 8089))) \<longrightarrow> target4_foo A a fresh_heap = None)"
proof -
  obtain h where h: "represents A h [(8065, True), (126, False)]"
    "target4_foo A a fresh_heap =
      map_option (Pair 0) (tfree A (chunk_at A 8089) (h\<lparr>h_mem := fst (obsd_strlcpy (chunk_at A 8066) a 1000 (h_mem h))\<rparr>))"
    using target4_before [OF assms(1,2)] by blast
  define m where "m = fst (obsd_strlcpy (chunk_at A 8066) a 1000 (h_mem h))"
  have q: "TOCHUNK (chunk_at A 8089) = chunk_at A 8088" using FROMCHUNK_at(2) [of A 8088] by simp
  have bytes: "m (chunk_at A 8088 + of_nat k) = of_char (a ! (176 + k))" if "k < 8" for k
    using that assms(3,4) unfolding m_def strlcpy_result [OF assms(2)] by (simp add: header_offset)
  have inside: "in_payload A 8065 126 (chunk_at A 8088 + of_nat k)" if "k < 8" for k
    using that by (intro payload_at) (simp_all add: header_offset)
  have "tfree A (chunk_at A 8089) (h\<lparr>h_mem := m\<rparr>) = None"
    if "load32 m (chunk_at A 8088) \<noteq> 0" "\<not> deref_ok A (load32 m (chunk_at A 8088))"
  proof -
    let ?h = "h\<lparr>h_mem := m\<rparr>"
    have l: "left_of A (put_right A 8088 v ?h) 8088 = load32 m (chunk_at A 8088)" for v
      by (subst header_laws(4)) (simp_all add: left_of_def)
    show ?thesis using that assms(1) l
      by (simp add: tfree_def q header_ops free_chunk_def GET_FREEBIT_def get_r_def)
  qed
  then show ?thesis using h m_def q bytes inside by auto
qed

theorem target4_double_free_witness: "target4_foo 0x8000 (replicate 200 CHR ''A'') fresh_heap = None"
proof -
  let ?q = "TOCHUNK (chunk_at 0x8000 8089)"
  obtain h m where m: "\<forall>k < 8. m (?q + of_nat k) = of_char (replicate 200 CHR ''A'' ! (176 + k))"
      "load32 m ?q \<noteq> 0 \<and> \<not> deref_ok 0x8000 (load32 m ?q) \<longrightarrow> target4_foo 0x8000 (replicate 200 CHR ''A'') fresh_heap = None"
    using target4_double_free [OF demo_arena, of "replicate 200 CHR ''A''"] by auto
  have "m (?q + of_nat k) = 0x41" if "k < 4" for k using m(1) that by simp
  from this [of 0] this [of 1] this [of 2] this [of 3] have "load32 m ?q = 0x41414141" by (simp add: load32_def)
  with m(2) show ?thesis by (simp add: deref_ok_def)
qed

section \<open>Target 5: the argument as a format\<close>

text \<open>
  The text \<open>snprintf\<close> makes of a format when there are no further arguments: every conversion except for
  a doubled percent sign would read an argument that was never passed.
\<close>

fun format_alone :: "string \<Rightarrow> string option" where
  "format_alone [] = Some []"
| "format_alone [c] = (if c = CHR ''%'' then None else Some [c])"
| "format_alone (c # d # s) =
     (if c = CHR ''%'' then (if d = CHR ''%'' then map_option ((#) c) (format_alone s) else None)
      else map_option ((#) c) (format_alone (d # s)))"

definition target5_foo :: "string \<Rightarrow> string \<Rightarrow> string option" where
  "target5_foo junk a = map_option (\<lambda>t. take 199 t @ NUL # drop (Suc (length (take 199 t))) junk) (format_alone a)"

definition target5_main :: "string \<Rightarrow> string list \<Rightarrow> nat option" where
  "target5_main junk argv =
     (if length argv \<noteq> 2 then Some EXIT_FAILURE else Option.bind (target5_foo junk (argv ! 1)) (\<lambda>_. Some 0))"

lemma format_alone_plain: "CHR ''%'' \<notin> set s \<Longrightarrow> format_alone s = Some s"
  by (induction s rule: format_alone.induct) auto

lemma target5_safe: "CHR ''%'' \<notin> set a \<Longrightarrow> target5_main junk [p, a] = Some 0"
  by (simp add: target5_main_def target5_foo_def format_alone_plain)

lemma target5_bounded: "length junk = 200 \<Longrightarrow> target5_foo junk a = Some b \<Longrightarrow> length b = 200"
  by (auto simp: target5_foo_def)

end
