(* ===== verification/AdventureWorld.thy ===== *)
theory AdventureWorld
  imports TextIO
begin

text \<open>
  The text adventure (\<open>CS61C/Proj1/release\<close>): its data (\<open>level.h\<close>, \<open>game.h\<close>, \<open>globals.c\<close>, \<open>monsters.h\<close>), the
  utilities of \<open>util.c\<close>, and the players, experience and monsters of \<open>game.c\<close> and \<open>monsters.c\<close>. A pointer
  to a room is an index into \<open>room_array\<close>, \<open>NULL\<close> is \<^term>\<open>None\<close>. A command returns on a state, or the program
  stops: by \<open>exit\<close>, by a failed assertion, by undefined behaviour, in a loop that never ends, or for want
  of input where the source would read its uninitialised buffer.
\<close>

unbundle bit_operations_syntax

abbreviation tab :: char where "tab \<equiv> CHR 0x09"

section \<open>Utilities\<close>

fun member_of :: "char \<Rightarrow> string \<Rightarrow> bool" where
  "member_of c [] = False"
| "member_of c (d # s) = (if d = c then True else member_of c s)"

lemma member_of_iff: "member_of c s \<longleftrightarrow> c \<in> set s"
  by (induction s) auto

text \<open>
  The character that ends the run is pushed back. Byte 255 is \<open>EOF\<close> after the conversion to \<open>char\<close>, and
  \<open>ungetc\<close> does not push that back.
\<close>

fun skip_characters :: "string \<Rightarrow> string \<Rightarrow> string" where
  "skip_characters [] skip_list = []"
| "skip_characters (c # s) skip_list =
     (if member_of c skip_list then skip_characters s skip_list else if c = CHR 0xFF then s else c # s)"

function strtok_all :: "string \<Rightarrow> string \<Rightarrow> string list" where
  "strtok_all delims s = (case strtok delims s of None \<Rightarrow> [] | Some (tok, rest) \<Rightarrow> tok # strtok_all delims rest)"
  by pat_completeness auto

termination
  by (relation "measure (\<lambda>(_, s). length s)") (auto simp: strtok_shorter)

declare strtok_all.simps [simp del]

text \<open>
  The words stored in \<open>argv\<close> and the number returned; with no word at all \<open>argv[0]\<close> is \<open>NULL\<close> and the number
  is still 1.
\<close>

definition tokenizer :: "string \<Rightarrow> string \<Rightarrow> string list \<times> nat" where
  "tokenizer s delims = (let ws = strtok_all delims s in (ws, if ws = [] then 1 else length ws))"

definition whitespace_chars :: string where
  "whitespace_chars = [CHR '' '', tab, newline]"

section \<open>Data\<close>

datatype direction = NORTH | SOUTH | EAST | WEST | UP | DOWN

fun dir_num :: "direction \<Rightarrow> nat" where
  "dir_num NORTH = 0"
| "dir_num SOUTH = 1"
| "dir_num EAST = 2"
| "dir_num WEST = 3"
| "dir_num UP = 4"
| "dir_num DOWN = 5"

abbreviation NUM_DIRECTIONS :: nat where "NUM_DIRECTIONS \<equiv> 6"

definition direction_names :: "string list" where
  "direction_names = [''north'', ''south'', ''east'', ''west'', ''up'', ''down'']"

definition flip_direction :: "nat \<Rightarrow> nat" where
  "flip_direction original = original XOR 1"

record monster =
  m_name :: string
  m_attack :: string
  m_level :: u32
  m_hp :: int
  m_damage :: u32
  m_exp :: u32
  m_frequency :: u32
  m_description :: string

text \<open>The structs \<open>mob_t\<close> and \<open>mob_iterator_t\<close> have no members; an iterator is a pointer.\<close>

type_synonym mob_t = unit
type_synonym mob_iterator = "unit option"

record exit_t =
  dest :: "nat option"
  locked :: bool

text \<open>The functions of a puzzle are known by the number in their names \<open>desc\<close>\emph{n} and \<open>solve\<close>\emph{n}.\<close>

record room =
  room_id :: int
  description :: "string option"
  mob :: mob_t
  exits :: "exit_t list"
  description_fxn :: "nat option"
  interact_fxn :: "nat option"

record player =
  current_room :: nat
  experience :: u32
  level :: u32
  hp :: int
  max_hp :: int

text \<open>
  The globals of the program, the statics of \<open>tick_world\<close>, what was printed (the last call first), what is
  left of the standard input, and the results of \<open>rand\<close> with the number of calls so far. \<open>num_rooms\<close> is the length of
  \<open>room_array\<close>, \<open>num_piles\<close> that of \<open>board\<close>.
\<close>

record game =
  room_array :: "room list"
  the_player :: player
  solved_puzzles :: "bool list"
  cardkey :: int
  bytes_taken :: int
  board :: "int list"
  world_time :: int
  last_attack_time :: int
  last_spawn_time :: int
  stdout_text :: "string list"
  stdin_text :: string
  rands :: "nat \<Rightarrow> nat"
  drawn :: nat

datatype stop = Exit nat | Abort | Undefined | Endless | No_input

datatype 'a run = Ok 'a game | Stop stop game

definition andthen :: "'a run \<Rightarrow> ('a \<Rightarrow> game \<Rightarrow> 'b run) \<Rightarrow> 'b run" where
  "andthen r k = (case r of Ok x g \<Rightarrow> k x g | Stop e g \<Rightarrow> Stop e g)"

lemma andthen_simps [simp]: "andthen (Ok x g) k = k x g" "andthen (Stop e g) k = Stop e g"
  by (simp_all add: andthen_def)

text \<open>A value that is missing where the source follows a pointer or overflows is undefined behaviour.\<close>

definition need :: "'a option \<Rightarrow> game \<Rightarrow> 'a run" where
  "need v g = (case v of Some x \<Rightarrow> Ok x g | None \<Rightarrow> Stop Undefined g)"

lemma need_simps [simp]: "need (Some x) g = Ok x g" "need None g = Stop Undefined g"
  by (simp_all add: need_def)

definition in_int :: "int \<Rightarrow> int option" where
  "in_int v = (if - (2 ^ 31) \<le> v \<and> v < 2 ^ 31 then Some v else None)"

definition say :: "string \<Rightarrow> game \<Rightarrow> game" where
  "say s g = g\<lparr>stdout_text := s # stdout_text g\<rparr>"

definition say_line :: "string \<Rightarrow> game \<Rightarrow> game" where
  "say_line s g = say (s @ [newline]) g"

text \<open>\<open>fgets(buf, 256, stdin)\<close> inside a command\<close>

definition read_line :: "game \<Rightarrow> string run" where
  "read_line g =
     (if stdin_text g = [] then Stop No_input g
      else let (l, rest) = fgets 256 (stdin_text g) in Ok (cstr l) (g\<lparr>stdin_text := rest\<rparr>))"

definition c_rand :: "game \<Rightarrow> nat \<times> game" where
  "c_rand g = (rands g (drawn g), g\<lparr>drawn := Suc (drawn g)\<rparr>)"

definition cur :: "game \<Rightarrow> room" where
  "cur g = room_array g ! current_room (the_player g)"

definition unlock :: "direction \<Rightarrow> game \<Rightarrow> game" where
  "unlock d g =
     (let i = current_room (the_player g); r = cur g; k = dir_num d
      in g\<lparr>room_array := (room_array g)[i := r\<lparr>exits := (exits r)[k := (exits r ! k)\<lparr>locked := False\<rparr>]\<rparr>]\<rparr>)"

section \<open>Monsters\<close>

definition monsters :: "monster list" where
  "monsters =
     [\<lparr>m_name = ''goblin'', m_attack = ''bite'', m_level = 1, m_hp = 2, m_damage = 1, m_exp = 4, m_frequency = 1,
       m_description = ''mean spirited goblin''\<rparr>,
      \<lparr>m_name = ''donkey'', m_attack = ''kick'', m_level = 2, m_hp = 5, m_damage = 3, m_exp = 15, m_frequency = 1,
       m_description = ''small brown donkey''\<rparr>,
      \<lparr>m_name = ''squirrel'', m_attack = ''gnaw'', m_level = 3, m_hp = 13, m_damage = 5, m_exp = 45, m_frequency = 1,
       m_description = ''a grotesque, irradiated squirrel''\<rparr>]"

text \<open>The functions left empty in the source: no mob ever holds a monster.\<close>

definition num_monsters :: "mob_t \<Rightarrow> int" where
  "num_monsters m = 0"

definition find_monster :: "mob_t \<Rightarrow> string \<Rightarrow> monster option" where
  "find_monster m name = None"

definition spawn_new_monster :: "mob_t \<Rightarrow> mob_t" where
  "spawn_new_monster m = m"

definition append_monster :: "mob_t \<Rightarrow> monster \<Rightarrow> mob_t" where
  "append_monster m x = m"

definition delete_monster :: "mob_t \<Rightarrow> monster \<Rightarrow> mob_t" where
  "delete_monster m x = m"

definition make_mob_iterator :: "mob_t \<Rightarrow> mob_iterator" where
  "make_mob_iterator m = None"

definition next_monster :: "mob_iterator \<Rightarrow> monster option" where
  "next_monster it = None"

definition delete_mob_iterator :: "mob_iterator \<Rightarrow> mob_iterator" where
  "delete_mob_iterator it = it"

function print_loop :: "mob_iterator \<Rightarrow> string" where
  "print_loop it =
     (case next_monster it of None \<Rightarrow> []
      | Some m \<Rightarrow> [tab] @ ''a '' @ m_description m @ [newline] @ print_loop it)"
  by pat_completeness auto

termination
  by (relation "{}") (simp_all add: next_monster_def)

declare print_loop.simps [simp del]

definition print_monsters :: "mob_t \<Rightarrow> game \<Rightarrow> game" where
  "print_monsters m g =
     (let n = num_monsters m; it = make_mob_iterator m
      in say (''There '' @ (if n > 1 then ''are'' else ''is'') @ '' '' @ show_int (num_monsters m) @ '' monster'' @
          (if n > 1 then ''s'' else []) @ '' here:'' @ [newline] @ print_loop it) g)"

section \<open>Levels and spells\<close>

datatype spell_fxn = Fireball

definition level_table :: "(u32 \<times> string \<times> spell_fxn option) list" where
  "level_table =
     [(0, [], None), (10, ''fireball'', Some Fireball), (25, [], None), (45, [], None), (70, [], None),
      (100, [], None), (135, [], None), (175, [], None), (220, [], None), (270, [], None)]"

definition get_level :: "u32 \<Rightarrow> u32" where
  "get_level xp =
     (case find_first (\<lambda>i. xp < fst (level_table ! i)) (length level_table) of
        Some i \<Rightarrow> of_nat i | None \<Rightarrow> of_nat (length level_table))"

definition get_spell_level :: "string \<Rightarrow> game \<Rightarrow> u32 run" where
  "get_spell_level name g = Stop Abort g"

definition get_spell :: "string \<Rightarrow> spell_fxn option" where
  "get_spell name = None"

text \<open>The loop of \<open>gain_experience\<close>: one level after the other, each with 10 more hit points.\<close>

function level_up :: "u32 \<Rightarrow> game \<Rightarrow> game" where
  "level_up new_level g =
     (if level (the_player g) < new_level then
        let p = the_player g; l = level p + 1; h = max_hp p + 10
        in level_up new_level (say_line (''You are now level '' @ show_int (uint l) @ ''!'')
             (g\<lparr>the_player := p\<lparr>level := l, max_hp := h, hp := h\<rparr>\<rparr>))
      else g)"
  by pat_completeness auto

termination
proof (relation "measure (\<lambda>(n, g). unat n - unat (level (the_player g)))", simp)
  fix new_level :: u32 and g :: game and p l h
  assume a: "level (the_player g) < new_level" "p = the_player g" "l = level p + 1"
  have "unat (level p + 1) = unat (level p) + 1"
    using a unsigned_less [of new_level, where 'a = nat] by (simp add: word_less_nat_alt unat_word_ariths)
  then show "((new_level, say_line (''You are now level '' @ show_int (uint l) @ ''!'')
      (g\<lparr>the_player := p\<lparr>level := l, max_hp := h, hp := h\<rparr>\<rparr>)), (new_level, g))
    \<in> measure (\<lambda>(n, g). unat n - unat (level (the_player g)))"
    using a by (simp add: say_line_def say_def word_less_nat_alt)
qed

declare level_up.simps [simp del]

definition gain_experience :: "u32 \<Rightarrow> game \<Rightarrow> game" where
  "gain_experience amount g =
     (let new_exp = experience (the_player g) + amount; new_level = get_level new_exp;
          g = level_up new_level g
      in g\<lparr>the_player := (the_player g)\<lparr>experience := new_exp\<rparr>\<rparr>)"

definition damage :: "monster \<Rightarrow> int \<Rightarrow> game \<Rightarrow> monster run" where
  "damage target damage_amount g =
     andthen (need (in_int (m_hp target - damage_amount)) g) (\<lambda>h g.
       let target = target\<lparr>m_hp := h\<rparr>
       in if h \<le> 0 then
            let g = say_line (''you killed the '' @ m_name target @ '' and gained '' @ show_int (sint (m_exp target)) @ '' experience!'') g;
                g = gain_experience (m_exp target) g;
                i = current_room (the_player g)
            in Ok target (g\<lparr>room_array := (room_array g)[i := (cur g)\<lparr>mob := delete_monster (mob (cur g)) target\<rparr>]\<rparr>)
          else Ok target g)"

text \<open>An element of \<open>argv\<close>; past the words that were stored it is indeterminate.\<close>

definition argv_at :: "string list \<Rightarrow> nat \<Rightarrow> string option" where
  "argv_at argv i = (if i < length argv then Some (argv ! i) else None)"

definition fireball :: "string list \<Rightarrow> game \<Rightarrow> int run" where
  "fireball argv g =
     (if length argv = 1 then Ok 0 (say_line ''Please specify a monster to torch.'' g)
      else andthen (need (argv_at argv 1) g) (\<lambda>a1 g.
        let target_name = (if length argv > 2 \<and> a1 = ''at'' then argv ! 2 else a1)
        in case find_monster (mob (cur g)) target_name of
             None \<Rightarrow> Ok 0 (say_line (''There's no '' @ a1 @ '' here...'') g)
           | Some target \<Rightarrow>
               let damage_amount = sint (level (the_player g) * 2)
               in andthen (damage target damage_amount (say_line (''A fireball forms at your fingertips. You hurl it across room at the '' @
                    m_name target @ '', doing '' @ show_int damage_amount @ '' damage.'') g)) (\<lambda>_ g. Ok 40 g)))"

end
