(* ===== verification/AdventureNim.thy ===== *)
theory AdventureNim
  imports AdventureWorld
begin

text \<open>
  The game of Nim against the monster of room 24 (\<open>indicator\<close>, \<open>flat_solver\<close>, \<open>print_board\<close> of \<open>puzzles.c\<close> and the
  moves of the monster in \<open>solve24\<close>). The indicator is the exclusive or of the piles; on piles that are
  not negative a move to indicator 0 exists exactly when the indicator is not 0, and \<open>flat_solver\<close> prints
  exactly these moves. The monster searches with the same test but does not put the stones back
  between its trials.
\<close>

section \<open>The board\<close>

definition indicator :: "int list \<Rightarrow> int" where
  "indicator piles = foldl (\<lambda>acc x. acc XOR x) 0 piles"

lemma list_update_back: "xs[i := xs[i := xs ! i - c] ! i + c] = (xs :: int list)"
  by (cases "i < length xs") (simp_all add: list_update_beyond)

text \<open>The inner loop of \<open>flat_solver\<close>: the pile is lowered, tested and restored.\<close>

function flat_inner :: "int list \<Rightarrow> nat \<Rightarrow> nat \<Rightarrow> int list \<times> (int \<times> int) list" where
  "flat_inner piles i j =
     (if int j \<le> piles ! i then
        let lower = piles[i := piles ! i - int j]; nimber = indicator lower;
            again = lower[i := lower ! i + int j];
            (end, ms) = flat_inner again i (Suc j)
        in (end, (if nimber = 0 then [(int j, again ! i)] else []) @ ms)
      else (piles, []))"
  by pat_completeness auto

termination
  by (relation "measure (\<lambda>(piles, i, j). nat (piles ! i + 1 - int j))") (auto simp: list_update_back)

declare flat_inner.simps [simp del]

fun flat_outer :: "nat \<Rightarrow> nat \<Rightarrow> int list \<Rightarrow> int list \<times> (int \<times> int) list" where
  "flat_outer i 0 piles = (piles, [])"
| "flat_outer i (Suc k) piles =
     (let (piles, ms) = flat_inner piles i 1; (piles, ns) = flat_outer (Suc i) k piles in (piles, ms @ ns))"

text \<open>The result, the board afterwards and the moves printed: how many stones, from a pile of which height.\<close>

definition flat_solver :: "int list \<Rightarrow> bool \<times> int list \<times> (int \<times> int) list" where
  "flat_solver piles =
     (let win = indicator piles \<noteq> 0
      in if win then (win, flat_outer 0 (length piles) piles) else (win, piles, []))"

definition flat_text :: "(int \<times> int) list \<Rightarrow> string" where
  "flat_text ms = concat (map (\<lambda>(j, h). (''winning move: remove '' @ show_int j @ '' from the '' @ show_int h @ '' pile'' @ [newline])) ms)"

section \<open>Printing the board\<close>

definition board_row :: "int list \<Rightarrow> int \<Rightarrow> string" where
  "board_row piles i = [tab] @ concat (map (\<lambda>b. '' '' @ [if i \<le> b then CHR ''*'' else CHR '' ''] @ ''    '') piles) @ [newline]"

definition highest :: "int list \<Rightarrow> int" where
  "highest piles = foldl (\<lambda>m b. if b > m then b else m) 0 piles"

definition print_board :: "int list \<Rightarrow> string" where
  "print_board piles =
     concat (map (\<lambda>i. board_row piles (int i)) (rev [1..<Suc (nat (highest piles))])) @ [tab] @
     concat (map (\<lambda>(i, b). show_int (int i) @ '':'' @ show_int b @ (if b > 9 then ''  '' else ''   '')) (enumerate 0 piles)) @ [newline]"

section \<open>The moves of the monster\<close>

text \<open>The search of \<open>solve24\<close>: the pile is lowered by 1, then by 2 more, and so on, until the indicator is 0.\<close>

function monster_inner :: "int list \<Rightarrow> nat \<Rightarrow> nat \<Rightarrow> bool \<times> int list" where
  "monster_inner piles i j =
     (if int j \<le> piles ! i then
        let lower = piles[i := piles ! i - int j]
        in if indicator lower = 0 then (True, lower) else monster_inner lower i (Suc j)
      else (False, piles))"
  by pat_completeness auto

termination
proof (relation "measure (\<lambda>(piles, i, j). nat (piles ! i + 1 - int j))", simp)
  fix piles :: "int list" and i j x
  assume "int j \<le> piles ! i" "x = piles[i := piles ! i - int j]"
  then show "((x, i, Suc j), piles, i, j) \<in> measure (\<lambda>(piles, i, j). nat (piles ! i + 1 - int j))"
    by (cases "i < length piles") (auto simp: list_update_beyond)
qed

declare monster_inner.simps [simp del]

fun monster_outer :: "nat \<Rightarrow> nat \<Rightarrow> int list \<Rightarrow> bool \<times> int list" where
  "monster_outer i 0 piles = (False, piles)"
| "monster_outer i (Suc k) piles =
     (let (found, piles) = monster_inner piles i 1
      in if found then (True, piles) else monster_outer (Suc i) k piles)"

section \<open>The indicator\<close>

lemma foldl_xor: "foldl (\<lambda>acc x. acc XOR x) a xs = a XOR indicator xs"
proof (induction xs arbitrary: a)
  case (Cons x xs)
  have "indicator (x # xs) = x XOR indicator xs" using Cons [of x] by (simp add: indicator_def)
  then show ?case using Cons [of "a XOR x"] by (simp add: ac_simps)
qed (simp add: indicator_def)

lemma indicator_Nil [simp]: "indicator [] = 0"
  by (simp add: indicator_def)

lemma indicator_Cons [simp]: "indicator (x # xs) = x XOR indicator xs"
  using foldl_xor [of x xs] by (simp add: indicator_def)

lemma xor_undo: "x XOR (x XOR y) = (y :: int)"
  by (simp add: xor.assoc [symmetric])

lemma indicator_update: "i < length piles \<Longrightarrow> indicator (piles[i := y]) = indicator piles XOR (piles ! i XOR y)"
proof (induction piles arbitrary: i)
  case (Cons x xs)
  show ?case
  proof (cases i)
    case 0
    have "indicator xs XOR (x XOR (x XOR y)) = indicator xs XOR y" by (simp add: xor_undo)
    then show ?thesis using 0 by (simp add: ac_simps)
  next
    case (Suc k)
    then show ?thesis using Cons by (simp add: ac_simps)
  qed
qed simp

lemma indicator_nonneg: "\<forall>b \<in> set piles. 0 \<le> b \<Longrightarrow> 0 \<le> indicator piles"
  by (induction piles) auto

lemma indicator_bit: "bit (indicator piles) k \<Longrightarrow> \<exists>b \<in> set piles. bit b k"
  by (induction piles) (auto simp: bit_simps)

text \<open>The highest bit of the indicator, and a pile that has it, give a smaller pile.\<close>

lemma highest_bit:
  assumes "0 < (s :: int)"
  obtains k where "bit s k" "drop_bit (Suc k) s = 0"
proof -
  obtain n where n: "s = int n" "0 < n" using assms by (metis nonneg_int_cases of_nat_0_less_iff order_less_imp_le)
  let ?k = "ilog2 n"
  have b: "2 ^ ?k \<le> n" "n < 2 ^ Suc ?k" using ilog2_bounds [OF n(2)] by simp_all
  have "n div 2 ^ ?k = 1" using b by (intro div_nat_eqI) simp_all
  then have "bit n ?k" by (simp add: bit_iff_odd)
  then have "bit s ?k" by (simp add: n(1) bit_of_nat_iff_bit)
  moreover have "drop_bit (Suc ?k) n = 0" using b(2) by (simp add: drop_bit_eq_div)
  then have "drop_bit (Suc ?k) s = 0" using drop_bit_of_nat [of "Suc ?k" n, where 'a = int] by (simp add: n(1))
  ultimately show ?thesis by (rule that)
qed

lemma xor_smaller:
  assumes "bit (p :: int) k" "bit s k" "drop_bit (Suc k) s = 0"
  shows "p XOR s < p"
proof -
  let ?q = "p XOR s"
  have d: "drop_bit (Suc k) ?q = drop_bit (Suc k) p" using assms(3) by simp
  have "take_bit (Suc k) p = 2 ^ k + take_bit k p" using assms(1) by (simp add: take_bit_Suc_from_most)
  moreover have "\<not> bit ?q k" using assms(1,2) by (simp add: bit_xor_iff)
  then have "take_bit (Suc k) ?q = take_bit k ?q" using take_bit_Suc_from_most [of k ?q] by (simp del: take_bit_xor)
  moreover have "take_bit k ?q < 2 ^ k" "0 \<le> take_bit k p" by (simp_all del: take_bit_xor)
  ultimately have "take_bit (Suc k) ?q < take_bit (Suc k) p" by linarith
  moreover have "push_bit (Suc k) (drop_bit (Suc k) p) + take_bit (Suc k) p = p" by (rule bits_ident)
  moreover have "push_bit (Suc k) (drop_bit (Suc k) p) + take_bit (Suc k) ?q = ?q" using bits_ident [of "Suc k" ?q] unfolding d .
  ultimately show ?thesis by linarith
qed

section \<open>Moves\<close>

definition winning :: "int list \<Rightarrow> nat \<Rightarrow> nat \<Rightarrow> bool" where
  "winning piles i j \<longleftrightarrow> i < length piles \<and> 1 \<le> j \<and> int j \<le> piles ! i \<and> indicator (piles[i := piles ! i - int j]) = 0"

lemma winning_exists:
  assumes "\<forall>b \<in> set piles. 0 \<le> b" "indicator piles \<noteq> 0"
  shows "\<exists>i j. winning piles i j"
proof -
  have "0 < indicator piles" using indicator_nonneg [OF assms(1)] assms(2) by simp
  then obtain k where k: "bit (indicator piles) k" "drop_bit (Suc k) (indicator piles) = 0" by (rule highest_bit)
  obtain i where i: "i < length piles" "bit (piles ! i) k" using indicator_bit [OF k(1)] by (auto simp: in_set_conv_nth)
  let ?p = "piles ! i" and ?y = "piles ! i XOR indicator piles"
  have y: "?y < ?p" "0 \<le> ?y" using xor_smaller [OF i(2) k] indicator_nonneg [OF assms(1)] assms(1) i(1) by simp_all
  have "indicator (piles[i := ?y]) = 0"
    by (simp add: indicator_update [OF i(1)] xor_undo)
  moreover have "?p - int (nat (?p - ?y)) = ?y" using y by simp
  ultimately have "winning piles i (nat (?p - ?y))" using i(1) y by (auto simp: winning_def)
  then show ?thesis by blast
qed

lemma winning_none: "indicator piles = 0 \<Longrightarrow> \<not> winning piles i j"
proof
  assume z: "indicator piles = 0" and w: "winning piles i j"
  then have "piles ! i XOR (piles ! i - int j) = 0" by (auto simp: winning_def indicator_update)
  then have "piles ! i - int j = piles ! i" by (metis xor_undo xor.right_neutral)
  with w show False by (simp add: winning_def)
qed

text \<open>
  The game itself: two players take stones from one pile in turn, and who cannot move has lost. A position is won if
  some move leads to a lost one, and lost if every move leads to a won one.
\<close>

definition nim_move :: "int list \<Rightarrow> nat \<Rightarrow> nat \<Rightarrow> bool" where
  "nim_move piles i j \<longleftrightarrow> i < length piles \<and> 1 \<le> j \<and> int j \<le> piles ! i"

abbreviation taken :: "int list \<Rightarrow> nat \<Rightarrow> nat \<Rightarrow> int list" where
  "taken piles i j \<equiv> piles[i := piles ! i - int j]"

inductive can_win :: "int list \<Rightarrow> bool" and must_lose :: "int list \<Rightarrow> bool" where
  win: "nim_move piles i j \<Longrightarrow> must_lose (taken piles i j) \<Longrightarrow> can_win piles"
| lose: "(\<And>i j. nim_move piles i j \<Longrightarrow> can_win (taken piles i j)) \<Longrightarrow> must_lose piles"

inductive_cases can_winE: "can_win piles"
inductive_cases must_loseE: "must_lose piles"

lemma winning_move: "winning piles i j \<longleftrightarrow> nim_move piles i j \<and> indicator (taken piles i j) = 0"
  by (auto simp: winning_def nim_move_def)

lemma taken_nonneg: "\<forall>b \<in> set piles. 0 \<le> b \<Longrightarrow> nim_move piles i j \<Longrightarrow> \<forall>b \<in> set (taken piles i j). 0 \<le> b"
  by (auto simp: nim_move_def dest: set_update_subset_insert [THEN subsetD])

lemma sum_list_taken: "i < length piles \<Longrightarrow> sum_list (taken piles i j) = sum_list piles - int j"
  by (induction piles arbitrary: i) (auto split: nat.split)

lemma taken_less:
  assumes "\<forall>b \<in> set piles. 0 \<le> b" "nim_move piles i j"
  shows "nat (sum_list (taken piles i j)) < nat (sum_list piles)"
proof -
  have "0 \<le> sum_list (taken piles i j)" using taken_nonneg [OF assms] by (intro sum_list_nonneg) blast
  with assms(2) show ?thesis by (simp add: nim_move_def sum_list_taken)
qed

text \<open>A position is won exactly if its indicator is not 0, and otherwise it is lost.\<close>

lemma indicator_decides:
  "\<forall>b \<in> set piles. 0 \<le> b \<Longrightarrow> (if indicator piles = 0 then must_lose piles \<and> \<not> can_win piles else can_win piles \<and> \<not> must_lose piles)"
proof (induction "nat (sum_list piles)" arbitrary: piles rule: less_induct)
  case less
  have IH: "if indicator (taken piles i j) = 0 then must_lose (taken piles i j) \<and> \<not> can_win (taken piles i j)
      else can_win (taken piles i j) \<and> \<not> must_lose (taken piles i j)" if "nim_move piles i j" for i j
    using less.hyps [OF taken_less taken_nonneg] less.prems that by blast
  show ?case
  proof (cases "indicator piles = 0")
    case True
    then have "can_win (taken piles i j) \<and> \<not> must_lose (taken piles i j)" if "nim_move piles i j" for i j
      using IH [OF that] winning_none [OF True, of i j] that by (simp add: winning_move)
    then show ?thesis using True by (auto intro: lose elim: can_winE)
  next
    case False
    then obtain i j where "winning piles i j" using winning_exists [OF less.prems] by blast
    then have "nim_move piles i j" "must_lose (taken piles i j)" "\<not> can_win (taken piles i j)"
      using IH [of i j] by (simp_all add: winning_move)
    then show ?thesis using False by (auto intro: win elim: must_loseE)
  qed
qed

lemma can_win_iff: "\<forall>b \<in> set piles. 0 \<le> b \<Longrightarrow> can_win piles \<longleftrightarrow> indicator piles \<noteq> 0"
  using indicator_decides [of piles] by (auto split: if_splits)

lemma must_lose_iff: "\<forall>b \<in> set piles. 0 \<le> b \<Longrightarrow> must_lose piles \<longleftrightarrow> indicator piles = 0"
  using indicator_decides [of piles] by (auto split: if_splits)

lemma winning_iff: "\<forall>b \<in> set piles. 0 \<le> b \<Longrightarrow> winning piles i j \<longleftrightarrow> nim_move piles i j \<and> must_lose (taken piles i j)"
  using must_lose_iff [OF taken_nonneg, of piles i j] by (auto simp: winning_move)

lemma flat_inner_eq:
  "flat_inner piles i j = (piles, map (\<lambda>k. (int k, piles ! i))
     (filter (\<lambda>k. indicator (piles[i := piles ! i - int k]) = 0) [j..<Suc (nat (piles ! i))]))" if "0 \<le> piles ! i"
  using that
proof (induction piles i j rule: flat_inner.induct)
  case (1 piles i j)
  show ?case
  proof (cases "int j \<le> piles ! i")
    case True
    then have "[j..<Suc (nat (piles ! i))] = j # [Suc j..<Suc (nat (piles ! i))]"
      using "1.prems" by (intro upt_conv_Cons) (simp add: le_nat_iff less_Suc_eq_le)
    then show ?thesis using 1 True by (simp add: flat_inner.simps [of piles i j] list_update_back Let_def)
  next
    case False
    then show ?thesis using "1.prems" by (simp add: flat_inner.simps [of piles i j] le_nat_iff)
  qed
qed

lemma flat_outer_eq:
  assumes "\<forall>b \<in> set piles. 0 \<le> b"
  shows "i + k = length piles \<Longrightarrow> \<exists>ms. flat_outer i k piles = (piles, ms) \<and>
    set ms = {(int j, piles ! m) |m j. i \<le> m \<and> winning piles m j}"
proof (induction k arbitrary: i)
  case 0
  then show ?case by (auto simp: winning_def)
next
  case (Suc k)
  obtain ms where ms: "flat_outer (Suc i) k piles = (piles, ms)" "set ms = {(int j, piles ! m) |m j. Suc i \<le> m \<and> winning piles m j}"
    using Suc.IH [of "Suc i"] Suc.prems by (metis add_Suc_shift)
  have i: "i < length piles" "0 \<le> piles ! i" using Suc.prems assms by auto
  have split: "i \<le> m \<longleftrightarrow> m = i \<or> Suc i \<le> m" for m by auto
  have "{(int j, piles ! m) |m j. i \<le> m \<and> winning piles m j} =
      {(int j, piles ! i) |j. winning piles i j} \<union> {(int j, piles ! m) |m j. Suc i \<le> m \<and> winning piles m j}"
    unfolding split by blast
  moreover have "{(int j, piles ! i) |j. winning piles i j} = set (snd (flat_inner piles i 1))"
    using i by (auto simp: flat_inner_eq winning_def)
  ultimately show ?case using ms flat_inner_eq [OF i(2), of 1] by auto
qed

text \<open>
  C29: On a board without negative piles \<open>flat_solver\<close> leaves the board as it is, answers whether the player
  to move can win the game of Nim, and prints exactly the moves after which the other player must lose; if he can
  win, it prints at least one.
\<close>

theorem flat_solver_correct:
  assumes "\<forall>b \<in> set piles. 0 \<le> b"
  shows "\<exists>ms. flat_solver piles = (can_win piles, piles, ms) \<and>
    set ms = {(int j, piles ! i) |i j. nim_move piles i j \<and> must_lose (taken piles i j)} \<and> (ms \<noteq> [] \<longleftrightarrow> can_win piles)"
proof (cases "indicator piles = 0")
  case True
  then show ?thesis using winning_none [OF True] by (simp add: flat_solver_def can_win_iff [OF assms] flip: winning_iff [OF assms])
next
  case False
  obtain ms where ms: "flat_outer 0 (length piles) piles = (piles, ms)" "set ms = {(int j, piles ! i) |i j. winning piles i j}"
    using flat_outer_eq [OF assms, of 0 "length piles"] by auto
  moreover have "set ms \<noteq> {}" using winning_exists [OF assms False] ms(2) by auto
  ultimately show ?thesis using False by (auto simp: flat_solver_def can_win_iff [OF assms] simp flip: winning_iff [OF assms])
qed

theorem flat_solver_correct_witness:
  "\<exists>ms. flat_solver [1, 3, 4] = (True, [1, 3, 4], ms) \<and> ms \<noteq> []"
proof -
  have "indicator [1, 3, 4] \<noteq> 0" by code_simp
  then have "can_win [1, 3, 4]" by (simp add: can_win_iff)
  then show ?thesis using flat_solver_correct [of "[1, 3, 4]"] by auto
qed

text \<open>The search of the monster takes stones in every trial: here it empties a pile and misses the winning move.\<close>

lemma monster_keeps_stones:
  "winning [1, 3, 4] 2 2" "monster_outer 0 3 [1, 3, 4] \<noteq> (True, [1, 3, 2])" "snd (monster_outer 0 3 [1, 3, 4]) ! 0 = 0"
  by (code_simp)+

end
