(* ===== verification/AdventurePuzzles.thy ===== *)
theory AdventurePuzzles
  imports AdventureNim
begin

text \<open>
  The puzzles of the text adventure (\<open>puzzles.c\<close>): for each room the function that describes its puzzle and
  the one that lets the player try it. \<open>desc\<close>\emph{n} changes at most a lock and what was printed; \<open>solve\<close>\emph{n}
  returns the time it takes, reads answers from the standard input and unlocks an exit of the
  current room when the answer is right.
\<close>

abbreviation PUZZ_FAIL_TIME :: int where "PUZZ_FAIL_TIME \<equiv> 15"
abbreviation PUZZ_SUCCESS_TIME :: int where "PUZZ_SUCCESS_TIME \<equiv> 15"

section \<open>Reading answers\<close>

lemma andthen_cong [fundef_cong]:
  "r = r' \<Longrightarrow> (\<And>x g. r' = Ok x g \<Longrightarrow> k x g = k' x g) \<Longrightarrow> andthen r k = andthen r' k'"
  by (cases r') simp_all

lemma read_line_shorter: "read_line g = Ok l g' \<Longrightarrow> length (stdin_text g') < length (stdin_text g)"
  by (auto simp: read_line_def fgets_shorter split: if_splits prod.splits)

text \<open>
  The loop that should skip to the first digit tests for a character that is smaller than \<open>'0'\<close> and
  greater than \<open>'9'\<close>, so it skips nothing.
\<close>

definition skip_to_digit :: "string \<Rightarrow> string" where
  "skip_to_digit tmp = dropWhile (\<lambda>c. (of_char c :: nat) < 48 \<and> (of_char c :: nat) > 57) tmp"

function get_int_answer :: "game \<Rightarrow> int run" where
  "get_int_answer g =
     andthen (read_line (say ''? '' g)) (\<lambda>buf g.
       let tmp = skip_to_digit buf
       in if tmp \<noteq> [] then need (c_atoi tmp) g else get_int_answer (say (''Please enter a number.'' @ [newline]) g))"
  by pat_completeness auto

termination
  by (relation "measure (\<lambda>g. length (stdin_text g))") (auto dest!: read_line_shorter simp: say_def)

declare get_int_answer.simps [simp del]

section \<open>The common puzzle\<close>

definition set_solved :: "nat \<Rightarrow> game \<Rightarrow> game" where
  "set_solved n g = g\<lparr>solved_puzzles := (solved_puzzles g)[n := True]\<rparr>"

definition exit_locked :: "direction \<Rightarrow> game \<Rightarrow> bool" where
  "exit_locked d g = locked (exits (cur g) ! dir_num d)"

definition solver_generator :: "nat \<Rightarrow> string \<Rightarrow> string \<Rightarrow> string \<Rightarrow> string \<Rightarrow> int \<Rightarrow> direction \<Rightarrow> game \<Rightarrow> int run" where
  "solver_generator puzz_id first_print fail_print success_print already_solved_print answer to_unlock g =
     (if solved_puzzles g ! puzz_id then
        if exit_locked to_unlock g then Stop Abort g
        else Ok PUZZ_FAIL_TIME (say_line already_solved_print g)
      else if \<not> exit_locked to_unlock g then Stop Abort g
      else andthen (get_int_answer (say_line first_print g)) (\<lambda>response g.
        if response \<noteq> answer then Ok PUZZ_FAIL_TIME (say_line fail_print g)
        else Ok PUZZ_SUCCESS_TIME (set_solved puzz_id (unlock to_unlock (say_line success_print g)))))"

text \<open>Puzzle 0 is for testing; no room uses it.\<close>

definition desc0 :: "game \<Rightarrow> game" where
  "desc0 g = say (''There is a switch on the wall.'' @ [newline]) g"

definition solve0 :: "game \<Rightarrow> int run" where
  "solve0 g = solver_generator 0 ''You walk up to the switch. Do you flip it? (1 or 0)'' ''Dude, you fail!''
     ''A metallic clanging sound echoes through the corridors. That means this project is working.''
     ''You already pressed this switch.'' 1 SOUTH g"

section \<open>Evans\<close>

definition desc1 :: "game \<Rightarrow> game" where
  "desc1 g =
     (if solved_puzzles g ! 1 then say (''The door to the stairs is open.'' @ [newline]) g
      else say (''The door to the stairs is shut tight. You see a keypad with something scrawled to the side.'' @ [newline]) g)"

definition solve1 :: "game \<Rightarrow> int run" where
  "solve1 g = solver_generator 1
     (''The buttons on the keypad are faintly glowing. The numbers are practically worn off. The writing on the wall is only partially decipherable:'' @ [newline] @ [tab] @ ''\"~~~ bits ~~ ind~x 387 days ~~~ ...'' @ [newline] @ ''\"What do you press on the keypad?'')
     ''Nothing happens...'' ''A metallic clang echoes through the room. The door swings open.''
     ''The door has already opened. The keypad is dark.'' 9 UP g"

definition desc2 :: "game \<Rightarrow> game" where
  "desc2 g =
     (if solved_puzzles g ! 2 then g
      else say (''A large, strange contraption blocks your ascent. Hanging from it is a dumbwaiter with a pile of rocks on it. Each rock has the number 1000 carved into it. A tattered note hangs off the chain.'' @ [newline]) g)"

definition solve2 :: "game \<Rightarrow> int run" where
  "solve2 g = solver_generator 2
     (''The note is in the same scrawled handwriting as was next to the keypad:'' @ [newline] @ [tab] @ ''\"You must remove the HEX or you will be DEAD minus 5!\"'' @ [newline] @ ''How many stones do you take from the pile?'')
     ''Nothing happens. You replace the stones.''
     ''A sudden tremor causes you to drop the stones. The contraption jerks upwards, flying away into the darkness.''
     ''The blocking contraption is gone. Only a few stones are left scattered at your feet.'' 57 UP g"

definition desc3 :: "game \<Rightarrow> game" where
  "desc3 g =
     (if solved_puzzles g ! 3 then say (''A slow breeze is coming through the double doors.'' @ [newline]) g
      else say (''The double doors are shut tight. Another keypad flickers on the adjacent wall with more of the familiar handwriting.'' @ [newline]) g)"

definition solve3 :: "game \<Rightarrow> int run" where
  "solve3 g = solver_generator 3
     ([tab] @ ''\"~~~~~ alm~st r~ady ~~ order th~se, th~r~ wi~l be a sign\"'' @ [newline] @ ''X: 11110110  Y: 01011010  Z: 10010001'' @ [newline] @ [tab] @ ''0: X<Y<Z    3: Y<Z<X'' @ [newline] @ [tab] @ ''1: X<Z<Y    4: Z<X<Y'' @ [newline] @ [tab] @ ''2: Y<X<Z    5: Z<Y<X'' @ [newline] @ ''What do you press on the keypad?'')
     ''Silence...'' ''The doors swing open. You are greeted with misty, cold air.'' ''The doors are open.'' 4 EAST g"

section \<open>Pimentel\<close>

definition desc6 :: "game \<Rightarrow> game" where
  "desc6 g =
     (if solved_puzzles g ! 6 then g
      else say (''The computer terminal has some text and a blinking prompt.'' @ [newline]) g)"

definition solve6 :: "game \<Rightarrow> int run" where
  "solve6 g = solver_generator 6
     ([tab] @ ''First-fit ##:'' @ [newline] @ [tab] @ ''#---#---###--#---#-----'' @ [newline] @ [tab] @ '' 1   2     3  4   5'' @ [newline] @ ''What do you type on the keyboard?'')
     ''The terminal buzzes and re-prints the screen.'' ''The terminal chimes happily and the doors slide open.''
     ''The doors are open.'' 1 EAST g"

definition desc7 :: "game \<Rightarrow> game" where
  "desc7 g =
     (if solved_puzzles g ! 7 then say (''There is a hastily-made blockade blocking your path'' @ [newline]) g
      else say (''The computer terminal has some text and a blinking prompt.'' @ [newline]) g)"

definition solve7 :: "game \<Rightarrow> int run" where
  "solve7 g = solver_generator 7
     ([tab] @ ''Best-fit ##:'' @ [newline] @ [tab] @ ''###-#---###--#---#-----'' @ [newline] @ [tab] @ '' 1   2     3  4   5'' @ [newline] @ ''What do you type on the keyboard?'')
     ''The terminal buzzes and re-prints the screen.'' ''The terminal chimes happily and the blockade slides open.''
     ''The doors are open.'' 3 DOWN g"

definition desc8 :: "game \<Rightarrow> game" where
  "desc8 g =
     (if solved_puzzles g ! 8 then say (''There is a hastily-made blockade blocking your path'' @ [newline]) g
      else say (''The computer terminal has some text and a blinking prompt.'' @ [newline]) g)"

definition solve8 :: "game \<Rightarrow> int run" where
  "solve8 g = solver_generator 8
     ([tab] @ ''Next-fit ##:'' @ [newline] @ [tab] @ ''###-#---######---#-----'' @ [newline] @ [tab] @ '' 1   2     3  4   5'' @ [newline] @ ''What do you type on the keyboard?'')
     ''The terminal buzzes and re-prints the screen.'' ''The terminal chimes happily and the blockade slides open.''
     ''The doors are open.'' 4 DOWN g"

definition desc9 :: "game \<Rightarrow> game" where
  "desc9 g =
     (if solved_puzzles g ! 9 then say (''The man doesn't want to be disturbed.'' @ [newline]) g
      else say (''The man turns to you and says: '' @ [newline] @ [tab] @ ''\"Oh, hi. I hope no monsters followed you here. This is all Microsoft's fault, you know.\"'' @ [newline]) g)"

definition solve9 :: "game \<Rightarrow> int run" where
  "solve9 g =
     (if solved_puzzles g ! 9 then Ok 0 (say (''The man ignores you, favoring his parentheses.'' @ [newline]) g)
      else
        let g = say ([tab] @ ''\"Oh, you must not have cardkey access. Unfortunately I only have half my cardkey... well, maybe you could find another half somewhere. Here you go!\"'' @ [newline]) g;
            g = say (''He gives you half a cardkey!'' @ [newline]) g;
            g = g\<lparr>cardkey := cardkey g + 1\<rparr>
        in Ok PUZZ_SUCCESS_TIME (set_solved 9 g))"

definition desc10 :: "game \<Rightarrow> game" where
  "desc10 g =
     (if level (the_player g) < 2 then say (''Looks like you need to be at least level 2 to cross...'' @ [newline]) g
      else unlock NORTH (say (''You can easily jump across.'' @ [newline]) g))"

section \<open>Citris\<close>

definition desc11 :: "game \<Rightarrow> game" where
  "desc11 g =
     (if solved_puzzles g ! 11 then say (''A rope extends from one of the rafters down to the floor.'' @ [newline]) g
      else say (''One of the rafters has a winch with a rope dangling out of reach. Several black cords snake down from the winch and into an Apple laptop on a nearby crate.'' @ [newline]) g)"

definition solve11 :: "game \<Rightarrow> int run" where
  "solve11 g = solver_generator 11
     (''The laptop has a colorful display, but an ugly emacs X11 window is open. It has C code:'' @ [newline] @ [tab] @ ''int x, *y, z;'' @ [newline] @ [tab] @ ''x = 10;'' @ [newline] @ [tab] @ ''z = 9;'' @ [newline] @ [tab] @ ''y = &x;'' @ [newline] @ [tab] @ ''x = z;'' @ [newline] @ [tab] @ ''(*y)++;'' @ [newline] @ [tab] @ ''z++;'' @ [newline] @ [tab] @ ''printf(\"%d'' @ [CHR 0x5C] @ ''n\",x); // what prints?'' @ [newline] @ ''Another terminal window is open with a command prompt. What do you type?'')
     ''The mouse turns into a colorful, spinning beachball for several minutes.''
     ''The lights flicker as the winch switches on and lowers the rope to the ground.''
     ''The rope is already down. You can climb up.'' 10 UP g"

definition desc13 :: "game \<Rightarrow> game" where
  "desc13 g =
     (if solved_puzzles g ! 13 then say (''The metal printing machine is silent.'' @ [newline]) g
      else say (''In the middle of the room is a large, metal machine which is quickly printing out tickets. Hundreds of the tickets litter the floor. You see a slot in the wall. Above the slot is a printed label:'' @ [newline] @ [tab] @ ''\"To lower the ladder, solve:\"'' @ [newline] @ [tab] @ [tab] @ '' 1101'' @ [newline] @ [tab] @ [tab] @ ''+____'' @ [newline] @ [tab] @ [tab] @ ''=0010'' @ [newline]) g)"

definition skip_blanks :: "string \<Rightarrow> string" where
  "skip_blanks tmp = dropWhile (\<lambda>c. c = CHR '' '' \<or> c = tab) tmp"

text \<open>The character at the start of the rest of a buffer\<close>

definition first_char :: "string \<Rightarrow> char" where
  "first_char tmp = (case tmp of [] \<Rightarrow> NUL | c # _ \<Rightarrow> c)"

definition lose_hp :: "int \<Rightarrow> game \<Rightarrow> unit run" where
  "lose_hp n g =
     andthen (need (in_int (hp (the_player g) - n)) g) (\<lambda>h g. Ok () (g\<lparr>the_player := (the_player g)\<lparr>hp := h\<rparr>\<rparr>))"

function ticket_loop :: "nat \<Rightarrow> game \<Rightarrow> int run" where
  "ticket_loop generated g =
     andthen (read_line (say ''? '' g)) (\<lambda>buf g.
       let c = first_char (skip_blanks buf)
       in if c = CHR ''p'' \<or> c = CHR ''P'' then
            if generated = 5 then
              Ok PUZZ_SUCCESS_TIME (unlock UP (set_solved 13
                (say (''With a clang, a hatch opens above you and a ladder slides down into place. The machine spins down and grows quiet.'' @ [newline]) g)))
            else
              andthen (lose_hp 5 (say ''You hear a crackle as arcs of electricity jump from the floor. You lose 5 hp!'' g))
                (\<lambda>_ g. Ok PUZZ_FAIL_TIME g)
          else if c = CHR ''t'' \<or> c = CHR ''T'' then
            let (r, g) = c_rand g; generated = r mod 16
            in ticket_loop generated
                 (say (''You throw away the ticket and pick up another that reads \"'' @ show_base 16 generated @ ''\". (P)ut it in, (t)hrow away, or (w)alk?'' @ [newline]) g)
          else if c = CHR ''w'' \<or> c = CHR ''W'' then Ok PUZZ_FAIL_TIME (say (''You walk away...'' @ [newline]) g)
          else ticket_loop generated (say (''Please enter either 'put in', 'throw away', or 'walk away'.'' @ [newline]) g))"
  by pat_completeness auto

termination
  by (relation "measure (\<lambda>(n, g). length (stdin_text g))") (auto dest!: read_line_shorter simp: say_def c_rand_def)

declare ticket_loop.simps [simp del]

definition solve13 :: "game \<Rightarrow> int run" where
  "solve13 g =
     (if solved_puzzles g ! 13 then Ok 0 (say (''The machine is off.'' @ [newline]) g)
      else
        let (r, g) = c_rand g; generated = r mod 16
        in ticket_loop generated
             (say (''You pick up a ticket that reads \"'' @ show_base 16 generated @ ''\". Do you (p)ut it in the slot, (t)hrow it away, or (w)alk away?'' @ [newline]) g))"

definition desc14 :: "game \<Rightarrow> game" where
  "desc14 g =
     (if solved_puzzles g ! 14 then say (''The man looks too busy playing with his gadgets.'' @ [newline]) g
      else say (''The man turns to you and speaks very quickly: '' @ [newline] @ [tab] @ ''\"You made it through the puzzles! Hmm... I should make those harder next time. Want to know how much this 8.2 Zebipixel camera cost?\"'' @ [newline]) g)"

text \<open>The second half of the cardkey: the flag tested and set is that of puzzle 9, not of puzzle 14.\<close>

definition solve14 :: "game \<Rightarrow> int run" where
  "solve14 g =
     (if solved_puzzles g ! 9 then Ok 0 (say (''It's hard to get his attention...'' @ [newline]) g)
      else
        let g = say (''He talks so quickly you have a hard time following:'' @ [newline] @ [tab] @ ''\"Oh, you want cardkey access? Well, I had to sell half of mine to get more storage space. Zebipixel images take up many Yobibytes, you know. Well, here's the other half for solving the puzzles!\"'' @ [newline]) g;
            g = say (''He gives you half a cardkey!'' @ [newline]) g;
            g = g\<lparr>cardkey := cardkey g + 1\<rparr>
        in Ok PUZZ_SUCCESS_TIME (set_solved 9 g))"

section \<open>Cory\<close>

definition desc15 :: "game \<Rightarrow> game" where
  "desc15 g =
     (if cardkey g = 2 then unlock NORTH (say (''You flash your cardkey in front of the reader. It beeps and the door unlocks.'' @ [newline]) g)
      else say (''Looks like you'll need to get cardkey access...'' @ [newline]) g)"

definition desc16 :: "game \<Rightarrow> game" where
  "desc16 g =
     (if solved_puzzles g ! 16 then say (''The torches cast an orange glow through the corridor.'' @ [newline]) g
      else say (''Above the torches is an engraving:'' @ [newline] @ [tab] @ ''\"There is a lock,'' @ [newline] @ [tab] @ ''where is the ke_?\"'' @ [newline]) g)"

definition torch_picture :: "bool list \<Rightarrow> string" where
  "torch_picture torches =
     concat (map (\<lambda>t. '' '' @ (if t then ''*'' else '' '') @ ''  '') torches) @ [newline] @
     concat (map (\<lambda>t. (if t then ''***'' else ''   '') @ '' '') torches) @ [newline] @
     concat (map (\<lambda>_. ([CHR 0x5C] @ ''_/ '')) torches) @ [newline] @
     concat (map (\<lambda>_. '' |  '') torches) @ [newline] @
     concat (map (\<lambda>_. ''=== '') torches) @ [newline] @
     concat (map (\<lambda>i. '' '' @ show_int (int i) @ ''  '') [0..<8]) @ [newline, newline]"

definition torch_pattern :: "bool list \<Rightarrow> bool" where
  "torch_pattern torches \<longleftrightarrow>
     \<not> torches ! 0 \<and> torches ! 1 \<and> torches ! 2 \<and> torches ! 3 \<and> torches ! 4 \<and> \<not> torches ! 5 \<and> \<not> torches ! 6 \<and> torches ! 7"

lemma needD: "need v g = Ok x g' \<Longrightarrow> v = Some x \<and> g' = g"
  by (auto simp: need_def split: option.splits)

text \<open>Index 8 passes the test of the range and is then stored past the eight torches.\<close>

function torch_loop :: "bool list \<Rightarrow> game \<Rightarrow> int run" where
  "torch_loop torches g =
     andthen (read_line (say (torch_picture torches @ (''Which torch do you light with your fireball spell? Or do you (w)alk away?'' @ [newline]) @ ''? '') g)) (\<lambda>buf g.
       let tmp = skip_blanks buf; c = first_char tmp
       in if c = CHR ''w'' \<or> c = CHR ''W'' then Ok PUZZ_FAIL_TIME (say (''You walk away and the torches snuff out.'' @ [newline]) g)
          else if dec_digit c \<noteq> None then
            andthen (need (c_atoi tmp) g) (\<lambda>idx g.
              if idx < 0 \<or> idx > 8 then torch_loop torches (say (''Enter a valid index.'' @ [newline]) g)
              else if idx = 8 then Stop Undefined g
              else
                let torches = torches[nat idx := True]
                in if torch_pattern torches then
                     Ok PUZZ_SUCCESS_TIME (unlock UP (set_solved 16 (say (torch_picture torches @ (''The elevator doors creak open.'' @ [newline])) g)))
                   else torch_loop torches g)
          else torch_loop torches (say (''Please enter a number or w.'' @ [newline]) g))"
  by pat_completeness auto

termination
  by (relation "measure (\<lambda>(ts, g). length (stdin_text g))") (auto dest!: read_line_shorter needD simp: say_def)

declare torch_loop.simps [simp del]

definition solve16 :: "game \<Rightarrow> int run" where
  "solve16 g =
     (if solved_puzzles g ! 16 then Ok 0 (say (''Better not light any more torches...'' @ [newline]) g)
      else if get_spell ''fireball'' = None then Ok PUZZ_FAIL_TIME (say (''You need some way to light these torches...'' @ [newline]) g)
      else andthen (get_spell_level ''fireball'' g) (\<lambda>l g.
        if level (the_player g) < l then Ok PUZZ_FAIL_TIME (say (''You need some way to light these torches...'' @ [newline]) g)
        else torch_loop (replicate 8 False) g))"

section \<open>Soda\<close>

definition desc21 :: "game \<Rightarrow> game" where
  "desc21 g =
     (if solved_puzzles g ! 21 then g
      else say (''Next to the door there is a dumbwaiter built into the wall. On the dumbwaiter is a scrap of paper.'' @ [newline]) g)"

function dumbwaiter_loop :: "game \<Rightarrow> int run" where
  "dumbwaiter_loop g =
     andthen (read_line (say ((''Do you want to put the '' @ show_int (bytes_taken g) @ '' stones on the dumbwaiter?'' @ [newline]) @ ''? '') g)) (\<lambda>buf g.
       let c = first_char (skip_blanks buf)
       in if c = CHR ''y'' \<or> c = CHR ''Y'' then
            if bytes_taken g = 8 then
              let g = set_solved 21 (unlock UP
                (say (''With a creak, the dumbwaiter retracts. A loud clang informs you the door has unlocked.'' @ [newline]) g))
              in Ok PUZZ_SUCCESS_TIME (g\<lparr>bytes_taken := 0\<rparr>)
            else Ok PUZZ_FAIL_TIME (say (''Nothing happens. You take the stones off the dumbwaiter.'' @ [newline]) g)
          else if c = CHR ''n'' \<or> c = CHR ''N'' then Ok PUZZ_FAIL_TIME (say (''You do nothing.'' @ [newline]) g)
          else dumbwaiter_loop (say (''Please answer (y)es or (n)o.'' @ [newline]) g))"
  by pat_completeness auto

termination
  by (relation "measure (\<lambda>g. length (stdin_text g))") (auto dest!: read_line_shorter simp: say_def)

declare dumbwaiter_loop.simps [simp del]

definition solve21 :: "game \<Rightarrow> int run" where
  "solve21 g =
     (if solved_puzzles g ! 21 then
        Ok PUZZ_FAIL_TIME (say (''The dumbwaiter has retracted. The door to the stairs is unlocked.'' @ [newline]) g)
      else
        let g = say (''The scrap of paper has writing:'' @ [newline] @ [tab] @ ''\"sizeof(struct {int x; char a;});\"'' @ [newline]) g
        in if bytes_taken g = 0 then
             Ok PUZZ_FAIL_TIME (say (''You don't have anything to put on the dumbwaiter.'' @ [newline]) g)
           else dumbwaiter_loop g)"

definition desc22 :: "game \<Rightarrow> game" where
  "desc22 g = g"

text \<open>The characters skipped are zeros and tabs, so the answer 0 is no number.\<close>

function stones_loop :: "game \<Rightarrow> int run" where
  "stones_loop g =
     andthen (read_line (say ((''How many stones do you take?'' @ [newline]) @ ''? '') g)) (\<lambda>buf g.
       let tmp = dropWhile (\<lambda>c. c = CHR ''0'' \<or> c = tab) buf
       in if dec_digit (first_char tmp) = None then stones_loop (say (''Please enter a number'' @ [newline]) g)
          else andthen (need (c_atoi tmp) g) (\<lambda>n g.
            Ok PUZZ_SUCCESS_TIME (say (''You take '' @ show_int n @ '' stones in your pocket.'' @ [newline]) (g\<lparr>bytes_taken := n\<rparr>))))"
  by pat_completeness auto

termination
  by (relation "measure (\<lambda>g. length (stdin_text g))") (auto dest!: read_line_shorter simp: say_def)

declare stones_loop.simps [simp del]

definition solve22 :: "game \<Rightarrow> int run" where
  "solve22 g = stones_loop g"

section \<open>Nim\<close>

fun draw_piles :: "nat \<Rightarrow> game \<Rightarrow> int list \<times> game" where
  "draw_piles 0 g = ([], g)"
| "draw_piles (Suc k) g =
     (let (r, g) = c_rand g; (bs, g) = draw_piles k g in ((1 + int (r mod 4)) # bs, g))"

definition desc24 :: "game \<Rightarrow> game" where
  "desc24 g =
     (let (r, g) = c_rand g; num_piles = 3 + r mod 5; (bs, g) = draw_piles num_piles g; g = g\<lparr>board := bs\<rparr>
      in say ((''There is a hideous, bulbous monster sitting in front of several piles of stones:'' @ [newline]) @ [newline] @ print_board (board g)) g)"

text \<open>A blow of the monster; a player without hit points is dead.\<close>

definition bite :: "string \<Rightarrow> game \<Rightarrow> unit run" where
  "bite last_words g =
     andthen (lose_hp 10 g) (\<lambda>_ g. if hp (the_player g) \<le> 0 then Stop (Exit 0) (say last_words g) else Ok () g)"

text \<open>
  The search for a pile that is not empty, with at most \<open>draws\<close> random numbers; on an empty board it never ends.
\<close>

fun pick_pile :: "nat \<Rightarrow> game \<Rightarrow> nat run" where
  "pick_pile 0 g = Stop Endless g"
| "pick_pile (Suc draws) g =
     (let (r, g) = c_rand g; idx = r mod length (board g)
      in if board g ! idx = 0 then pick_pile draws g else Ok idx g)"

definition random_move :: "nat \<Rightarrow> game \<Rightarrow> unit run" where
  "random_move draws g =
     andthen (pick_pile draws g) (\<lambda>idx g.
       let b = board g ! idx
       in if b = 1 then Ok () (g\<lparr>board := (board g)[idx := 0]\<rparr>)
          else andthen (need (in_int (b - 1)) g) (\<lambda>m g.
            let (r, g) = c_rand g; k = int r mod \<bar>m\<bar>
            in andthen (need (in_int (1 + k)) g) (\<lambda>k g.
              andthen (need (in_int (b - k)) g) (\<lambda>b g. Ok () (g\<lparr>board := (board g)[idx := b]\<rparr>)))))"

definition monster_move :: "nat \<Rightarrow> game \<Rightarrow> unit run" where
  "monster_move draws g =
     (if indicator (board g) \<noteq> 0 then
        let (found, bs) = monster_outer 0 (length (board g)) (board g)
        in Ok () (if found then say ([tab] @ ''Haha! I like this game...'' @ [newline]) (g\<lparr>board := bs\<rparr>) else g\<lparr>board := bs\<rparr>)
      else andthen (random_move draws g) (\<lambda>_ g. Ok () (say ([tab] @ ''Hmm... can we start over?'' @ [newline]) g)))"

fun stones_left :: "int list \<Rightarrow> int \<Rightarrow> int option" where
  "stones_left [] acc = Some acc"
| "stones_left (b # bs) acc = (case in_int (acc + b) of None \<Rightarrow> None | Some acc \<Rightarrow> stones_left bs acc)"

text \<open>
  What the player does when it is his turn. The test against taking too many stones compares the
  number of the pile, not of the stones, with the height.
\<close>

definition nim_turn :: "nat \<Rightarrow> game \<Rightarrow> unit run" where
  "nim_turn draws g =
     andthen (get_int_answer (say (print_board (board g) @ [newline] @ (''What pile do you take from?'' @ [newline])) g)) (\<lambda>response g.
       if response \<ge> int (length (board g)) \<or> response < 0 then
         bite (''That hideous monster was too much for you. You die.'' @ [newline]) (say (''Fool! That pile lies within you!'' @ [newline] @ ''The monster reaches inside you and takes 10HP'' @ [newline]) g)
       else andthen (get_int_answer (say (''How many do you take?'' @ [newline]) g)) (\<lambda>response2 g.
         let b = board g ! nat response
         in if response2 \<le> 0 \<or> response > b then
              bite (''That last swipe was too much for you. You die.'' @ [newline]) (say ([tab] @ ''Insolent fool! I will show you what it is like to take too many!'' @ [newline] @ ''The monster swipes 10HP'' @ [newline]) g)
            else andthen (need (in_int (b - response2)) g) (\<lambda>b g.
              monster_move draws (g\<lparr>board := (board g)[nat response := b]\<rparr>))))"

text \<open>What is left of the input only gets shorter.\<close>

definition shrinks :: "game \<Rightarrow> 'a run \<Rightarrow> bool" where
  "shrinks g r \<longleftrightarrow> (\<forall>x g'. r = Ok x g' \<longrightarrow> length (stdin_text g') \<le> length (stdin_text g))"

lemma say_stdin [simp]: "stdin_text (say s g) = stdin_text g"
  by (simp add: say_def)

lemma get_int_answer_shorter: "get_int_answer g = Ok x g' \<Longrightarrow> length (stdin_text g') < length (stdin_text g)"
proof (induction g rule: get_int_answer.induct)
  case (1 g)
  show ?case
  proof (cases "read_line (say ''? '' g)")
    case (Ok l h)
    then have "length (stdin_text h) < length (stdin_text g)" by (auto dest: read_line_shorter)
    with 1 Ok show ?thesis
      by (fastforce simp: get_int_answer.simps [of g] Let_def dest: needD split: if_splits)
  next
    case (Stop e h)
    with "1.prems" show ?thesis by (simp add: get_int_answer.simps [of g])
  qed
qed

lemma lose_hp_stdin: "lose_hp n g = Ok u g' \<Longrightarrow> stdin_text g' = stdin_text g"
  by (auto simp: lose_hp_def in_int_def split: if_splits)

lemma bite_stdin: "bite s g = Ok u g' \<Longrightarrow> stdin_text g' = stdin_text g"
  by (cases "lose_hp 10 g") (auto simp: bite_def dest: lose_hp_stdin split: if_splits)

lemma pick_pile_stdin: "pick_pile n g = Ok u g' \<Longrightarrow> stdin_text g' = stdin_text g"
proof (induction n arbitrary: g)
  case (Suc n)
  from Suc.prems Suc.IH show ?case
    by (fastforce simp: c_rand_def Let_def split: if_splits)
qed simp

lemma andthen_Ok: "andthen r k = Ok y g' \<longleftrightarrow> (\<exists>x g. r = Ok x g \<and> k x g = Ok y g')"
  by (cases r) simp_all

lemma need_Ok: "need v g = Ok x g' \<longleftrightarrow> v = Some x \<and> g' = g"
  by (auto simp: need_def split: option.splits)

lemma random_move_stdin: "random_move n g = Ok u g' \<Longrightarrow> stdin_text g' = stdin_text g"
  by (auto simp: random_move_def andthen_Ok need_Ok Let_def c_rand_def dest!: pick_pile_stdin split: if_splits)

lemma monster_move_stdin: "monster_move n g = Ok u g' \<Longrightarrow> stdin_text g' = stdin_text g"
  by (auto simp: monster_move_def andthen_Ok dest!: random_move_stdin split: if_splits prod.splits)

lemma nim_turn_shorter: "nim_turn n g = Ok u g' \<Longrightarrow> length (stdin_text g') < length (stdin_text g)"
  by (auto simp: nim_turn_def andthen_Ok need_Ok Let_def dest!: get_int_answer_shorter bite_stdin monster_move_stdin split: if_splits)

function nim_loop :: "nat \<Rightarrow> game \<Rightarrow> unit run" where
  "nim_loop draws g =
     andthen (need (stones_left (board g) 0) g) (\<lambda>num_left g.
       if num_left = 1 then
         Ok () (unlock UP (set_solved 24 (say ([tab] @ ''Noooooo!'' @ [newline] @ ''With a howl, the monster jumps out the window.'' @ [newline]) g)))
       else if num_left = 0 then
         bite (''That last bite was too much for you. You die.'' @ [newline])
           (say ([tab] @ ''Hahaha! I shall make a withdrawal from your health account...'' @ [newline] @ ''The monster bites you for 10HP!'' @ [newline]) g)
       else andthen (nim_turn draws g) (\<lambda>_ g. nim_loop draws g))"
  by pat_completeness auto

termination
  by (relation "measure (\<lambda>(n, g). length (stdin_text g))") (auto dest!: nim_turn_shorter needD)

declare nim_loop.simps [simp del]

definition solve24 :: "nat \<Rightarrow> game \<Rightarrow> int run" where
  "solve24 draws g =
     andthen (nim_loop draws (say (''The monster howls in a deep voice:'' @ [newline] @ [tab] @ ''\"You! Shall not! Pass!!'' @ [newline] @ [tab] @ ''I won't let you leave...\"'' @ [newline]) g))
       (\<lambda>_ g. Ok 0 g)"

section \<open>The end\<close>

definition desc25 :: "game \<Rightarrow> game" where
  "desc25 g = say (''But what's this?! Casey and Matt are still working on the proj1 spec, and they're about to dereference that empty_pizza_box! Quick, stop them!'' @ [newline]) g"

text \<open>\<open>empty_pizza_box\<close> is \<open>NULL\<close>, and the assignment through it comes first.\<close>

definition solve25 :: "game \<Rightarrow> int run" where
  "solve25 g = Stop Undefined g"

section \<open>The table\<close>

definition puzzles :: "(nat option \<times> nat option) list" where
  "puzzles =
     [(None, None), (Some 1, Some 1), (Some 2, Some 2), (Some 3, Some 3), (None, None), (None, None), (Some 6, Some 6),
      (Some 7, Some 7), (Some 8, Some 8), (Some 9, Some 9), (Some 10, None), (Some 11, Some 11), (None, None),
      (Some 13, Some 13), (Some 14, Some 14), (Some 15, None), (Some 16, Some 16), (None, None), (None, None),
      (None, None), (None, None), (Some 21, Some 21), (Some 22, Some 22), (None, None), (Some 24, Some 24),
      (Some 25, Some 25)]"

definition get_puzzle_description :: "nat \<Rightarrow> game \<Rightarrow> nat option run" where
  "get_puzzle_description idx g =
     (if length (room_array g) \<noteq> length puzzles then Stop Abort (say (''Corrupted level file for main game.'' @ [newline]) g)
      else Ok (if idx < length puzzles then fst (puzzles ! idx) else None) g)"

definition get_puzzle_solver :: "nat \<Rightarrow> game \<Rightarrow> nat option run" where
  "get_puzzle_solver idx g =
     (if length (room_array g) \<noteq> length puzzles then Stop Abort (say (''Corrupted level file for main game.'' @ [newline]) g)
      else Ok (if idx < length puzzles then snd (puzzles ! idx) else None) g)"

definition additional_status :: "game \<Rightarrow> game" where
  "additional_status g =
     (let g = (if cardkey g = 1 then say (''You also have this strange half-cardkey...'' @ [newline]) g
               else if cardkey g = 2 then say (''You have a full cardkey!'' @ [newline]) g
               else g)
      in if bytes_taken g \<noteq> 0 then say (''You have '' @ show_int (bytes_taken g) @ '' stones in your pocket.'' @ [newline]) g else g)"

text \<open>Calls through the function pointers of a room\<close>

fun call_desc :: "nat \<Rightarrow> game \<Rightarrow> game" where
  "call_desc n g =
     (if n = 1 then desc1 g else if n = 2 then desc2 g else if n = 3 then desc3 g else if n = 6 then desc6 g
      else if n = 7 then desc7 g else if n = 8 then desc8 g else if n = 9 then desc9 g else if n = 10 then desc10 g
      else if n = 11 then desc11 g else if n = 13 then desc13 g else if n = 14 then desc14 g else if n = 15 then desc15 g
      else if n = 16 then desc16 g else if n = 21 then desc21 g else if n = 22 then desc22 g
      else if n = 24 then desc24 g else if n = 25 then desc25 g else desc0 g)"

fun call_solve :: "nat \<Rightarrow> nat \<Rightarrow> game \<Rightarrow> int run" where
  "call_solve draws n g =
     (if n = 1 then solve1 g else if n = 2 then solve2 g else if n = 3 then solve3 g else if n = 6 then solve6 g
      else if n = 7 then solve7 g else if n = 8 then solve8 g else if n = 9 then solve9 g
      else if n = 11 then solve11 g else if n = 13 then solve13 g else if n = 14 then solve14 g
      else if n = 16 then solve16 g else if n = 21 then solve21 g else if n = 22 then solve22 g
      else if n = 24 then solve24 draws g else if n = 25 then solve25 g else if n = 0 then solve0 g else Stop Undefined g)"

declare call_desc.simps [simp del] call_solve.simps [simp del]

end
