(* ===== verification/AdventureCommands.thy ===== *)
theory AdventureCommands
  imports AdventurePuzzles
begin

text \<open>
  The commands of the text adventure (\<open>commands.c\<close>): the table of names, looking around, walking, attacking,
  waiting and trying the puzzle of the room. Every command returns the time it takes.
\<close>

abbreviation LOOK_TIME :: int where "LOOK_TIME \<equiv> 0"
abbreviation ATTACK_TIME :: int where "ATTACK_TIME \<equiv> 15"
abbreviation DAWDLE_DEFAULT_TIME :: int where "DAWDLE_DEFAULT_TIME \<equiv> 15"
abbreviation HELP_TIME :: int where "HELP_TIME \<equiv> 0"
abbreviation INTERACT_TIME :: int where "INTERACT_TIME \<equiv> 0"
abbreviation MOVE_TIME :: int where "MOVE_TIME \<equiv> 120"
abbreviation FAILED_MOVE_TIME :: int where "FAILED_MOVE_TIME \<equiv> 15"
abbreviation STATUS_TIME :: int where "STATUS_TIME \<equiv> 0"

section \<open>The table of commands\<close>

datatype cmd_fxn = Look | Attack | Dawdle | Quit | Status | Help | Cast | Interact | Go | Go_alias string

definition commands :: "(string \<times> cmd_fxn \<times> bool) list" where
  "commands =
     [(''look'', Look, True), (''attack'', Attack, True), (''dawdle'', Dawdle, True), (''wait'', Dawdle, True),
      (''quit'', Quit, True), (''exit'', Quit, True), (''status'', Status, True), (''help'', Help, True),
      (''cast'', Cast, True), (''interact'', Interact, False), (''go'', Go, False), (''walk'', Go, False),
      (''move'', Go, False), (''north'', Go_alias ''north'', False), (''n'', Go_alias ''north'', False),
      (''south'', Go_alias ''south'', False), (''s'', Go_alias ''south'', False), (''east'', Go_alias ''east'', False),
      (''e'', Go_alias ''east'', False), (''west'', Go_alias ''west'', False), (''w'', Go_alias ''west'', False),
      (''up'', Go_alias ''up'', False), (''u'', Go_alias ''up'', False), (''down'', Go_alias ''down'', False),
      (''d'', Go_alias ''down'', False)]"

definition lookup_command :: "string \<Rightarrow> cmd_fxn option" where
  "lookup_command name =
     map_option (\<lambda>i. fst (snd (commands ! i))) (find_first (\<lambda>i. name = fst (commands ! i)) (length commands))"

text \<open>\<^term>\<open>None\<close> is the failed assertion.\<close>

definition is_player_vulnerable :: "string \<Rightarrow> bool option" where
  "is_player_vulnerable name =
     map_option (\<lambda>i. snd (snd (commands ! i))) (find_first (\<lambda>i. name = fst (commands ! i)) (length commands))"

section \<open>Commands\<close>

definition status :: "game \<Rightarrow> int run" where
  "status g =
     (let p = the_player g;
          g = say (''level: '' @ show_int (sint (get_level (experience p))) @ [newline]) g;
          g = say (''exp:   '' @ show_int (sint (experience p)) @ [newline]) g;
          g = say (''hp:    '' @ show_int (hp p) @ ''/'' @ show_int (max_hp p) @ [newline]) g
      in Ok STATUS_TIME (additional_status g))"

definition attack :: "string list \<Rightarrow> game \<Rightarrow> int run" where
  "attack argv g =
     (if length argv = 1 then Ok 0 (say (''Please specify a monster to attack.'' @ [newline]) g)
      else andthen (need (argv_at argv 1) g) (\<lambda>a1 g.
        case find_monster (mob (cur g)) a1 of
          None \<Rightarrow> Ok 0 (say (''There's no '' @ a1 @ '' here...'' @ [newline]) g)
        | Some target \<Rightarrow>
            let damage_amount = sint (level (the_player g))
            in andthen (damage target damage_amount
                 (say (''You attack the '' @ m_name target @ '' for '' @ show_int damage_amount @ '' damage...'' @ [newline]) g))
                 (\<lambda>_ g. Ok ATTACK_TIME g)))"

definition dawdle :: "string list \<Rightarrow> game \<Rightarrow> int run" where
  "dawdle argv g =
     andthen (if length argv = 2 then need (c_atoi (argv ! 1)) g else Ok DAWDLE_DEFAULT_TIME g) (\<lambda>amount g.
       andthen (need (argv_at argv 0) g) (\<lambda>a0 g. Ok amount (say (''You '' @ a0 @ '' for '' @ show_int amount @ '' seconds...'' @ [newline]) g)))"

definition has_exit :: "exit_t \<Rightarrow> bool" where
  "has_exit e \<longleftrightarrow> dest e \<noteq> None"

definition num_exits :: "exit_t list \<Rightarrow> nat" where
  "num_exits es = length (filter has_exit es)"

definition lock_text :: "exit_t \<Rightarrow> string" where
  "lock_text e = (if locked e then '' (locked)'' else [])"

text \<open>The loop over the directions for a room with one exit\<close>

fun single_exit :: "nat \<Rightarrow> exit_t list \<Rightarrow> string" where
  "single_exit i [] = []"
| "single_exit i (e # es) =
     (if has_exit e then
        let vertical = (i = dir_num UP \<or> i = dir_num DOWN)
        in ''There is an exit '' @ (if vertical then [] else ''to the '') @ direction_names ! i @
             (if vertical then ''wards'' else []) @ lock_text e @ ''.'' @ [newline]
      else single_exit (Suc i) es)"

text \<open>The loop for several exits; \<^term>\<open>None\<close> is a read past the array of exits.\<close>

fun several_exits :: "nat \<Rightarrow> nat \<Rightarrow> exit_t list \<Rightarrow> string option" where
  "several_exits 0 i es = Some []"
| "several_exits (Suc k) i [] = None"
| "several_exits (Suc k) i (e # es) =
     (if has_exit e then
        map_option (\<lambda>t. '' '' @ direction_names ! i @ lock_text e @
          (if k = 1 then '' and'' else if k = 0 then ''.'' @ [newline] else '','') @ t) (several_exits k (Suc i) es)
      else several_exits (Suc k) (Suc i) es)"

definition exits_text :: "exit_t list \<Rightarrow> string option" where
  "exits_text es =
     (if num_exits es = 0 then Some []
      else if num_exits es = 1 then Some (single_exit 0 es)
      else map_option (\<lambda>t. ''There are exits'' @ t) (several_exits (num_exits es) 0 es))"

definition look :: "game \<Rightarrow> int run" where
  "look g =
     (let r = cur g
      in andthen (need (description r) g) (\<lambda>d g.
        let g = say_line d g;
            g = (case description_fxn r of None \<Rightarrow> g | Some n \<Rightarrow> call_desc n g)
        in andthen (need (exits_text (exits (cur g))) g) (\<lambda>t g.
          let g = say t g; m = mob (cur g)
          in Ok LOOK_TIME (if num_monsters m > 0 then print_monsters m g else g))))"

definition interact :: "nat \<Rightarrow> game \<Rightarrow> int run" where
  "interact draws g =
     (case interact_fxn (cur g) of
        Some n \<Rightarrow> call_solve draws n g
      | None \<Rightarrow> Ok INTERACT_TIME (say (''There is no puzzle in this room.'' @ [newline]) g))"

definition quit :: "game \<Rightarrow> int run" where
  "quit g = Stop (Exit 0) (say (''goodbye!'' @ [newline]) g)"

definition help_cmd :: "game \<Rightarrow> int run" where
  "help_cmd g =
     Ok HELP_TIME (say ((''available commands:'' @ [newline]) @ concat (map (\<lambda>c. [tab] @ fst c @ [newline]) commands)) g)"

text \<open>The switch on the first letter, of \<open>go\<close> and of \<open>load_level\<close>\<close>

definition letter_direction :: "char \<Rightarrow> direction option" where
  "letter_direction c =
     (if c = CHR ''n'' then Some NORTH else if c = CHR ''s'' then Some SOUTH else if c = CHR ''e'' then Some EAST
      else if c = CHR ''w'' then Some WEST else if c = CHR ''u'' then Some UP else if c = CHR ''d'' then Some DOWN
      else None)"

text \<open>\<open>assert(look(0, NULL) == 0)\<close>\<close>

definition assert_look :: "game \<Rightarrow> unit run" where
  "assert_look g = andthen (look g) (\<lambda>t g. if t = 0 then Ok () g else Stop Abort g)"

definition go :: "string list \<Rightarrow> game \<Rightarrow> int run" where
  "go argv g =
     andthen (need (argv_at argv 1) g) (\<lambda>a1 g.
       case letter_direction (first_char a1) of
         None \<Rightarrow> Stop Abort (say (a1 @ '' isn't a direction'' @ [newline]) g)
       | Some dir \<Rightarrow>
           let e = exits (cur g) ! dir_num dir
           in case dest e of
                None \<Rightarrow> andthen (assert_look (say ([newline] @ ''There is no exit in that direction!'' @ [newline]) g)) (\<lambda>_ g. Ok 0 g)
              | Some d \<Rightarrow>
                  if locked e then
                    andthen (assert_look (say ([newline] @ ''Oh no!  The exit in that direction is locked!'' @ [newline]) g))
                      (\<lambda>_ g. Ok FAILED_MOVE_TIME g)
                  else
                    andthen (assert_look (g\<lparr>the_player := (the_player g)\<lparr>current_room := d\<rparr>\<rparr>))
                      (\<lambda>_ g. Ok MOVE_TIME g))"

definition cast :: "game \<Rightarrow> int run" where
  "cast g = Ok 0 (say (''Cast? There's no such thing as magic...'' @ [newline]) g)"

text \<open>The call through the function pointer of the table\<close>

fun call_cmd :: "nat \<Rightarrow> cmd_fxn \<Rightarrow> string list \<Rightarrow> game \<Rightarrow> int run" where
  "call_cmd draws Look argv g = look g"
| "call_cmd draws Attack argv g = attack argv g"
| "call_cmd draws Dawdle argv g = dawdle argv g"
| "call_cmd draws Quit argv g = quit g"
| "call_cmd draws Status argv g = status g"
| "call_cmd draws Help argv g = help_cmd g"
| "call_cmd draws Cast argv g = cast g"
| "call_cmd draws Interact argv g = interact draws g"
| "call_cmd draws Go argv g = go argv g"
| "call_cmd draws (Go_alias d) argv g = go [''go'', d] g"

end
