(* ===== verification/AdventureMain.thy ===== *)
theory AdventureMain
  imports AdventureCommands
begin

text \<open>
  Loading a level (\<open>level.c\<close>) and the main program of the text adventure (\<open>main.c\<close>): the passing of time, the
  loop that reads and runs commands, and the start of the game. \<open>load_level\<close> keeps the rooms in an array
  on its own stack and returns a pointer to it; here the array lives on, as the rest of the program
  expects.
\<close>

section \<open>Loading a level\<close>

definition new_room :: "nat \<Rightarrow> room" where
  "new_room i =
     \<lparr>room_id = int i, description = None, mob = (), exits = replicate NUM_DIRECTIONS \<lparr>dest = None, locked = False\<rparr>,
      description_fxn = None, interact_fxn = None\<rparr>"

text \<open>
  One line of descriptions: digits, copied to an array of ten, then the text after the white space, without
  its first character and without its last two. What cannot be read inside the buffer is undefined.
\<close>

definition describe_line :: "string \<Rightarrow> room list \<Rightarrow> room list option" where
  "describe_line buf rs =
     (let rmNum = takeWhile (\<lambda>c. dec_digit c \<noteq> None) buf; p1 = dropWhile (\<lambda>c. dec_digit c \<noteq> None) buf
      in if length rmNum > 9 then None
         else case c_atoi rmNum of None \<Rightarrow> None
         | Some n \<Rightarrow>
             (case dropWhile isspace p1 of [] \<Rightarrow> None
              | _ # text \<Rightarrow>
                  if length text < 2 \<or> int (length rs) \<le> n then None
                  else Some (rs[nat n := (rs ! nat n)\<lparr>description := Some (take (length text - 2) text)\<rparr>])))"

text \<open>
  The loop over the descriptions. At the end of the file \<open>fgets\<close> leaves the buffer as it was, so that the loop
  goes on for ever with the last line.
\<close>

function describe_rooms :: "string \<Rightarrow> room list \<Rightarrow> stop + (string \<times> room list)" where
  "describe_rooms f rs =
     (if f = [] then Inl Endless
      else
        (let (l, rest) = fgets 256 f; buf = cstr l
         in if first_char buf = newline then Inr (rest, rs)
            else case describe_line buf rs of None \<Rightarrow> Inl Undefined | Some rs \<Rightarrow> describe_rooms rest rs))"
  by pat_completeness auto

termination
proof (relation "measure (\<lambda>(f, rs). length f)", simp)
  fix f :: string and rs :: "room list" and x l rest buf rs'
  assume "f \<noteq> []" "x = fgets 256 f" "(l, rest) = x"
  then show "((rest, rs'), f, rs) \<in> measure (\<lambda>(f, rs). length f)" using fgets_shorter [of 256 f l rest] by simp
qed

declare describe_rooms.simps [simp del]

text \<open>An index into \<open>room_array\<close> that comes from a word of the file\<close>

definition room_index :: "room list \<Rightarrow> string list \<Rightarrow> nat \<Rightarrow> nat option" where
  "room_index rs words i =
     (case argv_at words i of None \<Rightarrow> None
      | Some w \<Rightarrow> (case c_atoi w of None \<Rightarrow> None | Some n \<Rightarrow> if 0 \<le> n \<and> n < int (length rs) then Some (nat n) else None))"

definition set_dest :: "nat \<Rightarrow> nat \<Rightarrow> nat \<Rightarrow> room list \<Rightarrow> room list" where
  "set_dest i d j rs = rs[i := (rs ! i)\<lparr>exits := (exits (rs ! i))[d := (exits (rs ! i) ! d)\<lparr>dest := Some j\<rparr>]\<rparr>]"

definition set_locked :: "nat \<Rightarrow> nat \<Rightarrow> room list \<Rightarrow> room list" where
  "set_locked i d rs = rs[i := (rs ! i)\<lparr>exits := (exits (rs ! i))[d := (exits (rs ! i) ! d)\<lparr>locked := True\<rparr>]\<rparr>]"

text \<open>One line of exits: both directions are connected, only the one named is locked.\<close>

definition link_rooms :: "string \<Rightarrow> nat \<Rightarrow> nat \<Rightarrow> nat \<Rightarrow> room list \<Rightarrow> room list" where
  "link_rooms w0 dir a b rs =
     (let rs = set_dest a dir b rs; rs = set_dest b (flip_direction dir) a rs
      in if w0 \<noteq> ''can-go'' then set_locked a dir rs else rs)"

definition link_line :: "string \<Rightarrow> room list \<Rightarrow> stop + room list" where
  "link_line buf rs =
     (let words = fst (tokenizer buf whitespace_chars)
      in if length words > 32 \<or> words = [] then Inl Undefined
         else if hd words \<noteq> ''can-go'' \<and> hd words \<noteq> ''cant-go'' then Inl Abort
         else case argv_at words 1 of None \<Rightarrow> Inl Undefined
         | Some w1 \<Rightarrow>
             (case letter_direction (first_char w1) of None \<Rightarrow> Inl Abort
              | Some dir \<Rightarrow>
                  (case (room_index rs words 2, room_index rs words 3) of
                     (Some a, Some b) \<Rightarrow> Inr (link_rooms (hd words) (dir_num dir) a b rs)
                   | _ \<Rightarrow> Inl Undefined)))"

function link_all :: "string \<Rightarrow> room list \<Rightarrow> stop + room list" where
  "link_all f rs =
     (let (l, rest) = fgets 256 f; buf = cstr l
      in if fgets_eof 256 f \<or> first_char buf = newline then Inr rs
         else case link_line buf rs of Inl e \<Rightarrow> Inl e | Inr rs \<Rightarrow> link_all rest rs)"
  by pat_completeness auto

termination
proof (relation "measure (\<lambda>(f, rs). length f)", simp)
  fix f :: string and rs :: "room list" and x l rest buf rs'
  assume "\<not> (fgets_eof 256 f \<or> first_char buf = newline)" "x = fgets 256 f" "(l, rest) = x"
  then show "((rest, rs'), f, rs) \<in> measure (\<lambda>(f, rs). length f)"
    using fgets_shorter [of 256 f l rest] by (cases "f = []") (auto simp: fgets_eof_def)
qed

declare link_all.simps [simp del]

definition load_rooms :: "string \<Rightarrow> stop + room list" where
  "load_rooms f =
     (let f = skip_characters f whitespace_chars
      in if f = [] then Inl Undefined
         else
           (let (l, f) = fgets 256 f
            in case c_atoi (cstr l) of None \<Rightarrow> Inl Undefined
               | Some n \<Rightarrow>
                   if n \<le> 0 then Inl Undefined
                   else
                     (let f = skip_characters f whitespace_chars;
                          rs = map new_room [0..<nat n];
                          f = skip_characters f whitespace_chars
                      in case describe_rooms f rs of Inl e \<Rightarrow> Inl e
                         | Inr (f, rs) \<Rightarrow> link_all (skip_characters f whitespace_chars) rs)))"

definition load_level :: "(string \<Rightarrow> string option) \<Rightarrow> string \<Rightarrow> game \<Rightarrow> nat run" where
  "load_level fs filename g =
     (case fs filename of
        None \<Rightarrow> Stop (Exit 1) (say (''Could not open '' @ filename @ [newline]) g)
      | Some f \<Rightarrow> (case load_rooms f of Inl e \<Rightarrow> Stop e g | Inr rs \<Rightarrow> Ok 0 (g\<lparr>room_array := rs\<rparr>)))"

section \<open>The passing of time\<close>

definition init_player :: "nat \<Rightarrow> game \<Rightarrow> game" where
  "init_player starting_room g =
     g\<lparr>the_player := \<lparr>current_room = starting_room, experience = 0, level = get_level 0, hp = 10, max_hp = 10\<rparr>\<rparr>"

text \<open>One attack: it misses in one of four cases; a player without hit points is dead.\<close>

definition monster_attack :: "monster \<Rightarrow> game \<Rightarrow> unit run" where
  "monster_attack attacker g =
     (let (r, g) = c_rand g
      in if r mod 4 \<le> 0 then
           Ok () (say (''The '' @ m_name attacker @ '' tries to '' @ m_attack attacker @ '' you, but misses'' @ [newline]) g)
         else
           let g = say (''The '' @ m_name attacker @ '' '' @ m_attack attacker @ ''s you for '' @ show_int (sint (m_damage attacker)) @ '' points of damage'' @ [newline]) g;
               p = the_player g;
               g = g\<lparr>the_player := p\<lparr>hp := sint (word_of_int (hp p) - m_damage attacker :: u32)\<rparr>\<rparr>
           in if hp (the_player g) \<le> 0 then
                Stop (Exit 0) (say (''that '' @ m_attack attacker @ '' was too much for you. you die.'' @ [newline]) g)
              else Ok () g)"

function attack_loop :: "mob_iterator \<Rightarrow> game \<Rightarrow> unit run" where
  "attack_loop it g =
     (case next_monster it of
        None \<Rightarrow> Ok () g
      | Some attacker \<Rightarrow> andthen (monster_attack attacker g) (\<lambda>_ g. attack_loop it g))"
  by pat_completeness auto

termination
  by (relation "{}") (simp_all add: next_monster_def)

declare attack_loop.simps [simp del]

lemma attack_loop_Ok [simp]: "attack_loop it g = Ok () g"
  by (simp add: attack_loop.simps next_monster_def)

text \<open>The loop over the attack periods; the difference of the two times may overflow.\<close>

function attacks :: "bool \<Rightarrow> game \<Rightarrow> unit run" where
  "attacks player_vulnerable g =
     andthen (need (in_int (world_time g - last_attack_time g)) g) (\<lambda>d g.
       if d > 15 then
         andthen (if player_vulnerable then attack_loop (make_mob_iterator (mob (cur g))) g else Ok () g) (\<lambda>_ g.
           attacks player_vulnerable (g\<lparr>last_attack_time := last_attack_time g + 15\<rparr>))
       else Ok () g)"
  by pat_completeness auto

termination
  by (relation "measure (\<lambda>(v, g). nat (world_time g - last_attack_time g))") (auto simp: need_Ok in_int_def split: if_splits)

declare attacks.simps [simp del]

text \<open>A monster is spawned behind each open exit.\<close>

fun spawn_exits :: "exit_t list \<Rightarrow> room list \<Rightarrow> room list" where
  "spawn_exits [] rs = rs"
| "spawn_exits (e # es) rs =
     spawn_exits es (case dest e of None \<Rightarrow> rs
       | Some d \<Rightarrow> if locked e then rs else rs[d := (rs ! d)\<lparr>mob := spawn_new_monster (mob (rs ! d))\<rparr>])"

function spawns :: "game \<Rightarrow> unit run" where
  "spawns g =
     andthen (need (in_int (world_time g - last_spawn_time g)) g) (\<lambda>d g.
       if d > 120 then
         let (r, g) = c_rand g;
             g = (if r mod 5 = 0 then g\<lparr>room_array := spawn_exits (exits (cur g)) (room_array g)\<rparr> else g)
         in spawns (g\<lparr>last_spawn_time := last_spawn_time g + 120\<rparr>)
       else Ok () g)"
  by pat_completeness auto

termination
  by (relation "measure (\<lambda>g. nat (world_time g - last_spawn_time g))") (auto simp: need_Ok in_int_def c_rand_def split: if_splits)

declare spawns.simps [simp del]

definition tick_world :: "int \<Rightarrow> bool \<Rightarrow> game \<Rightarrow> unit run" where
  "tick_world elapsed_time player_vulnerable g =
     andthen (need (in_int (world_time g + elapsed_time)) g) (\<lambda>t g.
       andthen (attacks player_vulnerable (g\<lparr>world_time := t\<rparr>)) (\<lambda>_ g. spawns g))"

section \<open>The main program\<close>

definition print_border :: "char \<Rightarrow> char \<Rightarrow> int \<Rightarrow> string" where
  "print_border a b l = map (\<lambda>i. if i mod 2 = 0 then a else b) [0..<nat l] @ [newline]"

text \<open>The read-eval-print loop after the words of a line are known\<close>

definition run_words :: "nat \<Rightarrow> string list \<Rightarrow> game \<Rightarrow> unit run" where
  "run_words draws words g =
     (case words of [] \<Rightarrow> Ok () g
      | command_name # _ \<Rightarrow>
          (case lookup_command command_name of
             None \<Rightarrow> Ok () (say (''Huh?'' @ [newline]) g)
           | Some cmd_to_do \<Rightarrow>
               andthen (call_cmd draws cmd_to_do words g) (\<lambda>elapsed_time g.
                 case is_player_vulnerable command_name of
                   None \<Rightarrow> Stop Abort g
                 | Some v \<Rightarrow> tick_world elapsed_time v g)))"

text \<open>One round: the prompt, the line, its words and the command\<close>

definition one_line :: "nat \<Rightarrow> game \<Rightarrow> bool run" where
  "one_line draws g =
     (let g = say ''> '' g; (l, rest) = fgets 256 (stdin_text g); eof = fgets_eof 256 (stdin_text g);
          g = g\<lparr>stdin_text := rest\<rparr>
      in if eof then Ok False (say [newline] g)
         else
           let (words, num_words) = tokenizer (cstr l) whitespace_chars
           in if length words > 32 then Stop Undefined g
              else andthen (run_words draws words g) (\<lambda>_ g. Ok True g))"

section \<open>What a round keeps\<close>

text \<open>A predicate that holds of the state a run ends in, however it ends\<close>

definition keeps :: "(game \<Rightarrow> bool) \<Rightarrow> 'a run \<Rightarrow> bool" where
  "keeps I r \<longleftrightarrow> (case r of Ok x g \<Rightarrow> I g | Stop e g \<Rightarrow> I g)"

lemma keeps_simps [simp]: "keeps I (Ok x g) \<longleftrightarrow> I g" "keeps I (Stop e g) \<longleftrightarrow> I g"
  by (simp_all add: keeps_def)

lemma keeps_need [intro]: "I g \<Longrightarrow> keeps I (need v g)"
  by (cases v) simp_all

lemma keeps_andthen: "keeps I r \<Longrightarrow> (\<And>x g. r = Ok x g \<Longrightarrow> I g \<Longrightarrow> keeps I (k x g)) \<Longrightarrow> keeps I (andthen r k)"
  by (cases r) simp_all

lemma keeps_mono: "keeps I r \<Longrightarrow> (\<And>g. I g \<Longrightarrow> J g) \<Longrightarrow> keeps J r"
  by (cases r) simp_all

lemma state_ops [simp]:
  "cur (say s g) = cur g" "cur (g\<lparr>stdin_text := i\<rparr>) = cur g" "cur (g\<lparr>drawn := n\<rparr>) = cur g"
  "cur (g\<lparr>the_player := (the_player g)\<lparr>hp := h\<rparr>\<rparr>) = cur g" "cur (g\<lparr>board := bs\<rparr>) = cur g"
  "cur (g\<lparr>bytes_taken := c\<rparr>) = cur g" "cur (g\<lparr>world_time := t\<rparr>) = cur g" "cur (g\<lparr>last_attack_time := t\<rparr>) = cur g"
  "cur (g\<lparr>last_spawn_time := t\<rparr>) = cur g" "cur (set_solved m g) = cur g" "cur (g\<lparr>cardkey := c\<rparr>) = cur g"
  by (simp_all add: cur_def say_def set_solved_def)

lemma unlock_set_solved: "unlock d (set_solved n g) = set_solved n (unlock d g)"
  by (simp add: unlock_def set_solved_def cur_def Let_def)

lemma mob_update_id [simp]: "r\<lparr>mob := u\<rparr> = (r :: room)"
  by (cases r) simp

lemma spawn_exits_id [simp]: "spawn_exits es rs = rs"
  by (induction es arbitrary: rs) (auto split: option.splits)

text \<open>Predicates that do not depend on the output, the input, random numbers, health, stones or clocks\<close>

locale quiet =
  fixes I :: "game \<Rightarrow> bool"
  assumes q_say: "I g \<Longrightarrow> I (say s g)"
    and q_stdin: "I g \<Longrightarrow> fgets 256 (stdin_text g) = (l, r) \<Longrightarrow> I (g\<lparr>stdin_text := r\<rparr>)"
    and q_rand: "I g \<Longrightarrow> I (g\<lparr>drawn := n\<rparr>)"
    and q_hp: "I g \<Longrightarrow> I (g\<lparr>the_player := (the_player g)\<lparr>hp := h\<rparr>\<rparr>)"
    and q_board: "I g \<Longrightarrow> I (g\<lparr>board := bs\<rparr>)"
    and q_bytes: "I g \<Longrightarrow> I (g\<lparr>bytes_taken := c\<rparr>)"
    and q_time: "I g \<Longrightarrow> I (g\<lparr>world_time := t\<rparr>)"
    and q_attack: "I g \<Longrightarrow> I (g\<lparr>last_attack_time := t\<rparr>)"
    and q_spawn: "I g \<Longrightarrow> I (g\<lparr>last_spawn_time := t\<rparr>)"
begin

lemmas quiet_laws = q_say q_stdin q_rand q_hp q_board q_bytes q_time q_attack q_spawn

lemma read_line_keeps: "I g \<Longrightarrow> keeps I (read_line g)"
  by (auto simp: read_line_def q_stdin split: prod.splits)

lemma get_int_answer_keeps: "I g \<Longrightarrow> keeps I (get_int_answer g)"
proof (induction g rule: measure_induct_rule [of "\<lambda>g. length (stdin_text g)"])
  case (less g)
  show ?case
    unfolding get_int_answer.simps [of g]
    by (rule keeps_andthen) (auto simp: Let_def q_say less.prems read_line_keeps intro!: less.IH dest!: read_line_shorter)
qed

lemma lose_hp_keeps: "I g \<Longrightarrow> keeps I (lose_hp n g)"
  unfolding lose_hp_def by (rule keeps_andthen) (auto simp: q_hp dest: needD)

lemma bite_keeps: "I g \<Longrightarrow> keeps I (bite s g)"
  unfolding bite_def by (rule keeps_andthen) (auto simp: q_say lose_hp_keeps)

lemma pick_pile_keeps: "I g \<Longrightarrow> keeps I (pick_pile n g)"
  by (induction n arbitrary: g) (auto simp: c_rand_def Let_def q_rand)

lemma random_move_keeps: "I g \<Longrightarrow> keeps I (random_move n g)"
  unfolding random_move_def
  by (rule keeps_andthen)
    (auto simp: pick_pile_keeps Let_def c_rand_def q_board q_rand intro!: keeps_andthen)

lemma monster_move_keeps: "I g \<Longrightarrow> keeps I (monster_move n g)"
  by (auto simp: monster_move_def q_board q_say random_move_keeps split: prod.splits intro!: keeps_andthen)

lemma nim_turn_keeps: "I g \<Longrightarrow> keeps I (nim_turn n g)"
  unfolding nim_turn_def
  by (rule keeps_andthen)
    (auto simp: get_int_answer_keeps q_say bite_keeps Let_def monster_move_keeps q_board intro!: keeps_andthen)

lemma stones_loop_keeps: "I g \<Longrightarrow> keeps I (stones_loop g)"
proof (induction g rule: measure_induct_rule [of "\<lambda>g. length (stdin_text g)"])
  case (less g)
  show ?case
    unfolding stones_loop.simps [of g]
    by (rule keeps_andthen)
      (auto simp: Let_def q_say q_bytes less.prems read_line_keeps intro!: less.IH keeps_andthen dest!: read_line_shorter)
qed

lemma draw_piles_keeps: "I g \<Longrightarrow> I (snd (draw_piles k g))"
  by (induction k arbitrary: g) (auto simp: c_rand_def q_rand split_def Let_def)

lemma attacks_keeps: "I g \<Longrightarrow> keeps I (attacks v g)"
proof (induction g arbitrary: v rule: measure_induct_rule [of "\<lambda>g. nat (world_time g - last_attack_time g)"])
  case (less g)
  show ?case
    unfolding attacks.simps [of v g]
    by (rule keeps_andthen) (auto simp: less.prems q_attack in_int_def need_Ok intro!: less.IH split: if_splits)
qed

lemma spawns_keeps: "I g \<Longrightarrow> keeps I (spawns g)"
proof (induction g rule: measure_induct_rule [of "\<lambda>g. nat (world_time g - last_spawn_time g)"])
  case (less g)
  show ?case
    unfolding spawns.simps [of g]
    by (rule keeps_andthen) (auto simp: less.prems q_spawn q_rand c_rand_def Let_def in_int_def need_Ok intro!: less.IH split: if_splits)
qed

lemma tick_world_keeps: "I g \<Longrightarrow> keeps I (tick_world t v g)"
  unfolding tick_world_def
  by (rule keeps_andthen) (auto simp: q_time attacks_keeps spawns_keeps intro!: keeps_andthen)

end

text \<open>The puzzle of the current room does not change while it is played.\<close>

lemma quiet_here: "quiet I \<Longrightarrow> quiet (\<lambda>g. I g \<and> interact_fxn (cur g) = Some n)"
  by (auto simp: quiet_def)

text \<open>Which exit a solved puzzle unlocks\<close>

definition unlocks :: "(nat \<times> direction) set" where
  "unlocks = {(0, SOUTH), (1, UP), (2, UP), (3, EAST), (6, EAST), (7, DOWN), (8, DOWN), (11, UP), (13, UP), (16, UP), (21, UP), (24, UP)}"

text \<open>
  The changes of the world that the commands make: a solved puzzle unlocks an exit, half a cardkey is handed
  over, the two locks that a description opens, and a step to another room.
\<close>

locale world_kept = quiet I for I :: "game \<Rightarrow> bool" +
  assumes w_solve: "I g \<Longrightarrow> interact_fxn (cur g) = Some n \<Longrightarrow> (n, d) \<in> unlocks \<Longrightarrow> I (set_solved n (unlock d g))"
    and w_card: "I g \<Longrightarrow> \<not> solved_puzzles g ! 9 \<Longrightarrow> I (set_solved 9 (g\<lparr>cardkey := cardkey g + 1\<rparr>))"
    and w_jump: "I g \<Longrightarrow> description_fxn (cur g) = Some 10 \<Longrightarrow> \<not> level (the_player g) < 2 \<Longrightarrow> I (unlock NORTH g)"
    and w_door: "I g \<Longrightarrow> description_fxn (cur g) = Some 15 \<Longrightarrow> cardkey g = 2 \<Longrightarrow> I (unlock NORTH g)"
    and w_move: "I g \<Longrightarrow> dest (exits (cur g) ! dir_num d) = Some j \<Longrightarrow> \<not> locked (exits (cur g) ! dir_num d) \<Longrightarrow>
      I (g\<lparr>the_player := (the_player g)\<lparr>current_room := j\<rparr>\<rparr>)"
begin

text \<open>A loop that plays the puzzle of the room, and what it ends with\<close>

lemma here: "quiet (\<lambda>g. I g \<and> interact_fxn (cur g) = Some n)"
  by (rule quiet_here) (rule quiet_axioms)

lemma here_run: "I g \<Longrightarrow> interact_fxn (cur g) = Some n \<Longrightarrow>
    keeps (\<lambda>g. I g \<and> interact_fxn (cur g) = Some n) r \<Longrightarrow>
    (\<And>x h. r = Ok x h \<Longrightarrow> I h \<Longrightarrow> interact_fxn (cur h) = Some n \<Longrightarrow> keeps I (k x h)) \<Longrightarrow> keeps I (andthen r k)"
  by (cases r) simp_all

lemma solver_keeps:
  assumes "I g" "interact_fxn (cur g) = Some n" "(n, d) \<in> unlocks"
  shows "keeps I (solver_generator n a b c e ans d g)"
  using assms quiet.get_int_answer_keeps [OF here, of "say_line a g" n]
  by (auto simp: solver_generator_def say_line_def q_say w_solve intro!: here_run)

lemma ticket_loop_keeps: "I g \<Longrightarrow> interact_fxn (cur g) = Some 13 \<Longrightarrow> keeps I (ticket_loop n g)"
proof (induction g arbitrary: n rule: measure_induct_rule [of "\<lambda>g. length (stdin_text g)"])
  case (less g)
  show ?case
    unfolding ticket_loop.simps [of n g]
    by (rule here_run [of g 13])
      (auto simp: Let_def less.prems q_say q_rand c_rand_def lose_hp_keeps unlock_set_solved w_solve unlocks_def
        intro!: quiet.read_line_keeps [OF here] keeps_andthen less.IH dest!: read_line_shorter needD)
qed

lemma torch_loop_keeps: "I g \<Longrightarrow> interact_fxn (cur g) = Some 16 \<Longrightarrow> keeps I (torch_loop ts g)"
proof (induction g arbitrary: ts rule: measure_induct_rule [of "\<lambda>g. length (stdin_text g)"])
  case (less g)
  show ?case
    unfolding torch_loop.simps [of ts g]
    by (rule here_run [of g 16])
      (auto simp: Let_def less.prems q_say unlock_set_solved w_solve unlocks_def
        intro!: quiet.read_line_keeps [OF here] keeps_andthen less.IH dest!: read_line_shorter needD)
qed

lemma dumbwaiter_loop_keeps: "I g \<Longrightarrow> interact_fxn (cur g) = Some 21 \<Longrightarrow> keeps I (dumbwaiter_loop g)"
proof (induction g rule: measure_induct_rule [of "\<lambda>g. length (stdin_text g)"])
  case (less g)
  show ?case
    unfolding dumbwaiter_loop.simps [of g]
    by (rule here_run [of g 21])
      (auto simp: Let_def less.prems q_say q_bytes unlock_set_solved w_solve unlocks_def
        intro!: quiet.read_line_keeps [OF here] keeps_andthen less.IH dest!: read_line_shorter needD)
qed

lemma nim_loop_keeps: "I g \<Longrightarrow> interact_fxn (cur g) = Some 24 \<Longrightarrow> keeps I (nim_loop n g)"
proof (induction g rule: measure_induct_rule [of "\<lambda>g. length (stdin_text g)"])
  case (less g)
  have rec: "keeps I (andthen (nim_turn n g) (\<lambda>_ g. nim_loop n g))"
    by (rule here_run [of g 24]) (auto simp: less.prems intro!: quiet.nim_turn_keeps [OF here] less.IH dest!: nim_turn_shorter)
  show ?case
    unfolding nim_loop.simps [of n g]
    by (rule keeps_andthen) (auto simp: less.prems q_say bite_keeps unlock_set_solved w_solve unlocks_def rec dest!: needD)
qed

lemmas solve_defs = solve0_def solve1_def solve2_def solve3_def solve6_def solve7_def solve8_def solve11_def

lemma call_solve_keeps:
  assumes "I g" "interact_fxn (cur g) = Some n"
  shows "keeps I (call_solve draws n g)"
proof -
  have gen: "(n, d) \<in> unlocks \<Longrightarrow> keeps I (solver_generator n a b c e ans d g)" for a b c e ans d
    using assms by (rule solver_keeps)
  have s9: "keeps I (solve9 g)" "keeps I (solve14 g)"
    using assms by (auto simp: solve9_def solve14_def q_say Let_def intro!: w_card) (simp_all add: say_def)
  have s13: "n = 13 \<Longrightarrow> keeps I (solve13 g)"
    using assms by (auto simp: solve13_def c_rand_def Let_def q_say q_rand intro!: ticket_loop_keeps)
  have s16: "keeps I (solve16 g)"
    using assms by (auto simp: solve16_def get_spell_def q_say)
  have s21: "n = 21 \<Longrightarrow> keeps I (solve21 g)"
    using assms by (auto simp: solve21_def Let_def q_say intro!: dumbwaiter_loop_keeps)
  have s22: "keeps I (solve22 g)"
    using assms by (simp add: solve22_def stones_loop_keeps)
  have s24: "n = 24 \<Longrightarrow> keeps I (solve24 draws g)"
    using assms by (auto simp: solve24_def q_say intro!: keeps_andthen nim_loop_keeps)
  show ?thesis
    using assms gen unfolding call_solve.simps [of draws n g] solve_defs solve25_def
    by (auto simp: s9 s13 s16 s21 s22 s24 unlocks_def)
qed

lemma call_desc_keeps:
  assumes "I g" "description_fxn (cur g) = Some n"
  shows "I (call_desc n g)"
proof -
  have d10: "n = 10 \<Longrightarrow> I (desc10 g)"
    using assms by (auto simp: desc10_def q_say intro!: w_jump) (simp add: say_def)
  have d15: "n = 15 \<Longrightarrow> I (desc15 g)"
    using assms by (auto simp: desc15_def q_say intro!: w_door) (simp add: say_def)
  have d24: "I (desc24 g)"
    using assms by (auto simp: desc24_def c_rand_def Let_def split_def q_say q_board q_rand draw_piles_keeps)
  show ?thesis
    using assms unfolding call_desc.simps [of n g]
    by (auto simp: d10 d15 d24 q_say desc0_def desc1_def desc2_def desc3_def desc6_def desc7_def desc8_def desc9_def desc11_def
        desc13_def desc14_def desc16_def desc21_def desc22_def desc25_def)
qed

lemma look_keeps: "I g \<Longrightarrow> keeps I (look g)"
  unfolding look_def Let_def say_line_def
  by (rule keeps_andthen)
    (auto simp: q_say num_monsters_def call_desc_keeps split: option.splits intro!: keeps_andthen dest!: needD)

lemma assert_look_keeps: "I g \<Longrightarrow> keeps I (assert_look g)"
  unfolding assert_look_def by (rule keeps_andthen) (auto simp: look_keeps)

lemma go_keeps: "I g \<Longrightarrow> keeps I (go argv g)"
  unfolding go_def
  by (rule keeps_andthen)
    (auto simp: q_say Let_def w_move split: option.splits intro!: keeps_andthen assert_look_keeps dest!: needD)

lemma call_cmd_keeps: "I g \<Longrightarrow> keeps I (call_cmd draws c argv g)"
proof (cases c)
  case Attack
  assume "I g"
  then show ?thesis by (auto simp: Attack attack_def find_monster_def q_say intro!: keeps_andthen)
next
  case Dawdle
  assume "I g"
  then show ?thesis by (auto simp: Dawdle dawdle_def q_say intro!: keeps_andthen)
next
  case Interact
  assume "I g"
  then show ?thesis by (auto simp: Interact interact_def q_say call_solve_keeps split: option.splits)
qed (auto simp: look_keeps quit_def q_say status_def additional_status_def help_cmd_def cast_def go_keeps Let_def)

lemma run_words_keeps: "I g \<Longrightarrow> keeps I (run_words draws words g)"
  by (auto simp: run_words_def q_say call_cmd_keeps tick_world_keeps split: list.splits option.splits intro!: keeps_andthen)

lemma one_line_keeps: "I g \<Longrightarrow> keeps I (one_line draws g)"
  by (auto simp: one_line_def Let_def q_say q_stdin run_words_keeps split: prod.splits intro!: keeps_andthen)

end

text \<open>The input that is left never grows, so the loop over the lines ends.\<close>

lemma state_stdin [simp]: "stdin_text (unlock d g) = stdin_text g" "stdin_text (set_solved n g) = stdin_text g"
  by (simp_all add: unlock_def set_solved_def Let_def)

interpretation inp: world_kept "\<lambda>g. length (stdin_text g) \<le> n" for n
  by unfold_locales (auto dest!: fgets_append)

lemma run_words_input: "run_words draws words g = Ok u g' \<Longrightarrow> length (stdin_text g') \<le> length (stdin_text g)"
  using inp.run_words_keeps [of g "length (stdin_text g)" draws words] by simp

lemma one_line_shorter: "one_line draws g = Ok True g' \<Longrightarrow> length (stdin_text g') < length (stdin_text g)"
  using fgets_shorter [of 256 "stdin_text g"]
  by (cases "stdin_text g = []")
    (fastforce simp: one_line_def Let_def fgets_eof_def andthen_Ok dest!: run_words_input split: prod.splits if_splits)+

text \<open>The loop: \<^term>\<open>Ok\<close> is the end of the input.\<close>

function repl :: "nat \<Rightarrow> game \<Rightarrow> unit run" where
  "repl draws g = andthen (one_line draws g) (\<lambda>more g. if more then repl draws g else Ok () g)"
  by pat_completeness auto

termination
  by (relation "measure (\<lambda>(n, g). length (stdin_text g))") (auto dest!: one_line_shorter)

declare repl.simps [simp del]

definition default_level :: string where
  "default_level = ''cs61c-world.lvl''"

text \<open>The loop that gives the rooms their puzzles\<close>

fun set_puzzles :: "nat \<Rightarrow> nat \<Rightarrow> game \<Rightarrow> unit run" where
  "set_puzzles i 0 g = Ok () g"
| "set_puzzles i (Suc k) g =
     andthen (get_puzzle_description i g) (\<lambda>d g. andthen (get_puzzle_solver i g) (\<lambda>s g.
       set_puzzles (Suc i) k (g\<lparr>room_array := (room_array g)[i := (room_array g ! i)\<lparr>description_fxn := d, interact_fxn := s\<rparr>]\<rparr>)))"

definition banner :: "string \<Rightarrow> string" where
  "banner argv0 = (''Welcome to '' @ argv0 @ '', the CS 61C adventure extravaganza!'' @ [newline])"

definition start_game :: "(string \<Rightarrow> string option) \<Rightarrow> string list \<Rightarrow> game \<Rightarrow> unit run" where
  "start_game fs argv g =
     (if length argv > 2 then Stop (Exit 1) (say (''usage: '' @ argv ! 0 @ '' [LEVEL_FILE]'' @ [newline] @ ''LEVEL_FILE will be loaded if provided, otherwise \"'' @ default_level @ ''\" will be used.'' @ [newline]) g)
      else andthen (need (argv_at argv 0) g) (\<lambda>argv0 g.
        let border_length = int (length (''Welcome to %s, the CS 61C adventure extravaganza!'' @ [newline])) + int (length argv0) - 3;
            border = print_border (CHR ''-'') (CHR ''='') border_length;
            g = say (border @ banner argv0 @ border) g
        in andthen
             (if length argv = 1 then
                andthen (load_level fs default_level g) (\<lambda>r g. andthen (set_puzzles 0 (length (room_array g)) g) (\<lambda>_ g. Ok r g))
              else load_level fs (argv ! 1) g) (\<lambda>initial_room g.
           let g = init_player initial_room g; g = say (''You wake up.'' @ [newline]) g
           in andthen (look g) (\<lambda>_ g. Ok () g))))"

definition new_game :: "(nat \<Rightarrow> nat) \<Rightarrow> string \<Rightarrow> game" where
  "new_game rs inp =
     \<lparr>room_array = [], the_player = \<lparr>current_room = 0, experience = 0, level = 0, hp = 0, max_hp = 0\<rparr>,
      solved_puzzles = replicate 25 False, cardkey = 0, bytes_taken = 0, board = [], world_time = 0, last_attack_time = 0,
      last_spawn_time = 0, stdout_text = [], stdin_text = inp, rands = rs, drawn = 0\<rparr>"

definition adventure_main :: "(string \<Rightarrow> string option) \<Rightarrow> nat \<Rightarrow> (nat \<Rightarrow> nat) \<Rightarrow> string list \<Rightarrow> string \<Rightarrow> unit run" where
  "adventure_main fs draws rs argv inp = andthen (start_game fs argv (new_game rs inp)) (\<lambda>_ g. repl draws g)"

end
