(* ===== verification/AdventureLevel.thy ===== *)
theory AdventureLevel
  imports AdventureMain
begin

text \<open>
  Level files of the text adventure: what \<open>load_level\<close> makes of a file that lists its rooms and exits in the
  format of the files in the repository, and the level \<open>cs61c-world.lvl\<close>.
\<close>

section \<open>Words of a line\<close>

lemma strtok_word:
  assumes "w \<noteq> []" "set w \<inter> set delims = {}" "c \<in> set delims"
  shows "strtok delims (w @ c # r) = Some (w, r)"
proof -
  have d: "dropWhile (\<lambda>x. x \<in> set delims) (w @ c # r) = w @ c # r"
    using assms(1,2) by (cases w) auto
  have t: "takeWhile (\<lambda>x. x \<notin> set delims) (w @ c # r) = w" "dropWhile (\<lambda>x. x \<notin> set delims) (w @ c # r) = c # r"
    using assms(2,3) by (auto simp: takeWhile_append2 dropWhile_append2 disjoint_iff)
  show ?thesis using assms(1) by (simp add: strtok_def d t Let_def)
qed

lemma strtok_all_word:
  "w \<noteq> [] \<Longrightarrow> set w \<inter> set delims = {} \<Longrightarrow> c \<in> set delims \<Longrightarrow> strtok_all delims (w @ c # r) = w # strtok_all delims r"
  by (simp add: strtok_all.simps [of delims "w @ c # r"] strtok_word)

lemma strtok_all_Nil [simp]: "strtok_all delims [] = []"
  by (simp add: strtok_all.simps strtok_def)

text \<open>Words separated by single blanks and ended by a newline\<close>

fun words_line :: "string list \<Rightarrow> string" where
  "words_line [] = []"
| "words_line [w] = w @ [newline]"
| "words_line (w # v # ws) = w @ CHR '' '' # words_line (v # ws)"

definition plain_word :: "string \<Rightarrow> bool" where
  "plain_word w \<longleftrightarrow> w \<noteq> [] \<and> set w \<inter> set whitespace_chars = {}"

lemma tokenizer_words_line:
  assumes "\<forall>w \<in> set ws. plain_word w" "ws \<noteq> []"
  shows "tokenizer (words_line ws) whitespace_chars = (ws, length ws)"
proof -
  have "strtok_all whitespace_chars (words_line ws) = ws"
    using assms(1)
  proof (induction ws rule: words_line.induct)
    case (2 w)
    then show ?case using strtok_all_word [of w whitespace_chars newline "[]"] by (simp add: plain_word_def whitespace_chars_def)
  next
    case (3 w v ws)
    then show ?case using strtok_all_word [of w whitespace_chars "CHR '' ''" "words_line (v # ws)"]
      by (simp add: plain_word_def whitespace_chars_def)
  qed simp
  with assms(2) show ?thesis by (simp add: tokenizer_def Let_def)
qed

lemma digit_char_plain: "d < 10 \<Longrightarrow> hex_char d \<noteq> newline \<and> hex_char d \<noteq> NUL \<and> hex_char d \<notin> set whitespace_chars \<and> hex_char d \<noteq> CHR 0xFF"
proof -
  assume "d < 10"
  then have c: "(of_char (hex_char d) :: nat) = 48 + d" by (simp add: hex_char_code)
  then have "hex_char d \<noteq> newline" "hex_char d \<noteq> NUL" "hex_char d \<noteq> CHR 0xFF" "hex_char d \<noteq> CHR '' ''" "hex_char d \<noteq> tab"
    using \<open>d < 10\<close> by auto
  then show ?thesis by (simp add: whitespace_chars_def)
qed

lemma number_plain: "plain_word (show_base 10 n)" "newline \<notin> set (show_base 10 n)" "NUL \<notin> set (show_base 10 n)"
  using show_base_hd [of 10 n] by (auto simp: plain_word_def dest!: show_base_chars dest: digit_char_plain)

section \<open>The text of a level\<close>

type_synonym link = "bool \<times> direction \<times> nat \<times> nat"

fun link_words :: "link \<Rightarrow> string list" where
  "link_words (open_way, d, a, b) =
     [if open_way then ''can-go'' else ''cant-go'', direction_names ! dir_num d, show_base 10 a, show_base 10 b]"

definition room_line :: "nat \<times> string \<Rightarrow> string" where
  "room_line x = show_base 10 (fst x) @ CHR '' '' # snd x"

definition level_text :: "nat \<Rightarrow> (nat \<times> string) list \<Rightarrow> link list \<Rightarrow> string" where
  "level_text n rooms links =
     show_base 10 n @ newline # newline # concat (map (\<lambda>x. room_line x @ [newline]) rooms) @
     newline # concat (map (\<lambda>x. words_line (link_words x)) links)"

definition room_line_ok :: "nat \<Rightarrow> nat \<times> string \<Rightarrow> bool" where
  "room_line_ok n x \<longleftrightarrow> fst x < n \<and> newline \<notin> set (snd x) \<and> NUL \<notin> set (snd x) \<and> 2 \<le> length (snd x) \<and>
     \<not> isspace (hd (snd x)) \<and> length (room_line x) \<le> 254"

fun link_ok :: "nat \<Rightarrow> link \<Rightarrow> bool" where
  "link_ok n (open_way, d, a, b) \<longleftrightarrow> a < n \<and> b < n"

text \<open>What the lines mean: the text of a room loses its first and its last character.\<close>

definition describe_room :: "nat \<times> string \<Rightarrow> room list \<Rightarrow> room list" where
  "describe_room x rs = rs[fst x := (rs ! fst x)\<lparr>description := Some (butlast (tl (snd x)))\<rparr>]"

fun link_room :: "link \<Rightarrow> room list \<Rightarrow> room list" where
  "link_room (open_way, d, a, b) rs = link_rooms (if open_way then ''can-go'' else ''cant-go'') (dir_num d) a b rs"

section \<open>Loading it\<close>

lemma direction_name_plain:
  "plain_word (direction_names ! dir_num d)" "letter_direction (first_char (direction_names ! dir_num d)) = Some d"
  "length (direction_names ! dir_num d) \<le> 5" "newline \<notin> set (direction_names ! dir_num d)" "NUL \<notin> set (direction_names ! dir_num d)"
  by (cases d; simp add: direction_names_def plain_word_def whitespace_chars_def first_char_def letter_direction_def)+

lemma number_atoi: "n < 2 ^ 31 \<Longrightarrow> c_atoi (show_base 10 n) = Some (int n)"
  using c_atoi_show [of "int n"] by (simp add: show_int_def)

lemma number_atoi_line: "n < 2 ^ 31 \<Longrightarrow> c_atoi (show_base 10 n @ [newline]) = Some (int n)"
proof -
  assume n: "n < 2 ^ 31"
  obtain d t where hd: "d < 10" "show_base 10 n = hex_char d # t" using show_base_hd [of 10 n] by auto
  have "fst (scan_digits dec_digit 10 0 (show_base 10 n @ [newline])) = n"
    using show_base_scan [of 10 dec_digit 0 n "[newline]", OF dec_digit_char] by (simp add: dec_digit_def)
  moreover have "drop_sign (skip_space (show_base 10 n @ [newline])) = (False, show_base 10 n @ [newline])"
    using hd hex_char_plain [of d] by (simp add: skip_space_def)
  ultimately show ?thesis using n by (simp add: c_atoi_def Let_def)
qed

lemma show_dec_digit: "c \<in> set (show_base 10 n) \<Longrightarrow> dec_digit c \<noteq> None"
  using dec_digit_char by (fastforce dest!: show_base_chars)

lemma describe_line_room:
  assumes ok: "room_line_ok n x" and len: "length rs = n" "n \<le> 10 ^ 9"
  shows "describe_line (room_line x @ [newline]) rs = Some (describe_room x rs)"
proof -
  let ?d = "show_base 10 (fst x)"
  obtain c t where t: "snd x = c # t" "t \<noteq> []" "\<not> isspace c" "fst x < n"
    using ok by (cases "snd x") (auto simp: room_line_ok_def Suc_le_eq)
  have sp: "dec_digit (CHR '' '') = None" by (simp add: dec_digit_def)
  have tw: "takeWhile (\<lambda>c. dec_digit c \<noteq> None) (?d @ CHR '' '' # y) = ?d"
      "dropWhile (\<lambda>c. dec_digit c \<noteq> None) (?d @ CHR '' '' # y) = CHR '' '' # y" for y
    using show_dec_digit [of _ "fst x"] sp by (simp_all add: takeWhile_append2 dropWhile_append2)
  have "length ?d \<le> 9" using decimal_length [of "fst x" 9] t(4) len by simp
  moreover have "c_atoi ?d = Some (int (fst x))" using number_atoi [of "fst x"] t(4) len by simp
  moreover have "take (length t - 1) (t @ [newline]) = butlast t" using t(2) by (simp add: butlast_conv_take)
  ultimately show ?thesis using t len
    by (cases t) (simp_all add: describe_line_def room_line_def Let_def tw isspace_blank describe_room_def del: not_None_eq)
qed

lemma describe_length [simp]: "length (fold describe_room xs rs) = length rs"
  by (induction xs arbitrary: rs) (auto simp: describe_room_def)

lemma room_line_reads:
  assumes "room_line_ok n x" "n \<le> 10 ^ 9"
  shows "fgets 256 (room_line x @ newline # rest) = (room_line x @ [newline], rest)"
    "cstr (room_line x @ [newline]) = room_line x @ [newline]" "first_char (room_line x @ [newline]) \<noteq> newline"
proof -
  have c: "newline \<notin> set (room_line x)" "NUL \<notin> set (room_line x)"
    using assms number_plain [of "fst x"] by (auto simp: room_line_ok_def room_line_def)
  show "fgets 256 (room_line x @ newline # rest) = (room_line x @ [newline], rest)"
    using c assms by (intro fgets_line) (auto simp: room_line_ok_def)
  show "cstr (room_line x @ [newline]) = room_line x @ [newline]" using c(2) by (rule cstr_line)
  show "first_char (room_line x @ [newline]) \<noteq> newline"
    using show_base_hd [of 10 "fst x"] digit_char_plain by (auto simp: room_line_def first_char_def)
qed

lemma describe_rooms_text:
  assumes "\<forall>x \<in> set xs. room_line_ok n x" "length rs = n" "n \<le> 10 ^ 9"
  shows "describe_rooms (concat (map (\<lambda>x. room_line x @ [newline]) xs) @ newline # rest) rs = Inr (rest, fold describe_room xs rs)"
  using assms(1,2)
proof (induction xs arbitrary: rs)
  case Nil
  have "fgets 256 (newline # rest) = ([newline], rest)" using fgets_line [of "[]" 256 rest] by simp
  then show ?case by (simp add: describe_rooms.simps cstr_def first_char_def)
next
  case (Cons x xs)
  have ok: "room_line_ok n x" using Cons.prems by simp
  show ?case
    using Cons.IH [of "describe_room x rs"] Cons.prems describe_line_room [OF ok Cons.prems(2) assms(3)]
      room_line_reads(1) [OF ok assms(3), of "concat (map (\<lambda>x. room_line x @ [newline]) xs) @ newline # rest"]
      room_line_reads(2,3) [OF ok assms(3)]
    by (simp add: describe_rooms.simps [of "_ @ _"] describe_room_def)
qed

lemma skip_number [simp]: "skip_characters (show_base 10 n @ s) whitespace_chars = show_base 10 n @ s"
proof -
  obtain d t where "d < 10" "show_base 10 n = hex_char d # t" using show_base_hd [of 10 n] by auto
  then show ?thesis using digit_char_plain [of d] by (simp add: member_of_iff)
qed

lemma newline_space [simp]: "member_of newline whitespace_chars"
  by (simp add: whitespace_chars_def)

lemma letter_no_space [simp]: "\<not> member_of (CHR ''c'') whitespace_chars"
  by (simp add: whitespace_chars_def)

lemma way_plain: "plain_word ''can-go''" "plain_word ''cant-go''"
  by (simp_all add: plain_word_def whitespace_chars_def)

lemma link_words_plain: "\<forall>w \<in> set (link_words x). plain_word w" "link_words x \<noteq> []"
  by (cases x; simp add: number_plain(1) direction_name_plain(1) way_plain)+

lemma words_line_set: "set (words_line ws) \<subseteq> (\<Union>w \<in> set ws. set w) \<union> {newline, CHR '' ''}"
  by (induction ws rule: words_line.induct) auto

lemma link_line_room:
  assumes "link_ok n x" "length rs = n" "n \<le> 10 ^ 9"
  shows "link_line (words_line (link_words x)) rs = Inr (link_room x rs)"
proof -
  obtain w d a b where x: "x = (w, d, a, b)" by (cases x)
  have "a < 2 ^ 31" "b < 2 ^ 31" using assms by (simp_all add: x)
  then have "c_atoi (show_base 10 a) = Some (int a)" "c_atoi (show_base 10 b) = Some (int b)" by (simp_all add: number_atoi)
  with assms show ?thesis
    unfolding link_line_def tokenizer_words_line [OF link_words_plain]
    by (simp add: x Let_def argv_at_def direction_name_plain room_index_def)
qed

lemma link_length [simp]: "length (link_room x rs) = length rs"
  by (cases x) (simp add: link_rooms_def set_dest_def set_locked_def Let_def)

lemma link_line_reads:
  assumes "link_ok n x" "n \<le> 10 ^ 9"
  shows "fgets 256 (words_line (link_words x) @ rest) = (words_line (link_words x), rest)"
    "cstr (words_line (link_words x)) = words_line (link_words x)" "first_char (words_line (link_words x)) = CHR ''c''"
    "\<not> fgets_eof 256 (words_line (link_words x) @ rest)"
proof -
  obtain w d a b where x: "x = (w, d, a, b)" by (cases x)
  define l where "l = (if w then ''can-go'' else ''cant-go'') @ CHR '' '' # (direction_names ! dir_num d) @ CHR '' '' # show_base 10 a @ CHR '' '' # show_base 10 b"
  have wl: "words_line (link_words x) = l @ [newline]" by (simp add: x l_def)
  have "length (show_base 10 a) \<le> 9" "length (show_base 10 b) \<le> 9" using assms decimal_length [of _ 9] by (simp_all add: x)
  then have len: "length l + 1 < 256" using direction_name_plain(3) [of d] by (simp add: l_def)
  have c: "newline \<notin> set l" "NUL \<notin> set l"
    using number_plain [of a] number_plain [of b] direction_name_plain(4,5) [of d] by (simp_all add: l_def)
  show "fgets 256 (words_line (link_words x) @ rest) = (words_line (link_words x), rest)"
    using fgets_line [OF c(1) len] by (simp add: wl)
  show "cstr (words_line (link_words x)) = words_line (link_words x)" using cstr_line [OF c(2)] by (simp add: wl)
  show "first_char (words_line (link_words x)) = CHR ''c''" by (simp add: wl l_def first_char_def)
  show "\<not> fgets_eof 256 (words_line (link_words x) @ rest)" by (simp add: wl fgets_eof_def)
qed

lemma link_all_text:
  assumes "\<forall>x \<in> set xs. link_ok n x" "length rs = n" "n \<le> 10 ^ 9" "tail = [] \<or> tail = [newline]"
  shows "link_all (concat (map (\<lambda>x. words_line (link_words x)) xs) @ tail) rs = Inr (fold link_room xs rs)"
  using assms(1,2)
proof (induction xs arbitrary: rs)
  case Nil
  have "fgets 256 [newline] = ([newline], [])" "fgets 256 [] = ([], [])" using fgets_line [of "[]" 256 "[]"] by (simp_all add: fgets_def)
  then show ?case using assms(4) by (auto simp: link_all.simps cstr_def first_char_def fgets_eof_def)
next
  case (Cons x xs)
  have ok: "link_ok n x" using Cons.prems by simp
  show ?case
    using Cons.IH [of "link_room x rs"] Cons.prems link_line_room [OF ok Cons.prems(2) assms(3)]
      link_line_reads(1,4) [OF ok assms(3), of "concat (map (\<lambda>x. words_line (link_words x)) xs) @ tail"]
      link_line_reads(2,3) [OF ok assms(3)]
    by (simp add: link_all.simps [of "_ @ _"])
qed

text \<open>
  A level file that lists descriptions and exits in this format is loaded; the blank line at the end is
  optional. The rooms are described and linked line by line.
\<close>

lemma load_level_lines:
  assumes "0 < n" "n \<le> 10 ^ 9" "rooms \<noteq> []" "\<forall>x \<in> set rooms. room_line_ok n x" "links \<noteq> []"
    "\<forall>x \<in> set links. link_ok n x" "tail = [] \<or> tail = [newline]"
  shows "load_rooms (level_text n rooms links @ tail) =
    Inr (fold link_room links (fold describe_room rooms (map new_room [0..<n])))"
proof -
  let ?L = "concat (map (\<lambda>x. words_line (link_words x)) links) @ tail"
  let ?R = "concat (map (\<lambda>x. room_line x @ [newline]) rooms) @ newline # ?L"
  have c: "newline \<notin> set (show_base 10 n)" "NUL \<notin> set (show_base 10 n)" by (rule number_plain)+
  have "length (show_base 10 n) \<le> 10" using decimal_length [of n 10] assms(2) by simp
  then have f: "fgets 256 (show_base 10 n @ newline # newline # ?R) = (show_base 10 n @ [newline], newline # ?R)"
    by (intro fgets_line [OF c(1)]) simp
  have sk: "skip_characters ?R whitespace_chars = ?R"
    using assms(3) by (cases rooms) (simp_all add: room_line_def)
  have sl: "skip_characters ?L whitespace_chars = ?L"
    using assms(5) by (cases links; cases "hd links") auto
  have d: "describe_rooms ?R (map new_room [0..<n]) = Inr (?L, fold describe_room rooms (map new_room [0..<n]))"
    using assms by (intro describe_rooms_text) simp_all
  have l: "link_all ?L (fold describe_room rooms (map new_room [0..<n])) = Inr (fold link_room links (fold describe_room rooms (map new_room [0..<n])))"
    using assms by (intro link_all_text [where n = n]) simp_all
  have ne: "show_base 10 n @ newline # newline # ?R \<noteq> []" by simp
  have t: "level_text n rooms links @ tail = show_base 10 n @ newline # newline # ?R" by (simp add: level_text_def)
  have a: "c_atoi (show_base 10 n @ [newline]) = Some (int n)" using assms(2) by (intro number_atoi_line) simp
  show ?thesis
    unfolding load_rooms_def Let_def t skip_number f using ne assms(1)
    by (simp add: cstr_line [OF c(2)] a sk sl d l del: append_assoc concat.simps map_append)
qed

section \<open>The rooms that a level file describes\<close>

text \<open>The two exits that a line connects\<close>

fun link_ends :: "link \<Rightarrow> (nat \<times> nat) list" where
  "link_ends (open_way, d, a, b) = [(a, dir_num d), (b, flip_direction (dir_num d))]"

lemma flip_direction_simps [simp]:
  "flip_direction (dir_num d) \<noteq> dir_num d" "dir_num d \<noteq> flip_direction (dir_num d)" "flip_direction (dir_num d) < 6"
  by (cases d; simp add: flip_direction_def)+

definition six_exits :: "room list \<Rightarrow> bool" where
  "six_exits rs \<longleftrightarrow> (\<forall>i < length rs. length (exits (rs ! i)) = 6)"

lemma set_dest_exit:
  assumes "a < length rs" "i < length rs" "six_exits rs" "d < 6" "k < 6"
  shows "exits (set_dest a d j rs ! i) ! k = (if (i, k) = (a, d) then (exits (rs ! i) ! k)\<lparr>dest := Some j\<rparr> else exits (rs ! i) ! k)"
    "exits (set_locked a d rs ! i) ! k = (if (i, k) = (a, d) then (exits (rs ! i) ! k)\<lparr>locked := True\<rparr> else exits (rs ! i) ! k)"
    "six_exits (set_dest a d j rs)" "six_exits (set_locked a d rs)"
  using assms by (auto simp: set_dest_def set_locked_def six_exits_def nth_list_update)

lemma dir_num_six: "dir_num d < 6"
  by (cases d) simp_all

lemma link_room_exit:
  assumes "link_ok (length rs) (w, d, a, b)" "i < length rs" "six_exits rs" "k < 6"
  shows "exits (link_room (w, d, a, b) rs ! i) ! k =
    (if (i, k) = (a, dir_num d) then \<lparr>dest = Some b, locked = (\<not> w \<or> locked (exits (rs ! i) ! k))\<rparr>
     else if (i, k) = (b, flip_direction (dir_num d)) then (exits (rs ! i) ! k)\<lparr>dest := Some a\<rparr>
     else exits (rs ! i) ! k)" (is ?E)
    and "six_exits (link_room (w, d, a, b) rs)" (is ?S)
proof -
  let ?r1 = "set_dest a (dir_num d) b rs"
  let ?r2 = "set_dest b (flip_direction (dir_num d)) a ?r1"
  have ok: "a < length rs" "b < length rs" using assms(1) by simp_all
  have s: "six_exits ?r1" "six_exits ?r2"
    using set_dest_exit(3) [of a rs i "dir_num d" k b] set_dest_exit(3) [of b ?r1 i "flip_direction (dir_num d)" k a] assms ok
    by (simp_all add: set_dest_def dir_num_six)
  have len: "length ?r1 = length rs" "length ?r2 = length rs" by (simp_all add: set_dest_def)
  note e = set_dest_exit(1) [of a rs i "dir_num d" k b] set_dest_exit(1) [of b ?r1 i "flip_direction (dir_num d)" k a]
    set_dest_exit(2,4) [of a ?r2 i "dir_num d" k]
  show ?E ?S using e assms ok s len by (auto simp: link_rooms_def Let_def dir_num_six)
qed

lemma links_other:
  assumes "\<forall>x \<in> set xs. link_ok (length rs) x" "i < length rs" "six_exits rs" "k < 6" "(i, k) \<notin> set (concat (map link_ends xs))"
  shows "exits (fold link_room xs rs ! i) ! k = exits (rs ! i) ! k \<and> six_exits (fold link_room xs rs)"
  using assms
proof (induction xs arbitrary: rs)
  case (Cons x xs)
  obtain w d a b where x: "x = (w, d, a, b)" by (cases x)
  show ?case using Cons.IH [of "link_room x rs"] Cons.prems link_room_exit [of rs w d a b i k] by (auto simp: x simp del: link_room.simps)
qed simp

lemma links_end:
  assumes ok: "\<forall>x \<in> set xs. link_ok n x" and dis: "distinct (concat (map link_ends xs))" and x: "(w, d, a, b) \<in> set xs"
    and rs: "length rs = n" "six_exits rs" "\<forall>i < n. \<forall>k < 6. exits (rs ! i) ! k = \<lparr>dest = None, locked = False\<rparr>"
  shows "exits (fold link_room xs rs ! a) ! dir_num d = \<lparr>dest = Some b, locked = \<not> w\<rparr> \<and>
    exits (fold link_room xs rs ! b) ! flip_direction (dir_num d) = \<lparr>dest = Some a, locked = False\<rparr>"
proof -
  let ?x = "(w, d, a, b)" and ?f = "flip_direction (dir_num d)"
  obtain ys zs where xs: "xs = ys @ ?x # zs" using x by (auto simp: in_set_conv_decomp)
  let ?r = "fold link_room ys rs"
  have len: "length ?r = n" using rs(1) by (induction ys arbitrary: rs) simp_all
  have ab: "a < n" "b < n" using ok x by auto
  have y: "exits (?r ! a) ! dir_num d = \<lparr>dest = None, locked = False\<rparr>" "exits (?r ! b) ! ?f = \<lparr>dest = None, locked = False\<rparr>" "six_exits ?r"
    using links_other [of ys rs a "dir_num d"] links_other [of ys rs b ?f] ok dis rs ab by (auto simp: xs dir_num_six)
  have z: "exits (link_room ?x ?r ! a) ! dir_num d = \<lparr>dest = Some b, locked = \<not> w\<rparr>"
      "exits (link_room ?x ?r ! b) ! ?f = \<lparr>dest = Some a, locked = False\<rparr>" "six_exits (link_room ?x ?r)"
    using link_room_exit [of ?r w d a b a "dir_num d"] link_room_exit [of ?r w d a b b ?f] y ab len by (auto simp: dir_num_six simp del: link_room.simps)
  show ?thesis
    using links_other [of zs "link_room ?x ?r" a "dir_num d"] links_other [of zs "link_room ?x ?r" b ?f] z ok dis len ab
    by (auto simp: xs dir_num_six simp del: link_room.simps)
qed

lemma describe_keeps: "i \<notin> fst ` set xs \<Longrightarrow> fold describe_room xs rs ! i = rs ! i"
  by (induction xs arbitrary: rs) (auto simp: describe_room_def)

lemma describe_text:
  assumes "distinct (map fst xs)" "(i, t) \<in> set xs" "i < length rs"
  shows "description (fold describe_room xs rs ! i) = Some (butlast (tl t))"
proof -
  obtain ys zs where xs: "xs = ys @ (i, t) # zs" using assms(2) by (auto simp: in_set_conv_decomp)
  have "i \<notin> fst ` set zs" using assms(1) by (auto simp: xs)
  then show ?thesis using assms(3) by (simp add: xs describe_keeps) (simp add: describe_room_def)
qed

lemma exits_describe: "map exits (fold describe_room xs rs) = map exits rs"
proof (induction xs arbitrary: rs)
  case (Cons x xs)
  have "map exits (describe_room x rs) = map exits rs"
    by (cases "fst x < length rs") (auto simp: describe_room_def nth_list_update list_update_beyond intro!: nth_equalityI)
  with Cons show ?case by simp
qed simp

lemma descriptions_link: "map description (link_room x rs) = map description rs"
proof -
  have "map description (set_dest i d j rs) = map description rs" "map description (set_locked i d rs) = map description rs" for i d j rs
    by (cases "i < length rs"; auto simp: set_dest_def set_locked_def nth_list_update list_update_beyond intro!: nth_equalityI)+
  then show ?thesis by (cases x) (simp add: link_rooms_def Let_def)
qed

lemma descriptions_links: "map description (fold link_room xs rs) = map description rs"
  by (induction xs arbitrary: rs) (simp_all add: descriptions_link)

lemma links_length [simp]: "length (fold link_room xs rs) = length rs"
  by (induction xs arbitrary: rs) simp_all

text \<open>
  C26: A level file in the format of the repository, with at most one line for each exit, is loaded without
  undefined behaviour: both exits of every line are connected, the first is locked exactly if the line says
  \<open>cant-go\<close> and the way back never; all other exits stay walls. The description of a room is the text of its
  line without the first and the last character.
\<close>

theorem level_file_loaded:
  assumes "0 < n" "n \<le> 10 ^ 9" "rooms \<noteq> []" "\<forall>x \<in> set rooms. room_line_ok n x" "links \<noteq> []"
    "\<forall>x \<in> set links. link_ok n x" "distinct (concat (map link_ends links))" "distinct (map fst rooms)"
  shows "\<exists>rs. load_rooms (level_text n rooms links) = Inr rs \<and> length rs = n \<and>
    (\<forall>(w, d, a, b) \<in> set links. exits (rs ! a) ! dir_num d = \<lparr>dest = Some b, locked = \<not> w\<rparr> \<and>
       exits (rs ! b) ! flip_direction (dir_num d) = \<lparr>dest = Some a, locked = False\<rparr>) \<and>
    (\<forall>i < n. \<forall>k < 6. (i, k) \<notin> set (concat (map link_ends links)) \<longrightarrow> dest (exits (rs ! i) ! k) = None) \<and>
    (\<forall>(i, t) \<in> set rooms. description (rs ! i) = Some (butlast (tl t)))"
proof -
  let ?r0 = "fold describe_room rooms (map new_room [0..<n])" and ?rs = "fold link_room links (fold describe_room rooms (map new_room [0..<n]))"
  have load: "load_rooms (level_text n rooms links) = Inr ?rs"
    using load_level_lines [of n rooms links "[]"] assms by simp
  have ex: "exits (?r0 ! i) = replicate 6 \<lparr>dest = None, locked = False\<rparr>" if "i < n" for i
    using arg_cong [OF exits_describe [of rooms "map new_room [0..<n]"], of "\<lambda>m. m ! i"] that by (simp add: new_room_def)
  have six: "six_exits ?r0" using ex by (simp add: six_exits_def)
  have links: "exits (?rs ! a) ! dir_num d = \<lparr>dest = Some b, locked = \<not> w\<rparr> \<and>
      exits (?rs ! b) ! flip_direction (dir_num d) = \<lparr>dest = Some a, locked = False\<rparr>" if "(w, d, a, b) \<in> set links" for w d a b
    using assms(6,7) that six ex by (intro links_end [where n = n]) auto
  have walls: "dest (exits (?rs ! i) ! k) = None" if "i < n" "k < 6" "(i, k) \<notin> set (concat (map link_ends links))" for i k
    using links_other [of links ?r0 i k] that six ex assms(6) by auto
  have texts: "description (?rs ! i) = Some (butlast (tl t))" if "(i, t) \<in> set rooms" for i t
  proof -
    have "i < n" using assms(4) that by (auto simp: room_line_ok_def)
    then show ?thesis
      using describe_text [OF assms(8) that, of "map new_room [0..<n]"]
        arg_cong [OF descriptions_links [of links ?r0], of "\<lambda>m. m ! i"] by simp
  qed
  have "length ?rs = n" by simp
  with load links walls texts show ?thesis by (intro exI [of _ ?rs]) auto
qed

theorem level_file_loaded_witness:
  "\<exists>rs. load_rooms (level_text 2 [(0, ''you are here''), (1, ''you are there'')] [(False, EAST, 0, 1)]) = Inr rs \<and> length rs = 2 \<and>
    exits (rs ! 0) ! 2 = \<lparr>dest = Some 1, locked = True\<rparr> \<and> exits (rs ! 1) ! 3 = \<lparr>dest = Some 0, locked = False\<rparr> \<and>
    description (rs ! 0) = Some ''ou are her''"
proof -
  have "\<forall>x \<in> set [(0, ''you are here''), (1, ''you are there'')]. room_line_ok 2 x" by code_simp
  moreover have "flip_direction 2 = 3" by (simp add: flip_direction_def)
  ultimately show ?thesis
    using level_file_loaded [of 2 "[(0, ''you are here''), (1, ''you are there'')]" "[(False, EAST, 0, 1)]"] by auto
qed

section \<open>The level of the game\<close>

text \<open>The rooms and exits of \<open>cs61c-world.lvl\<close>\<close>

definition world_rooms :: "(nat \<times> string) list" where
  "world_rooms =
     [(0, ''You are in a cold, concrete-floored room. There are no windows and almost no light. The only thing you can make out is the faint outline of a door to the south.''),
      (1, ''A dim hallway stretches out before you. You see a doorway leading to stairs. ''),
      (2, ''You are in a stairwell. Strange drawings cover the walls. ''),
      (3, ''This area was once a lobby, but now is in ruins. There are double doors leading outside and stairs leading deeper into the building.''),
      (4, ''You are outside a towering fortress. Its gray-green exterior exudes an air of malignancy. The entrance is to the west.''),
      (5, ''You are standing in the concrete basin of a large, circular fountain. Tall buildings loom in every direction.''),
      (6, ''You are outside a large, circular building. Although vines and moss cover its bulk, you can see red bricks poking through here and there. It looks like the building extends underground. An old black-and-white computer terminal stands by the door.''),
      (7, ''You are inside the circular building. You see a door leading down into an auditorium. There is a terminal on the wall.''),
      (8, ''You are half-way down the steps of a large auditorium. You are almost certainly underground. Typing echos throughout the room. Another terminal is embedded in the wall.''),
      (9, ''You are at the bottom of the auditorium in front of a grid of sliding chalkboards. A man is typing at an ancient terminal. There are many parentheses. ''),
      (10, ''There is a rift blocking the path to the north. Beyond it you can see the structure of an unfinished building.''),
      (11, ''You are inside a half-constructed building, the amount of dust tells you that it hasn't been worked on in years. Exposed steel rafters crisscross above your head. The rumble of a running generator echos from somewhere in the structure.''),
      (12, ''You are balancing on a steel rafter. You see a ladder that leads further up into the structure.''),
      (13, ''You are on a strange metal floor. ''),
      (14, ''At the top of the building stands a tall man, excitedly playing with a dual-monitor computer and peering through an expensive looking camera aimed down at the building.''),
      (15, ''You are behind a large beige building. There is a door to the north. Next to it, a cardkey reader blinks at you expectantly.''),
      (16, ''You are in a small corridor leading directly from the door to an elevator. There is a right-angle in the corridor, and at the turn there are huge shards of what used to be wall-mounted mirrors. Next to the shards are 8 torches.''),
      (17, ''You are on a new floor of the building. There is a long hallway which used to encircle the entire floor, but now rubble blocks the way to the east.''),
      (18, ''You are at the end of the hallway, far from the elevators. There are double doors leading to a misty street.''),
      (19, ''You are outside on a misty street going from east to west. The beige building looms to the south, and to the west you can make out the tall man peering through his camera. To the west is a steep hill, and to the northwest a large green building.''),
      (20, ''You are outside a building faced with huge green tiles. Many of the tiles have fallen, and the sidewalk surrounding the building is a patchwork of green ceramic shards and gray concrete. There is a large hole in the wall facing the street.''),
      (21, ''The walls were once white, but are now smudged and torn. There is a door leading to stairs.''),
      (22, ''There is a heap of tiny stones in this room. Each stone has the word \"byte\" scratched on it.''),
      (23, ''You are in a spiraling metal stairwell.''),
      (24, ''You are near the top of the green building. The ample windows make the spacious room almost blindingly light. The walls are littered with posters consistingly solely of two strange symbols: an X and an O stacked one on top of the other. ''),
      (25, ''You made it to the top of the building!'')]"

definition world_links :: "link list" where
  "world_links =
     [(True, SOUTH, 0, 1), (False, UP, 1, 2), (False, UP, 2, 3), (False, EAST, 3, 4), (True, EAST, 4, 5),
      (True, SOUTH, 5, 6), (False, EAST, 6, 7), (False, DOWN, 7, 8), (False, DOWN, 8, 9), (True, NORTH, 5, 10),
      (False, NORTH, 10, 11), (False, UP, 11, 12), (True, UP, 12, 13), (False, UP, 13, 14), (True, EAST, 5, 15),
      (False, NORTH, 15, 16), (False, UP, 16, 17), (True, NORTH, 17, 18), (True, WEST, 18, 19), (True, WEST, 19, 20),
      (True, NORTH, 20, 21), (True, DOWN, 21, 22), (False, UP, 21, 23), (True, UP, 23, 24), (False, UP, 24, 25)]"

definition world_lvl :: string where
  "world_lvl = level_text 26 world_rooms world_links @ [newline]"

definition world :: "room list" where
  "world = fold link_room world_links (fold describe_room world_rooms (map new_room [0..<26]))"

lemma world_rooms_ok: "\<forall>x \<in> set world_rooms. room_line_ok 26 x"
  by code_simp

lemma world_links_ok: "\<forall>x \<in> set world_links. link_ok 26 x"
  by (simp add: world_links_def)

lemma world_loads: "load_rooms world_lvl = Inr world"
  unfolding world_lvl_def world_def
  by (rule load_level_lines) (simp_all add: world_rooms_ok world_links_ok, simp_all add: world_rooms_def world_links_def)

text \<open>The exits of the rooms, in the order of the directions\<close>

abbreviation wall :: exit_t where "wall \<equiv> \<lparr>dest = None, locked = False\<rparr>"
abbreviation way :: "nat \<Rightarrow> exit_t" where "way i \<equiv> \<lparr>dest = Some i, locked = False\<rparr>"
abbreviation shut :: "nat \<Rightarrow> exit_t" where "shut i \<equiv> \<lparr>dest = Some i, locked = True\<rparr>"

definition world_exits :: "exit_t list list" where
  "world_exits =
     [[wall, way 1, wall, wall, wall, wall],
      [way 0, wall, wall, wall, shut 2, wall],
      [wall, wall, wall, wall, shut 3, way 1],
      [wall, wall, shut 4, wall, wall, way 2],
      [wall, wall, way 5, way 3, wall, wall],
      [way 10, way 6, way 15, way 4, wall, wall],
      [way 5, wall, shut 7, wall, wall, wall],
      [wall, wall, wall, way 6, wall, shut 8],
      [wall, wall, wall, wall, way 7, shut 9],
      [wall, wall, wall, wall, way 8, wall],
      [shut 11, way 5, wall, wall, wall, wall],
      [wall, way 10, wall, wall, shut 12, wall],
      [wall, wall, wall, wall, way 13, way 11],
      [wall, wall, wall, wall, shut 14, way 12],
      [wall, wall, wall, wall, wall, way 13],
      [shut 16, wall, wall, way 5, wall, wall],
      [wall, way 15, wall, wall, shut 17, wall],
      [way 18, wall, wall, wall, wall, way 16],
      [wall, way 17, wall, way 19, wall, wall],
      [wall, wall, way 18, way 20, wall, wall],
      [way 21, wall, way 19, wall, wall, wall],
      [wall, way 20, wall, wall, shut 23, way 22],
      [wall, wall, wall, wall, way 21, wall],
      [wall, wall, wall, wall, way 24, way 21],
      [wall, wall, wall, wall, shut 25, way 23],
      [wall, wall, wall, wall, wall, way 24]]"

text \<open>Descriptions do not matter for the exits.\<close>

lemma exits_set_dest: "i < length rs \<Longrightarrow> map exits (set_dest i d j rs) =
    (map exits rs)[i := (map exits rs ! i)[d := (map exits rs ! i ! d)\<lparr>dest := Some j\<rparr>]]"
  by (simp add: set_dest_def map_update)

lemma exits_set_locked: "i < length rs \<Longrightarrow> map exits (set_locked i d rs) =
    (map exits rs)[i := (map exits rs ! i)[d := (map exits rs ! i ! d)\<lparr>locked := True\<rparr>]]"
  by (simp add: set_locked_def map_update)

lemma set_dest_length [simp]: "length (set_dest i d j rs) = length rs" "length (set_locked i d rs) = length rs"
  by (simp_all add: set_dest_def set_locked_def)

lemma exits_link:
  assumes "link_ok (length rs) x" "map exits rs = map exits ss"
  shows "map exits (link_room x rs) = map exits (link_room x ss)"
proof -
  have "length ss = length rs" using arg_cong [OF assms(2), of length] by simp
  with assms show ?thesis
    by (cases x) (simp add: link_rooms_def Let_def exits_set_dest exits_set_locked)
qed

lemma exits_links:
  "\<forall>x \<in> set xs. link_ok (length rs) x \<Longrightarrow> map exits rs = map exits ss \<Longrightarrow>
   map exits (fold link_room xs rs) = map exits (fold link_room xs ss)"
  by (induction xs arbitrary: rs ss) (simp_all add: exits_link)

lemma new_world_exits: "map exits (fold link_room world_links (map new_room [0..<26])) = world_exits"
  by code_simp

lemma world_exits: "map exits world = world_exits"
  unfolding world_def new_world_exits [symmetric]
  by (rule exits_links) (simp_all add: world_links_ok exits_describe)

end
