(* ===== verification/AdventureProofs.thy ===== *)
theory AdventureProofs
  imports AdventureLevel
begin

text \<open>
  What can happen in the text adventure: pointers to rooms stay valid, the assertions of the puzzles hold,
  and, on the level of the repository, most of the rooms can never be entered. Each of these is an
  invariant: an instance of the interface \<open>world_kept\<close>.
\<close>

section \<open>Runs\<close>

context world_kept
begin

lemma repl_keeps: "I g \<Longrightarrow> keeps I (repl draws g)"
proof (induction g rule: measure_induct_rule [of "\<lambda>g. length (stdin_text g)"])
  case (less g)
  show ?case
    unfolding repl.simps [of draws g]
    by (rule keeps_andthen) (auto simp: less.prems one_line_keeps intro!: less.IH dest!: one_line_shorter)
qed

end

text \<open>The states between two lines of input\<close>

inductive reached :: "nat \<Rightarrow> game \<Rightarrow> game \<Rightarrow> bool" for draws :: nat and g0 :: game where
  start: "reached draws g0 g0"
| line: "reached draws g0 g \<Longrightarrow> one_line draws g = Ok b h \<Longrightarrow> reached draws g0 h"

context world_kept
begin

lemma reached_keeps: "reached draws g0 g \<Longrightarrow> I g0 \<Longrightarrow> I g"
proof (induction rule: reached.induct)
  case (line g b h)
  then show ?case using one_line_keeps [of g draws] by simp
qed

end

section \<open>The state under the primitive changes\<close>

lemma unlock_fields [simp]:
  "the_player (unlock d g) = the_player g" "solved_puzzles (unlock d g) = solved_puzzles g" "cardkey (unlock d g) = cardkey g"
  "length (room_array (unlock d g)) = length (room_array g)"
  by (simp_all add: unlock_def Let_def)

lemma set_solved_fields [simp]:
  "the_player (set_solved n g) = the_player g" "room_array (set_solved n g) = room_array g" "cardkey (set_solved n g) = cardkey g"
  "solved_puzzles (set_solved n g) = (solved_puzzles g)[n := True]"
  by (simp_all add: set_solved_def)

lemma say_fields [simp]:
  "the_player (say s g) = the_player g" "room_array (say s g) = room_array g" "cardkey (say s g) = cardkey g"
  "solved_puzzles (say s g) = solved_puzzles g"
  by (simp_all add: say_def)

lemma unlock_room:
  assumes "i < length (room_array g)"
  shows "room_array (unlock d g) ! i =
    (if i = current_room (the_player g)
     then (cur g)\<lparr>exits := (exits (cur g))[dir_num d := (exits (cur g) ! dir_num d)\<lparr>locked := False\<rparr>]\<rparr>
     else room_array g ! i)"
  using assms by (cases "current_room (the_player g) < length (room_array g)") (auto simp: unlock_def Let_def list_update_beyond)

section \<open>Pointers\<close>

definition room_ok :: "nat \<Rightarrow> room \<Rightarrow> bool" where
  "room_ok n r \<longleftrightarrow> length (exits r) = 6 \<and> (\<forall>k < 6. \<forall>j. dest (exits r ! k) = Some j \<longrightarrow> j < n)"

definition pointers_ok :: "game \<Rightarrow> bool" where
  "pointers_ok g \<longleftrightarrow> current_room (the_player g) < length (room_array g) \<and>
     (\<forall>i < length (room_array g). room_ok (length (room_array g)) (room_array g ! i))"

lemma dir_num_less [simp]: "dir_num d < 6"
  by (cases d) simp_all

lemma dir_num_inj [simp]: "dir_num d = dir_num e \<longleftrightarrow> d = e"
  by (cases d; cases e) simp_all

lemma pointers_unlock: "pointers_ok g \<Longrightarrow> pointers_ok (unlock d g)"
  by (auto simp: pointers_ok_def unlock_room cur_def room_ok_def nth_list_update)

lemma pointers_set_solved [simp]: "pointers_ok (set_solved n g) = pointers_ok g"
  by (simp add: pointers_ok_def)

interpretation ptr: world_kept pointers_ok
proof (unfold_locales, goal_cases)
  case (14 g d j)
  then show ?case by (simp add: pointers_ok_def cur_def room_ok_def) (metis dir_num_less)
qed (auto simp: pointers_unlock, auto simp: pointers_ok_def)

section \<open>Starting the game\<close>

lemma set_puzzles_run:
  "length (room_array g) = 26 \<Longrightarrow> i + k = 26 \<Longrightarrow>
   \<exists>rs. set_puzzles i k g = Ok () (g\<lparr>room_array := rs\<rparr>) \<and> length rs = 26 \<and>
     (\<forall>j < 26. exits (rs ! j) = exits (room_array g ! j) \<and> description (rs ! j) = description (room_array g ! j) \<and>
       (i \<le> j \<longrightarrow> description_fxn (rs ! j) = fst (puzzles ! j) \<and> interact_fxn (rs ! j) = snd (puzzles ! j)) \<and>
       (j < i \<longrightarrow> rs ! j = room_array g ! j))"
proof (induction k arbitrary: i g)
  case 0
  then show ?case by (auto intro!: exI [of _ "room_array g"])
next
  case (Suc k)
  let ?h = "g\<lparr>room_array := (room_array g)[i := (room_array g ! i)\<lparr>description_fxn := fst (puzzles ! i), interact_fxn := snd (puzzles ! i)\<rparr>]\<rparr>"
  have p: "length puzzles = 26" by (simp add: puzzles_def)
  have s: "set_puzzles i (Suc k) g = set_puzzles (Suc i) k ?h"
    using Suc.prems p by (simp add: get_puzzle_description_def get_puzzle_solver_def)
  have len: "length (room_array ?h) = 26" "Suc i + k = 26" using Suc.prems by simp_all
  obtain rs where rs: "set_puzzles (Suc i) k ?h = Ok () (?h\<lparr>room_array := rs\<rparr>)" "length rs = 26"
      "\<forall>j < 26. exits (rs ! j) = exits (room_array ?h ! j) \<and> description (rs ! j) = description (room_array ?h ! j) \<and>
       (Suc i \<le> j \<longrightarrow> description_fxn (rs ! j) = fst (puzzles ! j) \<and> interact_fxn (rs ! j) = snd (puzzles ! j)) \<and>
       (j < Suc i \<longrightarrow> rs ! j = room_array ?h ! j)"
    using Suc.IH [OF len] by blast
  have "exits (rs ! j) = exits (room_array g ! j) \<and> description (rs ! j) = description (room_array g ! j) \<and>
       (i \<le> j \<longrightarrow> description_fxn (rs ! j) = fst (puzzles ! j) \<and> interact_fxn (rs ! j) = snd (puzzles ! j)) \<and>
       (j < i \<longrightarrow> rs ! j = room_array g ! j)" if "j < 26" for j
    using spec [OF rs(3), of j] that Suc.prems by (cases "j = i") auto
  with rs(1,2) s show ?case by auto
qed

text \<open>What is printed before the player wakes up\<close>

definition greeting :: "string \<Rightarrow> string" where
  "greeting argv0 =
     (let border = print_border (CHR ''-'') (CHR ''='') (int (length (banner argv0)) - 1) in border @ banner argv0 @ border)"

text \<open>The game on the level of the repository when the player wakes up\<close>

definition woken :: "(nat \<Rightarrow> nat) \<Rightarrow> string \<Rightarrow> string \<Rightarrow> room list \<Rightarrow> game" where
  "woken rs argv0 inp rooms =
     say (''You wake up.'' @ [newline]) (init_player 0 ((say (greeting argv0) (new_game rs inp))\<lparr>room_array := rooms\<rparr>))"

lemma world_length [simp]: "length world = 26"
  using arg_cong [OF world_exits, of length] by (simp add: world_exits_def)

definition puzzles_set :: "room list \<Rightarrow> bool" where
  "puzzles_set rs \<longleftrightarrow> length rs = 26 \<and> (\<forall>i < 26. description_fxn (rs ! i) = fst (puzzles ! i) \<and> interact_fxn (rs ! i) = snd (puzzles ! i))"

lemma start_world:
  assumes "fs default_level = Some world_lvl"
  shows "\<exists>rooms. start_game fs [argv0] (new_game rs inp) = andthen (look (woken rs argv0 inp rooms)) (\<lambda>_ g. Ok () g) \<and>
    puzzles_set rooms \<and> (\<forall>i < 26. exits (rooms ! i) = world_exits ! i) \<and> (\<forall>i < 26. description (rooms ! i) = description (world ! i))"
proof -
  let ?g = "(say (greeting argv0) (new_game rs inp))\<lparr>room_array := world\<rparr>"
  have load: "load_level fs default_level (say (greeting argv0) (new_game rs inp)) = Ok 0 ?g"
    using assms by (simp add: load_level_def world_loads)
  obtain rooms where r: "set_puzzles 0 26 ?g = Ok () (?g\<lparr>room_array := rooms\<rparr>)" "length rooms = 26"
      "\<forall>j < 26. exits (rooms ! j) = exits (world ! j) \<and> description (rooms ! j) = description (world ! j) \<and>
        description_fxn (rooms ! j) = fst (puzzles ! j) \<and> interact_fxn (rooms ! j) = snd (puzzles ! j)"
    using set_puzzles_run [of ?g 0 26] by auto
  have e: "exits (world ! j) = world_exits ! j" if "j < 26" for j
    using that unfolding world_exits [symmetric] by simp
  have b: "print_border (CHR ''-'') (CHR ''='') (47 + int (length argv0)) @ banner argv0 @ print_border (CHR ''-'') (CHR ''='') (47 + int (length argv0)) = greeting argv0"
    by (simp add: greeting_def banner_def Let_def)
  have "start_game fs [argv0] (new_game rs inp) = andthen (look (woken rs argv0 inp rooms)) (\<lambda>_ g. Ok () g)"
    using r(1) by (simp add: start_game_def argv_at_def Let_def b load woken_def)
  with r e show ?thesis by (auto simp: puzzles_set_def intro!: exI [of _ rooms])
qed

section \<open>Looking around\<close>

lemma several_exits_Some: "k \<le> num_exits es \<Longrightarrow> \<exists>t. several_exits k i es = Some t"
  by (induction k i es rule: several_exits.induct) (auto simp: num_exits_def split: if_splits)

lemma exits_text_Some: "\<exists>t. exits_text es = Some t"
  using several_exits_Some [of "num_exits es" es 0] by (auto simp: exits_text_def)

lemma call_desc_place:
  "the_player (call_desc n g) = the_player g \<and> length (room_array (call_desc n g)) = length (room_array g)"
proof -
  have "the_player (snd (draw_piles k h)) = the_player h \<and> room_array (snd (draw_piles k h)) = room_array h" for k h
    by (induction k arbitrary: h) (auto simp: c_rand_def split_def Let_def)
  then have "the_player (desc24 g) = the_player g \<and> room_array (desc24 g) = room_array g"
    by (simp add: desc24_def c_rand_def Let_def split_def)
  then show ?thesis
    unfolding call_desc.simps [of n g]
    by (simp add: desc0_def desc1_def desc2_def desc3_def desc6_def desc7_def desc8_def desc9_def desc10_def desc11_def
        desc13_def desc14_def desc15_def desc16_def desc21_def desc22_def desc25_def)
qed

text \<open>Looking around takes no time, never fails in a room with a description, and leaves the player where he is.\<close>

lemma look_Ok:
  assumes "description (cur g) \<noteq> None"
  shows "\<exists>h. look g = Ok 0 h \<and> the_player h = the_player g \<and> length (room_array h) = length (room_array g)"
proof -
  obtain d where d: "description (cur g) = Some d" using assms by auto
  define h where "h = (case description_fxn (cur g) of None \<Rightarrow> say_line d g | Some n \<Rightarrow> call_desc n (say_line d g))"
  obtain t where t: "exits_text (exits (cur h)) = Some t" using exits_text_Some by blast
  have "the_player h = the_player g \<and> length (room_array h) = length (room_array g)"
    by (simp add: h_def say_line_def call_desc_place split: option.splits)
  moreover have "look g = Ok 0 (say t h)"
    using t by (simp add: look_def d h_def [symmetric] num_monsters_def Let_def)
  ultimately show ?thesis by auto
qed

definition described :: "room list \<Rightarrow> bool" where
  "described rs \<longleftrightarrow> (\<forall>r \<in> set rs. description r \<noteq> None)"

lemma describe_room_keeps: "description (rs ! i) \<noteq> None \<Longrightarrow> description (describe_room x rs ! i) \<noteq> None"
  by (cases "fst x < length rs") (auto simp: describe_room_def nth_list_update list_update_beyond)

lemma describe_rooms_keep: "description (rs ! i) \<noteq> None \<Longrightarrow> description (fold describe_room xs rs ! i) \<noteq> None"
  by (induction xs arbitrary: rs) (simp_all add: describe_room_keeps del: not_None_eq)

lemma describe_rooms_all: "i < length rs \<Longrightarrow> i \<in> fst ` set xs \<Longrightarrow> description (fold describe_room xs rs ! i) \<noteq> None"
proof (induction xs arbitrary: rs)
  case (Cons x xs)
  show ?case
  proof (cases "fst x = i")
    case True
    then have "description (describe_room x rs ! i) \<noteq> None" using Cons.prems by (simp add: describe_room_def)
    then show ?thesis by (simp add: describe_rooms_keep del: not_None_eq)
  next
    case False
    have "i < length (describe_room x rs)" "i \<in> fst ` set xs" using Cons.prems False by (auto simp: describe_room_def)
    then show ?thesis using Cons.IH by simp
  qed
qed simp

lemma world_described: "described world"
proof -
  have "fst ` set world_rooms = {..<26}" by (auto simp: world_rooms_def lessThan_nat_numeral lessThan_Suc)
  then have "\<forall>i < 26. description (fold describe_room world_rooms (map new_room [0..<26]) ! i) \<noteq> None"
    using describe_rooms_all by simp
  then have "described (fold describe_room world_rooms (map new_room [0..<26]))"
    by (auto simp: described_def in_set_conv_nth simp del: not_None_eq)
  then have "\<forall>d \<in> set (map description (fold describe_room world_rooms (map new_room [0..<26]))). d \<noteq> None"
    by (auto simp: described_def)
  then show ?thesis unfolding world_def described_def
    by (metis descriptions_links imageI list.set_map)
qed

lemma start_succeeds:
  assumes "fs default_level = Some world_lvl"
  shows "\<exists>g. start_game fs [argv0] (new_game rs inp) = Ok () g"
proof -
  obtain rooms where r: "start_game fs [argv0] (new_game rs inp) = andthen (look (woken rs argv0 inp rooms)) (\<lambda>_ g. Ok () g)"
      "\<forall>i < 26. description (rooms ! i) = description (world ! i)"
    using start_world [of fs, OF assms] by blast
  have "description (world ! 0) \<noteq> None" using world_described by (simp add: described_def del: not_None_eq)
  then have "description (cur (woken rs argv0 inp rooms)) \<noteq> None"
    using r(2) by (simp add: woken_def init_player_def cur_def)
  from look_Ok [OF this] show ?thesis using r(1) by auto
qed

section \<open>Rooms that cannot be entered\<close>

text \<open>
  The player is in a set of rooms whose exits lead back into the set, except for gates, which are locked.
  Half cardkeys are counted by the flag of puzzle 9.
\<close>

definition sealed :: "nat set \<Rightarrow> (nat \<times> nat) set \<Rightarrow> game \<Rightarrow> bool" where
  "sealed S gates g \<longleftrightarrow> puzzles_set (room_array g) \<and> S \<subseteq> {..<26} \<and> current_room (the_player g) \<in> S \<and>
     (\<forall>i \<in> S. length (exits (room_array g ! i)) = 6 \<and> (\<forall>k < 6. \<forall>j. dest (exits (room_array g ! i) ! k) = Some j \<longrightarrow>
       j \<in> S \<or> (i, k) \<in> gates \<and> locked (exits (room_array g ! i) ! k)))"

definition halves :: "game \<Rightarrow> bool" where
  "halves g \<longleftrightarrow> length (solved_puzzles g) = 25 \<and> cardkey g = (if solved_puzzles g ! 9 then 1 else 0)"

definition confined :: "nat set \<Rightarrow> (nat \<times> nat) set \<Rightarrow> bool \<Rightarrow> game \<Rightarrow> bool" where
  "confined S gates novice g \<longleftrightarrow> sealed S gates g \<and> halves g \<and> (novice \<longrightarrow> level (the_player g) < 2)"

lemma puzzle_here: "i < 26 \<Longrightarrow> snd (puzzles ! i) = Some n \<Longrightarrow> n = i \<and> i \<noteq> 0 \<and> i \<noteq> 10 \<and> i \<noteq> 15"
  by (auto simp: puzzles_def nth_Cons' split: if_splits)

lemma description_here: "i < 26 \<Longrightarrow> fst (puzzles ! i) = Some n \<Longrightarrow> n = i"
  by (auto simp: puzzles_def nth_Cons' split: if_splits)

lemma sealed_here:
  assumes "sealed S gates g"
  shows "current_room (the_player g) < 26" "interact_fxn (cur g) = snd (puzzles ! current_room (the_player g))"
    "description_fxn (cur g) = fst (puzzles ! current_room (the_player g))"
  using assms by (auto simp: sealed_def puzzles_set_def cur_def)

lemma sealed_unlock:
  assumes "sealed S gates g" "(current_room (the_player g), dir_num d) \<notin> gates"
  shows "sealed S gates (unlock d g)"
proof -
  have len: "length (room_array g) = 26" and sub: "S \<subseteq> {..<26}" using assms(1) by (auto simp: sealed_def puzzles_set_def)
  have room: "room_array (unlock d g) ! i =
      (if i = current_room (the_player g) then (cur g)\<lparr>exits := (exits (cur g))[dir_num d := (exits (cur g) ! dir_num d)\<lparr>locked := False\<rparr>]\<rparr>
       else room_array g ! i)" if "i < 26" for i
    using that len by (simp add: unlock_room)
  have "puzzles_set (room_array (unlock d g))" using assms(1) by (auto simp: sealed_def puzzles_set_def room cur_def)
  moreover have "length (exits (room_array (unlock d g) ! i)) = 6 \<and> (\<forall>k < 6. \<forall>j. dest (exits (room_array (unlock d g) ! i) ! k) = Some j \<longrightarrow>
       j \<in> S \<or> (i, k) \<in> gates \<and> locked (exits (room_array (unlock d g) ! i) ! k))" if "i \<in> S" for i
  proof -
    have "i < 26" using that sub by auto
    moreover have "j \<in> S" if "dest (exits (room_array g ! current_room (the_player g)) ! dir_num d) = Some j" for j
      using assms that unfolding sealed_def by (metis dir_num_less)
    ultimately show ?thesis using assms that by (auto simp: room sealed_def cur_def nth_list_update)
  qed
  ultimately show ?thesis using assms(1) by (auto simp: sealed_def)
qed

lemma sealed_solved [simp]: "sealed S gates (set_solved n g) = sealed S gates g"
  by (simp add: sealed_def)

lemma halves_unlock [simp]: "halves (unlock d g) = halves g"
  by (simp add: halves_def)

lemma halves_solved: "halves g \<Longrightarrow> n \<noteq> 9 \<Longrightarrow> halves (set_solved n g)"
  by (simp add: halves_def)

lemma unlocks_9: "(9, d) \<notin> unlocks"
  by (simp add: unlocks_def)

lemma confined_kept:
  assumes gates: "gates \<subseteq> {(10, 0), (15, 0)}" and novice: "(10, 0) \<in> gates \<Longrightarrow> novice"
  shows "world_kept (confined S gates novice)"
proof (unfold_locales, goal_cases)
  case (10 g n d)
  then have s: "sealed S gates g" by (simp add: confined_def)
  have "current_room (the_player g) \<noteq> 10" "current_room (the_player g) \<noteq> 15" "n \<noteq> 9"
    using sealed_here [OF s] puzzle_here [of "current_room (the_player g)" n] 10 unlocks_9 by auto
  then show ?case using 10 gates sealed_unlock [OF s, of d] by (auto simp: confined_def halves_solved)
next
  case (11 g)
  then show ?case by (auto simp: confined_def halves_def sealed_def)
next
  case (12 g)
  then have s: "sealed S gates g" by (simp add: confined_def)
  have "current_room (the_player g) = 10" using sealed_here [OF s] description_here [of "current_room (the_player g)" 10] 12 by simp
  then show ?case using 12 gates novice sealed_unlock [OF s, of NORTH] by (auto simp: confined_def)
next
  case (13 g)
  then show ?case by (auto simp: confined_def halves_def split: if_splits)
next
  case (14 g d j)
  then have s: "sealed S gates g" by (simp add: confined_def)
  have "j \<in> S" using s 14 unfolding sealed_def cur_def by (metis dir_num_less)
  then show ?case using 14 by (auto simp: confined_def sealed_def halves_def)
qed (auto simp: confined_def sealed_def halves_def)

definition entry_rooms :: "nat set" where
  "entry_rooms = {0..10} \<union> {15}"

interpretation novice: world_kept "confined entry_rooms {(10, 0), (15, 0)} True"
  by (rule confined_kept) auto

interpretation master: world_kept "confined {0..15} {(15, 0)} False"
  by (rule confined_kept) auto

lemma world_exits_length: "length world_exits = 26" "\<forall>i < 26. length (world_exits ! i) = 6"
  by code_simp+

text \<open>A test of the exits of a map: every exit of the rooms in a list leads into the list or is a locked gate.\<close>

definition closed_map :: "nat list \<Rightarrow> (nat \<times> nat) list \<Rightarrow> exit_t list list \<Rightarrow> bool" where
  "closed_map xs gates m = list_all (\<lambda>i. list_all (\<lambda>k. case dest (m ! i ! k) of None \<Rightarrow> True
     | Some j \<Rightarrow> j \<in> set xs \<or> (i, k) \<in> set gates \<and> locked (m ! i ! k)) [0..<6]) xs"

lemma closed_mapD:
  assumes "closed_map xs gates m" "i \<in> set xs" "k < 6" "dest (m ! i ! k) = Some j"
  shows "j \<in> set xs \<or> (i, k) \<in> set gates \<and> locked (m ! i ! k)"
proof -
  have "k \<in> set [0..<6]" using assms(3) by simp
  with assms(1,2) have "case dest (m ! i ! k) of None \<Rightarrow> True | Some j \<Rightarrow> j \<in> set xs \<or> (i, k) \<in> set gates \<and> locked (m ! i ! k)"
    unfolding closed_map_def list_all_iff by blast
  with assms(4) show ?thesis by simp
qed

lemma woken_confined:
  assumes "puzzles_set rooms" "\<forall>i < 26. exits (rooms ! i) = world_exits ! i" "closed_map xs gates world_exits"
    "set xs \<subseteq> {..<26}" "0 \<in> set xs"
  shows "confined (set xs) (set gates) True (woken rs argv0 inp rooms)"
proof -
  have "get_level 0 = 1" by code_simp
  moreover have "sealed (set xs) (set gates) (woken rs argv0 inp rooms)"
    using assms world_exits_length closed_mapD [OF assms(3)]
    by (fastforce simp: sealed_def woken_def init_player_def subset_iff)
  ultimately show ?thesis
    by (simp add: confined_def halves_def woken_def init_player_def new_game_def)
qed

lemma entry_closed: "closed_map ([0..<11] @ [15]) [(10, 0), (15, 0)] world_exits" "closed_map [0..<16] [(15, 0)] world_exits"
  by code_simp+

lemma entry_rooms_list: "entry_rooms = set ([0..<11] @ [15])" "{0..15} = set [0..<(16::nat)]"
  by (auto simp: entry_rooms_def)

lemma confined_level:
  "confined S gates True g \<Longrightarrow> confined S gates False (g\<lparr>the_player := (the_player g)\<lparr>level := l, experience := e\<rparr>\<rparr>)"
  by (auto simp: confined_def sealed_def halves_def)

lemma confined_room: "keeps (confined S gates b) r \<Longrightarrow> keeps (\<lambda>g. current_room (the_player g) \<in> S) r"
  by (erule keeps_mono) (simp add: confined_def sealed_def)

text \<open>
  C23: On the level of the repository, whatever is typed and whatever the random numbers are, the player is
  always in one of the rooms 0 to 10 or in room 15. The exit of room 10 needs level 2, which is never reached
  because no monster exists, and the door of room 15 needs two halves of a cardkey.
\<close>

theorem adventure_locked_out:
  assumes "fs default_level = Some world_lvl"
  shows "keeps (\<lambda>g. current_room (the_player g) \<in> entry_rooms) (adventure_main fs draws rs [argv0] inp)"
proof -
  obtain rooms where r: "start_game fs [argv0] (new_game rs inp) = andthen (look (woken rs argv0 inp rooms)) (\<lambda>_ g. Ok () g)"
      "puzzles_set rooms" "\<forall>i < 26. exits (rooms ! i) = world_exits ! i"
    using start_world [of fs, OF assms] by blast
  have c: "confined entry_rooms {(10, 0), (15, 0)} True (woken rs argv0 inp rooms)"
    using woken_confined [OF r(2,3) entry_closed(1)] by (simp add: entry_rooms_list subset_iff)
  have "keeps (confined entry_rooms {(10, 0), (15, 0)} True) (adventure_main fs draws rs [argv0] inp)"
    unfolding adventure_main_def r(1) by (intro keeps_andthen) (auto simp: c novice.look_keeps novice.repl_keeps)
  then show ?thesis by (rule confined_room)
qed

theorem adventure_locked_out_witness:
  "keeps (\<lambda>g. current_room (the_player g) \<in> entry_rooms)
     (adventure_main (\<lambda>f. if f = ''cs61c-world.lvl'' then Some world_lvl else None) 9 (\<lambda>n. n) [''game''] (''south'' @ [newline]))"
  using adventure_locked_out [of "\<lambda>f. if f = ''cs61c-world.lvl'' then Some world_lvl else None" 9 "\<lambda>n. n" "''game''" "''south'' @ [newline]"]
  by (simp add: default_level_def)

text \<open>
  C24: The door of room 15 stays shut whatever the level of the player is: \<open>solve14\<close> tests and sets the flag of
  puzzle 9 instead of its own, so at most one half of the cardkey is ever handed out.
\<close>

theorem cardkey_never_complete:
  assumes "fs default_level = Some world_lvl" and "start_game fs [argv0] (new_game rs inp) = Ok () g"
  shows "keeps (\<lambda>g. current_room (the_player g) \<in> {0..15} \<and> cardkey g \<le> 1)
    (repl draws (g\<lparr>the_player := (the_player g)\<lparr>level := l, experience := e\<rparr>\<rparr>))"
proof -
  obtain rooms where r: "start_game fs [argv0] (new_game rs inp) = andthen (look (woken rs argv0 inp rooms)) (\<lambda>_ g. Ok () g)"
      "puzzles_set rooms" "\<forall>i < 26. exits (rooms ! i) = world_exits ! i"
    using start_world [of fs, OF assms(1)] by blast
  have "confined {0..15} {(15, 0)} True (woken rs argv0 inp rooms)"
    using woken_confined [OF r(2,3) entry_closed(2)] by (simp add: entry_rooms_list subset_iff)
  moreover have "world_kept (confined {0..15} {(15, 0)} True)" by (rule confined_kept) auto
  ultimately have "keeps (confined {0..15} {(15, 0)} True) (start_game fs [argv0] (new_game rs inp))"
    unfolding r(1) by (intro keeps_andthen) (auto simp: world_kept.look_keeps)
  then have "confined {0..15} {(15, 0)} False (g\<lparr>the_player := (the_player g)\<lparr>level := l, experience := e\<rparr>\<rparr>)"
    unfolding assms(2) by (simp add: confined_level)
  then show ?thesis
    by (rule keeps_mono [OF master.repl_keeps]) (auto simp: confined_def sealed_def halves_def)
qed

theorem cardkey_never_complete_witness:
  "\<exists>g. start_game (\<lambda>f. Some world_lvl) [''game''] (new_game (\<lambda>n. n) (''north'' @ [newline])) = Ok () g \<and>
     keeps (\<lambda>g. current_room (the_player g) \<in> {0..15} \<and> cardkey g \<le> 1)
       (repl 9 (g\<lparr>the_player := (the_player g)\<lparr>level := 5, experience := 70\<rparr>\<rparr>))"
proof -
  obtain g where "start_game (\<lambda>f. Some world_lvl) [''game''] (new_game (\<lambda>n. n) (''north'' @ [newline])) = Ok () g"
    using start_succeeds [of "\<lambda>f. Some world_lvl"] by blast
  with cardkey_never_complete [of "\<lambda>f. Some world_lvl" "''game''" "\<lambda>n. n" "''north'' @ [newline]" g 9 70 5] show ?thesis by blast
qed

section \<open>The assertions of the puzzles\<close>

text \<open>The puzzles that are played by \<open>solver_generator\<close>, with the exit each unlocks\<close>

definition generated :: "(nat \<times> direction) set" where
  "generated = {(1, UP), (2, UP), (3, EAST), (6, EAST), (7, DOWN), (8, DOWN), (11, UP)}"

definition asserts_hold :: "game \<Rightarrow> bool" where
  "asserts_hold g \<longleftrightarrow> pointers_ok g \<and> puzzles_set (room_array g) \<and> length (solved_puzzles g) = 25 \<and>
     (\<forall>n d. (n, d) \<in> generated \<longrightarrow> locked (exits (room_array g ! n) ! dir_num d) = (\<not> solved_puzzles g ! n))"

lemma generated_facts:
  assumes "(n, d) \<in> generated"
  shows "n < 25" "n \<noteq> 9" "n \<noteq> 10" "n \<noteq> 15" "(n, e) \<in> unlocks \<Longrightarrow> e = d"
  using assms by (auto simp: generated_def unlocks_def)

lemma asserts_here:
  assumes "asserts_hold g"
  shows "length (room_array g) = 26" "current_room (the_player g) < 26" "length (exits (cur g)) = 6"
    "interact_fxn (cur g) = Some n \<Longrightarrow> current_room (the_player g) = n"
    "description_fxn (cur g) = Some n \<Longrightarrow> current_room (the_player g) = n"
proof -
  have len: "length (room_array g) = 26" and c: "current_room (the_player g) < 26"
    using assms by (auto simp: asserts_hold_def puzzles_set_def pointers_ok_def)
  show "length (room_array g) = 26" "current_room (the_player g) < 26" by (rule len c)+
  show "length (exits (cur g)) = 6" using assms c by (auto simp: asserts_hold_def pointers_ok_def room_ok_def cur_def)
  show "interact_fxn (cur g) = Some n \<Longrightarrow> current_room (the_player g) = n"
    using assms c puzzle_here [of "current_room (the_player g)" n] by (auto simp: asserts_hold_def puzzles_set_def cur_def)
  show "description_fxn (cur g) = Some n \<Longrightarrow> current_room (the_player g) = n"
    using assms c description_here [of "current_room (the_player g)" n] by (auto simp: asserts_hold_def puzzles_set_def cur_def)
qed

lemma puzzles_set_unlock: "puzzles_set (room_array g) \<Longrightarrow> puzzles_set (room_array (unlock d g))"
  by (auto simp: puzzles_set_def unlock_room cur_def)

lemma asserts_unlock_other:
  assumes "asserts_hold g" "\<And>e. (current_room (the_player g), e) \<notin> generated"
  shows "asserts_hold (unlock d g)"
proof -
  have "room_array (unlock d g) ! n = room_array g ! n" if "(n, e) \<in> generated" for n e
    using that assms(2) generated_facts(1) [OF that] asserts_here(1) [OF assms(1)] by (auto simp: unlock_room)
  with assms(1) show ?thesis by (auto simp: asserts_hold_def pointers_unlock puzzles_set_unlock)
qed

lemma asserts_solve:
  assumes g: "asserts_hold g" "interact_fxn (cur g) = Some n" "(n, d) \<in> unlocks"
  shows "asserts_hold (set_solved n (unlock d g))"
proof -
  have here: "current_room (the_player g) = n" "length (room_array g) = 26" "length (exits (cur g)) = 6"
    using asserts_here [OF g(1)] g(2) by auto
  have "locked (exits (room_array (unlock d g) ! m) ! dir_num e) = (\<not> (solved_puzzles g)[n := True] ! m)"
    if "(m, e) \<in> generated" for m e
  proof (cases "m = n")
    case True
    then have "e = d" "n < 25" using that g(3) generated_facts(1) [of n e] generated_facts(5) [of n e d] by simp_all
    with True here g(1) show ?thesis by (simp add: unlock_room asserts_hold_def)
  next
    case False
    with that here g(1) generated_facts(1) [OF that] show ?thesis by (simp add: unlock_room asserts_hold_def)
  qed
  with g(1) show ?thesis by (auto simp: asserts_hold_def pointers_unlock puzzles_set_unlock)
qed

interpretation asserts: world_kept asserts_hold
proof (unfold_locales, goal_cases)
  case (10 g n d)
  then show ?case by (rule asserts_solve)
next
  case (11 g)
  then show ?case using generated_facts(2) by (auto simp: asserts_hold_def pointers_ok_def nth_list_update)
next
  case (12 g)
  then show ?case using asserts_here(5) [of g 10] generated_facts(3) by (auto intro!: asserts_unlock_other)
next
  case (13 g)
  then show ?case using asserts_here(5) [of g 15] generated_facts(4) by (auto intro!: asserts_unlock_other)
next
  case (14 g d j)
  then show ?case using ptr.w_move [of g d j] by (simp add: asserts_hold_def)
qed (auto simp: asserts_hold_def pointers_ok_def)

definition no_abort :: "'a run \<Rightarrow> bool" where
  "no_abort r \<longleftrightarrow> (\<forall>h. r \<noteq> Stop Abort h)"

lemma no_abort_simps [simp]: "no_abort (Ok x g)" "no_abort (Stop e g) \<longleftrightarrow> e \<noteq> Abort" "no_abort (need v g)"
  by (auto simp: no_abort_def need_def split: option.splits)

lemma no_abort_andthen: "no_abort r \<Longrightarrow> (\<And>x g. r = Ok x g \<Longrightarrow> no_abort (k x g)) \<Longrightarrow> no_abort (andthen r k)"
  by (cases r) simp_all

lemma read_line_no_abort [simp]: "no_abort (read_line g)"
  by (simp add: read_line_def split: prod.splits)

lemma get_int_answer_no_abort: "no_abort (get_int_answer g)"
proof (induction g rule: measure_induct_rule [of "\<lambda>g. length (stdin_text g)"])
  case (less g)
  show ?case
    unfolding get_int_answer.simps [of g]
    by (rule no_abort_andthen)
      (auto simp: Let_def c_rand_def read_line_no_abort intro!: less.IH no_abort_andthen dest!: read_line_shorter needD)
qed

lemma stones_loop_no_abort: "no_abort (stones_loop g)"
proof (induction g rule: measure_induct_rule [of "\<lambda>g. length (stdin_text g)"])
  case (less g)
  show ?case
    unfolding stones_loop.simps [of g]
    by (rule no_abort_andthen)
      (auto simp: Let_def c_rand_def read_line_no_abort intro!: less.IH no_abort_andthen dest!: read_line_shorter needD)
qed

lemma dumbwaiter_loop_no_abort: "no_abort (dumbwaiter_loop g)"
proof (induction g rule: measure_induct_rule [of "\<lambda>g. length (stdin_text g)"])
  case (less g)
  show ?case
    unfolding dumbwaiter_loop.simps [of g]
    by (rule no_abort_andthen)
      (auto simp: Let_def c_rand_def read_line_no_abort intro!: less.IH no_abort_andthen dest!: read_line_shorter needD)
qed

lemma lose_hp_no_abort [simp]: "no_abort (lose_hp n g)"
  unfolding lose_hp_def by (rule no_abort_andthen) auto

lemma ticket_loop_no_abort: "no_abort (ticket_loop n g)"
proof (induction g arbitrary: n rule: measure_induct_rule [of "\<lambda>g. length (stdin_text g)"])
  case (less g)
  show ?case
    unfolding ticket_loop.simps [of n g]
    by (rule no_abort_andthen)
      (auto simp: Let_def c_rand_def read_line_no_abort intro!: less.IH no_abort_andthen dest!: read_line_shorter needD)
qed

lemma bite_no_abort [simp]: "no_abort (bite s g)"
  unfolding bite_def by (rule no_abort_andthen) auto

lemma pick_pile_no_abort: "no_abort (pick_pile n g)"
  by (induction n arbitrary: g) (auto simp: c_rand_def Let_def)

lemma random_move_no_abort: "no_abort (random_move n g)"
  unfolding random_move_def by (rule no_abort_andthen) (auto simp: pick_pile_no_abort Let_def c_rand_def intro!: no_abort_andthen)

lemma nim_turn_no_abort: "no_abort (nim_turn n g)"
  unfolding nim_turn_def monster_move_def
  by (rule no_abort_andthen) (auto simp: get_int_answer_no_abort Let_def random_move_no_abort split: prod.splits intro!: no_abort_andthen)

lemma nim_loop_no_abort: "no_abort (nim_loop n g)"
proof (induction g rule: measure_induct_rule [of "\<lambda>g. length (stdin_text g)"])
  case (less g)
  show ?case
    unfolding nim_loop.simps [of n g]
    by (rule no_abort_andthen) (auto simp: nim_turn_no_abort intro!: less.IH no_abort_andthen dest!: nim_turn_shorter needD)
qed

lemma solver_no_abort:
  assumes "asserts_hold g" "interact_fxn (cur g) = Some n" "(n, d) \<in> generated"
  shows "no_abort (solver_generator n a b c e ans d g)"
proof -
  have "exit_locked d g = (\<not> solved_puzzles g ! n)"
    using asserts_here(4) [OF assms(1,2)] assms by (simp add: asserts_hold_def exit_locked_def cur_def)
  then show ?thesis by (auto simp: solver_generator_def get_int_answer_no_abort intro!: no_abort_andthen)
qed

lemma interact_no_abort:
  assumes "asserts_hold g"
  shows "no_abort (interact draws g)"
proof (cases "interact_fxn (cur g)")
  case (Some n)
  have gen: "(n, d) \<in> generated \<Longrightarrow> no_abort (solver_generator n a b c e ans d g)" for a b c e ans d
    using assms Some by (rule solver_no_abort)
  have "n \<noteq> 0"
    using Some asserts_here(2) [OF assms] assms puzzle_here [of "current_room (the_player g)" n] by (auto simp: asserts_hold_def puzzles_set_def cur_def)
  have loops: "no_abort (solve9 g)" "no_abort (solve14 g)" "no_abort (solve13 g)" "no_abort (solve16 g)" "no_abort (solve21 g)"
      "no_abort (solve22 g)" "no_abort (solve25 g)"
    by (simp_all add: solve9_def solve14_def solve13_def c_rand_def Let_def ticket_loop_no_abort solve16_def get_spell_def solve21_def
        dumbwaiter_loop_no_abort solve22_def stones_loop_no_abort solve25_def)
  have "no_abort (solve24 draws g)" unfolding solve24_def by (rule no_abort_andthen) (simp_all add: nim_loop_no_abort)
  then have "no_abort (call_solve draws n g)"
    using gen \<open>n \<noteq> 0\<close>
    unfolding call_solve.simps [of draws n g] solve1_def solve2_def solve3_def solve6_def solve7_def solve8_def solve11_def
    by (auto simp: loops generated_def)
  with Some show ?thesis by (simp add: interact_def)
qed (simp add: interact_def)

lemma generated_world:
  assumes "(n, d) \<in> generated"
  shows "locked (world_exits ! n ! dir_num d)"
proof -
  have "list_all (\<lambda>(n, d). locked (world_exits ! n ! dir_num d)) [(1, UP), (2, UP), (3, EAST), (6, EAST), (7, DOWN), (8, DOWN), (11, UP)]"
    by code_simp
  with assms show ?thesis by (auto simp: generated_def)
qed

lemma world_destinations:
  assumes "i < 26" "k < 6" "dest (world_exits ! i ! k) = Some j"
  shows "j < 26"
proof -
  have "closed_map [0..<26] [] world_exits" by code_simp
  from closed_mapD [OF this, of i k j] assms show ?thesis by simp
qed

lemma woken_asserts:
  assumes "puzzles_set rooms" "\<forall>i < 26. exits (rooms ! i) = world_exits ! i"
  shows "asserts_hold (woken rs argv0 inp rooms)"
proof -
  have "n < 26" if "(n, d) \<in> generated" for n d using generated_facts(1) [OF that] by simp
  moreover have "length rooms = 26" using assms(1) by (simp add: puzzles_set_def)
  ultimately show ?thesis using assms generated_world generated_facts(1) world_exits_length world_destinations
    by (auto simp: asserts_hold_def woken_def init_player_def new_game_def pointers_ok_def room_ok_def)
qed

lemma start_asserts:
  assumes "fs default_level = Some world_lvl" "start_game fs [argv0] (new_game rs inp) = Ok () g"
  shows "asserts_hold g"
proof -
  obtain rooms where r: "start_game fs [argv0] (new_game rs inp) = andthen (look (woken rs argv0 inp rooms)) (\<lambda>_ g. Ok () g)"
      "puzzles_set rooms" "\<forall>i < 26. exits (rooms ! i) = world_exits ! i"
    using start_world [of fs, OF assms(1)] by blast
  have "keeps asserts_hold (start_game fs [argv0] (new_game rs inp))"
    unfolding r(1) by (intro keeps_andthen) (auto simp: asserts.look_keeps woken_asserts [OF r(2,3)])
  then show ?thesis by (simp add: assms(2))
qed



end
