(* ===== verification/AdventurePlay.thy ===== *)
theory AdventurePlay
  imports AdventureProofs
begin

text \<open>
  The rules of the text adventure that do not depend on the level: walking, experience and levels, the
  words of a command line, and answers that the program does not expect.
\<close>

section \<open>Walking\<close>

lemma described_cur: "pointers_ok g \<Longrightarrow> described (room_array g) \<Longrightarrow> description (cur g) \<noteq> None"
  by (auto simp: pointers_ok_def described_def cur_def)

lemma assert_look_Ok:
  "description (cur g) \<noteq> None \<Longrightarrow> \<exists>h. assert_look g = Ok () h \<and> the_player h = the_player g"
  using look_Ok [of g] by (auto simp: assert_look_def)

lemma go_alias: "call_cmd draws (Go_alias w) argv g = call_cmd draws Go [''go'', w] g"
  by simp

text \<open>
  C27: With a word that begins with the letter of a direction, \<open>go\<close> always returns: through an open exit the player
  is in the room behind it after 120 seconds; a locked exit costs 15 seconds and a wall nothing, and he stays where
  he is. Nothing else about the player changes.
\<close>

theorem go_moves:
  assumes "pointers_ok g" "described (room_array g)" "letter_direction (first_char w) = Some d"
  shows "\<exists>t h. go [v, w] g = Ok t h \<and>
    (case dest (exits (cur g) ! dir_num d) of
       None \<Rightarrow> t = 0 \<and> the_player h = the_player g
     | Some j \<Rightarrow>
         if locked (exits (cur g) ! dir_num d) then t = FAILED_MOVE_TIME \<and> the_player h = the_player g
         else t = MOVE_TIME \<and> the_player h = (the_player g)\<lparr>current_room := j\<rparr>)"
proof -
  have here: "description (cur g) \<noteq> None" using assms(1,2) by (rule described_cur)
  show ?thesis
  proof (cases "dest (exits (cur g) ! dir_num d)")
    case None
    obtain h where "assert_look (say ([newline] @ ''There is no exit in that direction!'' @ [newline]) g) = Ok () h" "the_player h = the_player g"
      using assert_look_Ok [of "say ([newline] @ ''There is no exit in that direction!'' @ [newline]) g"] here by auto
    with None assms(3) show ?thesis by (simp add: go_def argv_at_def)
  next
    case (Some j)
    let ?m = "g\<lparr>the_player := (the_player g)\<lparr>current_room := j\<rparr>\<rparr>"
    have "\<not> locked (exits (cur g) ! dir_num d) \<Longrightarrow> pointers_ok ?m" using ptr.w_move [OF assms(1) Some] .
    then have "\<not> locked (exits (cur g) ! dir_num d) \<Longrightarrow> \<exists>h. assert_look ?m = Ok () h \<and> the_player h = the_player ?m"
      using assms(2) by (intro assert_look_Ok described_cur) simp_all
    moreover obtain h where "assert_look (say ([newline] @ ''Oh no!  The exit in that direction is locked!'' @ [newline]) g) = Ok () h" "the_player h = the_player g"
      using assert_look_Ok [of "say ([newline] @ ''Oh no!  The exit in that direction is locked!'' @ [newline]) g"] here by auto
    ultimately show ?thesis using Some assms(3) by (auto simp: go_def argv_at_def)
  qed
qed

text \<open>Two rooms with an open door between them, for examples\<close>

definition two_rooms :: "string \<Rightarrow> game" where
  "two_rooms inp = init_player 0 ((new_game (\<lambda>n. n) inp)\<lparr>room_array :=
     [(new_room 0)\<lparr>description := Some ''hall'', exits := [wall, way 1, wall, wall, shut 1, wall]\<rparr>,
      (new_room 1)\<lparr>description := Some ''garden'', exits := [way 0, wall, wall, wall, wall, way 0]\<rparr>]\<rparr>)"

lemma two_rooms_ok: "pointers_ok (two_rooms inp)" "described (room_array (two_rooms inp))"
  by (auto simp: two_rooms_def init_player_def pointers_ok_def room_ok_def described_def nth_Cons' less_Suc_eq split: if_splits)

theorem go_moves_witness:
  "\<exists>t h. go [''go'', ''south''] (two_rooms []) = Ok t h \<and> t = MOVE_TIME \<and>
     the_player h = (the_player (two_rooms []))\<lparr>current_room := 1\<rparr>"
proof -
  have "letter_direction (first_char ''south'') = Some SOUTH" by (simp add: letter_direction_def first_char_def)
  from go_moves [OF two_rooms_ok [of "[]"] this, of "''go''"] show ?thesis
    by (simp add: two_rooms_def init_player_def cur_def)
qed

section \<open>Levels\<close>

text \<open>In a sorted table the search for the first greater entry counts the entries that are not greater.\<close>

lemma find_first_count:
  fixes f :: "'a \<Rightarrow> 'b :: linorder"
  assumes "sorted (map f xs)"
  shows "(case find_first (\<lambda>i. x < f (xs ! i)) (length xs) of Some i \<Rightarrow> i | None \<Rightarrow> length xs) =
    length (filter (\<lambda>e. f e \<le> x) xs)"
proof (cases "find_first (\<lambda>i. x < f (xs ! i)) (length xs)")
  case None
  then have "\<forall>e \<in> set xs. f e \<le> x" by (auto simp: find_first_None in_set_conv_nth not_less)
  with None show ?thesis by simp
next
  case (Some j)
  then have j: "j < length xs" "x < f (xs ! j)" "\<forall>m < j. f (xs ! m) \<le> x" by (auto dest!: find_first_SomeD simp: not_less)
  have "\<forall>e \<in> set (take j xs). f e \<le> x" using j by (auto simp: in_set_conv_nth)
  moreover have "\<not> f e \<le> x" if e: "e \<in> set (drop j xs)" for e
  proof -
    obtain k where k: "k < length (drop j xs)" "drop j xs ! k = e" using e unfolding in_set_conv_nth by blast
    define m where "m = j + k"
    have m: "j \<le> m" "m < length xs" "e = xs ! m" using k j(1) by (auto simp: m_def)
    then have "f (xs ! j) \<le> f (xs ! m)" using sorted_nth_mono [OF assms m(1)] j(1) by simp
    with j(2) m(3) show ?thesis by simp
  qed
  ultimately have "filter (\<lambda>e. f e \<le> x) (take j xs @ drop j xs) = take j xs"
    unfolding filter_append by (auto simp: filter_id_conv filter_empty_conv)
  with Some j(1) show ?thesis by (simp only: append_take_drop_id) simp
qed

lemma level_table_sorted: "sorted (map fst level_table)"
  by code_simp

definition levels_upto :: "u32 \<Rightarrow> nat" where
  "levels_upto xp = length (filter (\<lambda>e. fst e \<le> xp) level_table)"

lemma get_level_count: "get_level xp = of_nat (levels_upto xp)"
  using find_first_count [OF level_table_sorted, of xp]
  by (simp add: get_level_def levels_upto_def split: option.splits)

lemma levels_upto_bounds: "1 \<le> levels_upto xp" "levels_upto xp \<le> 10"
  using length_filter_le [of "\<lambda>e. fst e \<le> xp" level_table] by (simp_all add: levels_upto_def level_table_def)

lemma levels_upto_mono: "xp \<le> yp \<Longrightarrow> levels_upto xp \<le> levels_upto yp"
proof -
  assume "xp \<le> yp"
  then have "filter (\<lambda>e. fst e \<le> xp) (filter (\<lambda>e. fst e \<le> yp) level_table) = filter (\<lambda>e. fst e \<le> xp) level_table"
    by (auto simp: filter_filter intro: filter_cong)
  then show ?thesis by (metis length_filter_le levels_upto_def)
qed

lemma unat_get_level: "unat (get_level xp) = levels_upto xp"
  using levels_upto_bounds [of xp] by (simp add: get_level_count unat_of_nat_small)

text \<open>The loop that raises the level, in closed form\<close>

lemma level_up_player:
  "level (the_player g) \<le> n \<Longrightarrow> the_player (level_up n g) =
     (if level (the_player g) < n then
        let h = max_hp (the_player g) + 10 * (int (unat n) - int (unat (level (the_player g))))
        in (the_player g)\<lparr>level := n, max_hp := h, hp := h\<rparr>
      else the_player g)"
proof (induction g rule: measure_induct_rule [of "\<lambda>g. unat n - unat (level (the_player g))"])
  case (less g)
  let ?p = "the_player g"
  let ?l = "level ?p"
  show ?case
  proof (cases "?l < n")
    case True
    define g' where "g' = say_line (''You are now level '' @ show_int (uint (?l + 1)) @ ''!'') (g\<lparr>the_player := ?p\<lparr>level := ?l + 1, max_hp := max_hp ?p + 10, hp := max_hp ?p + 10\<rparr>\<rparr>)"
    have p': "the_player g' = ?p\<lparr>level := ?l + 1, max_hp := max_hp ?p + 10, hp := max_hp ?p + 10\<rparr>" by (simp add: g'_def say_line_def)
    have u: "unat (?l + 1) = unat ?l + 1"
      using True unsigned_less [of n, where 'a = nat] by (simp add: word_less_nat_alt unat_word_ariths)
    have le: "?l + 1 \<le> n" using True u by (simp add: word_le_nat_alt word_less_nat_alt)
    have step: "level_up n g = level_up n g'" using True by (subst level_up.simps) (simp add: g'_def Let_def)
    have "unat n - unat (level (the_player g')) < unat n - unat ?l" using True u by (simp add: p' word_less_nat_alt)
    then have ih: "the_player (level_up n g') = (if level (the_player g') < n then
        let h = max_hp (the_player g') + 10 * (int (unat n) - int (unat (level (the_player g'))))
        in (the_player g')\<lparr>level := n, max_hp := h, hp := h\<rparr> else the_player g')"
      using less.IH [of g'] le by (simp add: p')
    show ?thesis
    proof (cases "?l + 1 < n")
      case more: True
      then show ?thesis using True ih u by (simp add: step p' Let_def)
    next
      case False
      then have n: "n = ?l + 1" using le by simp
      then have "int (unat n) - int (unat ?l) = 1" using u by simp
      then show ?thesis using True False ih by (simp add: step p' Let_def n [symmetric])
    qed
  next
    case False
    then show ?thesis by (simp add: level_up.simps)
  qed
qed

text \<open>What \<open>init_player\<close> sets up: the level that belongs to the experience, and ten hit points for each level.\<close>

definition player_ok :: "player \<Rightarrow> bool" where
  "player_ok p \<longleftrightarrow> level p = get_level (experience p) \<and> max_hp p = 10 * int (unat (level p)) \<and> hp p \<le> max_hp p"

lemma init_player_ok: "player_ok (the_player (init_player r g))"
proof -
  have "get_level 0 = 1" by code_simp
  then show ?thesis by (simp add: player_ok_def init_player_def)
qed

text \<open>
  Experience that does not overflow keeps the level equal to the one the table gives for the experience,
  and ten hit points for each level, at most a hundred. The level never falls, and a new level restores
  the health; otherwise the health stays as it is.
\<close>

lemma gain_experience_levels:
  assumes "player_ok (the_player g)" "unat (experience (the_player g)) + unat amount < 2 ^ 32"
  shows "let p = the_player g; q = the_player (gain_experience amount g) in
    player_ok q \<and> experience q = experience p + amount \<and> current_room q = current_room p \<and> level p \<le> level q \<and>
    max_hp q \<le> 100 \<and> hp q = (if level p < level q then max_hp q else hp p)"
proof -
  let ?p = "the_player g" and ?x = "experience (the_player g) + amount"
  have "unat ?x = unat (experience ?p) + unat amount" using assms(2) by (simp add: unat_word_ariths)
  then have "experience ?p \<le> ?x" by (simp add: word_le_nat_alt)
  then have le: "level ?p \<le> get_level ?x"
    using assms(1) levels_upto_mono [of "experience ?p" ?x] by (simp add: player_ok_def word_le_nat_alt unat_get_level)
  have q: "the_player (gain_experience amount g) = (the_player (level_up (get_level ?x) g))\<lparr>experience := ?x\<rparr>"
    by (simp add: gain_experience_def Let_def)
  have "int (unat (get_level ?x)) \<le> 10" using levels_upto_bounds(2) [of ?x] unfolding unat_get_level by simp
  then have b: "uint (get_level ?x) \<le> 10" by simp
  show ?thesis
  proof (cases "level ?p < get_level ?x")
    case True
    then show ?thesis using assms(1) le b by (simp add: q level_up_player [OF le] Let_def player_ok_def)
  next
    case False
    then have "level ?p = get_level ?x" using le by simp
    then show ?thesis using assms(1) b by (auto simp: q level_up_player Let_def player_ok_def)
  qed
qed

lemma gain_experience_levels_witness:
  "let p = the_player (init_player 0 (new_game (\<lambda>n. n) [])); q = the_player (gain_experience 30 (init_player 0 (new_game (\<lambda>n. n) []))) in
    player_ok q \<and> experience q = experience p + 30 \<and> current_room q = current_room p \<and> level p \<le> level q \<and>
    max_hp q \<le> 100 \<and> hp q = (if level p < level q then max_hp q else hp p)"
proof -
  let ?g = "init_player 0 (new_game (\<lambda>n. n) [])"
  have "unat (experience (the_player ?g)) + unat (30 :: u32) < 2 ^ 32" by (simp add: init_player_def)
  from gain_experience_levels [OF init_player_ok this] show ?thesis .
qed

section \<open>Command lines\<close>

text \<open>A line with more than 32 words is stored past the end of the array of words.\<close>

lemma words_line_end:
  "ws \<noteq> [] \<Longrightarrow> newline \<notin> set (concat ws) \<Longrightarrow> NUL \<notin> set (concat ws) \<Longrightarrow>
   \<exists>l. words_line ws = l @ [newline] \<and> newline \<notin> set l \<and> NUL \<notin> set l"
proof (induction ws rule: words_line.induct)
  case (3 w v ws)
  then obtain l where "words_line (v # ws) = l @ [newline]" "newline \<notin> set l" "NUL \<notin> set l" by auto
  with 3 show ?case by (intro exI [of _ "w @ CHR '' '' # l"]) auto
qed auto

lemma many_words_undefined:
  assumes "newline \<notin> set (concat ws)" "NUL \<notin> set (concat ws)" "\<forall>w \<in> set ws. plain_word w" "32 < length ws"
    "length (words_line ws) < 256" "stdin_text g = words_line ws @ rest"
  shows "\<exists>h. one_line draws g = Stop Undefined h"
proof -
  obtain l where l: "words_line ws = l @ [newline]" "newline \<notin> set l" "NUL \<notin> set l"
    using words_line_end [OF _ assms(1,2)] assms(4) by fastforce
  have "fgets 256 (stdin_text g) = (l @ [newline], rest)" using fgets_line [OF l(2), of 256 rest] assms(5,6) l(1) by simp
  moreover have "\<not> fgets_eof 256 (stdin_text g)" using assms(6) l(1) by (simp add: fgets_eof_def)
  moreover have "tokenizer (l @ [newline]) whitespace_chars = (ws, length ws)"
    using tokenizer_words_line [OF assms(3)] assms(4) l(1) by fastforce
  ultimately show ?thesis using assms(4) cstr_line [OF l(3)] by (simp add: one_line_def Let_def)
qed

text \<open>
  A word that is no direction ends the program by an assertion, and without a word \<open>go\<close> reads a pointer that
  was never stored.
\<close>

lemma go_no_direction: "letter_direction (first_char w) = None \<Longrightarrow> \<exists>h. go [v, w] g = Stop Abort h"
  by (simp add: go_def argv_at_def)

lemma go_alone: "go [v] g = Stop Undefined g"
  by (simp add: go_def argv_at_def)

section \<open>Puzzles\<close>

lemma typed_number:
  assumes "stdin_text g = show_base 10 k @ newline # rest" "k < 2 ^ 31"
  shows "get_int_answer g = Ok (int k) (say ''? '' g\<lparr>stdin_text := rest\<rparr>)"
proof -
  have len: "length (show_base 10 k) \<le> 10" using decimal_length [of k 10] assms(2) by simp
  have "read_line (say ''? '' g) = Ok (show_base 10 k @ [newline]) (say ''? '' g\<lparr>stdin_text := rest\<rparr>)"
    using fgets_line [OF number_plain(2) [of k], of 256 rest] cstr_line [OF number_plain(3) [of k]] len assms(1)
    by (simp add: read_line_def say_def)
  moreover have "dropWhile (\<lambda>c. (of_char c :: nat) < 48 \<and> (of_char c :: nat) > 57) s = s" for s by (cases s) auto
  ultimately show ?thesis using number_atoi_line [OF assms(2)]
    by (simp add: get_int_answer.simps [of g] skip_to_digit_def)
qed

text \<open>
  C28: A puzzle that is not solved yet reads one number. The right one solves it and unlocks its exit, any other
  one leaves the puzzle and the exit as they were; either takes 15 seconds, and the player stays
  where he is.
\<close>

theorem puzzle_answer:
  assumes "\<not> solved_puzzles g ! n" "n < length (solved_puzzles g)" "exit_locked d g" "current_room (the_player g) < length (room_array g)"
    "length (exits (cur g)) = 6" "stdin_text g = show_base 10 k @ newline # rest" "k < 2 ^ 31"
  shows "\<exists>h. solver_generator n a b c e answer d g = Ok PUZZ_SUCCESS_TIME h \<and> stdin_text h = rest \<and> the_player h = the_player g \<and>
    solved_puzzles h ! n = (int k = answer) \<and> exit_locked d h = (int k \<noteq> answer)"
proof -
  let ?g = "say ''? '' (say_line a g)\<lparr>stdin_text := rest\<rparr>"
  have a: "get_int_answer (say_line a g) = Ok (int k) ?g"
    using typed_number [of "say_line a g" k rest] assms(6,7) by (simp add: say_line_def)
  have s: "solved_puzzles (say_line x g) = solved_puzzles g" "the_player (say_line x g) = the_player g" "room_array (say_line x g) = room_array g" for x g
    by (simp_all add: say_line_def)
  have u: "cur (say_line x h) = cur h" "stdin_text (say_line x h) = stdin_text h" for x h by (simp_all add: say_line_def)
  show ?thesis
  proof (cases "int k = answer")
    case True
    have "\<not> exit_locked d (unlock d (say_line c ?g))"
      using assms(4,5) by (simp add: exit_locked_def cur_def [of "unlock _ _"] unlock_room u s)
    then show ?thesis using True a assms(1,2,3) by (simp add: solver_generator_def s u exit_locked_def)
  next
    case False
    then show ?thesis using a assms(1,3) by (simp add: solver_generator_def s u exit_locked_def)
  qed
qed

theorem puzzle_answer_witness:
  "\<exists>h. solver_generator 0 [] [] [] [] 57 UP (two_rooms (''57'' @ [newline])) = Ok PUZZ_SUCCESS_TIME h \<and> solved_puzzles h ! 0 \<and> \<not> exit_locked UP h"
proof -
  have "show_base 10 57 = ''57''" by code_simp
  then show ?thesis
    using puzzle_answer [of "two_rooms (''57'' @ [newline])" 0 UP 57 "[]" "[]" "[]" "[]" "[]" 57]
    by (auto simp: two_rooms_def init_player_def exit_locked_def cur_def new_game_def)
qed

section \<open>Answers\<close>

text \<open>The loop that should skip to a digit skips nothing, so an answer without a number counts as 0.\<close>

lemma skip_to_digit_id: "skip_to_digit s = s"
  unfolding skip_to_digit_def by (cases s) auto

lemma word_is_zero: "c_atoi (''seven'' @ [newline]) = Some 0"
  by code_simp

text \<open>In Nim, taking the last stones leaves a board on which the monster searches for a pile for ever.\<close>

lemma empty_board_endless:
  "board g \<noteq> [] \<Longrightarrow> \<forall>b \<in> set (board g). b = 0 \<Longrightarrow> \<exists>h. monster_move draws g = Stop Endless h"
proof -
  assume a: "board g \<noteq> []" "\<forall>b \<in> set (board g). b = 0"
  have "indicator bs = 0" if "\<forall>b \<in> set bs. b = 0" for bs using that by (induction bs) auto
  moreover have "\<exists>h'. pick_pile draws h = Stop Endless h'" if "board h = board g" for h
    using that
  proof (induction draws arbitrary: h)
    case (Suc draws)
    have "board h ! (rands h (drawn h) mod length (board h)) = 0" using Suc.prems a by simp
    then show ?case using Suc.IH [of "h\<lparr>drawn := Suc (drawn h)\<rparr>"] Suc.prems by (simp add: c_rand_def Let_def)
  qed simp
  moreover from this [of g] obtain h' where "pick_pile draws g = Stop Endless h'" by auto
  ultimately show ?thesis using a by (simp add: monster_move_def random_move_def)
qed

text \<open>The test against taking too many stones lets the player take five from a pile of two.\<close>

lemma too_many_stones:
  "case nim_turn 9 ((new_game (\<lambda>n. n) [CHR ''0'', newline, CHR ''5'', newline])\<lparr>board := [2, 3, 4]\<rparr>) of
     Ok u h \<Rightarrow> board h ! 0 = - 3 | Stop e h \<Rightarrow> False"
  by code_simp

end
