(* ===== verification/Spec2Isabelle.thy ===== *)
theory Spec2Isabelle
  imports ProfilerMain CacheSimProofs MemTracer TmallocClient XvShellProofs NachosShell NachosProgs NachosFiles
    BufferExploits AdventurePlay
begin

text \<open>
  A verification development for the C++ and C programs of this repository of course work. These programs
  carry its own logic: the cache simulator of \<open>src/cse240a/project/cse240a-proj1\<close> (the simulator proper with
  its seven prefetchers, and the Pin tool that records its traces) and the micro benchmark of
  \<open>src/cse220/Micro-Bench/code\<close> (the profiler with its experiments, and the helper \<open>memSucker\<close>),
  the allocator \<open>src/cse127/pp1/targets/tmalloc.c\<close> and the target programs beside it, the shell
  \<open>src/mit6.828/lecture_exercises/01/sh.c\<close>, the user library, shell and programs of Nachos in \<open>src/cse120/nachos/test\<close>,
  and the text adventure \<open>src/CS61C/Proj1/release\<close>.

  \<^bold>\<open>The cache simulator.\<close> \<open>main.C\<close> reads a trace of loads and stores through the \<open>CPU\<close>, looks them up in a
  D-cache and an L2 cache, sends misses through a queue to the L2 and a queue to memory, keeps stores in a
  write buffer, and lets a prefetcher insert requests of its own when the D-cache port is idle.
  \<^item> \<open>MemSim\<close>: the shared types (\<open>mem-sim.h\<close>). \<open>Prelude\<close> and \<open>TextIO\<close>: words, lists, options; scanning and
    printing of numbers as \<open>fscanf\<close>, \<open>fprintf\<close> and the streams do it.
  \<^item> \<open>CacheModel\<close> (\<open>cache.C\<close>): the arrays of tags, valid, dirty and recency numbers. \<open>access\<close> refines an abstract
    LRU set, \<open>check\<close> foretells it, tag and index identify a block.
  \<^item> \<open>MemQueue\<close> (\<open>memQueue.C\<close>): the ring buffer refines a list of timed requests; the two scanning loops are
    partial functions that are proved to return. The locale of its interface is used by the simulator.
  \<^item> \<open>CpuModel\<close> (\<open>CPU.C\<close>), \<open>BitArray\<close> and \<open>Prefetchers\<close> (\<open>prefetcher.C\<close> and the six variants in its
    subdirectories): state machine and statistics of the processor; bit arrays, stride detection, bounds on
    the traffic a prefetcher may cause.
  \<^item> \<open>CacheSim\<close> (\<open>main.C\<close>): one definition for each phase of the loop body, the loop as a partial function.
    \<open>CacheSimProofs\<close> has the locale of a simulator over any prefetcher that keeps the contract, interpreted
    for all seven, the invariant of every reachable state and a measure that falls in spite of the 32-bit
    cycle counter; the theorems below are read off from it.
  \<^item> \<open>MemTracer\<close> (\<open>memtracer.cpp\<close>): what is written for an access, the simulator reads back.

  \<^bold>\<open>The profiler.\<close> Every experiment takes times with a shared stack of stopwatches and reports statistics of
  the times kept for a tag.
  \<^item> \<open>MathxModel\<close> (\<open>Mathx.h\<close>): the statistics, over any linear order of values; \<open>double\<close> is the record \<open>fp\<close> of
    the operations the code uses.
  \<^item> \<open>Stopwatch\<close> (\<open>StopwatchStack.*\<close>): stack, histories and calibration. Nested measurements record exactly the
    times between their own two readings.
  \<^item> \<open>ExperimentBase\<close> (\<open>Experiment.*\<close>): the base class and the calculus of the proofs: a relation \<open>measured\<close>
    says that a step stored \<open>n\<close> times under a tag and changed only the world besides, with rules for
    sequences and loops.
  \<^item> \<open>BasicExperiments\<close>, \<open>FakeKernelModel\<close>, \<open>ContextSwitch\<close>, \<open>FileSystemModel\<close>, \<open>MemoryModel\<close>, \<open>NetworkModel\<close>: the
    experiments, one definition for each constructor, \<open>Run\<close> and helper. \<open>FakeKernelModel\<close> has the locale of a
    finite table and its interpretation by \<open>std::map\<close>; \<open>ContextSwitch\<close> the locale of a pool of runners that
    share an event, a counter and a memory, with the threads as one and the child processes as another
    instance.
  \<^item> \<open>CommandLine\<close>: how the C runtime splits the command line of \<open>CreateProcess\<close> into the arguments of the child. The
    command lines that three experiments print are shown to give the child back what they were printed from.
  \<^item> \<open>ProfilerMain\<close> (\<open>main.cpp\<close>): \<open>wmain\<close>, the choice between the experiments and a child, and the list of
    experiments, which are made, run and printed one after the other.

  \<^bold>\<open>The allocator.\<close> A static arena of 65536 bytes holds a doubly linked list of chunks.
  \<^item> \<open>CMemory\<close>: the memory of a 32-bit little-endian machine as bytes, words over them, the locale of an array
    of independent cells and its interpretation by the words of the memory.
  \<^item> \<open>Tmalloc\<close> (\<open>tmalloc.c\<close>): macros and operations on the bytes of the arena. \<open>represents\<close> relates a heap to the
    list of the sizes and free bits of its chunks; \<open>tmalloc\<close> refines first-fit allocation on that list, \<open>tfree\<close>
    freeing with joining of neighbours, and neither changes a byte that belongs to a client.
  \<^item> \<open>TmallocClient\<close>: \<open>trealloc\<close>, \<open>tcalloc\<close>, and the states a well-behaved client can reach (\<open>session\<close>, an inductive
    relation over all calls, refused ones included, and writes) with the safety of each; the wrap-around of huge requests.
  \<^item> \<open>BufferTargets\<close> (\<open>target1.c\<close> to \<open>target5.c\<close>): for which arguments each target program is defined, the contract of
    \<open>obsd_strlcpy\<close>, and what the fourth target, a client that frees a pointer twice, does to the arena.
    \<open>BufferExploits\<close> (\<open>sploits/sploit1.c\<close> to \<open>sploit5.c\<close>): the arguments of the exploits, composed with the targets.

  \<^bold>\<open>The lecture shell.\<close> \<open>XvShell\<close> (\<open>sh.c\<close>) has the lexer, the recursive-descent parser over pointers into the buffer, the
  running of commands with pipes and redirections, and the loop over the input. \<open>XvShellProofs\<close> states the
  grammar on tokens and shows that the parser accepts exactly it, what a command line starts, and that
  lines are handled one after another.

  \<^bold>\<open>The Nachos programs.\<close> \<open>NachosLib\<close> has the string functions, \<open>atoi\<close>, the \<open>printf\<close> family and \<open>readline\<close>; \<open>NachosLibProofs\<close>
  what they print, read and store. \<open>NachosShell\<close> (\<open>sh.c\<close>) has the tokenizer with quoting, the built-in commands and
  the main loop, with the safety of the tokenizer and the effect of a command line. \<open>NachosProgs\<close> and \<open>NachosFiles\<close>
  have the small programs: sorting, matrix product and primes are shown to compute what they should,
  copying to end and to copy.

  \<^bold>\<open>The text adventure.\<close> A level file gives the rooms and their exits; commands are read line by line, some of the
  rooms have puzzles with code of their own, and time passes with every command.
  \<^item> \<open>AdventureWorld\<close> (\<open>util.c\<close>, \<open>globals.c\<close>, \<open>game.c\<close>, \<open>monsters.c\<close>): the record \<open>game\<close> of all globals, a result type with
    the reasons why a program may stop, experience and levels, the monsters.
  \<^item> \<open>AdventureNim\<close>, \<open>AdventurePuzzles\<close> (\<open>puzzles.c\<close>), \<open>AdventureCommands\<close> (\<open>commands.c\<close>), \<open>AdventureMain\<close> (\<open>level.c\<close>, \<open>main.c\<close>): one
    definition for each function and loop, up to the main program. \<open>AdventureNim\<close> defines by its
    moves who can force a win in Nim and shows that the hints of the game are exactly the winning moves. \<open>AdventureMain\<close> has the locale of a property of the world that every
    elementary step keeps, with the proof that then the whole program keeps it.
  \<^item> \<open>AdventureLevel\<close>: the format of level files and what loading makes of them, and the level of the repository.
  \<^item> \<open>AdventureProofs\<close>: instances of that locale. On the level of the repository most rooms cannot be reached, the
    cardkey is never complete, all pointers are valid and the assertions of the puzzles hold.
  \<^item> \<open>AdventurePlay\<close>: what \<open>go\<close>, a puzzle and a gain of experience do, and the inputs that are not handled.

  \<^bold>\<open>Conventions.\<close> Integers have their width (\<open>u32\<close>, \<open>u64\<close>, \<open>tick\<close>) wherever it matters; sizes and counters that
  provably stay small are natural numbers. \<^term>\<open>None\<close> is undefined behaviour, an uncaught exception, a failed
  assertion, or a loop that never ends; that an operation returns is always proved as such. Memory that the
  code reads before writing it is an argument (\<open>junk\<close>). Loops are structural recursion where the bound is
  known, \<open>function\<close> with a measure, or partial functions with a proof that they return. Fuel is used once: the
  search of the adventure's monster for a random pile gives up after \<open>draws\<close> drawings, and the theorems hold for every
  \<open>draws\<close>. What
  lies outside the sources is a parameter: Pin is a list of events, Windows, Winsock, the clock and the random
  numbers are the record \<open>api\<close> over an arbitrary world, and a scheduler is an arbitrary list of thread numbers.
  What a theorem needs of them is a named hypothesis, for instance that calls succeed or that every thread
  gets four turns, and its witness has a concrete world that meets it.
  \<^bold>\<open>Not modelled.\<close> The Pin kit is third-party code. \<open>FileSystemLocalReadA\<close> is a stale copy that does not
  compile. Destructors that only free memory are left out. The Java, C#, PHP and Perl parts of the
  repository are outside the scope of a development about its C++ and C programs. What the exploits of
  \<open>cse127/pp1/sploits\<close> do after the undefined store is outside the semantics of C. In the adventure, \<open>load_level\<close> puts
  the rooms on its own stack frame and returns a pointer to them; the model lets them live on, so the theorems
  say what the game does where that memory is not reused.
\<close>

section \<open>The cache simulator as a whole\<close>

text \<open>A trace of one load, and the start of a run of it.\<close>

definition demo_junk :: junk where
  "demo_junk = \<lparr>junkW = \<lambda>_ _. 1, junkN = \<lambda>_ _. 1, junkB = \<lambda>_ _. True, junkReq = zero_request, junkReady = 9\<rparr>"

definition demo_pf :: prefetcher where
  "demo_pf = new_prefetcher zero_request 0 (replicate 2048 0) (replicate 17 0) (replicate 128 clear_row)"



text \<open>
  C9: The same holds for the six other prefetchers: with each of them the simulator ends on every
  trace.
\<close>

theorem variants_terminate:
  assumes "length argv = 2" "files (argv ! 1) = Some file"
  shows "(\<exists>rep. sim_main no_ops j (new_simple r) files argv = Some (Written (argv ! 1 @ ''.out'') rep)) \<and>
    (\<exists>rep. sim_main sample_ops j (new_simple r) files argv = Some (Written (argv ! 1 @ ''.out'') rep)) \<and>
    (\<exists>rep. sim_main basic_ops j (new_basic r n) files argv = Some (Written (argv ! 1 @ ''.out'') rep)) \<and>
    (\<exists>rep. sim_main tagged_ops j (new_tagged r n t) files argv = Some (Written (argv ! 1 @ ''.out'') rep)) \<and>
    (\<exists>rep. sim_main rpt_ops j (new_rpt r n rows) files argv = Some (Written (argv ! 1 @ ''.out'') rep)) \<and>
    (\<exists>rep. sim_main amalgam_ops j (new_amalgam r n rows rnd) files argv = Some (Written (argv ! 1 @ ''.out'') rep))"
  using no_sim.main_written [where argv = argv and files = files, OF assms] sample_sim.main_written [where argv = argv and files = files, OF assms]
    basic_sim.main_written [where argv = argv and files = files, OF assms new_pf_ok(1)] tagged_sim.main_written [where argv = argv and files = files, OF assms new_pf_ok(2)]
    rpt_sim.main_written [where argv = argv and files = files, OF assms new_pf_ok(3)] amalgam_sim.main_written [where argv = argv and files = files, OF assms new_pf_ok(4)]
  by (simp add: sim_ops)

theorem variants_terminate_witness:
  "\<exists>rep. sim_main sample_ops demo_junk (new_simple zero_request) (\<lambda>_. Some '''') [''cacheSim'', ''t''] = Some (Written ''t.out'' rep)"
  using variants_terminate [of "[''cacheSim'', ''t'']" "\<lambda>_. Some ''''" "''''" demo_junk zero_request] by simp

text \<open>
  C8: How long it can take: on a trace of \<open>n\<close> characters the main loop is left after at most
  \<open>(26 (n + 1) + 14) 2\<^sup>3\<^sup>2\<close> turns, in the state that \<open>simulate\<close> returns.
\<close>

theorem cacheSim_turns:
  "\<exists>n s. n \<le> (26 * (length file + 1) + 14) * 2 ^ 32 \<and>
    turns n main_ops (new_sim j (new_prefetcher junk left t ch rows) file) = Some s \<and>
    simulate main_ops (new_sim j (new_prefetcher junk left t ch rows) file) = Some s \<and> isDone (core s)"
proof -
  let ?p = "new_prefetcher junk left t ch rows"
  let ?s = "new_sim j ?p file"
  have "multi_pending ?p = 0" by (simp add: new_prefetcher_def multi_pending_def split: prod.split)
  then have "work 3 multi_pending ?s \<le> 26 * (length file + 1) + 13" using new_sim_work [of multi_pending ?p 3 j "file"] by simp
  then have "work 3 multi_pending ?s * 2 ^ 32 \<le> (26 * (length file + 1) + 13) * 2 ^ 32" by (rule mult_le_mono1)
  moreover have "unat (- 1 - curr_cycle ?s) < 2 ^ 32" using unsigned_less [of "- 1 - curr_cycle ?s", where 'a = nat] by simp
  ultimately have "main_sim.rank ?s \<le> (26 * (length file + 1) + 14) * 2 ^ 32"
    by (simp add: main_sim.rank_def algebra_simps)
  moreover have "\<exists>n s'. n \<le> main_sim.rank ?s \<and> turns n main_ops ?s = Some s' \<and> simulate main_ops ?s = Some s' \<and> isDone (core s')"
    using main_sim.turns_bound [OF new_sim_ok(1) [of j ?p "file"]] new_sim_ok(2) [of j ?p "file"] new_pf_ok(5) by (simp add: sim_ops)
  ultimately show ?thesis by (meson le_trans)
qed

text \<open>
  C2: In every state that the main loop reaches, the CPU is waiting exactly when one load of it is
  in the L2 or memory queue, and that load is the request the CPU currently has: no response is
  lost, duplicated or taken for another request's. The L2 queue holds only loads, the write
  buffer only stores of the CPU.
\<close>

theorem cacheSim_invariant:
  assumes "sim_reach main_ops (new_sim j (new_prefetcher junk left t ch rows) file) s"
  shows "length (filter cpu_load (requests (queueL2 s) @ requests (queueMem s))) =
      (if cpu_state (core s) = WAITING then 1 else 0) \<and>
    (\<forall>x \<in> set (requests (queueL2 s) @ requests (queueMem s)). cpu_load x \<longrightarrow> same_access x (currReq (core s))) \<and>
    (\<forall>x \<in> set (requests (queueL2 s)). load x) \<and>
    (\<forall>x \<in> set (requests (writeBuffer s)). fromCPU x \<and> \<not> load x)"
proof -
  have "sim_ok s" using main_sim.reach_ok [unfolded sim_ops, OF assms new_sim_ok(1)] new_pf_ok(5) by (simp add: new_sim_ok(2))
  then show ?thesis by (auto simp: ok_defs mq.loads_def)
qed

theorem cacheSim_invariant_witness:
  "length (filter cpu_load (requests (queueL2 (new_sim demo_junk demo_pf ''l 0x40 0x80 7'')) @
      requests (queueMem (new_sim demo_junk demo_pf ''l 0x40 0x80 7'')))) =
    (if cpu_state (core (new_sim demo_junk demo_pf ''l 0x40 0x80 7'')) = WAITING then 1 else 0)"
  using cacheSim_invariant [OF sim_reach.start] unfolding demo_pf_def by blast

text \<open>
  C3: In every state that the main loop reaches, both caches satisfy the LRU invariant and the
  queues are well-formed rings within their capacities; unless the CPU is done, the next turn of the
  loop is free of undefined behaviour.
\<close>

theorem cacheSim_safe:
  assumes "sim_reach main_ops (new_sim j (new_prefetcher junk left t ch rows) file) s"
  shows "cache_ok (dcache s) \<and> cache_ok (l2cache s) \<and>
    queue_ok (writeBuffer s) \<and> queue_ok (queueL2 s) \<and> queue_ok (queueMem s) \<and>
    (\<not> isDone (core s) \<longrightarrow> (\<exists>s'. cycle main_ops s = Some s'))"
proof -
  note r = main_sim.reach_ok [unfolded sim_ops, OF assms new_sim_ok(1)]
  note d = main_sim.reach_defined [unfolded sim_ops, OF assms new_sim_ok(1)]
  have "sim_ok s" using r new_pf_ok(5) by (simp add: new_sim_ok(2))
  then show ?thesis using d new_pf_ok(5) by (simp add: new_sim_ok(2) ok_defs)
qed

theorem cacheSim_safe_witness:
  "cache_ok (dcache (new_sim demo_junk demo_pf ''s 0x40 0x80 0'')) \<and>
    queue_ok (queueMem (new_sim demo_junk demo_pf ''s 0x40 0x80 0''))"
  using cacheSim_safe [OF sim_reach.start] unfolding demo_pf_def by blast

text \<open>The demo state with the block of its first request in the D-cache.\<close>

definition demo_hit :: "prefetcher sim" where
  "demo_hit = (let s = new_sim demo_junk demo_pf ''s 0x40 0x80 0'' in
     s\<lparr>dcache := accessed (dcache s) (addr (currReq (core s))) True\<rparr>)"

lemma demo_hit_ok:
  "cache_ok (dcache demo_hit)"
  "check (dcache demo_hit) (addr (currReq (core demo_hit))) (load (currReq (core demo_hit))) = Some True"
proof -
  let ?s = "new_sim demo_junk demo_pf ''s 0x40 0x80 0''"
  have "cache_ok (dcache ?s)" using new_sim_ok(1) [of demo_junk demo_pf] by (simp add: sim_ok_def hw_ok_def)
  then show ok: "cache_ok (dcache demo_hit)"
    and "check (dcache demo_hit) (addr (currReq (core demo_hit))) (load (currReq (core demo_hit))) = Some True"
    by (simp_all add: demo_hit_def Let_def accessed_ok(1) check_wf in_cache_accessed_self)
qed

text \<open>
  A hit in the D-cache takes one cycle and stays there: the request is completed in the cycle it
  is issued, the access time grows by 1 and the number of L1 hits by 1, and no queue changes. This
  holds for stores too, so a store that hits never reaches the L2 cache.
\<close>

lemma l1_hit_one_cycle:
  assumes "cache_ok (dcache s)" "check (dcache s) (addr (currReq (core s))) (load (currReq (core s))) = Some True"
  shows "\<exists>s'. cpu_ready ops s = Some s' \<and> cpu_state (core s') = IDLE \<and>
    totalAccessTime (core s') = totalAccessTime (core s) + 1 \<and> hitsL1 (core s') = hitsL1 (core s) + 1 \<and>
    hitsL2 (core s') = hitsL2 (core s) \<and> queueL2 s' = queueL2 s \<and> queueMem s' = queueMem s \<and>
    writeBuffer s' = writeBuffer s \<and> l2cache s' = l2cache s \<and> nRequestsL2 s' = nRequestsL2 s"
proof -
  have hit: "in_cache (dcache s) (addr (currReq (core s)))" using assms(2) by (simp add: check_wf [OF assms(1)])
  have read: "totalAccessTime (readNextRequest p c) = totalAccessTime p" "hitsL1 (readNextRequest p c) = hitsL1 p"
    "hitsL2 (readNextRequest p c) = hitsL2 p" for p c
    by (simp_all add: readNextRequest_def split: prod.split option.split)
  show ?thesis using hit
    by (simp add: cpu_ready_eq [OF assms(1)] Let_def) (simp add: issued_def completeRequest_def Let_def read)
qed

lemma l1_hit_one_cycle_witness:
  "\<exists>s'. cpu_ready main_ops demo_hit = Some s' \<and> totalAccessTime (core s') = totalAccessTime (core demo_hit) + 1 \<and>
    writeBuffer s' = writeBuffer demo_hit"
  using l1_hit_one_cycle [OF demo_hit_ok, of main_ops] by blast

end
